(* ===== verification/Prelude.thy ===== *)
theory Prelude
  imports Main "HOL-Library.Word" "HOL-Library.AList" "HOL-Library.Char_ord"
    "HOL-Library.List_Lexorder" "HOL-Library.Sublist"
begin

text \<open>
  Shared vocabulary of the development.  A \<open>std::string\<close> is a \<open>string\<close> (a list of
  8-bit \<open>char\<close>), a \<open>std::vector<uint8_t>\<close> is a list of \<open>8 word\<close>, \<open>size_t\<close> and
  \<open>uint64_t\<close> are natural numbers with the wrap-around modulo \<open>2 ^ 64\<close> written out
  where the code adds, subtracts or multiplies, \<open>std::unordered_map\<close> is an association
  list read with \<open>map_of\<close> and written with \<open>AList.update\<close> and \<open>AList.delete\<close>,
  an exception is the left injection of a sum.  The host is little-endian with 64-bit
  \<open>size_t\<close> (x86-64, arm64), which is what \<open>htons\<close> and \<open>htonl\<close> are modelled for.
\<close>

unbundle bit_operations_syntax

named_theorems byte_simps \<open>conversions between characters, bytes and numbers\<close>
named_theorems u64_simps \<open>64-bit arithmetic that does not wrap\<close>

type_synonym byte = "8 word"
type_synonym 'a res = "string + 'a"

section \<open>Exceptions\<close>

text \<open>
  \<open>ebind\<close> passes a value on and lets an exception escape; \<open>obind\<close> does the same for a
  call that may also not return (\<open>None\<close>).
\<close>

definition ebind :: "'e + 'a \<Rightarrow> ('a \<Rightarrow> 'e + 'b) \<Rightarrow> 'e + 'b" where
  "ebind m f = (case m of Inl e \<Rightarrow> Inl e | Inr x \<Rightarrow> f x)"

definition obind :: "('e + 'a) option \<Rightarrow> ('a \<Rightarrow> ('e + 'b) option) \<Rightarrow> ('e + 'b) option" where
  "obind m f = (case m of None \<Rightarrow> None | Some (Inl e) \<Rightarrow> Some (Inl e) | Some (Inr x) \<Rightarrow> f x)"

lemma ebind_simps [simp]: "ebind (Inl e) f = Inl e" "ebind (Inr x) f = f x"
  by (simp_all add: ebind_def)

lemma obind_simps [simp]:
  "obind None f = None" "obind (Some (Inl e)) f = Some (Inl e)" "obind (Some (Inr x)) f = f x"
  by (simp_all add: obind_def)

lemma ebind_Inr_iff: "ebind m f = Inr y \<longleftrightarrow> (\<exists>x. m = Inr x \<and> f x = Inr y)"
  by (cases m) auto

lemma obind_Inr_iff: "obind m f = Some (Inr y) \<longleftrightarrow> (\<exists>x. m = Some (Inr x) \<and> f x = Some (Inr y))"
  by (auto simp: obind_def split: option.splits sum.splits)

lemma obind_Some_iff:
  "obind m f = Some r \<longleftrightarrow>
     (\<exists>e. m = Some (Inl e) \<and> r = Inl e) \<or> (\<exists>x. m = Some (Inr x) \<and> f x = Some r)"
  by (auto simp: obind_def split: option.splits sum.splits)

lemma obind_cong:
  "m = m' \<Longrightarrow> (\<And>x. m' = Some (Inr x) \<Longrightarrow> f x = g x) \<Longrightarrow> obind m f = obind m' g"
  by (auto simp: obind_def split: option.splits sum.splits)

lemma obind_mono:
  "obind m f = Some r \<Longrightarrow> (\<And>x. m = Some x \<Longrightarrow> m' = Some x) \<Longrightarrow>
   (\<And>x r. f x = Some r \<Longrightarrow> g x = Some r) \<Longrightarrow> obind m' g = Some r"
  by (fastforce simp: obind_Some_iff)

section \<open>Characters and bytes\<close>

definition byte_of_char :: "char \<Rightarrow> byte" where
  "byte_of_char c = word_of_nat (of_char c)"

definition char_of_byte :: "byte \<Rightarrow> char" where
  "char_of_byte b = char_of (unat b)"

abbreviation bytes_of_string :: "string \<Rightarrow> byte list" where
  "bytes_of_string s \<equiv> map byte_of_char s"

abbreviation string_of_bytes :: "byte list \<Rightarrow> string" where
  "string_of_bytes bs \<equiv> map char_of_byte bs"

lemma char_of_byte_of_char [simp, byte_simps]: "char_of_byte (byte_of_char c) = c"
proof -
  have "of_char c mod 256 = (of_char c :: nat)" by simp
  then show ?thesis by (simp add: char_of_byte_def byte_of_char_def unat_of_nat)
qed

lemma byte_of_char_of_byte [simp, byte_simps]: "byte_of_char (char_of_byte b) = b"
proof -
  have "unat b < 256" using unsigned_less [of b] by simp
  then have "of_char (char_of (unat b) :: char) = (unat b :: nat)"
    by (simp add: of_char_of)
  then show ?thesis by (simp add: char_of_byte_def byte_of_char_def)
qed

lemma bytes_string_inverse [simp, byte_simps]:
  "bytes_of_string (string_of_bytes bs) = bs" "string_of_bytes (bytes_of_string s) = s"
  by (induction bs) (simp_all add: map_idI)

lemma byte_of_char_inj [simp]: "byte_of_char a = byte_of_char b \<longleftrightarrow> a = b"
  by (metis char_of_byte_of_char)

lemma char_of_byte_inj [simp]: "char_of_byte a = char_of_byte b \<longleftrightarrow> a = b"
  by (metis byte_of_char_of_byte)

lemma inj_char_of_byte [simp]: "inj char_of_byte"
  by (rule injI) simp

lemma unat_eq_iff_byte: "unat (a :: byte) = unat b \<longleftrightarrow> a = b"
  by (simp add: word_unat_eq_iff)

lemma unat_byte_less [simp]: "unat (b :: byte) < 256"
  using unsigned_less [of b] by simp

section \<open>64-bit arithmetic on naturals\<close>

definition u64_of_int :: "int \<Rightarrow> nat" where
  "u64_of_int i = nat (i mod 2 ^ 64)"

definition u64_add :: "nat \<Rightarrow> nat \<Rightarrow> nat" where
  "u64_add a b = (a + b) mod 2 ^ 64"

definition u64_sub :: "nat \<Rightarrow> nat \<Rightarrow> nat" where
  "u64_sub a b = (a + (2 ^ 64 - b mod 2 ^ 64)) mod 2 ^ 64"

definition u64_mul :: "nat \<Rightarrow> nat \<Rightarrow> nat" where
  "u64_mul a b = (a * b) mod 2 ^ 64"

lemma u64_add_id [u64_simps]: "a + b < 2 ^ 64 \<Longrightarrow> u64_add a b = a + b"
  by (simp add: u64_add_def)

lemma u64_mul_id [u64_simps]: "a * b < 2 ^ 64 \<Longrightarrow> u64_mul a b = a * b"
  by (simp add: u64_mul_def)

lemma u64_sub_id [u64_simps]: "b \<le> a \<Longrightarrow> a < 2 ^ 64 \<Longrightarrow> u64_sub a b = a - b"
  by (simp add: u64_sub_def mod_if)

lemma u64_of_int_id [u64_simps]: "0 \<le> i \<Longrightarrow> i < 2 ^ 64 \<Longrightarrow> u64_of_int i = nat i"
  by (simp add: u64_of_int_def)

lemma u64_bounds [simp]:
  "u64_add a b < 2 ^ 64" "u64_sub a b < 2 ^ 64" "u64_mul a b < 2 ^ 64" "u64_of_int i < 2 ^ 64"
  by (simp_all add: u64_add_def u64_sub_def u64_mul_def u64_of_int_def nat_less_iff)

definition size_max :: nat where
  "size_max = 2 ^ 64 - 1"

section \<open>Big-endian byte strings\<close>

fun be_bytes :: "nat \<Rightarrow> nat \<Rightarrow> byte list" where
  "be_bytes 0 n = []"
| "be_bytes (Suc k) n = be_bytes k (n div 256) @ [word_of_nat n]"

definition be_val :: "byte list \<Rightarrow> nat" where
  "be_val bs = foldl (\<lambda>a b. a * 256 + unat b) 0 bs"

lemma length_be_bytes [simp]: "length (be_bytes k n) = k"
  by (induction k n rule: be_bytes.induct) auto

lemma be_val_Nil [simp]: "be_val [] = 0"
  by (simp add: be_val_def)

lemma be_val_snoc [simp]: "be_val (bs @ [b]) = be_val bs * 256 + unat b"
  by (simp add: be_val_def)

lemma be_val_bytes [simp]: "be_val (be_bytes k n) = n mod 256 ^ k"
proof (induction k n rule: be_bytes.induct)
  case (2 k n)
  have "unat (word_of_nat n :: byte) = n mod 256" by (simp add: unat_of_nat)
  then show ?case using 2
    by (simp add: mod_mult2_eq [of n 256 "256 ^ k"] ac_simps)
qed simp

lemma be_val_less: "be_val bs < 256 ^ length bs"
proof (induction bs rule: rev_induct)
  case (snoc b bs)
  have "be_val bs * 256 + unat b < (be_val bs + 1) * 256" by simp
  also have "\<dots> \<le> 256 ^ length bs * 256" using snoc by (intro mult_right_mono) auto
  finally show ?case by (simp add: ac_simps)
qed simp

lemma be_bytes_val [simp]: "length bs = k \<Longrightarrow> be_bytes k (be_val bs) = bs"
proof (induction bs arbitrary: k rule: rev_induct)
  case (snoc b bs)
  have "unat (word_of_nat (be_val bs * 256 + unat b) :: byte) = unat b"
    by (simp only: unat_of_nat) simp
  then have "word_of_nat (be_val bs * 256 + unat b) = b" by (simp only: unat_eq_iff_byte)
  with snoc show ?case by (cases k) (auto simp del: of_nat_add of_nat_mult)
qed simp

lemma be_bytes_mod: "be_bytes k (n mod 256 ^ k) = be_bytes k n"
  by (metis be_bytes_val be_val_bytes length_be_bytes)

lemma be_val_Cons: "be_val (b # bs) = unat b * 256 ^ length bs + be_val bs"
proof (induction bs rule: rev_induct)
  case (snoc c cs)
  have "be_val (b # cs @ [c]) = be_val (b # cs) * 256 + unat c" using be_val_snoc [of "b # cs" c] by simp
  with snoc show ?case by (simp add: algebra_simps)
qed (simp add: be_val_def)

lemma xor_le_add: "a XOR b \<le> a + (b :: nat)"
proof (induction a arbitrary: b rule: less_induct)
  case (less a)
  show ?case
  proof (cases "a = 0")
    case False
    then have "a div 2 XOR b div 2 \<le> a div 2 + b div 2" using less by simp
    moreover have "a XOR b = of_bool (odd a \<noteq> odd b) + 2 * (a div 2 XOR b div 2)" by (rule xor_nat_rec)
    moreover have "of_bool (odd a \<noteq> odd b) + 2 * (a div 2) + 2 * (b div 2) \<le> a + b"
      by (auto elim!: oddE evenE)
    ultimately show ?thesis by linarith
  qed simp
qed

lemma mult256_or: "i < 256 \<Longrightarrow> m * 256 + i = push_bit 8 m OR take_bit 8 (i :: nat)"
proof -
  assume "i < 256"
  then have "take_bit 8 i = i" by (simp add: take_bit_nat_eq_self_iff)
  moreover have "push_bit 8 m AND take_bit 8 i = 0" by (rule bit_eqI) (auto simp: bit_simps)
  then have "push_bit 8 m + take_bit 8 i = push_bit 8 m OR take_bit 8 i" by (rule disjunctive_add_eq_or)
  ultimately show ?thesis by (simp add: push_bit_eq_mult)
qed

lemma mult256_xor:
  "i < 256 \<Longrightarrow> j < 256 \<Longrightarrow> (m * 256 + i) XOR (n * 256 + j) = (m XOR n) * 256 + (i XOR (j :: nat))"
proof -
  assume a: "i < 256" "j < 256"
  then have "i < 2 ^ 8" "j < 2 ^ 8" by simp_all
  then have "take_bit 8 i = i" "take_bit 8 j = j" by (simp_all only: take_bit_nat_eq_self_iff)
  then have "take_bit 8 (i XOR j) = i XOR j" by simp
  then have "i XOR j < 2 ^ 8" by (simp only: take_bit_nat_eq_self_iff)
  then have "i XOR j < 256" by simp
  then have r: "(m XOR n) * 256 + (i XOR j) = push_bit 8 (m XOR n) OR take_bit 8 (i XOR j)" by (rule mult256_or)
  show ?thesis unfolding r mult256_or [OF a(1)] mult256_or [OF a(2)]
    by (rule bit_eqI) (auto simp: bit_simps)
qed

lemma be_val_xor:
  "length xs = length ys \<Longrightarrow> be_val (map2 (XOR) xs ys) = be_val xs XOR be_val ys"
proof (induction xs ys rule: rev_induct2)
  case (4 x xs y ys)
  have "unat (x XOR y) = unat x XOR unat y" by (rule bit_eqI) (simp add: bit_simps)
  with 4 show ?case by (simp add: mult256_xor)
qed simp_all

lemma be_val_less_iff:
  "length xs = length ys \<Longrightarrow> be_val xs < be_val ys \<longleftrightarrow> xs < ys"
proof (induction xs ys rule: list_induct2)
  case (Cons x xs y ys)
  have b: "be_val xs < 256 ^ length ys" "be_val ys < 256 ^ length ys"
    using be_val_less [of xs] be_val_less [of ys] Cons by simp_all
  consider "x < y" | "x = y" | "y < x" by fastforce
  then show ?case
  proof cases
    case 1
    then have "(unat x + 1) * 256 ^ length ys \<le> unat y * 256 ^ length ys"
      by (intro mult_right_mono) (auto simp: word_less_nat_alt)
    then have "be_val (x # xs) < be_val (y # ys)" using b Cons by (simp add: be_val_Cons)
    with 1 show ?thesis by simp
  next
    case 2
    with Cons show ?thesis by (simp add: be_val_Cons)
  next
    case 3
    then have "(unat y + 1) * 256 ^ length ys \<le> unat x * 256 ^ length ys"
      by (intro mult_right_mono) (auto simp: word_less_nat_alt)
    then have "be_val (y # ys) < be_val (x # xs)" using b Cons by (simp add: be_val_Cons)
    with 3 show ?thesis by auto
  qed
qed simp

lemma be_val_inject: "length xs = length ys \<Longrightarrow> be_val xs = be_val ys \<longleftrightarrow> xs = ys"
  by (metis be_bytes_val)

section \<open>Network byte order\<close>

text \<open>
  Reading four bytes with shifts, and the shifted bytes of a word, as the code writes them;
  \<open>htons\<close> on a little-endian host swaps the two bytes of its argument.
\<close>

definition load32 :: "byte \<Rightarrow> byte \<Rightarrow> byte \<Rightarrow> byte \<Rightarrow> 32 word" where
  "load32 b0 b1 b2 b3 =
     push_bit 24 (ucast b0) OR push_bit 16 (ucast b1) OR push_bit 8 (ucast b2) OR ucast b3"

definition store32 :: "32 word \<Rightarrow> byte list" where
  "store32 x = [ucast (drop_bit 24 x), ucast (drop_bit 16 x), ucast (drop_bit 8 x), ucast x]"

definition load16 :: "byte \<Rightarrow> byte \<Rightarrow> 16 word" where
  "load16 b0 b1 = push_bit 8 (ucast b0) OR ucast b1"

definition store16 :: "16 word \<Rightarrow> byte list" where
  "store16 x = [ucast (drop_bit 8 x), ucast x]"

definition htons :: "16 word \<Rightarrow> 16 word" where
  "htons x = push_bit 8 x OR drop_bit 8 x"

lemma load32_be: "load32 b0 b1 b2 b3 = word_of_nat (be_val [b0, b1, b2, b3])"
proof -
  let ?a = "push_bit 24 (ucast b0) :: 32 word" and ?b = "push_bit 16 (ucast b1) :: 32 word"
    and ?c = "push_bit 8 (ucast b2) :: 32 word" and ?d = "ucast b3 :: 32 word"
  have "?c AND ?d = 0" "?b AND (?c OR ?d) = 0" "?a AND (?b OR (?c OR ?d)) = 0"
    by (rule bit_word_eqI; auto simp: bit_simps dest!: bit_imp_le_length)+
  then have "load32 b0 b1 b2 b3 = ?a + (?b + (?c + ?d))"
    by (simp add: load32_def disjunctive_add_eq_or or.assoc)
  also have "\<dots> = word_of_nat (be_val [b0, b1, b2, b3])"
    by (simp add: be_val_def push_bit_eq_mult algebra_simps)
  finally show ?thesis .
qed

lemma ucast_drop_bit: "(ucast (drop_bit n (x :: 'a::len word)) :: byte) = word_of_nat (unat x div 2 ^ n)"
proof -
  have "unat (drop_bit n x) = unat x div 2 ^ n" 
    by (simp add: unat_drop_bit_eq drop_bit_eq_div [of n "unat x"])
  then show ?thesis by (metis of_nat_unat)
qed

lemma be_bytes4:
  "be_bytes 4 n = [word_of_nat (n div 16777216), word_of_nat (n div 65536), word_of_nat (n div 256), word_of_nat n]"
proof -
  have four: "4 = Suc (Suc (Suc (Suc 0)))" by simp
  show ?thesis by (simp only: four be_bytes.simps) (simp add: div_mult2_eq [symmetric])
qed

lemma store32_be: "store32 x = be_bytes 4 (unat x)"
proof -
  have "(ucast x :: byte) = word_of_nat (unat x)" by simp
  then show ?thesis
    using ucast_drop_bit [of 8 x] ucast_drop_bit [of 16 x] ucast_drop_bit [of 24 x]
    by (simp add: store32_def be_bytes4)
qed

lemma load16_store16 [simp]: "load16 (ucast (drop_bit 8 x)) (ucast x) = x"
  by (rule bit_word_eqI) (auto simp: load16_def bit_simps)

lemma store16_load16 [simp]: "store16 (load16 a b) = [a, b]"
proof -
  have "(ucast (drop_bit 8 (load16 a b)) :: byte) = a"
    by (rule bit_word_eqI) (auto simp: load16_def bit_simps dest: bit_imp_le_length)
  moreover have "(ucast (load16 a b) :: byte) = b"
    by (rule bit_word_eqI) (auto simp: load16_def bit_simps dest: bit_imp_le_length)
  ultimately show ?thesis by (simp add: store16_def)
qed

lemma htons_htons [simp]: "htons (htons x) = x"
  by (rule bit_word_eqI) (auto simp: htons_def bit_simps)

lemma length_store [simp]: "length (store32 x) = 4" "length (store16 y) = 2"
  by (simp_all add: store32_def store16_def)

lemma load32_store32 [simp]:
  "store32 x = [b0, b1, b2, b3] \<Longrightarrow> load32 b0 b1 b2 b3 = x"
proof -
  assume st: "store32 x = [b0, b1, b2, b3]"
  have "unat x < 2 ^ LENGTH(32)" by (rule unsigned_less)
  then have "unat x mod 256 ^ 4 = unat x" by simp
  with st have "load32 b0 b1 b2 b3 = word_of_nat (unat x)"
    by (metis load32_be store32_be be_val_bytes)
  then show ?thesis by simp
qed

lemma list4: "length xs = 4 \<Longrightarrow> xs = [xs ! 0, xs ! 1, xs ! 2, xs ! 3]"
  by (auto simp: length_Suc_conv numeral_eq_Suc)

section \<open>Searching, slicing\<close>

definition find_char :: "char \<Rightarrow> string \<Rightarrow> nat \<Rightarrow> nat option" where
  "find_char c d p =
     (let n = length (takeWhile (\<lambda>x. x \<noteq> c) (drop p d))
      in if p + n < length d then Some (p + n) else None)"

definition substr :: "string \<Rightarrow> nat \<Rightarrow> nat \<Rightarrow> string" where
  "substr d p n = take n (drop p d)"

lemma find_char_bounds: "find_char c d p = Some q \<Longrightarrow> p \<le> q \<and> q < length d \<and> d ! q = c"
proof -
  assume a: "find_char c d p = Some q"
  let ?n = "length (takeWhile (\<lambda>x. x \<noteq> c) (drop p d))"
  from a have q: "q = p + ?n" "p + ?n < length d"
    by (auto simp: find_char_def Let_def split: if_splits)
  then have "?n < length (drop p d)" by simp
  then have "drop p d ! ?n = c" using nth_length_takeWhile by blast
  with q show ?thesis by simp
qed

lemma find_char_append:
  assumes "c \<notin> set xs"
  shows "find_char c (pre @ xs @ c # suf) (length pre) = Some (length pre + length xs)"
proof -
  have "takeWhile (\<lambda>x. x \<noteq> c) (xs @ c # suf) = xs" using assms by (induction xs) auto
  then show ?thesis by (simp add: find_char_def Let_def)
qed

fun chunks :: "nat \<Rightarrow> 'a list \<Rightarrow> 'a list list" where
  "chunks w xs = (if w = 0 \<or> length xs < w then [] else take w xs # chunks w (drop w xs))"

declare chunks.simps [simp del]

lemma chunks_short [simp]: "length xs < w \<Longrightarrow> chunks w xs = []"
  by (simp add: chunks.simps)

lemma chunks_append: "length xs = w \<Longrightarrow> 0 < w \<Longrightarrow> chunks w (xs @ ys) = xs # chunks w ys"
  by (subst chunks.simps) simp

lemma length_chunks: "0 < w \<Longrightarrow> length (chunks w xs) = length xs div w"
proof (induction w xs rule: chunks.induct)
  case (1 w xs)
  then show ?case by (subst chunks.simps) (auto simp: le_div_geq)
qed

lemma chunks_elem_length: "c \<in> set (chunks w xs) \<Longrightarrow> length c = w"
proof (induction w xs rule: chunks.induct)
  case (1 w xs)
  then show ?case by (subst (asm) (2) chunks.simps) (auto split: if_splits)
qed

lemma concat_chunks: "0 < w \<Longrightarrow> w dvd length xs \<Longrightarrow> concat (chunks w xs) = xs"
proof (induction w xs rule: chunks.induct)
  case (1 w xs)
  show ?case
  proof (cases "length xs < w")
    case True
    with 1(3) have "xs = []" by (auto dest: dvd_imp_le)
    with True show ?thesis by simp
  next
    case False
    with 1 have "w dvd length (drop w xs)" by (auto simp: dvd_diff_nat)
    with False 1 show ?thesis by (subst chunks.simps) auto
  qed
qed

lemma nth_chunks: "0 < w \<Longrightarrow> i < length xs div w \<Longrightarrow> chunks w xs ! i = take w (drop (i * w) xs)"
proof (induction w xs arbitrary: i rule: chunks.induct)
  case (1 w xs)
  then have "w \<le> length xs" by (metis div_less not_le not_less0)
  with 1 show ?case
    by (subst chunks.simps) (cases i; simp add: le_div_geq ac_simps)
qed

lemma chunks_append_dvd: "0 < w \<Longrightarrow> w dvd length xs \<Longrightarrow> chunks w (xs @ ys) = chunks w xs @ chunks w ys"
proof (induction w xs rule: chunks.induct)
  case (1 w xs)
  show ?case
  proof (cases "length xs < w")
    case True
    with 1(3) have "xs = []" by (auto dest: dvd_imp_le)
    then show ?thesis using 1(2) by simp
  next
    case False
    with 1 have "w dvd length (drop w xs)" by (auto simp: dvd_diff_nat)
    with False 1 show ?thesis by (subst (1 2) chunks.simps) simp
  qed
qed

section \<open>Overwriting part of a buffer\<close>

definition put_bytes :: "byte list \<Rightarrow> nat \<Rightarrow> byte list \<Rightarrow> byte list" where
  "put_bytes buf i bs = take i buf @ bs @ drop (i + length bs) buf"

lemma length_put_bytes [simp]: "i + length bs \<le> length buf \<Longrightarrow> length (put_bytes buf i bs) = length buf"
  by (simp add: put_bytes_def)

lemma take_put_bytes: "i \<le> length buf \<Longrightarrow> take (i + length bs) (put_bytes buf i bs) = take i buf @ bs"
  by (simp add: put_bytes_def)

lemma put_bytes_full: "i + length bs = length buf \<Longrightarrow> put_bytes buf i bs = take i buf @ bs"
  by (simp add: put_bytes_def)

lemma put_bytes_Nil [simp]: "put_bytes c i [] = c"
  by (simp add: put_bytes_def)

lemma put_bytes_put_bytes:
  "i + length a + length b \<le> length c \<Longrightarrow>
     put_bytes (put_bytes c i a) (i + length a) b = put_bytes c i (a @ b)"
  by (simp add: put_bytes_def ac_simps)

lemma slice_put_bytes_same: "i + length a \<le> length c \<Longrightarrow> take (length a) (drop i (put_bytes c i a)) = a"
  by (simp add: put_bytes_def)

lemma slice_put_bytes_other:
  "i + length a \<le> length c \<Longrightarrow> j + n \<le> i \<or> i + length a \<le> j \<Longrightarrow>
     take n (drop j (put_bytes c i a)) = take n (drop j c)"
  by (auto simp: put_bytes_def drop_take min_def)

lemma slice_append: "take n (drop i c) @ take m (drop (i + n) c) = take (n + m) (drop i c)"
  by (metis add.commute drop_drop take_add)

lemma concat_update_slice:
  assumes "k < length cs" "off + length bs \<le> length (cs ! k)"
  shows "concat (cs[k := put_bytes (cs ! k) off bs]) =
    put_bytes (concat cs) (length (concat (take k cs)) + off) bs"
proof -
  have cs: "cs = take k cs @ cs ! k # drop (Suc k) cs" using assms(1) by (rule id_take_nth_drop)
  have "concat cs = concat (take k cs) @ cs ! k @ concat (drop (Suc k) cs)"
    by (subst cs) (simp only: concat_append concat.simps)
  moreover have "concat (cs[k := x]) = concat (take k cs) @ x @ concat (drop (Suc k) cs)" for x
    using assms(1) by (simp add: upd_conv_take_nth_drop)
  ultimately show ?thesis using assms(2) by (simp add: put_bytes_def)
qed

lemma concat_slice:
  assumes "k < length cs" "off + n \<le> length (cs ! k)"
  shows "take n (drop (length (concat (take k cs)) + off) (concat cs)) = take n (drop off (cs ! k))"
proof -
  have cs: "cs = take k cs @ cs ! k # drop (Suc k) cs" using assms(1) by (rule id_take_nth_drop)
  have "concat cs = concat (take k cs) @ cs ! k @ concat (drop (Suc k) cs)"
    by (subst cs) (simp only: concat_append concat.simps)
  then show ?thesis using assms(2) by simp
qed

section \<open>Decimal and hexadecimal text\<close>

definition c_isdigit :: "char \<Rightarrow> bool" where
  "c_isdigit c \<longleftrightarrow> 48 \<le> (of_char c :: nat) \<and> (of_char c :: nat) \<le> 57"

definition c_isspace :: "char \<Rightarrow> bool" where
  "c_isspace c \<longleftrightarrow> (of_char c :: nat) = 32 \<or> 9 \<le> (of_char c :: nat) \<and> (of_char c :: nat) \<le> 13"

definition digit_char :: "nat \<Rightarrow> char" where
  "digit_char n = char_of (48 + n)"

definition digit_val :: "char \<Rightarrow> nat" where
  "digit_val c = of_char c - 48"

fun show_nat :: "nat \<Rightarrow> string" where
  "show_nat n = (if n < 10 then [digit_char n] else show_nat (n div 10) @ [digit_char (n mod 10)])"

declare show_nat.simps [simp del]

definition show_int :: "int \<Rightarrow> string" where
  "show_int i = (if i < 0 then CHR ''-'' # show_nat (nat (- i)) else show_nat (nat i))"

definition dec_val :: "string \<Rightarrow> nat" where
  "dec_val s = foldl (\<lambda>a c. a * 10 + digit_val c) 0 s"

lemma digit_char_facts [simp]:
  "n < 10 \<Longrightarrow> c_isdigit (digit_char n)" "n < 10 \<Longrightarrow> digit_val (digit_char n) = n"
  by (simp_all add: c_isdigit_def digit_char_def digit_val_def)

lemma show_nat_digits: "\<forall>c \<in> set (show_nat n). c_isdigit c"
proof (induction n rule: show_nat.induct)
  case (1 n)
  then show ?case by (subst show_nat.simps) auto
qed

lemma show_nat_nonempty [simp]: "show_nat n \<noteq> []"
  by (subst show_nat.simps) simp

lemma dec_val_show_nat [simp]: "dec_val (show_nat n) = n"
proof (induction n rule: show_nat.induct)
  case (1 n)
  then show ?case by (subst show_nat.simps) (simp add: dec_val_def)
qed

lemma hd_show_nat: "0 < n \<Longrightarrow> hd (show_nat n) \<noteq> CHR ''0''"
proof (induction n rule: show_nat.induct)
  case (1 n)
  show ?case
  proof (cases "n < 10")
    case True
    then have "of_char (digit_char n) = (48 + n :: nat)" by (simp add: digit_char_def)
    with 1(2) have "digit_char n \<noteq> CHR ''0''" by auto
    with True show ?thesis by (subst show_nat.simps) simp
  next
    case False
    with 1 show ?thesis by (subst show_nat.simps) simp
  qed
qed

lemma show_nat_0 [simp]: "show_nat 0 = ''0''"
  by (rule of_char_eqI [where ?'a = nat] | simp add: show_nat.simps digit_char_def)+

lemma digit_not_special:
  "c_isdigit c \<Longrightarrow> c \<notin> set ''-+:ield \"[]{}.,''"
  by (auto simp: c_isdigit_def)

section \<open>Hexadecimal digits\<close>

definition hex_digit_val :: "char \<Rightarrow> nat option" where
  "hex_digit_val c =
     (let n = (of_char c :: nat) in
      if 48 \<le> n \<and> n \<le> 57 then Some (n - 48)
      else if 97 \<le> n \<and> n \<le> 102 then Some (n - 87)
      else if 65 \<le> n \<and> n \<le> 70 then Some (n - 55)
      else None)"

definition hex_digit :: "nat \<Rightarrow> char" where
  "hex_digit n = (if n < 10 then char_of (48 + n) else char_of (87 + n))"

lemma hex_digit_facts:
  assumes "n < 16"
  shows "hex_digit_val (hex_digit n) = Some n" "\<not> c_isspace (hex_digit n)"
    "hex_digit n \<noteq> CHR ''-''" "hex_digit n \<noteq> CHR ''+''"
proof -
  have c: "(of_char (hex_digit n) :: nat) = (if n < 10 then 48 + n else 87 + n)"
    using assms by (simp add: hex_digit_def)
  then show "hex_digit_val (hex_digit n) = Some n" "\<not> c_isspace (hex_digit n)"
    using assms by (simp_all add: hex_digit_val_def c_isspace_def)
  show "hex_digit n \<noteq> CHR ''-''" "hex_digit n \<noteq> CHR ''+''"
    using c by (auto split: if_splits)
qed

end
