(* ===== verification/Interfaces.thy ===== *)
theory Interfaces
  imports Prelude
begin

text \<open>
  The contracts the components rely on, as locales: encoders with a partial decoder
  (\<open>codec\<close>), self-delimiting encoders for byte streams (\<open>stream_codec\<close>), encoders of a
  fixed width whose concatenation is cut into chunks (\<open>fixed_codec\<close>), incremental
  digests (\<open>digest\<close>) and keyed stores (\<open>kv_store\<close>).  Each is interpreted on the code's
  own model in the theory of the component that provides it.
\<close>

section \<open>Encoders and decoders\<close>

locale codec =
  fixes enc :: "'a \<Rightarrow> 'b" and dec :: "'b \<Rightarrow> 'a option" and ok :: "'a \<Rightarrow> bool"
  assumes dec_enc: "ok x \<Longrightarrow> dec (enc x) = Some x"
begin

lemma enc_inj: "ok x \<Longrightarrow> ok y \<Longrightarrow> enc x = enc y \<Longrightarrow> x = y"
  using dec_enc by (metis option.inject)

lemma enc_inj_on: "inj_on enc {x. ok x}"
  using enc_inj by (auto intro: inj_onI)

end

fun read_n :: "('c list \<Rightarrow> ('a \<times> 'c list) option) \<Rightarrow> nat \<Rightarrow> 'c list \<Rightarrow> ('a list \<times> 'c list) option" where
  "read_n dec 0 bs = Some ([], bs)"
| "read_n dec (Suc n) bs =
     (case dec bs of None \<Rightarrow> None
      | Some (x, r) \<Rightarrow> map_option (\<lambda>(xs, t). (x # xs, t)) (read_n dec n r))"

locale stream_codec =
  fixes enc :: "'a \<Rightarrow> 'c list" and dec :: "'c list \<Rightarrow> ('a \<times> 'c list) option"
    and ok :: "'a \<Rightarrow> bool"
  assumes dec_enc_append: "ok x \<Longrightarrow> dec (enc x @ r) = Some (x, r)"
begin

lemma prefix_free: "ok x \<Longrightarrow> ok y \<Longrightarrow> enc x @ r = enc y @ s \<Longrightarrow> x = y \<and> r = s"
  by (metis dec_enc_append option.inject prod.inject)

lemma read_n_concat:
  "\<forall>x \<in> set xs. ok x \<Longrightarrow> read_n dec (length xs) (concat (map enc xs) @ r) = Some (xs, r)"
  by (induction xs) (auto simp: dec_enc_append)

end

sublocale stream_codec \<subseteq> whole: codec enc
    "\<lambda>b. case dec b of Some (x, []) \<Rightarrow> Some x | _ \<Rightarrow> None" ok
  using dec_enc_append [where r = "[]"] by unfold_locales simp

locale fixed_codec =
  fixes enc :: "'a \<Rightarrow> 'c list" and dec :: "'c list \<Rightarrow> 'a" and w :: nat and ok :: "'a \<Rightarrow> bool"
  assumes width_pos: "0 < w"
    and enc_width: "ok x \<Longrightarrow> length (enc x) = w"
    and dec_enc_fixed: "ok x \<Longrightarrow> dec (enc x) = x"
begin

lemma decode_concat: "\<forall>x \<in> set xs. ok x \<Longrightarrow> map dec (chunks w (concat (map enc xs))) = xs"
  using width_pos by (induction xs) (auto simp: chunks_append enc_width dec_enc_fixed)

lemma length_concat: "\<forall>x \<in> set xs. ok x \<Longrightarrow> length (concat (map enc xs)) = w * length xs"
  by (induction xs) (auto simp: enc_width)

end

sublocale fixed_codec \<subseteq> many: codec "\<lambda>xs. concat (map enc xs)" "\<lambda>b. Some (map dec (chunks w b))"
    "\<lambda>xs. \<forall>x \<in> set xs. ok x"
  by unfold_locales (simp add: decode_concat)

section \<open>Incremental digests\<close>

locale digest =
  fixes init :: 's and upd :: "'s \<Rightarrow> 'b list \<Rightarrow> 's" and fin :: "'s \<Rightarrow> 'd"
    and absorbed :: "'s \<Rightarrow> 'b list \<Rightarrow> bool" and spec :: "'b list \<Rightarrow> 'd"
  assumes absorbed_init: "absorbed init []"
    and absorbed_upd: "absorbed s m \<Longrightarrow> absorbed (upd s d) (m @ d)"
    and fin_spec: "absorbed s m \<Longrightarrow> fin s = spec m"
begin

lemma foldl_absorbed: "absorbed s m \<Longrightarrow> absorbed (foldl upd s ds) (m @ concat ds)"
proof (induction ds arbitrary: s m)
  case (Cons d ds)
  from absorbed_upd [OF Cons.prems] Cons.IH [of "upd s d" "m @ d"] show ?case by simp
qed simp

lemma incremental: "fin (foldl upd init ds) = spec (concat ds)"
  using fin_spec [OF foldl_absorbed [OF absorbed_init]] by simp

lemma one_shot: "fin (upd init d) = spec d"
  using incremental [of "[d]"] by simp

lemma split_independent: "concat ds = concat es \<Longrightarrow> fin (foldl upd init ds) = fin (foldl upd init es)"
  by (simp add: incremental)

end

section \<open>Keyed stores\<close>

locale kv_store =
  fixes look :: "'m \<Rightarrow> 'k \<Rightarrow> 'v option" and put :: "'k \<Rightarrow> 'v \<Rightarrow> 'm \<Rightarrow> 'm"
    and del :: "'k \<Rightarrow> 'm \<Rightarrow> 'm" and inv :: "'m \<Rightarrow> bool"
  assumes look_put: "look (put k v m) = (look m)(k \<mapsto> v)"
    and look_del: "look (del k m) = (look m)(k := None)"
    and inv_put: "inv m \<Longrightarrow> inv (put k v m)"
    and inv_del: "inv m \<Longrightarrow> inv (del k m)"
begin

lemma look_put_same: "look (put k v m) k = Some v"
  by (simp add: look_put)

lemma look_put_other: "k \<noteq> k' \<Longrightarrow> look (put k v m) k' = look m k'"
  by (simp add: look_put)

lemma del_put: "look m k = None \<Longrightarrow> look (del k (put k v m)) = look m"
  by (auto simp: look_put look_del)

lemma put_put: "look (put k v (put k v' m)) = look (put k v m)"
  by (simp add: look_put)

lemma foldl_put_notin:
  "k \<notin> fst ` set ps \<Longrightarrow> look (foldl (\<lambda>m (k, v). put k v m) m ps) k = look m k"
  by (induction ps arbitrary: m) (auto simp: look_put_other)

end

text \<open>\<open>std::unordered_map\<close> as an association list with distinct keys.\<close>

definition um_ok :: "('k \<times> 'v) list \<Rightarrow> bool" where
  "um_ok m \<longleftrightarrow> distinct (map fst m)"

interpretation um: kv_store map_of AList.update AList.delete um_ok
  by unfold_locales
    (simp_all add: um_ok_def AList.update_conv' AList.delete_conv' AList.distinct_update AList.distinct_delete)

lemma map_of_eq_set: "um_ok m \<Longrightarrow> map_of m k = Some v \<longleftrightarrow> (k, v) \<in> set m"
  by (simp add: um_ok_def)

lemma foldl_update_distinct:
  assumes "distinct (map fst ps)"
  shows "foldl (\<lambda>m (k, v). AList.update k v m) [] ps = ps"
proof -
  have "foldl (\<lambda>m (k, v). AList.update k v m) qs ps = qs @ ps"
    if "distinct (map fst (qs @ ps))" for qs
    using that
  proof (induction ps arbitrary: qs)
    case (Cons p ps)
    obtain k v where p: "p = (k, v)" by force
    with Cons.prems have "k \<notin> fst ` set qs" by auto
    then have "AList.update k v qs = qs @ [(k, v)]" by (induction qs) auto
    with Cons.IH [of "qs @ [(k, v)]"] Cons.prems p show ?case by simp
  qed simp
  from this [of "[]"] assms show ?thesis by simp
qed

end
