(* ===== verification/Socket.thy ===== *)
theory Socket
  imports Interfaces
begin

text \<open>
  A blocking \<open>recv\<close> on a stream socket: the pieces it will deliver are a list.  It returns at most as
  many bytes as asked for, from the first piece; an empty piece, like the end of the list, is the
  end of the connection or an error.
\<close>

fun recv :: "nat \<Rightarrow> 'a list list \<Rightarrow> 'a list \<times> 'a list list" where
  "recv n [] = ([], [])"
| "recv n (c # cs) = (if n < length c then (take n c, drop n c # cs) else (c, cs))"

abbreviation live :: "'a list list \<Rightarrow> bool" where
  "live cs \<equiv> list_all (\<lambda>c. c \<noteq> []) cs"

lemma recv_concat: "recv n cs = (d, r) \<Longrightarrow> concat cs = d @ concat r"
  by (cases cs) (auto split: if_splits)

lemma recv_length: "recv n cs = (d, r) \<Longrightarrow> length d \<le> n"
  by (cases cs) (auto split: if_splits)

lemma recv_live: "recv n cs = (d, r) \<Longrightarrow> live cs \<Longrightarrow> live r"
  by (cases cs) (auto split: if_splits)

lemma recv_Nil: "recv n cs = ([], r) \<Longrightarrow> 0 < n \<Longrightarrow> live cs \<Longrightarrow> concat cs = [] \<and> r = []"
  by (cases cs) (auto split: if_splits)

text \<open>Reading a number of bytes piece by piece.\<close>

function recv_all :: "nat \<Rightarrow> 'a list list \<Rightarrow> 'a list \<times> 'a list list" where
  "recv_all n cs =
     (if n = 0 then ([], cs)
      else case recv n cs of (d, r) \<Rightarrow> if d = [] then ([], r) else map_prod ((@) d) id (recv_all (n - length d) r))"
  by pat_completeness auto
termination
  by (relation "measure fst") auto

declare recv_all.simps [simp del]

lemma recv_all_take: "live cs \<Longrightarrow> fst (recv_all n cs) = take n (concat cs) \<and> concat (snd (recv_all n cs)) = drop n (concat cs)"
proof (induction n cs rule: recv_all.induct)
  case (1 n cs)
  obtain d r where d: "recv n cs = (d, r)" by force
  show ?case
  proof (cases "n = 0 \<or> d = []")
    case True
    then show ?thesis
    proof (cases "n = 0")
      case nz: False
      with True d have "recv n cs = ([], r)" by simp
      with recv_Nil [OF this] nz 1(2) have "concat cs = []" "r = []" by blast+
      with True d nz show ?thesis by (simp add: recv_all.simps [of n cs] del: concat_eq_Nil_conv)
    qed (simp add: recv_all.simps [of 0])
  next
    case False
    with 1(1) [OF _ d [symmetric]] 1(2) recv_live [OF d]
    have "fst (recv_all (n - length d) r) = take (n - length d) (concat r) \<and>
        concat (snd (recv_all (n - length d) r)) = drop (n - length d) (concat r)" by simp
    then show ?thesis
      using False recv_length [OF d] by (simp add: recv_all.simps [of n cs] d recv_concat [OF d])
  qed
qed

end
