(* ===== verification/Bencode.thy ===== *)
theory Bencode
  imports Interfaces
begin

text \<open>
  \<open>src/bencode/parser.cpp\<close>: bencode values, the parser over a position in the data, and
  the encoder.  The parser's recursion is run with fuel; \<open>parse_data_complete\<close> shows that
  the fuel \<open>parse_data\<close> uses decides termination, so that \<open>None\<close> means the C++
  recursion never returns.
\<close>

section \<open>Values\<close>

datatype bval =
    BInt int
  | BStr string
  | BList "bval list"
  | BDict "(string \<times> bval) list"

fun is_bdict :: "bval \<Rightarrow> bool" where
  "is_bdict (BDict _) = True"
| "is_bdict _ = False"

section \<open>Number scanning (\<open>std::stoul\<close>, \<open>std::stoll\<close>)\<close>

definition scan_num :: "string \<Rightarrow> (bool \<times> nat) option" where
  "scan_num s =
     (let s1 = dropWhile c_isspace s;
          neg = (s1 \<noteq> [] \<and> hd s1 = CHR ''-'');
          s2 = (if s1 \<noteq> [] \<and> (hd s1 = CHR ''-'' \<or> hd s1 = CHR ''+'') then tl s1 else s1);
          ds = takeWhile c_isdigit s2
      in if ds = [] then None else Some (neg, dec_val ds))"

definition stoul :: "string \<Rightarrow> nat res" where
  "stoul s =
     (case scan_num s of
        None \<Rightarrow> Inl ''stoul''
      | Some (neg, v) \<Rightarrow>
          if 2 ^ 64 \<le> v then Inl ''stoul''
          else Inr (if neg then (2 ^ 64 - v) mod 2 ^ 64 else v))"

definition stoll :: "string \<Rightarrow> int res" where
  "stoll s =
     (case scan_num s of
        None \<Rightarrow> Inl ''stoll''
      | Some (neg, v) \<Rightarrow>
          (let i = (if neg then - int v else int v)
           in if i < - (2 ^ 63) \<or> 2 ^ 63 \<le> i then Inl ''stoll'' else Inr i))"

section \<open>The parser\<close>

definition parse_integer :: "string \<Rightarrow> nat \<Rightarrow> (int \<times> nat) res" where
  "parse_integer d p =
     (case find_char CHR ''e'' d (Suc p) of
        None \<Rightarrow> Inl ''Unterminated integer''
      | Some q \<Rightarrow>
          (let s = substr d (Suc p) (q - Suc p) in
           if 1 < length s \<and> s ! 0 = CHR ''0'' then Inl ''Leading zeros not allowed in integers''
           else if 1 < length s \<and> s ! 0 = CHR ''-'' \<and> s ! 1 = CHR ''0''
           then Inl ''Negative zero not allowed''
           else case stoll s of Inl e \<Rightarrow> Inl e | Inr i \<Rightarrow> Inr (i, Suc q)))"

definition parse_string :: "string \<Rightarrow> nat \<Rightarrow> (string \<times> nat) res" where
  "parse_string d p =
     (case find_char CHR '':'' d p of
        None \<Rightarrow> Inl ''Unterminated string length''
      | Some q \<Rightarrow>
          (case stoul (substr d p (q - p)) of
             Inl e \<Rightarrow> Inl e
           | Inr n \<Rightarrow>
               if u64_add (Suc q) n > length d then Inl ''String length exceeds data size''
               else Inr (substr d (Suc q) n, u64_add (Suc q) n)))"

text \<open>
  A recursive call is one of the three shapes of the parser: a value, the loop of
  \<open>parse_list\<close> (the items still to come) or the loop of \<open>parse_dict\<close> (the assignments
  still to come).  \<open>None\<close> is out of fuel; a value is an exception or the parsed items
  with the next position.
\<close>

fun parse_value :: "nat \<Rightarrow> string \<Rightarrow> nat \<Rightarrow> (bval \<times> nat) res option"
  and parse_list :: "nat \<Rightarrow> string \<Rightarrow> nat \<Rightarrow> (bval list \<times> nat) res option"
  and parse_dict :: "nat \<Rightarrow> string \<Rightarrow> nat \<Rightarrow> ((string \<times> bval) list \<times> nat) res option"
where
  "parse_value 0 d p = None"
| "parse_value (Suc f) d p =
     (if length d \<le> p then Some (Inl ''Unexpected end of data'')
      else if d ! p = CHR ''i'' then
        Some (ebind (parse_integer d p) (\<lambda>(i, q). Inr (BInt i, q)))
      else if d ! p = CHR ''l'' then
        obind (parse_list f d (Suc p)) (\<lambda>(vs, q). Some (Inr (BList vs, q)))
      else if d ! p = CHR ''d'' then
        obind (parse_dict f d (Suc p))
          (\<lambda>(ps, q). Some (Inr (BDict (foldl (\<lambda>m (k, v). AList.update k v m) [] ps), q)))
      else if c_isdigit (d ! p) then
        Some (ebind (parse_string d p) (\<lambda>(s, q). Inr (BStr s, q)))
      else Some (Inl (''Invalid bencode data at position '' @ show_nat p)))"
| "parse_list 0 d p = None"
| "parse_list (Suc f) d p =
     (if p < length d \<and> d ! p \<noteq> CHR ''e'' then
        obind (parse_value f d p) (\<lambda>(v, q).
        obind (parse_list f d q) (\<lambda>(vs, q'). Some (Inr (v # vs, q'))))
      else if length d \<le> p then Some (Inl ''Unterminated list'')
      else Some (Inr ([], Suc p)))"
| "parse_dict 0 d p = None"
| "parse_dict (Suc f) d p =
     (if p < length d \<and> d ! p \<noteq> CHR ''e'' then
        obind (Some (parse_string d p)) (\<lambda>(k, p').
        obind (parse_value f d p') (\<lambda>(v, q).
        obind (parse_dict f d q) (\<lambda>(ps, q'). Some (Inr ((k, v) # ps, q')))))
      else if length d \<le> p then Some (Inl ''Unterminated dictionary'')
      else Some (Inr ([], Suc p)))"

declare parse_value.simps [simp del] parse_list.simps [simp del] parse_dict.simps [simp del]

lemma parse_0 [simp]: "parse_value 0 d p = None" "parse_list 0 d p = None" "parse_dict 0 d p = None"
  by (simp_all add: parse_value.simps parse_list.simps parse_dict.simps)

lemmas parse_unfold = parse_value.simps(2) parse_list.simps(2) parse_dict.simps(2)

definition parse_data :: "string \<Rightarrow> (bval \<times> nat) res option" where
  "parse_data d = parse_value (3 * length d + 4) d 0"

definition parse :: "string \<Rightarrow> bval res option" where
  "parse d = map_option (map_sum id fst) (parse_data d)"

section \<open>The encoder\<close>

definition encode_string :: "string \<Rightarrow> string" where
  "encode_string s = show_nat (length s) @ CHR '':'' # s"

primrec encode :: "bval \<Rightarrow> string" where
  "encode (BInt i) = ''i'' @ show_int i @ ''e''"
| "encode (BStr s) = encode_string s"
| "encode (BList vs) = ''l'' @ concat (map encode vs) @ ''e''"
| "encode (BDict ps) =
     ''d'' @ concat (map (\<lambda>(k, s). encode_string k @ s) (sort_key fst (map (map_prod id encode) ps))) @ ''e''"

text \<open>
  A value the encoder is used on: integers of 64 bits and distinct dictionary keys.
  \<open>canon\<close> lists every dictionary in key order; an unordered map has no order of its own.
\<close>

primrec bval_ok :: "bval \<Rightarrow> bool" where
  "bval_ok (BInt i) \<longleftrightarrow> - (2 ^ 63) \<le> i \<and> i < 2 ^ 63"
| "bval_ok (BStr s) \<longleftrightarrow> True"
| "bval_ok (BList vs) \<longleftrightarrow> list_all id (map bval_ok vs)"
| "bval_ok (BDict ps) \<longleftrightarrow> distinct (map fst ps) \<and> list_all snd (map (map_prod id bval_ok) ps)"

primrec canon :: "bval \<Rightarrow> bval" where
  "canon (BInt i) = BInt i"
| "canon (BStr s) = BStr s"
| "canon (BList vs) = BList (map canon vs)"
| "canon (BDict ps) = BDict (sort_key fst (map (map_prod id canon) ps))"

section \<open>Scanning what was printed\<close>

lemma digit_not_space [simp]: "c_isdigit c \<Longrightarrow> \<not> c_isspace c"
  by (auto simp: c_isdigit_def c_isspace_def)

lemma scan_digits:
  assumes "\<forall>c \<in> set ds. c_isdigit c" "ds \<noteq> []"
  shows "scan_num ds = Some (False, dec_val ds)"
    and "scan_num (CHR ''-'' # ds) = Some (True, dec_val ds)"
proof -
  obtain c cs where ds: "ds = c # cs" using assms(2) by (cases ds) auto
  with assms(1) have c: "c_isdigit c" by simp
  then have nc: "c \<noteq> CHR ''-''" "c \<noteq> CHR ''+''" using digit_not_special by auto
  have tw: "takeWhile c_isdigit ds = ds" using assms by simp
  from c nc ds have "scan_num ds = Some (False, dec_val (takeWhile c_isdigit ds))"
    by (simp add: scan_num_def)
  then show "scan_num ds = Some (False, dec_val ds)" by (simp only: tw)
  have "\<not> c_isspace CHR ''-''" by (simp add: c_isspace_def)
  with tw assms(2) show "scan_num (CHR ''-'' # ds) = Some (True, dec_val ds)"
    by (simp only: scan_num_def) (simp add: Let_def tw del: takeWhile_eq_all_conv)
qed

lemma scan_show_int: "scan_num (show_int i) = Some (i < 0, nat \<bar>i\<bar>)"
  using scan_digits [OF show_nat_digits show_nat_nonempty] by (simp add: show_int_def)

lemma stoll_show_int: "- (2 ^ 63) \<le> i \<Longrightarrow> i < 2 ^ 63 \<Longrightarrow> stoll (show_int i) = Inr i"
  by (auto simp: stoll_def scan_show_int)

lemma stoul_show_nat: "n < 2 ^ 64 \<Longrightarrow> stoul (show_nat n) = Inr n"
  using scan_digits(1) [OF show_nat_digits show_nat_nonempty] by (simp add: stoul_def)

section \<open>Positions\<close>

lemma parse_integer_bound: "parse_integer d p = Inr (i, q) \<Longrightarrow> p < q \<and> q \<le> length d"
  by (auto simp: parse_integer_def Let_def dest!: find_char_bounds split: option.splits if_splits sum.splits)

lemma parse_string_bound: "parse_string d p = Inr (s, q) \<Longrightarrow> q \<le> length d"
  by (auto simp: parse_string_def split: option.splits sum.splits if_splits)

lemma parse_position_all:
  "(\<forall>p v q. p \<le> length d \<longrightarrow> parse_value f d p = Some (Inr (v, q)) \<longrightarrow> q \<le> length d) \<and>
   (\<forall>p vs q. p \<le> length d \<longrightarrow> parse_list f d p = Some (Inr (vs, q)) \<longrightarrow> q \<le> length d) \<and>
   (\<forall>p ps q. p \<le> length d \<longrightarrow> parse_dict f d p = Some (Inr (ps, q)) \<longrightarrow> q \<le> length d)"
proof (induction f)
  case (Suc f)
  then have IH: "\<And>p v q. parse_value f d p = Some (Inr (v, q)) \<Longrightarrow> p \<le> length d \<Longrightarrow> q \<le> length d"
      "\<And>p vs q. parse_list f d p = Some (Inr (vs, q)) \<Longrightarrow> p \<le> length d \<Longrightarrow> q \<le> length d"
      "\<And>p ps q. parse_dict f d p = Some (Inr (ps, q)) \<Longrightarrow> p \<le> length d \<Longrightarrow> q \<le> length d"
    by blast+
  show ?case
    by (auto simp: parse_unfold obind_Inr_iff ebind_Inr_iff split: if_splits
        dest!: IH parse_integer_bound parse_string_bound)
qed simp

lemma parse_position:
  "parse_value f d p = Some (Inr (v, q)) \<Longrightarrow> p \<le> length d \<Longrightarrow> q \<le> length d"
  "parse_list f d p = Some (Inr (vs, q)) \<Longrightarrow> p \<le> length d \<Longrightarrow> q \<le> length d"
  "parse_dict f d p = Some (Inr (ps, q)) \<Longrightarrow> p \<le> length d \<Longrightarrow> q \<le> length d"
  using parse_position_all [of d f] by blast+

section \<open>Fuel\<close>

lemma parse_mono_Suc:
  "(\<forall>p r. parse_value f d p = Some r \<longrightarrow> parse_value (Suc f) d p = Some r) \<and>
   (\<forall>p r. parse_list f d p = Some r \<longrightarrow> parse_list (Suc f) d p = Some r) \<and>
   (\<forall>p r. parse_dict f d p = Some r \<longrightarrow> parse_dict (Suc f) d p = Some r)"
proof (induction f)
  case (Suc f)
  show ?case
  proof (intro conjI allI impI)
    fix p r
    assume "parse_value (Suc f) d p = Some r"
    then show "parse_value (Suc (Suc f)) d p = Some r" using Suc
      unfolding parse_unfold(1) [of f d p] parse_unfold(1) [of "Suc f" d p]
      by (auto elim!: obind_mono split: if_splits)
  next
    fix p r
    assume "parse_list (Suc f) d p = Some r"
    then show "parse_list (Suc (Suc f)) d p = Some r" using Suc
      unfolding parse_unfold(2) [of f d p] parse_unfold(2) [of "Suc f" d p]
      by (auto elim!: obind_mono split: if_splits)
  next
    fix p r
    assume "parse_dict (Suc f) d p = Some r"
    then show "parse_dict (Suc (Suc f)) d p = Some r" using Suc
      unfolding parse_unfold(3) [of f d p] parse_unfold(3) [of "Suc f" d p]
      by (auto elim!: obind_mono split: if_splits)
  qed
qed simp

lemma parse_mono:
  assumes "f \<le> g"
  shows "parse_value f d p = Some r \<Longrightarrow> parse_value g d p = Some r"
    and "parse_list f d p = Some r' \<Longrightarrow> parse_list g d p = Some r'"
    and "parse_dict f d p = Some r'' \<Longrightarrow> parse_dict g d p = Some r''"
  using assms parse_mono_Suc by (induction g rule: dec_induct) blast+

text \<open>
  When one more unit of fuel changes no call at any position, no amount does.  Until then
  each unit lets another of the \<open>3 * (length d + 1)\<close> calls return.
\<close>

definition fuel_stable :: "string \<Rightarrow> nat \<Rightarrow> bool" where
  "fuel_stable d f \<longleftrightarrow> (\<forall>p \<le> length d.
     parse_value (Suc f) d p = parse_value f d p \<and>
     parse_list (Suc f) d p = parse_list f d p \<and>
     parse_dict (Suc f) d p = parse_dict f d p)"

lemma fuel_stable_Suc:
  assumes st: "fuel_stable d f"
  shows "fuel_stable d (Suc f)"
  unfolding fuel_stable_def
proof (intro allI impI conjI)
  fix p
  assume p: "p \<le> length d"
  note st' = st [unfolded fuel_stable_def, rule_format]
  show "parse_value (Suc (Suc f)) d p = parse_value (Suc f) d p"
    unfolding parse_unfold(1) [of f d p] parse_unfold(1) [of "Suc f" d p]
    using st' by auto
  show "parse_list (Suc (Suc f)) d p = parse_list (Suc f) d p"
    unfolding parse_unfold(2) [of f d p] parse_unfold(2) [of "Suc f" d p]
    using st' p by (auto intro!: obind_cong dest: parse_position)
  show "parse_dict (Suc (Suc f)) d p = parse_dict (Suc f) d p"
    unfolding parse_unfold(3) [of f d p] parse_unfold(3) [of "Suc f" d p]
    using st' p by (auto intro!: obind_cong dest!: parse_position parse_string_bound)
qed

definition returned :: "string \<Rightarrow> nat \<Rightarrow> (nat \<times> nat) set" where
  "returned d f = {(k, p). k < 3 \<and> p \<le> length d \<and>
     (k = 0 \<longrightarrow> parse_value f d p \<noteq> None) \<and>
     (k = 1 \<longrightarrow> parse_list f d p \<noteq> None) \<and>
     (k = 2 \<longrightarrow> parse_dict f d p \<noteq> None)}"

lemma returned_bounded: "finite (returned d f) \<and> card (returned d f) \<le> 3 * (length d + 1)"
proof -
  have sub: "returned d f \<subseteq> {..<3} \<times> {..length d}" by (auto simp: returned_def)
  have "card ({..<3} \<times> {..length d} :: (nat \<times> nat) set) = 3 * (length d + 1)"
    by (simp add: card_cartesian_product)
  with sub show ?thesis by (metis card_mono finite_SigmaI finite_atMost finite_lessThan finite_subset)
qed

lemma returned_mono: "returned d f \<subseteq> returned d (Suc f)"
  using parse_mono_Suc by (fastforce simp: returned_def)

lemma returned_stable: "returned d (Suc f) = returned d f \<Longrightarrow> fuel_stable d f"
  unfolding fuel_stable_def
proof (intro allI impI conjI)
  fix p
  assume eq: "returned d (Suc f) = returned d f" and p: "p \<le> length d"
  have m: "(k, p) \<in> returned d (Suc f) \<longleftrightarrow> (k, p) \<in> returned d f" for k using eq by simp
  show "parse_value (Suc f) d p = parse_value f d p"
    using m [of 0] p parse_mono(1) [of f "Suc f" d p]
    by (cases "parse_value f d p") (auto simp: returned_def)
  show "parse_list (Suc f) d p = parse_list f d p"
    using m [of 1] p parse_mono(2) [of f "Suc f" d p]
    by (cases "parse_list f d p") (auto simp: returned_def)
  show "parse_dict (Suc f) d p = parse_dict f d p"
    using m [of 2] p parse_mono(3) [of f "Suc f" d p]
    by (cases "parse_dict f d p") (auto simp: returned_def)
qed

lemma fuel_stable_up: "f \<le> g \<Longrightarrow> fuel_stable d f \<Longrightarrow> fuel_stable d g"
  by (induction g rule: dec_induct) (auto intro: fuel_stable_Suc)

lemma fuel_stable_ge:
  assumes "f \<le> g" "fuel_stable d f" "p \<le> length d"
  shows "parse_value g d p = parse_value f d p"
  using assms
proof (induction g rule: dec_induct)
  case (step n)
  then show ?case using fuel_stable_up [of f n d] by (simp add: fuel_stable_def)
qed simp

lemma fuel_stable_bound: "fuel_stable d (3 * (length d + 1))"
proof (rule ccontr)
  let ?N = "3 * (length d + 1)"
  assume "\<not> fuel_stable d ?N"
  then have ns: "\<not> fuel_stable d f" if "f \<le> ?N" for f
    using that fuel_stable_up by blast
  have "f \<le> card (returned d f)" if "f \<le> Suc ?N" for f
    using that
  proof (induction f)
    case (Suc f)
    with ns returned_stable have "returned d (Suc f) \<noteq> returned d f" by fastforce
    with returned_mono have "returned d f \<subset> returned d (Suc f)" by blast
    then have "card (returned d f) < card (returned d (Suc f))"
      using returned_bounded by (meson psubset_card_mono)
    with Suc show ?case by simp
  qed simp
  from this [of "Suc ?N"] returned_bounded [of d "Suc ?N"] show False by simp
qed

theorem parse_data_complete: "parse_data d = None \<longleftrightarrow> (\<forall>f. parse_value f d 0 = None)"
proof
  assume none: "parse_data d = None"
  show "\<forall>f. parse_value f d 0 = None"
  proof
    fix f
    let ?N = "3 * (length d + 1)"
    have "parse_value ?N d 0 = None"
      using none fuel_stable_ge [OF _ fuel_stable_bound, of d "3 * length d + 4" 0]
      by (simp add: parse_data_def)
    then show "parse_value f d 0 = None"
      using fuel_stable_ge [OF _ fuel_stable_bound, of d f 0] parse_mono(1) [of f ?N d 0]
      by (cases "?N \<le> f") (auto simp: not_le intro: ccontr)
  qed
qed (simp add: parse_data_def)

lemma parse_data_Some: "parse_value f d 0 = Some r \<Longrightarrow> parse_data d = Some r"
proof -
  assume r: "parse_value f d 0 = Some r"
  then have "parse_data d \<noteq> None" by (auto simp: parse_data_complete)
  then obtain r' where r': "parse_data d = Some r'" by blast
  then have "parse_value (max f (3 * length d + 4)) d 0 = Some r'"
    unfolding parse_data_def by (rule parse_mono(1) [rotated]) simp
  moreover have "parse_value (max f (3 * length d + 4)) d 0 = Some r"
    using r by (rule parse_mono(1) [rotated]) simp
  ultimately show ?thesis using r' by simp
qed

section \<open>Termination on inputs whose lengths do not wrap\<close>

text \<open>
  Every text between two positions that the parser could read as a string length stays
  below \<open>2 ^ 64\<close> when added to a position: then each call moves forward.
\<close>

definition lengths_bounded :: "string \<Rightarrow> bool" where
  "lengths_bounded d \<longleftrightarrow> (\<forall>p \<in> {..length d}. \<forall>q \<in> {..<length d}.
     case stoul (substr d p (q - p)) of Inl _ \<Rightarrow> True | Inr n \<Rightarrow> Suc q + n < 2 ^ 64)"

lemma parse_string_progress:
  assumes "lengths_bounded d" "p \<le> length d" "parse_string d p = Inr (s, q)"
  shows "p < q"
proof -
  from assms(3) obtain c n where c: "find_char CHR '':'' d p = Some c"
    and n: "stoul (substr d p (c - p)) = Inr n" and q: "q = u64_add (Suc c) n"
    by (auto simp: parse_string_def split: option.splits sum.splits if_splits)
  from find_char_bounds [OF c] have b: "p \<le> c" "c < length d" by auto
  have "case stoul (substr d p (c - p)) of Inl _ \<Rightarrow> True | Inr n \<Rightarrow> Suc c + n < 2 ^ 64"
    using assms(1,2) b(2) unfolding lengths_bounded_def by blast
  with n have "Suc c + n < 2 ^ 64" by simp
  then have "u64_add (Suc c) n = Suc c + n" by (rule u64_add_id)
  with q b show ?thesis by simp
qed

lemma parse_progress:
  assumes lb: "lengths_bounded d"
  shows "(\<forall>p v q. p \<le> length d \<longrightarrow> parse_value f d p = Some (Inr (v, q)) \<longrightarrow> p < q) \<and>
    (\<forall>p vs q. p \<le> length d \<longrightarrow> parse_list f d p = Some (Inr (vs, q)) \<longrightarrow> p < q) \<and>
    (\<forall>p ps q. p \<le> length d \<longrightarrow> parse_dict f d p = Some (Inr (ps, q)) \<longrightarrow> p < q)"
proof (induction f)
  case (Suc f)
  then have IH: "\<And>p v q. parse_value f d p = Some (Inr (v, q)) \<Longrightarrow> p \<le> length d \<Longrightarrow> p < q"
      "\<And>p vs q. parse_list f d p = Some (Inr (vs, q)) \<Longrightarrow> p \<le> length d \<Longrightarrow> p < q"
      "\<And>p ps q. parse_dict f d p = Some (Inr (ps, q)) \<Longrightarrow> p \<le> length d \<Longrightarrow> p < q"
    by blast+
  have V: "p < q" if "p \<le> length d" "parse_value (Suc f) d p = Some (Inr (v, q))" for p v q
    using that by (fastforce simp: parse_unfold(1) obind_Inr_iff ebind_Inr_iff split: if_splits
        dest: IH(2,3) parse_integer_bound parse_string_progress [OF lb])
  have L: "p < q" if "p \<le> length d" "parse_list (Suc f) d p = Some (Inr (vs, q))" for p vs q
    using that by (fastforce simp: parse_unfold(2) obind_Inr_iff split: if_splits
        dest: IH(1,2) parse_position(1))
  have D: "p < q" if "p \<le> length d" "parse_dict (Suc f) d p = Some (Inr (ps, q))" for p ps q
  proof (cases "p < length d \<and> d ! p \<noteq> CHR ''e''")
    case True
    with that obtain k p' v q1 qs where a: "parse_string d p = Inr (k, p')"
      and b: "parse_value f d p' = Some (Inr (v, q1))" and c: "parse_dict f d q1 = Some (Inr (qs, q))"
      by (auto simp: parse_unfold(3) obind_Inr_iff)
    have "p < p'" "p' \<le> length d"
      using a that(1) by (auto dest: parse_string_bound parse_string_progress [OF lb])
    moreover have "p' < q1" "q1 \<le> length d"
      using b calculation IH(1) parse_position(1) by blast+
    moreover have "q1 < q" using c calculation IH(3) by blast
    ultimately show ?thesis by simp
  qed (use that in \<open>auto simp: parse_unfold(3) split: if_splits\<close>)
  from V L D show ?case by blast
qed simp

lemma parse_returns:
  assumes lb: "lengths_bounded d"
  shows "(\<forall>p. p \<le> length d \<longrightarrow> 2 * (length d - p) + 1 \<le> f \<longrightarrow> parse_value f d p \<noteq> None) \<and>
    (\<forall>p. p \<le> length d \<longrightarrow> 2 * (length d - p) + 2 \<le> f \<longrightarrow> parse_list f d p \<noteq> None) \<and>
    (\<forall>p. p \<le> length d \<longrightarrow> 2 * (length d - p) + 2 \<le> f \<longrightarrow> parse_dict f d p \<noteq> None)"
proof (induction f)
  case (Suc f)
  then have IH: "\<And>p. p \<le> length d \<Longrightarrow> 2 * (length d - p) + 1 \<le> f \<Longrightarrow> parse_value f d p \<noteq> None"
      "\<And>p. p \<le> length d \<Longrightarrow> 2 * (length d - p) + 2 \<le> f \<Longrightarrow> parse_list f d p \<noteq> None"
      "\<And>p. p \<le> length d \<Longrightarrow> 2 * (length d - p) + 2 \<le> f \<Longrightarrow> parse_dict f d p \<noteq> None"
    by blast+
  note prog = parse_progress [OF lb, of f, THEN conjunct1, rule_format]
  have V: "parse_value (Suc f) d p \<noteq> None" if "p \<le> length d" "2 * (length d - p) + 1 \<le> Suc f" for p
  proof (cases "p = length d")
    case False
    with that have "Suc p \<le> length d" "2 * (length d - Suc p) + 2 \<le> f" by auto
    then show ?thesis using IH(2,3) [of "Suc p"]
      by (auto simp: parse_unfold(1) obind_def split: option.splits sum.splits)
  qed (simp add: parse_unfold(1))
  have L: "parse_list (Suc f) d p \<noteq> None" if p: "p \<le> length d" "2 * (length d - p) + 2 \<le> Suc f" for p
  proof (cases "p < length d \<and> d ! p \<noteq> CHR ''e''")
    case True
    with p have v: "parse_value f d p \<noteq> None" using IH(1) [of p] by simp
    have "parse_list f d q \<noteq> None" if "parse_value f d p = Some (Inr (v, q))" for v q
      using that prog [of p v q] parse_position(1) [of f d p v q] p True by (intro IH(2)) auto
    with v True show ?thesis
      by (auto simp: parse_unfold(2) obind_def split: option.splits sum.splits)
  qed (auto simp: parse_unfold(2))
  have D: "parse_dict (Suc f) d p \<noteq> None" if p: "p \<le> length d" "2 * (length d - p) + 2 \<le> Suc f" for p
  proof (cases "p < length d \<and> d ! p \<noteq> CHR ''e''")
    case True
    {
      fix k p' assume k: "parse_string d p = Inr (k, p')"
      from k p have p': "p < p'" "p' \<le> length d"
        by (auto dest: parse_string_bound parse_string_progress [OF lb])
      with p True have v: "parse_value f d p' \<noteq> None" using IH(1) [of p'] by simp
      have "parse_dict f d q \<noteq> None" if "parse_value f d p' = Some (Inr (v, q))" for v q
        using that prog [of p' v q] parse_position(1) [of f d p' v q] p p' by (intro IH(3)) auto
      with v have "\<exists>r. obind (parse_value f d p') (\<lambda>(v, q).
          obind (parse_dict f d q) (\<lambda>(ps, q'). Some (Inr ((k, v) # ps, q')))) = Some r"
        by (auto simp: obind_def split: option.splits sum.splits)
    }
    with True show ?thesis
      by (cases "parse_string d p") (auto simp: parse_unfold(3))
  qed (auto simp: parse_unfold(3))
  from V L D show ?case by blast
qed simp

lemma parse_data_returns: "lengths_bounded d \<Longrightarrow> \<exists>r. parse_data d = Some r"
proof -
  assume "lengths_bounded d"
  then have "parse_value (2 * length d + 1) d 0 \<noteq> None" using parse_returns by fastforce
  then show ?thesis using parse_data_Some by blast
qed

section \<open>Parsing what the encoder printed\<close>

lemma sort_key_map_snd: "sort_key fst (map (map_prod id g) ps) = map (map_prod id g) (sort_key fst ps)"
proof -
  have ins: "insort_key fst (map_prod id g x) (map (map_prod id g) xs) =
      map (map_prod id g) (insort_key fst x xs)" for x :: "'a \<times> 'c" and xs
    by (induction xs) auto
  show ?thesis by (induction ps) (auto simp: ins [unfolded id_def] id_def)
qed

lemma encode_dict:
  "encode (BDict ps) =
     ''d'' @ concat (map (\<lambda>(k, v). encode_string k @ encode v) (sort_key fst ps)) @ ''e''"
  by (simp add: sort_key_map_snd comp_def case_prod_unfold)

lemma canon_dict: "canon (BDict ps) = BDict (map (map_prod id canon) (sort_key fst ps))"
  by (simp add: sort_key_map_snd)

lemma parse_string_encode:
  assumes "length (pre @ encode_string s @ suf) < 2 ^ 64"
  shows "parse_string (pre @ encode_string s @ suf) (length pre) =
    Inr (s, length pre + length (encode_string s))"
proof -
  let ?n = "show_nat (length s)"
  have "CHR '':'' \<notin> set ?n" using show_nat_digits digit_not_special by auto
  then have f: "find_char CHR '':'' (pre @ ?n @ CHR '':'' # s @ suf) (length pre) =
      Some (length pre + length ?n)" by (rule find_char_append)
  have "length s < 2 ^ 64" using assms by (simp add: encode_string_def)
  then have "stoul ?n = Inr (length s)" by (rule stoul_show_nat)
  with f assms show ?thesis
    by (simp add: parse_string_def encode_string_def substr_def u64_add_id)
qed

lemma parse_integer_encode:
  assumes "- (2 ^ 63) \<le> i" "i < 2 ^ 63"
  shows "parse_integer (pre @ CHR ''i'' # show_int i @ CHR ''e'' # suf) (length pre) =
    Inr (i, length pre + length (show_int i) + 2)"
proof -
  have dig: "CHR ''e'' \<notin> set (show_nat n)" for n using show_nat_digits digit_not_special by auto
  then have "CHR ''e'' \<notin> set (show_int i)" by (simp add: show_int_def)
  from find_char_append [OF this, of "pre @ ''i''" suf]
  have f: "find_char CHR ''e'' (pre @ CHR ''i'' # show_int i @ CHR ''e'' # suf) (Suc (length pre)) =
      Some (Suc (length pre) + length (show_int i))" by simp
  have z: "\<not> (1 < length (show_nat n) \<and> show_nat n ! 0 = CHR ''0'')" for n
    using hd_show_nat [of n] by (cases "n = 0") (auto simp: hd_conv_nth)
  have z': "show_nat n ! 0 \<noteq> CHR ''-''" for n
    using show_nat_digits [of n] digit_not_special [of "show_nat n ! 0"] by auto
  have z'': "show_nat n ! 0 \<noteq> CHR ''0''" if "0 < n" for n
    using hd_show_nat [OF that] by (simp add: hd_conv_nth)
  from f assms show ?thesis
    using z [of "nat i"] z' [of "nat i"] z'' [of "nat (- i)"]
    by (auto simp: parse_integer_def substr_def Let_def stoll_show_int)
       (auto simp: show_int_def split: if_splits)
qed

text \<open>\<open>reads s v\<close>: wherever \<open>s\<close> stands in the data, the parser makes \<open>v\<close> of it and stops behind it.\<close>

definition reads :: "string \<Rightarrow> bval \<Rightarrow> bool" where
  "reads s v \<longleftrightarrow> s \<noteq> [] \<and> hd s \<noteq> CHR ''e'' \<and>
     (\<forall>f pre suf. length (pre @ s @ suf) < 2 ^ 64 \<longrightarrow> length s \<le> f \<longrightarrow>
        parse_value f (pre @ s @ suf) (length pre) = Some (Inr (v, length pre + length s)))"

lemma readsI:
  assumes "s \<noteq> []" "hd s \<noteq> CHR ''e''"
    and "\<And>f pre suf. length (pre @ s @ suf) < 2 ^ 64 \<Longrightarrow> length s \<le> Suc f \<Longrightarrow>
      parse_value (Suc f) (pre @ s @ suf) (length pre) = Some (Inr (v, length pre + length s))"
  shows "reads s v"
  unfolding reads_def
proof (intro conjI allI impI assms(1,2))
  fix f pre suf
  assume "length (pre @ s @ suf) < 2 ^ 64" "length s \<le> f"
  with assms(1,3) show "parse_value f (pre @ s @ suf) (length pre) = Some (Inr (v, length pre + length s))"
    by (cases f) auto
qed

lemma readsD:
  assumes "reads s v"
  shows "0 < length s" "s \<noteq> []" "(pre @ s @ suf) ! length pre \<noteq> CHR ''e''"
    and "length (pre @ s @ suf) < 2 ^ 64 \<Longrightarrow> length s \<le> f \<Longrightarrow>
      parse_value f (pre @ s @ suf) (length pre) = Some (Inr (v, length pre + length s))"
proof -
  show "0 < length s" "s \<noteq> []" using assms by (simp_all add: reads_def)
  then have "(pre @ s @ suf) ! length pre = hd s" by (simp add: nth_append hd_conv_nth)
  then show "(pre @ s @ suf) ! length pre \<noteq> CHR ''e''" using assms by (simp add: reads_def)
qed (use assms in \<open>simp add: reads_def\<close>)

lemma hd_encode_string: "c_isdigit (hd (encode_string s))"
  using show_nat_digits [of "length s"] by (simp add: encode_string_def hd_append)

lemma encode_string_nonempty [simp]: "encode_string s \<noteq> []"
  by (simp add: encode_string_def)

lemma nth_encode_string: "(pre @ encode_string s @ suf) ! length pre = hd (encode_string s)"
  by (simp add: nth_append hd_conv_nth)

lemma reads_int: "- (2 ^ 63) \<le> i \<Longrightarrow> i < 2 ^ 63 \<Longrightarrow> reads (''i'' @ show_int i @ ''e'') (BInt i)"
  by (rule readsI) (simp_all add: parse_unfold parse_integer_encode nth_append)

lemma reads_string: "reads (encode_string s) (BStr s)"
proof (rule readsI)
  note d = hd_encode_string [of s]
  show "hd (encode_string s) \<noteq> CHR ''e''" using digit_not_special [OF d] by auto
  show "parse_value (Suc f) (pre @ encode_string s @ suf) (length pre) = Some (Inr (BStr s, length pre + length (encode_string s)))"
    if "length (pre @ encode_string s @ suf) < 2 ^ 64" for f pre suf
  proof -
    have "hd (encode_string s) \<notin> set ''ild''" using digit_not_special [OF d] by auto
    moreover have "\<not> length (pre @ encode_string s @ suf) \<le> length pre" by simp
    ultimately show ?thesis using d parse_string_encode [OF that]
      unfolding parse_unfold nth_encode_string by (simp del: length_append)
  qed
qed simp

lemma parse_list_reads:
  assumes "list_all2 reads ss vs" "length (pre @ concat ss @ ''e'' @ suf) < 2 ^ 64" "length (concat ss) < f"
  shows "parse_list f (pre @ concat ss @ ''e'' @ suf) (length pre) =
    Some (Inr (vs, length pre + length (concat ss) + 1))"
  using assms
proof (induction ss vs arbitrary: pre f rule: list_all2_induct)
  case Nil
  then show ?case by (cases f) (simp_all add: parse_unfold)
next
  case (Cons s ss v vs)
  obtain g where f: "f = Suc g" using Cons.prems by (cases f) auto
  let ?r = "concat ss @ ''e'' @ suf"
  note s = readsD [OF Cons.hyps(1)]
  have v: "parse_value g (pre @ s @ ?r) (length pre) = Some (Inr (v, length pre + length s))"
    using Cons.prems f by (intro s(4)) auto
  have l: "parse_list g ((pre @ s) @ ?r) (length (pre @ s)) =
      Some (Inr (vs, length (pre @ s) + length (concat ss) + 1))"
    using Cons.prems f s(1) by (intro Cons.IH) (auto simp del: length_greater_0_conv)
  from s(3) [of pre ?r] v l f show ?case by (simp add: parse_unfold)
qed

lemma parse_dict_reads:
  assumes "list_all (\<lambda>(k, s, v). reads s v) es"
    "length (pre @ concat (map (\<lambda>(k, s, v). encode_string k @ s) es) @ ''e'' @ suf) < 2 ^ 64"
    "length (concat (map (\<lambda>(k, s, v). encode_string k @ s) es)) < f"
  shows "parse_dict f (pre @ concat (map (\<lambda>(k, s, v). encode_string k @ s) es) @ ''e'' @ suf) (length pre) =
    Some (Inr (map (\<lambda>(k, s, v). (k, v)) es,
      length pre + length (concat (map (\<lambda>(k, s, v). encode_string k @ s) es)) + 1))"
  using assms
proof (induction es arbitrary: pre f)
  case Nil
  then show ?case by (cases f) (simp_all add: parse_unfold)
next
  case (Cons e es)
  obtain k s v where e: "e = (k, s, v)" by (cases e)
  obtain g where f: "f = Suc g" using Cons.prems by (cases f) auto
  have "reads s v" using Cons.prems e by simp
  note s = readsD [OF this]
  let ?r = "concat (map (\<lambda>(k, s, v). encode_string k @ s) es) @ ''e'' @ suf"
  let ?k = "encode_string k"
  have k: "parse_string (pre @ ?k @ s @ ?r) (length pre) = Inr (k, length pre + length ?k)"
    using Cons.prems e by (intro parse_string_encode) simp
  have v: "parse_value g ((pre @ ?k) @ s @ ?r) (length (pre @ ?k)) =
      Some (Inr (v, length (pre @ ?k) + length s))"
    using Cons.prems e f by (intro s(4)) auto
  have l: "parse_dict g ((pre @ ?k @ s) @ ?r) (length (pre @ ?k @ s)) =
      Some (Inr (map (\<lambda>(k, s, v). (k, v)) es, length (pre @ ?k @ s) +
        length (concat (map (\<lambda>(k, s, v). encode_string k @ s) es)) + 1))"
    using Cons.prems e f s(1) by (intro Cons.IH) (auto simp del: length_greater_0_conv)
  have "(pre @ ?k @ s @ ?r) ! length pre \<noteq> CHR ''e''"
    using nth_encode_string [of pre k "s @ ?r"] readsD(3) [OF reads_string [of k], of pre "s @ ?r"] by simp
  then show ?case using k v l f e by (simp add: parse_unfold add.assoc)
qed

lemma reads_list: "list_all2 reads ss vs \<Longrightarrow> reads (''l'' @ concat ss @ ''e'') (BList vs)"
proof (rule readsI)
  fix f pre suf
  assume r: "list_all2 reads ss vs" "length (pre @ (''l'' @ concat ss @ ''e'') @ suf) < 2 ^ 64"
    "length (''l'' @ concat ss @ ''e'') \<le> Suc f"
  have "parse_list f ((pre @ ''l'') @ concat ss @ ''e'' @ suf) (length (pre @ ''l'')) =
      Some (Inr (vs, length (pre @ ''l'') + length (concat ss) + 1))"
    using r by (intro parse_list_reads) auto
  then show "parse_value (Suc f) (pre @ (''l'' @ concat ss @ ''e'') @ suf) (length pre) =
      Some (Inr (BList vs, length pre + length (''l'' @ concat ss @ ''e'')))"
    by (simp add: parse_unfold nth_append)
qed simp_all

lemma reads_dict:
  assumes "list_all (\<lambda>(k, s, v). reads s v) es" "distinct (map fst es)"
  shows "reads (''d'' @ concat (map (\<lambda>(k, s, v). encode_string k @ s) es) @ ''e'')
    (BDict (map (\<lambda>(k, s, v). (k, v)) es))"
proof (rule readsI)
  let ?c = "concat (map (\<lambda>(k, s, v). encode_string k @ s) es)"
  have "distinct (map fst (map (\<lambda>(k, s, v). (k, v)) es))"
    using assms(2) by (simp add: comp_def case_prod_unfold)
  note upd = foldl_update_distinct [OF this]
  fix f pre suf
  assume r: "length (pre @ (''d'' @ ?c @ ''e'') @ suf) < 2 ^ 64" "length (''d'' @ ?c @ ''e'') \<le> Suc f"
  have "parse_dict f ((pre @ ''d'') @ ?c @ ''e'' @ suf) (length (pre @ ''d'')) =
      Some (Inr (map (\<lambda>(k, s, v). (k, v)) es, length (pre @ ''d'') + length ?c + 1))"
    using assms(1) r by (intro parse_dict_reads) auto
  then show "parse_value (Suc f) (pre @ (''d'' @ ?c @ ''e'') @ suf) (length pre) =
      Some (Inr (BDict (map (\<lambda>(k, s, v). (k, v)) es), length pre + length (''d'' @ ?c @ ''e'')))"
    using upd by (simp add: parse_unfold nth_append)
qed simp_all

lemma distinct_fst_sort_key: "distinct (map fst ps) \<Longrightarrow> distinct (map fst (sort_key f ps))"
  by (simp add: distinct_map)

lemma reads_encode: "bval_ok v \<Longrightarrow> reads (encode v) (canon v)"
proof (induction v)
  case (BInt i)
  then show ?case using reads_int [of i] by simp
next
  case (BStr s)
  then show ?case using reads_string [of s] by simp
next
  case (BList vs)
  then have "list_all2 reads (map encode vs) (map canon vs)"
    by (simp add: list_all_iff list_all2_conv_all_nth)
  from reads_list [OF this] show ?case by simp
next
  case (BDict ps)
  let ?es = "map (\<lambda>(k, v). (k, encode v, canon v)) (sort_key fst ps)"
  have "list_all (\<lambda>(k, s, v). reads s v) ?es"
    using BDict by (fastforce simp: list_all_iff)
  moreover have "distinct (map fst ?es)"
    using BDict.prems by (simp add: comp_def case_prod_unfold distinct_fst_sort_key)
  ultimately have "reads (''d'' @ concat (map (\<lambda>(k, s, v). encode_string k @ s) ?es) @ ''e'')
      (BDict (map (\<lambda>(k, s, v). (k, v)) ?es))" by (rule reads_dict)
  then show ?case unfolding encode_dict canon_dict by (simp add: comp_def case_prod_unfold map_prod_def)
qed

lemma parse_data_reads: "reads s v \<Longrightarrow> length (s @ suf) < 2 ^ 64 \<Longrightarrow> parse_data (s @ suf) = Some (Inr (v, length s))"
  using readsD(4) [of s v "[]" suf "length s"] by (intro parse_data_Some [of "length s"]) simp

lemma parse_data_encode:
  assumes "bval_ok v" "length (encode v @ suf) < 2 ^ 64"
  shows "parse_data (encode v @ suf) = Some (Inr (canon v, length (encode v)))"
  using parse_data_reads [OF reads_encode [OF assms(1)] assms(2)] .

section \<open>Canonical values\<close>

lemma map_of_sort_key: "distinct (map fst ps) \<Longrightarrow> map_of (sort_key f ps) = map_of ps"
  by (subst map_of_inject_set) (auto simp: distinct_fst_sort_key)

lemma map_of_map_snd: "map_of (map (map_prod id g) ps) k = map_option g (map_of ps k)"
  by (induction ps) auto

lemma canon_lookup:
  "canon (BDict ps) = BDict qs \<Longrightarrow> distinct (map fst ps) \<Longrightarrow> map_of qs k = map_option canon (map_of ps k)"
  by (auto simp: canon_dict map_of_map_snd map_of_sort_key simp del: canon.simps)

lemma encode_canon: "encode (canon v) = encode v"
proof (induction v)
  case (BList vs)
  then show ?case by (simp add: comp_def cong: map_cong)
next
  case (BDict ps)
  let ?f = "\<lambda>(k, v). encode_string k @ encode v"
  have eq: "map ?f (map (map_prod id canon) xs) = map ?f xs" if "set xs \<subseteq> set ps" for xs
    using that BDict by (induction xs) (auto simp: snds.simps)
  have "map ?f (map (map_prod id canon) (sort_key fst ps)) = map ?f (sort_key fst ps)"
    by (rule eq) simp
  moreover have "sort_key fst (map (map_prod id canon) (sort_key fst ps)) = map (map_prod id canon) (sort_key fst ps)"
    by (rule sort_key_id_if_sorted) (simp add: comp_def)
  ultimately show ?case by (simp only: canon_dict encode_dict)
qed simp_all

text \<open>The encoder with the parser as a codec on canonical values.\<close>

interpretation bencode: codec encode
    "\<lambda>s. case parse_data s of Some (Inr (v, n)) \<Rightarrow> Some v | _ \<Rightarrow> None"
    "\<lambda>v. bval_ok v \<and> canon v = v \<and> length (encode v) < 2 ^ 64"
  using parse_data_encode [where suf = "[]"] by unfold_locales simp

section \<open>Properties\<close>

text \<open>C1: Parsing what the encoder printed, whatever follows it, gives the value back with its
  dictionaries in key order, and consumes exactly the printed text.\<close>

theorem bencode_roundtrip:
  assumes "bval_ok v" "length (encode v @ suf) < 2 ^ 64"
  shows "parse_data (encode v @ suf) = Some (Inr (canon v, length (encode v)))"
  using assms by (rule parse_data_encode)

theorem bencode_roundtrip_witness:
  "parse_data (encode (BDict [(''b'', BInt (-7)), (''a'', BList [BStr ''xy''])]) @ ''tail'') =
     Some (Inr (BDict [(''a'', BList [BStr ''xy'']), (''b'', BInt (-7))], 18))"
proof -
  let ?v = "BDict [(''b'', BInt (-7)), (''a'', BList [BStr ''xy''])]"
  have c: "canon ?v = BDict [(''a'', BList [BStr ''xy'']), (''b'', BInt (-7))]" by simp
  have l: "length (encode ?v) = 18" by (simp add: encode_string_def show_int_def show_nat.simps)
  then have "length (encode ?v @ ''tail'') < 2 ^ 64" by (simp only: length_append) simp
  moreover have "bval_ok ?v" by simp
  ultimately show ?thesis using bencode_roundtrip [of ?v "''tail''"] by (simp only: c l)
qed

text \<open>The parser's fuel decides termination: the model gives no result exactly on the
  inputs whose recursion does not return with any amount of fuel.\<close>

theorem bencode_none_iff_diverges: "parse_data d = None \<longleftrightarrow> (\<forall>f. parse_value f d 0 = None)"
  by (rule parse_data_complete)

text \<open>C39: The parser returns, with a value or an exception, on every input in which no string
  length wraps around when it is added to its position.\<close>

theorem bencode_returns: "lengths_bounded d \<Longrightarrow> \<exists>r. parse_data d = Some r"
  by (rule parse_data_returns)

lemma bencode_returns_witness: "\<exists>r. parse_data ''l1:xe'' = Some r"
proof (rule bencode_returns)
  show "lengths_bounded ''l1:xe''"
    by (simp add: lengths_bounded_def atMost_Suc lessThan_Suc stoul_def scan_num_def substr_def
        c_isspace_def c_isdigit_def dec_val_def digit_val_def)
qed

text \<open>A negative string length moves the position backwards, so that the parser recurses
  forever on the four bytes \<open>d-4:\<close> (and the stack overflows).\<close>

theorem bencode_wrapped_length_diverges: "parse_value f ''d-4:'' 0 = None"
proof -
  let ?d = "''d-4:''"
  have "stoul ''-4'' = Inr (2 ^ 64 - 4)"
    by (simp add: stoul_def scan_num_def c_isspace_def c_isdigit_def dec_val_def digit_val_def)
  then have s: "parse_string ?d 1 = Inr ([], 0)"
    by (simp add: parse_string_def find_char_def substr_def u64_add_def)
  have "parse_value f ?d 0 = None \<and> parse_dict f ?d 1 = None"
    by (induction f) (simp_all add: parse_unfold s [simplified])
  then show ?thesis ..
qed

text \<open>Two values have the same encoding exactly when they are equal up to the order in
  which the unordered maps list their keys.\<close>

theorem encode_eq_iff:
  assumes "bval_ok v" "bval_ok w" "length (encode v) < 2 ^ 64" "length (encode w) < 2 ^ 64"
  shows "encode v = encode w \<longleftrightarrow> canon v = canon w"
proof
  assume "encode v = encode w"
  with parse_data_encode [of v "[]"] parse_data_encode [of w "[]"] assms show "canon v = canon w" by simp
next
  assume "canon v = canon w"
  then show "encode v = encode w" by (metis encode_canon)
qed

lemma encode_eq_iff_witness:
  "encode (BDict [(''b'', BInt 1), (''a'', BInt 2)]) = encode (BDict [(''a'', BInt 2), (''b'', BInt 1)])"
proof -
  let ?v = "BDict [(''b'', BInt 1), (''a'', BInt 2)]" and ?w = "BDict [(''a'', BInt 2), (''b'', BInt 1)]"
  have "bval_ok ?v" "bval_ok ?w" "canon ?v = canon ?w" by simp_all
  moreover have "length (encode ?v) < 2 ^ 64" "length (encode ?w) < 2 ^ 64"
    by (simp_all add: encode_string_def show_int_def show_nat.simps)
  ultimately show ?thesis using encode_eq_iff [of ?v ?w] by blast
qed

end
