(* ===== verification/Sha1.thy ===== *)
theory Sha1
  imports Interfaces
begin

text \<open>
  \<open>src/crypto/sha1.cpp\<close>: the incremental SHA-1 object, as a record passed through
  \<open>update\<close>, \<open>process_block\<close> and \<open>finalize\<close>, against the padding and round
  definitions of FIPS 180.  The object is an interpretation of the \<open>digest\<close> interface.
\<close>

declare upt_rec_numeral [simp del]

section \<open>State and block function\<close>

record sha1 =
  sh :: "32 word list"
  slength :: nat
  sindex :: nat
  sbuffer :: "byte list"

definition sha1_h0 :: "32 word list" where
  "sha1_h0 = [0x67452301, 0xEFCDAB89, 0x98BADCFE, 0x10325476, 0xC3D2E1F0]"

definition sha1_reset :: "sha1 \<Rightarrow> sha1" where
  "sha1_reset s = s\<lparr>sh := sha1_h0, slength := 0, sindex := 0\<rparr>"

definition sha1_new :: "byte list \<Rightarrow> sha1" where
  "sha1_new garbage = sha1_reset \<lparr>sh = [], slength = 0, sindex = 0, sbuffer = garbage\<rparr>"

definition load_word :: "byte list \<Rightarrow> nat \<Rightarrow> 32 word" where
  "load_word buf i = load32 (buf ! (i * 4)) (buf ! (i * 4 + 1)) (buf ! (i * 4 + 2)) (buf ! (i * 4 + 3))"

definition schedule_step :: "32 word list \<Rightarrow> nat \<Rightarrow> 32 word list" where
  "schedule_step w i =
     (let x = w ! (i - 3) XOR w ! (i - 8) XOR w ! (i - 14) XOR w ! (i - 16)
      in w @ [push_bit 1 x OR drop_bit 31 x])"

definition schedule :: "byte list \<Rightarrow> 32 word list" where
  "schedule buf = foldl schedule_step (map (load_word buf) [0..<16]) [16..<80]"

type_synonym sha1_regs = "32 word \<times> 32 word \<times> 32 word \<times> 32 word \<times> 32 word"

definition round_f :: "nat \<Rightarrow> 32 word \<Rightarrow> 32 word \<Rightarrow> 32 word \<Rightarrow> 32 word" where
  "round_f i b c d =
     (if i < 20 then (b AND c) OR (NOT b AND d)
      else if i < 40 then b XOR c XOR d
      else if i < 60 then (b AND c) OR (b AND d) OR (c AND d)
      else b XOR c XOR d)"

definition round_k :: "nat \<Rightarrow> 32 word" where
  "round_k i =
     (if i < 20 then 0x5A827999 else if i < 40 then 0x6ED9EBA1
      else if i < 60 then 0x8F1BBCDC else 0xCA62C1D6)"

definition sha1_round :: "32 word list \<Rightarrow> sha1_regs \<Rightarrow> nat \<Rightarrow> sha1_regs" where
  "sha1_round w r i =
     (case r of (a, b, c, d, e) \<Rightarrow>
        (let temp = (push_bit 5 a OR drop_bit 27 a) + round_f i b c d + e + round_k i + w ! i
         in (temp, a, push_bit 30 b OR drop_bit 2 b, c, d)))"

definition compress :: "32 word list \<Rightarrow> byte list \<Rightarrow> 32 word list" where
  "compress h buf =
     (case foldl (sha1_round (schedule buf)) (h ! 0, h ! 1, h ! 2, h ! 3, h ! 4) [0..<80] of
        (a, b, c, d, e) \<Rightarrow> [h ! 0 + a, h ! 1 + b, h ! 2 + c, h ! 3 + d, h ! 4 + e])"

definition process_block :: "sha1 \<Rightarrow> sha1" where
  "process_block s = s\<lparr>sh := compress (sh s) (sbuffer s)\<rparr>"

section \<open>Update and finalize\<close>

text \<open>
  The copy loop of \<open>update\<close>.  The index is below 64 on entry (\<open>sha1_inv\<close>); the guard on it
  only makes the function total.
\<close>

function sha1_absorb :: "sha1 \<Rightarrow> byte list \<Rightarrow> sha1" where
  "sha1_absorb s data =
     (if data = [] \<or> 64 \<le> sindex s then s
      else let n = min (length data) (64 - sindex s);
               s1 = s\<lparr>sbuffer := put_bytes (sbuffer s) (sindex s) (take n data),
                      sindex := sindex s + n\<rparr>;
               s2 = (if sindex s1 = 64 then (process_block s1)\<lparr>sindex := 0\<rparr> else s1)
           in sha1_absorb s2 (drop n data))"
  by pat_completeness auto
termination
  by (relation "measure (\<lambda>(s, data). length data)") auto

declare sha1_absorb.simps [simp del]

definition sha1_update :: "sha1 \<Rightarrow> byte list \<Rightarrow> sha1" where
  "sha1_update s data = sha1_absorb (s\<lparr>slength := u64_add (slength s) (length data)\<rparr>) data"

definition sha1_pad :: "sha1 \<Rightarrow> sha1" where
  "sha1_pad s =
     (let s1 = s\<lparr>sbuffer := put_bytes (sbuffer s) (sindex s) [0x80], sindex := sindex s + 1\<rparr>;
          s2 = (if 56 < sindex s1
                then (process_block (s1\<lparr>sbuffer := put_bytes (sbuffer s1) (sindex s1)
                        (replicate (64 - sindex s1) 0)\<rparr>))\<lparr>sindex := 0\<rparr>
                else s1);
          s3 = s2\<lparr>sbuffer := put_bytes (sbuffer s2) (sindex s2) (replicate (56 - sindex s2) 0)\<rparr>;
          s4 = s3\<lparr>sbuffer := put_bytes (sbuffer s3) 56 (be_bytes 8 (u64_mul (slength s3) 8))\<rparr>
      in process_block s4)"

definition sha1_finalize :: "sha1 \<Rightarrow> byte list \<times> sha1" where
  "sha1_finalize s = (let t = sha1_pad s in (concat (map store32 (sh t)), sha1_reset t))"

definition sha1_hash :: "byte list \<Rightarrow> byte list" where
  "sha1_hash data = fst (sha1_finalize (sha1_update (sha1_new (replicate 64 0)) data))"

section \<open>FIPS 180 reference\<close>

definition fips_pad :: "byte list \<Rightarrow> byte list" where
  "fips_pad m = m @ [0x80] @ replicate ((119 - length m mod 64) mod 64) 0 @ be_bytes 8 (8 * length m)"

definition fips_f :: "nat \<Rightarrow> 32 word \<Rightarrow> 32 word \<Rightarrow> 32 word \<Rightarrow> 32 word" where
  "fips_f t x y z =
     (if t < 20 then (x AND y) XOR (NOT x AND z)
      else if 40 \<le> t \<and> t < 60 then (x AND y) XOR (x AND z) XOR (y AND z)
      else x XOR y XOR z)"

definition fips_round :: "32 word list \<Rightarrow> sha1_regs \<Rightarrow> nat \<Rightarrow> sha1_regs" where
  "fips_round w r t =
     (case r of (a, b, c, d, e) \<Rightarrow>
        (word_rotl 5 a + fips_f t b c d + e + round_k t + w ! t, a, word_rotl 30 b, c, d))"

definition fips_schedule :: "byte list \<Rightarrow> 32 word list" where
  "fips_schedule buf = foldl
     (\<lambda>w t. w @ [word_rotl 1 (w ! (t - 3) XOR w ! (t - 8) XOR w ! (t - 14) XOR w ! (t - 16))])
     (map (\<lambda>c. word_of_nat (be_val c)) (chunks 4 buf)) [16..<80]"

definition fips_compress :: "32 word list \<Rightarrow> byte list \<Rightarrow> 32 word list" where
  "fips_compress h buf =
     (case foldl (fips_round (fips_schedule buf)) (h ! 0, h ! 1, h ! 2, h ! 3, h ! 4) [0..<80] of
        (a, b, c, d, e) \<Rightarrow> map2 (+) [h ! 0, h ! 1, h ! 2, h ! 3, h ! 4] [a, b, c, d, e])"

definition fips_sha1 :: "byte list \<Rightarrow> byte list" where
  "fips_sha1 m = concat (map (\<lambda>x. be_bytes 4 (unat x))
     (foldl fips_compress sha1_h0 (chunks 64 (fips_pad m))))"

section \<open>The block function is the reference one\<close>

lemma rotl_or: "n < 32 \<Longrightarrow> push_bit n (x :: 32 word) OR drop_bit (32 - n) x = word_rotl n x"
proof (rule bit_word_eqI)
  fix k
  assume n: "n < 32" and "k < LENGTH(32)"
  then have "(k + 32 - n) mod 32 = (if n \<le> k then k - n else 32 + k - n)"
    by (auto simp: mod_if)
  then show "bit (push_bit n x OR drop_bit (32 - n) x) k \<longleftrightarrow> bit (word_rotl n x) k"
    using n \<open>k < LENGTH(32)\<close> bit_imp_le_length [of x "32 + k - n"] by (auto simp: bit_simps)
qed

lemma round_f_fips: "round_f t x y z = fips_f t x y z"
  by (rule bit_word_eqI) (auto simp: round_f_def fips_f_def bit_simps)

lemma sha1_round_fips: "sha1_round w r t = fips_round w r t"
  using rotl_or [of 5] rotl_or [of 30]
  by (auto simp: sha1_round_def fips_round_def round_f_fips Let_def)

lemma load_word_be:
  assumes "length buf = 64" "i < 16"
  shows "load_word buf i = word_of_nat (be_val (chunks 4 buf ! i))"
proof -
  have "chunks 4 buf ! i = take 4 (drop (i * 4) buf)" using assms by (simp add: nth_chunks)
  moreover have "length (take 4 (drop (i * 4) buf)) = 4" using assms by simp
  ultimately have "chunks 4 buf ! i = [buf ! (i * 4), buf ! (i * 4 + 1), buf ! (i * 4 + 2), buf ! (i * 4 + 3)]"
    using list4 assms by fastforce
  then show ?thesis by (simp only: load_word_def load32_be)
qed

lemma fips_schedule_eq: "length buf = 64 \<Longrightarrow> schedule buf = fips_schedule buf"
proof -
  assume l: "length buf = 64"
  have "map (load_word buf) [0..<16] = map (\<lambda>c. word_of_nat (be_val c)) (chunks 4 buf)"
  proof (rule nth_equalityI)
    fix i
    assume "i < length (map (load_word buf) [0..<16])"
    then show "map (load_word buf) [0..<16] ! i = map (\<lambda>c. word_of_nat (be_val c)) (chunks 4 buf) ! i"
      using l by (simp add: load_word_be length_chunks)
  qed (simp add: l length_chunks)
  moreover have "schedule_step = (\<lambda>w t.
      w @ [word_rotl 1 (w ! (t - 3) XOR w ! (t - 8) XOR w ! (t - 14) XOR w ! (t - 16))])"
    using rotl_or [of 1] by (intro ext) (simp add: schedule_step_def Let_def)
  ultimately show ?thesis by (simp only: schedule_def fips_schedule_def)
qed

lemma compress_fips: "length buf = 64 \<Longrightarrow> compress h buf = fips_compress h buf"
  by (simp add: compress_def fips_compress_def fips_schedule_eq sha1_round_fips [abs_def] split: prod.split)

lemma length_compress [simp]: "length (compress h buf) = 5"
  by (simp add: compress_def split: prod.split)

section \<open>Buffering\<close>

definition blocks_hash :: "byte list \<Rightarrow> 32 word list" where
  "blocks_hash m = foldl compress sha1_h0 (chunks 64 m)"

text \<open>\<open>s\<close> has absorbed the message \<open>m\<close>: whole blocks are hashed, the rest is buffered.\<close>

definition buffers :: "sha1 \<Rightarrow> byte list \<Rightarrow> bool" where
  "buffers s m \<longleftrightarrow>
     sh s = blocks_hash m \<and> sindex s = length m mod 64 \<and> length (sbuffer s) = 64 \<and>
     take (sindex s) (sbuffer s) = drop (64 * (length m div 64)) m"

definition absorbed :: "sha1 \<Rightarrow> byte list \<Rightarrow> bool" where
  "absorbed s m \<longleftrightarrow> buffers s m \<and> slength s = length m mod 2 ^ 64"

lemma blocks_hash_append: "64 dvd length m \<Longrightarrow> blocks_hash (m @ b) = foldl compress (blocks_hash m) (chunks 64 b)"
  by (simp add: blocks_hash_def chunks_append_dvd)

lemma blocks_hash_partial:
  "blocks_hash m = blocks_hash (take (64 * (length m div 64)) m)"
proof -
  let ?t = "take (64 * (length m div 64)) m" and ?r = "drop (64 * (length m div 64)) m"
  have "length ?r = length m mod 64" by (simp add: minus_mult_div_eq_mod)
  then have "chunks 64 ?r = []" by simp
  moreover have "64 dvd length ?t" by (simp add: min_absorb2)
  ultimately have "blocks_hash (?t @ ?r) = blocks_hash ?t" by (subst blocks_hash_append) simp_all
  then show ?thesis by simp
qed

lemma blocks_hash_step:
  assumes "length m mod 64 + length b = 64"
  shows "blocks_hash (m @ b) = compress (blocks_hash m) (drop (64 * (length m div 64)) m @ b)"
proof -
  let ?t = "take (64 * (length m div 64)) m" and ?r = "drop (64 * (length m div 64)) m"
  have "length ?r = length m mod 64" by (simp add: minus_mult_div_eq_mod)
  with assms have "chunks 64 (?r @ b) = [?r @ b]" by (simp add: chunks.simps)
  moreover have "64 dvd length ?t" by (simp add: min_absorb2)
  ultimately have "blocks_hash (?t @ ?r @ b) = compress (blocks_hash ?t) (?r @ b)"
    by (subst blocks_hash_append) simp_all
  then show ?thesis using blocks_hash_partial [of m] by (metis append.assoc append_take_drop_id)
qed

lemma absorb_step:
  assumes b: "buffers s m" and d: "d \<noteq> []" "length d \<le> 64 - sindex s"
    and s1: "s1 = s\<lparr>sbuffer := put_bytes (sbuffer s) (sindex s) d, sindex := sindex s + length d\<rparr>"
  shows "buffers (if sindex s1 = 64 then (process_block s1)\<lparr>sindex := 0\<rparr> else s1) (m @ d)"
proof -
  from b have i: "sindex s = length m mod 64" "length (sbuffer s) = 64"
    and r: "take (sindex s) (sbuffer s) = drop (64 * (length m div 64)) m"
    and h: "sh s = blocks_hash m" by (auto simp: buffers_def)
  have lt: "sindex s < 64" using i by simp
  have len: "length (m @ d) = 64 * (length m div 64) + (sindex s + length d)" using i(1) by simp
  show ?thesis
  proof (cases "sindex s + length d = 64")
    case True
    have "sbuffer s1 = drop (64 * (length m div 64)) m @ d"
      using True i(2) r by (simp add: s1 put_bytes_full)
    moreover have "blocks_hash (m @ d) = compress (blocks_hash m) (drop (64 * (length m div 64)) m @ d)"
      using True i(1) by (intro blocks_hash_step) simp
    moreover have "length (m @ d) = 64 * (length m div 64 + 1)" using len True by simp
    then have "length (m @ d) mod 64 = 0" "64 * (length (m @ d) div 64) = length (m @ d)" by simp_all
    moreover have "length (sbuffer s1) = 64" using True i(2) by (simp add: s1)
    ultimately show ?thesis using True h by (simp add: buffers_def process_block_def s1)
  next
    case False
    with d(2) lt have lt': "sindex s + length d < 64" by simp
    have q: "length (m @ d) div 64 = length m div 64" "length (m @ d) mod 64 = sindex s + length d"
      using len lt' by (simp_all add: div_mult_self4 del: length_append)
    then have "blocks_hash (m @ d) = blocks_hash m"
      using blocks_hash_partial [of "m @ d"] blocks_hash_partial [of m] by simp
    moreover have "take (sindex s1) (sbuffer s1) = drop (64 * (length m div 64)) m @ d"
      using i(2) lt r by (simp add: s1 take_put_bytes)
    ultimately show ?thesis using False q h i(2) lt' by (simp add: buffers_def s1 del: length_append)
  qed
qed

lemma absorb_buffers: "buffers s m \<Longrightarrow> buffers (sha1_absorb s d) (m @ d)"
proof (induction s d arbitrary: m rule: sha1_absorb.induct)
  case (1 s data)
  show ?case
  proof (cases "data = []")
    case True
    then show ?thesis using 1(2) by (simp add: sha1_absorb.simps)
  next
    case False
    let ?n = "min (length data) (64 - sindex s)"
    let ?d = "take ?n data"
    let ?s1 = "s\<lparr>sbuffer := put_bytes (sbuffer s) (sindex s) ?d, sindex := sindex s + ?n\<rparr>"
    let ?s2 = "if sindex ?s1 = 64 then (process_block ?s1)\<lparr>sindex := 0\<rparr> else ?s1"
    have lt: "sindex s < 64" using 1(2) by (simp add: buffers_def)
    have "buffers ?s2 (m @ ?d)"
      by (rule absorb_step [OF 1(2), of ?d]) (use False lt in auto)
    then have "buffers (sha1_absorb ?s2 (drop ?n data)) ((m @ ?d) @ drop ?n data)"
      using False lt by (intro 1(1)) auto
    then show ?thesis using False lt by (subst sha1_absorb.simps) (simp add: Let_def)
  qed
qed

lemma slength_absorb [simp]: "slength (sha1_absorb s d) = slength s"
proof (induction s d rule: sha1_absorb.induct)
  case (1 s data)
  then show ?case by (subst sha1_absorb.simps) (simp add: Let_def process_block_def)
qed

lemma absorbed_update: "absorbed s m \<Longrightarrow> absorbed (sha1_update s d) (m @ d)"
proof -
  assume a: "absorbed s m"
  have "buffers (s\<lparr>slength := u64_add (slength s) (length d)\<rparr>) m"
    using a unfolding absorbed_def buffers_def by auto
  then have "buffers (sha1_update s d) (m @ d)" by (simp add: sha1_update_def absorb_buffers)
  moreover have "slength (sha1_update s d) = length (m @ d) mod 2 ^ 64"
    using a by (simp add: sha1_update_def absorbed_def u64_add_def mod_add_left_eq)
  ultimately show ?thesis by (simp add: absorbed_def)
qed

lemma absorbed_new: "length g = 64 \<Longrightarrow> absorbed (sha1_new g) []"
  by (simp add: absorbed_def buffers_def sha1_new_def sha1_reset_def blocks_hash_def)

section \<open>Padding\<close>

lemma length_fips_pad: "64 dvd length (fips_pad m)"
proof -
  have "length (fips_pad m) = 64 * (length m div 64) + (length m mod 64 + 9 + (119 - length m mod 64) mod 64)"
    by (simp add: fips_pad_def)
  also have "length m mod 64 + 9 + (119 - length m mod 64) mod 64 = (if length m mod 64 < 56 then 64 else 128)"
  proof -
    have "x + 9 + (119 - x) mod 64 = (if x < 56 then 64 else 128)" if "x < 64" for x :: nat
      using that by (auto simp: mod_if)
    then show ?thesis by simp
  qed
  finally show ?thesis by auto
qed

lemma pad_hash:
  assumes "absorbed s m"
  shows "sh (sha1_pad s) = blocks_hash (fips_pad m)"
proof -
  let ?i = "sindex s" and ?b = "sbuffer s"
  let ?r = "drop (64 * (length m div 64)) m" and ?t = "take (64 * (length m div 64)) m"
  let ?L = "be_bytes 8 (8 * length m)"
  from assms have i: "?i = length m mod 64" "length ?b = 64" and r: "take ?i ?b = ?r"
    and h: "sh s = blocks_hash m" and l: "slength s = length m mod 2 ^ 64"
    unfolding absorbed_def buffers_def by blast+
  have lt: "?i < 64" using i by simp
  have lr: "length ?r = ?i" using i(1) by (simp add: minus_mult_div_eq_mod)
  have dvd: "64 dvd length ?t" by (simp add: min_absorb2)
  have L: "be_bytes 8 (u64_mul (slength s) 8) = ?L"
  proof -
    have "u64_mul (slength s) 8 = (8 * length m) mod 256 ^ 8"
      using l by (simp add: u64_mul_def mult.commute mod_mult_right_eq)
    then show ?thesis by (simp only: be_bytes_mod)
  qed
  have spec: "blocks_hash (?t @ ?r @ p) = foldl compress (sh s) (chunks 64 (?r @ p))" for p
    using blocks_hash_append [OF dvd] blocks_hash_partial [of m] h by simp
  define b1 where "b1 = put_bytes ?b ?i [0x80]"
  have b1: "length b1 = 64" "take (?i + 1) b1 = ?r @ [0x80]"
    using lt i(2) r take_put_bytes [of ?i ?b "[0x80]"] by (simp_all add: b1_def)
  show ?thesis
  proof (cases "?i < 56")
    case True
    define b3 where "b3 = put_bytes b1 (?i + 1) (replicate (56 - (?i + 1)) 0)"
    have b3: "length b3 = 64" "take 56 b3 = ?r @ [0x80] @ replicate (55 - ?i) 0"
      using True b1 take_put_bytes [of "?i + 1" b1 "replicate (56 - (?i + 1)) 0"]
      by (simp_all add: b3_def)
    have "sh (sha1_pad s) = compress (sh s) (put_bytes b3 56 ?L)"
      using True by (simp add: sha1_pad_def Let_def process_block_def b1_def b3_def L)
    also have "put_bytes b3 56 ?L = ?r @ [0x80] @ replicate (55 - ?i) 0 @ ?L"
      using b3 by (simp add: put_bytes_full)
    finally have "sh (sha1_pad s) = compress (sh s) (?r @ [0x80] @ replicate (55 - ?i) 0 @ ?L)" .
    moreover have "(119 - ?i) mod 64 = 55 - ?i" using True by (simp add: mod_if)
    then have "fips_pad m = ?t @ ?r @ [0x80] @ replicate (55 - ?i) 0 @ ?L"
      using i(1) by (simp add: fips_pad_def)
    moreover have "chunks 64 (?r @ [0x80] @ replicate (55 - ?i) 0 @ ?L) =
        [?r @ [0x80] @ replicate (55 - ?i) 0 @ ?L]"
      using chunks_append [of "?r @ [0x80] @ replicate (55 - ?i) 0 @ ?L" 64 "[]"] lr True by simp
    ultimately show ?thesis by (simp only: spec) simp
  next
    case False
    define b2 where "b2 = put_bytes b1 (?i + 1) (replicate (63 - ?i) 0)"
    have b2: "b2 = ?r @ [0x80] @ replicate (63 - ?i) 0" "length b2 = 64"
      using False lt b1 lr by (simp_all add: b2_def put_bytes_full del: length_drop)
    define b3 where "b3 = put_bytes b2 0 (replicate 56 0)"
    have b3: "length b3 = 64" "take 56 b3 = replicate 56 0"
      using b2 take_put_bytes [of 0 b2 "replicate 56 0"] by (simp_all add: b3_def)
    have "sh (sha1_pad s) = compress (compress (sh s) b2) (put_bytes b3 56 ?L)"
      using False by (simp add: sha1_pad_def Let_def process_block_def b1_def b2_def b3_def L)
    also have "put_bytes b3 56 ?L = replicate 56 0 @ ?L" using b3 by (simp add: put_bytes_full)
    finally have "sh (sha1_pad s) = compress (compress (sh s) b2) (replicate 56 0 @ ?L)" .
    moreover have "(119 - ?i) mod 64 = 63 - ?i + 56" using False lt by (simp add: mod_if)
    then have "replicate ((119 - length m mod 64) mod 64) (0 :: byte) = replicate (63 - ?i) 0 @ replicate 56 0"
      using i(1) by (simp only: replicate_add)
    then have "fips_pad m = ?t @ ?r @ [0x80] @ replicate (63 - ?i) 0 @ replicate 56 0 @ ?L"
      unfolding fips_pad_def by (simp only: append.assoc) simp
    moreover have "chunks 64 (?r @ [0x80] @ replicate (63 - ?i) 0 @ replicate 56 0 @ ?L) =
        [b2, replicate 56 0 @ ?L]"
      using chunks_append [of b2 64 "replicate 56 0 @ ?L"] b2
        chunks_append [of "replicate 56 0 @ ?L" 64 "[]"] by simp
    ultimately show ?thesis by (simp only: spec) simp
  qed
qed

lemma foldl_compress_fips:
  "\<forall>c \<in> set cs. length c = 64 \<Longrightarrow> foldl compress h cs = foldl fips_compress h cs"
  by (induction cs arbitrary: h) (auto simp: compress_fips)

lemma finalize_fips: "absorbed s m \<Longrightarrow> fst (sha1_finalize s) = fips_sha1 m"
proof -
  assume a: "absorbed s m"
  have "fst (sha1_finalize s) = concat (map store32 (sh (sha1_pad s)))"
    by (simp add: sha1_finalize_def Let_def)
  also have "\<dots> = concat (map store32 (blocks_hash (fips_pad m)))" by (simp only: pad_hash [OF a])
  also have "blocks_hash (fips_pad m) = foldl fips_compress sha1_h0 (chunks 64 (fips_pad m))"
    unfolding blocks_hash_def by (rule foldl_compress_fips) (auto dest: chunks_elem_length)
  finally show ?thesis by (simp add: fips_sha1_def store32_be [abs_def])
qed

interpretation sha: digest "sha1_new (replicate 64 0)" sha1_update "\<lambda>s. fst (sha1_finalize s)"
    absorbed fips_sha1
  by unfold_locales (auto simp: absorbed_new absorbed_update finalize_fips)

lemma sha1_hash_fips: "sha1_hash m = fips_sha1 m"
  by (simp add: sha1_hash_def sha.one_shot)

lemma length_foldl_compress: "length h = 5 \<Longrightarrow> length (foldl compress h cs) = 5"
  by (induction cs arbitrary: h) auto

lemma length_sha1_hash [simp]: "length (sha1_hash m) = 20"
proof -
  have "length (foldl compress sha1_h0 (chunks 64 (fips_pad m))) = 5"
    by (rule length_foldl_compress) (simp add: sha1_h0_def)
  moreover have "foldl compress sha1_h0 (chunks 64 (fips_pad m)) = foldl fips_compress sha1_h0 (chunks 64 (fips_pad m))"
    by (rule foldl_compress_fips) (auto dest: chunks_elem_length)
  ultimately show ?thesis
    by (simp add: sha1_hash_fips fips_sha1_def length_concat comp_def sum_list_triv)
qed

section \<open>Properties\<close>

text \<open>C3: However the data is cut into calls of \<open>update\<close>, and whatever the buffer held before,
  \<open>finalize\<close> returns the FIPS 180 digest of the concatenated data.\<close>

theorem sha1_incremental:
  assumes "length garbage = 64"
  shows "fst (sha1_finalize (foldl sha1_update (sha1_new garbage) ds)) = fips_sha1 (concat ds)"
proof -
  have "absorbed (foldl sha1_update (sha1_new garbage) ds) ([] @ concat ds)"
    using absorbed_new [OF assms] by (rule sha.foldl_absorbed)
  then show ?thesis by (simp add: finalize_fips)
qed

theorem sha1_incremental_witness:
  "fst (sha1_finalize (foldl sha1_update (sha1_new (replicate 64 7)) [[1, 2], [], [3]])) = fips_sha1 [1, 2, 3]"
  using sha1_incremental [of "replicate 64 7" "[[1, 2], [], [3]]"] by simp

end
