(* ===== verification/Torrent_Metadata.thy ===== *)
theory Torrent_Metadata
  imports Bencode Sha1
begin

text \<open>
  \<open>src/torrent/metadata.cpp\<close>: from the bencoded root dictionary to the torrent's metadata,
  with every exception as a left injection, and the lookup of the file at a global offset.
\<close>

section \<open>Data\<close>

record torrent_file =
  tf_path :: string
  tf_length :: nat
  tf_offset :: "nat option"

record torrent_metadata =
  announce :: string
  announce_list :: "string list"
  info_hash :: "byte list"
  tname :: string
  piece_length :: nat
  piece_hashes :: "byte list list"
  total_length :: nat
  files :: "torrent_file list"

definition is_single_file :: "torrent_metadata \<Rightarrow> bool" where
  "is_single_file m \<longleftrightarrow> length (files m) = 1"

section \<open>Announce tiers\<close>

definition add_url :: "string list \<Rightarrow> bval \<Rightarrow> string list" where
  "add_url urls v = (case v of BStr u \<Rightarrow> if u \<in> set urls then urls else urls @ [u] | _ \<Rightarrow> urls)"

definition add_tier :: "string list \<Rightarrow> bval \<Rightarrow> string list" where
  "add_tier urls tier = (case tier of BList us \<Rightarrow> foldl add_url urls us | _ \<Rightarrow> urls)"

definition collect_announce :: "string \<Rightarrow> bval option \<Rightarrow> string list" where
  "collect_announce a al = (case al of Some (BList tiers) \<Rightarrow> foldl add_tier [a] tiers | _ \<Rightarrow> [a])"

section \<open>Files\<close>

text \<open>\<open>std::filesystem::path::operator/=\<close> on POSIX: an absolute right side replaces the path.\<close>

definition path_append :: "string \<Rightarrow> string \<Rightarrow> string" where
  "path_append p q =
     (if p = [] \<or> q \<noteq> [] \<and> hd q = CHR ''/'' then q
      else if last p = CHR ''/'' then p @ q
      else p @ ''/'' @ q)"

fun path_components :: "string \<Rightarrow> bval list \<Rightarrow> string res" where
  "path_components p [] = Inr p"
| "path_components p (BStr c # cs) = path_components (path_append p c) cs"
| "path_components p (_ # cs) = Inl ''Invalid path component''"

definition parse_file :: "string \<Rightarrow> nat \<Rightarrow> bval \<Rightarrow> torrent_file res" where
  "parse_file name offset v =
     (case v of
        BDict d \<Rightarrow>
          (case map_of d ''length'' of
             Some (BInt len) \<Rightarrow>
               (case map_of d ''path'' of
                  Some (BList cs) \<Rightarrow>
                    ebind (path_components name cs) (\<lambda>p.
                      Inr \<lparr>tf_path = p, tf_length = u64_of_int len, tf_offset = Some offset\<rparr>)
                | _ \<Rightarrow> Inl ''Missing or invalid file path'')
           | _ \<Rightarrow> Inl ''Missing or invalid file length'')
      | _ \<Rightarrow> Inl ''Invalid file entry: must be a dictionary'')"

fun parse_files :: "string \<Rightarrow> nat \<Rightarrow> bval list \<Rightarrow> torrent_file list res" where
  "parse_files name offset [] = Inr []"
| "parse_files name offset (v # vs) =
     ebind (parse_file name offset v) (\<lambda>f.
     ebind (parse_files name (u64_add offset (tf_length f)) vs) (\<lambda>fs. Inr (f # fs)))"

definition sum_lengths :: "torrent_file list \<Rightarrow> nat" where
  "sum_lengths fs = foldl (\<lambda>n f. u64_add n (tf_length f)) 0 fs"

definition parse_pieces :: "string \<Rightarrow> byte list list res" where
  "parse_pieces s =
     (if length s mod 20 \<noteq> 0 then Inl ''Invalid pieces data length''
      else Inr (map (\<lambda>i. bytes_of_string (take 20 (drop (i * 20) s))) [0..<length s div 20]))"

section \<open>The metadata parser\<close>

definition file_table :: "string \<Rightarrow> (string \<times> bval) list \<Rightarrow> (torrent_file list \<times> nat) res" where
  "file_table name info =
     (case map_of info ''length'' of
        Some (BInt len) \<Rightarrow>
          Inr ([\<lparr>tf_path = name, tf_length = u64_of_int len, tf_offset = Some 0\<rparr>], u64_of_int len)
      | _ \<Rightarrow>
          (case map_of info ''files'' of
             Some (BList vs) \<Rightarrow> ebind (parse_files name 0 vs) (\<lambda>fs. Inr (fs, sum_lengths fs))
           | _ \<Rightarrow> Inl (''Invalid torrent: must have either '' @ CHR 0x27 # ''length'' @ CHR 0x27 #
               '' or '' @ CHR 0x27 # ''files'' @ [CHR 0x27])))"

definition parse_info :: "string \<Rightarrow> string list \<Rightarrow> (string \<times> bval) list \<Rightarrow> torrent_metadata res" where
  "parse_info a al info =
     (case map_of info ''name'' of
        Some (BStr name) \<Rightarrow>
          (case map_of info ''piece length'' of
             Some (BInt pl) \<Rightarrow>
               (case map_of info ''pieces'' of
                  Some (BStr ps) \<Rightarrow>
                    ebind (parse_pieces ps) (\<lambda>hashes.
                    ebind (file_table name info) (\<lambda>(fs, total).
                      Inr \<lparr>announce = a, announce_list = al,
                        info_hash = sha1_hash (bytes_of_string (encode (BDict info))),
                        tname = name, piece_length = u64_of_int pl, piece_hashes = hashes,
                        total_length = total, files = fs\<rparr>))
                | _ \<Rightarrow> Inl ''Missing or invalid pieces'')
           | _ \<Rightarrow> Inl ''Missing or invalid piece length'')
      | _ \<Rightarrow> Inl ''Missing or invalid name'')"

definition parse_from_bencode :: "(string \<times> bval) list \<Rightarrow> torrent_metadata res" where
  "parse_from_bencode d =
     (case map_of d ''announce'' of
        Some (BStr a) \<Rightarrow>
          (case map_of d ''info'' of
             Some (BDict info) \<Rightarrow> parse_info a (collect_announce a (map_of d ''announce-list'')) info
           | _ \<Rightarrow> Inl ''Missing or invalid info dictionary'')
      | _ \<Rightarrow> Inl ''Missing or invalid announce URL'')"

definition parse_torrent :: "string \<Rightarrow> torrent_metadata res option" where
  "parse_torrent data =
     map_option (\<lambda>r. ebind r (\<lambda>v. case v of
         BDict d \<Rightarrow> parse_from_bencode d
       | _ \<Rightarrow> Inl ''Invalid torrent data: root must be a dictionary'')) (parse data)"

definition get_file_at_offset :: "torrent_metadata \<Rightarrow> nat \<Rightarrow> torrent_file option" where
  "get_file_at_offset m off =
     find (\<lambda>f. case tf_offset f of None \<Rightarrow> False
       | Some o' \<Rightarrow> o' \<le> off \<and> off < u64_add o' (tf_length f)) (files m)"

section \<open>The announce list\<close>

lemma add_url_props:
  "distinct urls \<Longrightarrow> distinct (add_url urls v)" "set urls \<subseteq> set (add_url urls v)"
  "urls \<noteq> [] \<Longrightarrow> add_url urls v \<noteq> [] \<and> hd (add_url urls v) = hd urls"
  by (auto simp: add_url_def split: bval.splits)

lemma foldl_add_url:
  "urls \<noteq> [] \<Longrightarrow> distinct urls \<Longrightarrow>
     distinct (foldl add_url urls us) \<and> foldl add_url urls us \<noteq> [] \<and> hd (foldl add_url urls us) = hd urls"
proof (induction us arbitrary: urls)
  case (Cons u us)
  with add_url_props(1,3) [of urls u] show ?case by force
qed simp

lemma add_tier_props:
  "urls \<noteq> [] \<Longrightarrow> distinct urls \<Longrightarrow>
     distinct (add_tier urls t) \<and> add_tier urls t \<noteq> [] \<and> hd (add_tier urls t) = hd urls"
  by (auto simp: add_tier_def foldl_add_url split: bval.splits)

lemma foldl_add_tier:
  "urls \<noteq> [] \<Longrightarrow> distinct urls \<Longrightarrow>
     distinct (foldl add_tier urls ts) \<and> foldl add_tier urls ts \<noteq> [] \<and> hd (foldl add_tier urls ts) = hd urls"
proof (induction ts arbitrary: urls)
  case (Cons t ts)
  with add_tier_props [of urls t] show ?case by force
qed simp

lemma collect_announce_props:
  "distinct (collect_announce a al) \<and> collect_announce a al \<noteq> [] \<and> hd (collect_announce a al) = a"
  using foldl_add_tier [of "[a]"] by (auto simp: collect_announce_def split: option.splits bval.splits)

section \<open>The file table\<close>

text \<open>Files laid end to end from \<open>start\<close>, on exact sums.\<close>

fun laid_out :: "nat \<Rightarrow> torrent_file list \<Rightarrow> bool" where
  "laid_out start [] \<longleftrightarrow> True"
| "laid_out start (f # fs) \<longleftrightarrow> tf_offset f = Some start \<and> laid_out (start + tf_length f) fs"

abbreviation exact_sum :: "torrent_file list \<Rightarrow> nat" where
  "exact_sum fs \<equiv> sum_list (map tf_length fs)"

lemma parse_file_offset: "parse_file name off v = Inr f \<Longrightarrow> tf_offset f = Some off"
  by (auto simp: parse_file_def ebind_Inr_iff split: bval.splits option.splits)

lemma parse_files_laid_out:
  "parse_files name off vs = Inr fs \<Longrightarrow> off + exact_sum fs < 2 ^ 64 \<Longrightarrow> laid_out off fs"
proof (induction vs arbitrary: off fs)
  case (Cons v vs)
  then show ?case by (auto simp: ebind_Inr_iff parse_file_offset u64_add_id)
qed simp

lemma sum_lengths_exact: "exact_sum fs < 2 ^ 64 \<Longrightarrow> sum_lengths fs = exact_sum fs"
proof -
  have "foldl (\<lambda>n f. u64_add n (tf_length f)) s fs = s + exact_sum fs"
    if "s + exact_sum fs < 2 ^ 64" for s
    using that by (induction fs arbitrary: s) (auto simp: u64_add_id)
  then show "exact_sum fs < 2 ^ 64 \<Longrightarrow> ?thesis" by (simp add: sum_lengths_def)
qed

lemma file_table_laid_out:
  assumes "file_table name info = Inr (fs, tot)" "exact_sum fs < 2 ^ 64"
  shows "laid_out 0 fs \<and> tot = exact_sum fs"
  using assms by (auto simp: file_table_def ebind_Inr_iff sum_lengths_exact
      intro: parse_files_laid_out split: option.splits bval.splits)

lemma find_laid_out:
  assumes "laid_out start fs" "start \<le> off" "off < start + exact_sum fs" "start + exact_sum fs < 2 ^ 64"
  shows "\<exists>f o'. find (\<lambda>f. case tf_offset f of None \<Rightarrow> False
       | Some o' \<Rightarrow> o' \<le> off \<and> off < u64_add o' (tf_length f)) fs = Some f \<and>
     f \<in> set fs \<and> tf_offset f = Some o' \<and> o' \<le> off \<and> off < o' + tf_length f"
  using assms
proof (induction fs arbitrary: start)
  case (Cons f fs)
  show ?case
  proof (cases "off < start + tf_length f")
    case True
    with Cons.prems show ?thesis by (auto simp: u64_add_id)
  next
    case False
    with Cons.prems Cons.IH [of "start + tf_length f"] show ?thesis by (auto simp: u64_add_id)
  qed
qed simp

lemma parse_from_bencode_table:
  "parse_from_bencode d = Inr m \<Longrightarrow>
     \<exists>info. map_of d ''info'' = Some (BDict info) \<and> file_table (tname m) info = Inr (files m, total_length m) \<and>
       info_hash m = sha1_hash (bytes_of_string (encode (BDict info))) \<and>
       announce_list m = collect_announce (announce m) (map_of d ''announce-list'') \<and>
       (\<exists>ps. map_of info ''pieces'' = Some (BStr ps) \<and> parse_pieces ps = Inr (piece_hashes m))"
  by (auto simp: parse_from_bencode_def parse_info_def ebind_Inr_iff split: option.splits bval.splits)

section \<open>Piece hashes\<close>

lemma parse_pieces_chunks:
  "length s mod 20 = 0 \<Longrightarrow> parse_pieces s = Inr (chunks 20 (bytes_of_string s))"
proof -
  assume "length s mod 20 = 0"
  moreover have "map (\<lambda>i. bytes_of_string (take 20 (drop (i * 20) s))) [0..<length s div 20] =
      chunks 20 (bytes_of_string s)"
    by (rule nth_equalityI) (simp_all add: length_chunks nth_chunks take_map drop_map)
  ultimately show ?thesis by (simp add: parse_pieces_def)
qed

lemma parse_pieces_concat:
  "parse_pieces s = Inr hs \<Longrightarrow> concat hs = bytes_of_string s \<and> (\<forall>h \<in> set hs. length h = 20)"
  using parse_pieces_chunks [of s] concat_chunks [of 20 "bytes_of_string s"]
  by (auto simp: parse_pieces_def dest: chunks_elem_length split: if_splits)

interpretation piece_hash: fixed_codec "\<lambda>h. h" "\<lambda>c. c" 20 "\<lambda>h :: byte list. length h = 20"
  by unfold_locales auto

section \<open>Properties\<close>

text \<open>In the metadata of a torrent whose file lengths do not overflow 64 bits the files lie
  end to end, the total length is their sum, and every offset below it is found in a
  file whose range contains it.\<close>

theorem metadata_offsets:
  assumes "parse_from_bencode d = Inr m" "exact_sum (files m) < 2 ^ 64" "off < total_length m"
  shows "\<exists>f o'. get_file_at_offset m off = Some f \<and> f \<in> set (files m) \<and> tf_offset f = Some o' \<and>
    o' \<le> off \<and> off < o' + tf_length f \<and> total_length m = exact_sum (files m)"
proof -
  from parse_from_bencode_table [OF assms(1)] obtain info where
    "file_table (tname m) info = Inr (files m, total_length m)" by blast
  from file_table_laid_out [OF this assms(2)]
  have "laid_out 0 (files m)" "total_length m = exact_sum (files m)" by auto
  with find_laid_out [of 0 "files m" off] assms show ?thesis by (simp add: get_file_at_offset_def)
qed

definition demo_info :: "(string \<times> bval) list" where
  "demo_info = [(''name'', BStr ''n''), (''piece length'', BInt 4), (''pieces'', BStr []),
     (''files'', BList [BDict [(''length'', BInt 3), (''path'', BList [BStr ''a''])],
                        BDict [(''length'', BInt 5), (''path'', BList [BStr ''b'', BStr ''c''])]])]"

definition demo_root :: "(string \<times> bval) list" where
  "demo_root = [(''announce'', BStr ''http://t''), (''info'', BDict demo_info),
     (''announce-list'', BList [BList [BStr ''http://t'', BStr ''udp://u''], BInt 0, BList [BStr ''udp://u'']])]"

lemma demo_parsed:
  "parse_from_bencode demo_root = Inr \<lparr>announce = ''http://t'', announce_list = [''http://t'', ''udp://u''],
     info_hash = sha1_hash (bytes_of_string (encode (BDict demo_info))), tname = ''n'', piece_length = 4,
     piece_hashes = [], total_length = 8,
     files = [\<lparr>tf_path = ''n/a'', tf_length = 3, tf_offset = Some 0\<rparr>,
              \<lparr>tf_path = ''n/b/c'', tf_length = 5, tf_offset = Some 3\<rparr>]\<rparr>"
  by (simp add: parse_from_bencode_def demo_root_def parse_info_def demo_info_def parse_pieces_def
      file_table_def parse_file_def path_append_def collect_announce_def add_tier_def add_url_def
      sum_lengths_def u64_of_int_def u64_add_def del: encode.simps)

theorem metadata_offsets_witness:
  "\<exists>m f o'. parse_from_bencode demo_root = Inr m \<and> get_file_at_offset m 6 = Some f \<and>
     tf_offset f = Some o' \<and> o' \<le> 6 \<and> 6 < o' + tf_length f"
  using metadata_offsets [OF demo_parsed, of 6] demo_parsed by auto

text \<open>The announce list has no duplicates and starts with the announce URL.\<close>

theorem metadata_announce:
  assumes "parse_from_bencode d = Inr m"
  shows "distinct (announce_list m) \<and> announce_list m \<noteq> [] \<and> hd (announce_list m) = announce m"
  using parse_from_bencode_table [OF assms] by (metis collect_announce_props)

theorem metadata_announce_witness:
  "\<exists>m. parse_from_bencode demo_root = Inr m \<and> distinct (announce_list m) \<and> hd (announce_list m) = ''http://t''"
  using metadata_announce [OF demo_parsed] demo_parsed by auto

text \<open>C40: The info hash is the FIPS SHA-1 of the canonical encoding of the info dictionary, which
  does not depend on the order in which its map lists the keys, and the piece hashes are 20 bytes
  each and concatenate to the \<open>pieces\<close> string.\<close>

theorem metadata_hashes:
  assumes "parse_from_bencode d = Inr m"
  shows "\<exists>info ps. map_of d ''info'' = Some (BDict info) \<and> map_of info ''pieces'' = Some (BStr ps) \<and>
    info_hash m = fips_sha1 (bytes_of_string (encode (canon (BDict info)))) \<and> length (info_hash m) = 20 \<and>
    concat (piece_hashes m) = bytes_of_string ps \<and> (\<forall>h \<in> set (piece_hashes m). length h = 20)"
  using parse_from_bencode_table [OF assms] parse_pieces_concat
  by (fastforce simp: encode_canon sha1_hash_fips [symmetric] simp del: canon.simps encode.simps)

theorem metadata_hashes_witness:
  "\<exists>m info ps. parse_from_bencode demo_root = Inr m \<and> map_of demo_root ''info'' = Some (BDict info) \<and>
     map_of info ''pieces'' = Some (BStr ps) \<and> concat (piece_hashes m) = bytes_of_string ps"
  using metadata_hashes [OF demo_parsed] demo_parsed by blast

end
