(* ===== verification/Json.thy ===== *)
theory Json
  imports Interfaces
begin

text \<open>
  \<open>include/json.hpp\<close>: the JSON value, its parser and its printer.  The parser's position is
  kept as the text that is left, from which the position of an error is computed; an error
  is a message with the text left at the failure.  The recursion is run with fuel, and
  \<open>parse_value_returns\<close> shows that the fuel used always suffices.
\<close>

section \<open>Values\<close>

datatype json =
    JNull
  | JBool bool
  | JNumber string
  | JString string
  | JArray "json list"
  | JObject "(string \<times> json) list"

definition json_find :: "string \<Rightarrow> json \<Rightarrow> json option" where
  "json_find k v = (case v of JObject ps \<Rightarrow> map_of ps k | _ \<Rightarrow> None)"

text \<open>\<open>v[key] = x\<close>: \<open>operator[]\<close> appends a null member when the key is absent.\<close>

definition json_put :: "string \<Rightarrow> json \<Rightarrow> json \<Rightarrow> json res" where
  "json_put k x v = (case v of JObject ps \<Rightarrow> Inr (JObject (AList.update k x ps)) | _ \<Rightarrow> Inl ''Not an object'')"

definition as_bool :: "bool \<Rightarrow> json \<Rightarrow> bool" where
  "as_bool fallback v = (case v of JBool b \<Rightarrow> b | _ \<Rightarrow> fallback)"

definition as_number :: "json \<Rightarrow> string res" where
  "as_number v = (case v of JNumber r \<Rightarrow> Inr r | _ \<Rightarrow> Inl ''Not a number'')"

definition as_string :: "json \<Rightarrow> string res" where
  "as_string v = (case v of JString s \<Rightarrow> Inr s | _ \<Rightarrow> Inl ''Not a string'')"

definition as_array :: "json \<Rightarrow> json list res" where
  "as_array v = (case v of JArray vs \<Rightarrow> Inr vs | _ \<Rightarrow> Inl ''Not an array'')"

definition as_object :: "json \<Rightarrow> (string \<times> json) list res" where
  "as_object v = (case v of JObject ps \<Rightarrow> Inr ps | _ \<Rightarrow> Inl ''Not an object'')"

definition json_push_back :: "json \<Rightarrow> json \<Rightarrow> json res" where
  "json_push_back x v = ebind (as_array v) (\<lambda>vs. Inr (JArray (vs @ [x])))"

text \<open>\<open>strtoll\<close> with base 10: the value, saturated, and the text after the number (the whole
  text when there is no digit).\<close>

definition strtoll :: "string \<Rightarrow> int \<times> string" where
  "strtoll s =
     (let s1 = dropWhile c_isspace s;
          neg = (s1 \<noteq> [] \<and> hd s1 = CHR ''-'');
          s2 = (if s1 \<noteq> [] \<and> (hd s1 = CHR ''-'' \<or> hd s1 = CHR ''+'') then tl s1 else s1);
          ds = takeWhile c_isdigit s2;
          v = (if neg then - int (dec_val ds) else int (dec_val ds))
      in if ds = [] then (0, s) else (max (- (2 ^ 63)) (min (2 ^ 63 - 1) v), dropWhile c_isdigit s2))"

definition at_nul :: "string \<Rightarrow> bool" where
  "at_nul s \<longleftrightarrow> s = [] \<or> hd s = CHR 0x00"

definition to_int64 :: "int \<Rightarrow> string \<Rightarrow> int" where
  "to_int64 fallback repr = (if at_nul (snd (strtoll repr)) then fst (strtoll repr) else fallback)"

definition is_integral :: "string \<Rightarrow> bool" where
  "is_integral repr \<longleftrightarrow> at_nul (snd (strtoll repr))"

section \<open>The parser\<close>

type_synonym 'a parsed = "(string \<times> string) + ('a \<times> string)"

definition fail :: "string \<Rightarrow> string \<Rightarrow> 'a parsed" where
  "fail msg rest = Inl (msg, rest)"

definition peek :: "string \<Rightarrow> char" where
  "peek s = (case s of [] \<Rightarrow> CHR 0x00 | c # _ \<Rightarrow> c)"

definition skip_ws :: "string \<Rightarrow> string" where
  "skip_ws s = dropWhile c_isspace s"

definition parse_literal :: "string \<Rightarrow> json \<Rightarrow> string \<Rightarrow> json parsed" where
  "parse_literal lit v s =
     (if take (length lit) s \<noteq> lit then fail ''Invalid literal'' s else Inr (v, drop (length lit) s))"

definition append_codepoint :: "nat \<Rightarrow> string option" where
  "append_codepoint cp =
     (if cp \<le> 0x7F then Some [char_of cp]
      else if cp \<le> 0x7FF then
        Some [char_of (0xC0 OR (drop_bit 6 cp AND 0x1F)), char_of (0x80 OR (cp AND 0x3F))]
      else if cp \<le> 0xFFFF then
        Some [char_of (0xE0 OR (drop_bit 12 cp AND 0x0F)), char_of (0x80 OR (drop_bit 6 cp AND 0x3F)),
              char_of (0x80 OR (cp AND 0x3F))]
      else if cp \<le> 0x10FFFF then
        Some [char_of (0xF0 OR (drop_bit 18 cp AND 0x07)), char_of (0x80 OR (drop_bit 12 cp AND 0x3F)),
              char_of (0x80 OR (drop_bit 6 cp AND 0x3F)), char_of (0x80 OR (cp AND 0x3F))]
      else None)"

text \<open>Four hexadecimal digits; a failure leaves the position where it was.\<close>

definition parse_hex4 :: "string \<Rightarrow> nat parsed" where
  "parse_hex4 s =
     (if length s < 4 then fail ''Incomplete unicode escape'' s
      else let ds = map hex_digit_val (take 4 s) in
        if None \<in> set ds then fail ''Invalid hex in unicode escape'' s
        else Inr (foldl (\<lambda>a d. a * 16 + the d) 0 ds, drop 4 s))"

definition parse_unicode_escape :: "string \<Rightarrow> string parsed" where
  "parse_unicode_escape s =
     ebind (parse_hex4 s) (\<lambda>(cu, s1).
       if 0xD800 \<le> cu \<and> cu \<le> 0xDBFF then
         if length s1 < 2 \<or> s1 ! 0 \<noteq> CHR 0x5C \<or> s1 ! 1 \<noteq> CHR ''u''
         then fail ''Missing low surrogate for unicode escape'' s1
         else ebind (parse_hex4 (drop 2 s1)) (\<lambda>(low, s2).
           if low < 0xDC00 \<or> 0xDFFF < low then fail ''Invalid low surrogate in unicode escape'' s2
           else case append_codepoint (0x10000 + (push_bit 10 (cu - 0xD800) OR (low - 0xDC00))) of
               None \<Rightarrow> fail ''Invalid unicode codepoint'' s2
             | Some cs \<Rightarrow> Inr (cs, s2))
       else case append_codepoint cu of
           None \<Rightarrow> fail ''Invalid unicode codepoint'' s1
         | Some cs \<Rightarrow> Inr (cs, s1))"

definition simple_escape :: "char \<Rightarrow> char option" where
  "simple_escape c =
     (if c = CHR 0x22 \<or> c = CHR 0x5C \<or> c = CHR ''/'' then Some c
      else if c = CHR ''b'' then Some (CHR 0x08) else if c = CHR ''f'' then Some (CHR 0x0C)
      else if c = CHR ''n'' then Some (CHR 0x0A) else if c = CHR ''r'' then Some (CHR 0x0D)
      else if c = CHR ''t'' then Some (CHR 0x09) else None)"

lemma parse_hex4_drop: "parse_hex4 s = Inr (n, r) \<Longrightarrow> r = drop 4 s \<and> 4 \<le> length s"
  by (auto simp: parse_hex4_def fail_def Let_def split: if_splits)

lemma parse_unicode_escape_shorter: "parse_unicode_escape s = Inr (cs, r) \<Longrightarrow> length r < length s"
  by (auto simp: parse_unicode_escape_def ebind_Inr_iff fail_def split: if_splits option.splits dest!: parse_hex4_drop)

function parse_chars :: "string \<Rightarrow> string \<Rightarrow> string parsed" where
  "parse_chars out [] = fail ''Unterminated string literal'' []"
| "parse_chars out (c # s) =
     (if c = CHR 0x22 then Inr (out, s)
      else if (of_char c :: nat) < 0x20 then fail ''Control character in string'' s
      else if c = CHR 0x5C then
        (case s of
           [] \<Rightarrow> fail ''Unterminated escape sequence'' []
         | e # t \<Rightarrow>
             (case simple_escape e of
                Some x \<Rightarrow> parse_chars (out @ [x]) t
              | None \<Rightarrow>
                  if e = CHR ''u'' then
                    (case parse_unicode_escape t of Inl er \<Rightarrow> Inl er | Inr (cs, r) \<Rightarrow> parse_chars (out @ cs) r)
                  else fail ''Invalid escape sequence in string'' t))
      else parse_chars (out @ [c]) s)"
  by pat_completeness auto
termination
  by (relation "measure (\<lambda>(out, s). length s)") (auto dest: parse_unicode_escape_shorter)

declare parse_chars.simps(2) [simp del]

definition parse_str :: "string \<Rightarrow> string parsed" where
  "parse_str s =
     (if peek s \<noteq> CHR 0x22 then fail ''Expected opening quote for string'' s else parse_chars [] (tl s))"

definition scan_int :: "string \<Rightarrow> unit parsed" where
  "scan_int s =
     (let s1 = (if peek s = CHR ''-'' then tl s else s) in
      if peek s1 = CHR ''0'' then Inr ((), tl s1)
      else if c_isdigit (peek s1) then Inr ((), dropWhile c_isdigit s1)
      else fail ''Invalid number format'' s1)"

definition scan_frac :: "string \<Rightarrow> unit parsed" where
  "scan_frac s =
     (if peek s = CHR ''.'' then
        if c_isdigit (peek (tl s)) then Inr ((), dropWhile c_isdigit (tl s))
        else fail ''Invalid fraction in number'' (tl s)
      else Inr ((), s))"

definition scan_exp :: "string \<Rightarrow> unit parsed" where
  "scan_exp s =
     (if peek s = CHR ''e'' \<or> peek s = CHR ''E'' then
        (let t = (if peek (tl s) = CHR ''+'' \<or> peek (tl s) = CHR ''-'' then tl (tl s) else tl s) in
         if c_isdigit (peek t) then Inr ((), dropWhile c_isdigit t)
         else fail ''Invalid exponent in number'' t)
      else Inr ((), s))"

definition scan_number :: "string \<Rightarrow> unit parsed" where
  "scan_number s = ebind (scan_int s) (\<lambda>(_, s1). ebind (scan_frac s1) (\<lambda>(_, s2). scan_exp s2))"

definition parse_number :: "string \<Rightarrow> json parsed" where
  "parse_number s = ebind (scan_number s) (\<lambda>(_, r). Inr (JNumber (take (length s - length r) s), r))"

fun parse_json :: "nat \<Rightarrow> string \<Rightarrow> json parsed option"
  and parse_elements :: "nat \<Rightarrow> string \<Rightarrow> json list parsed option"
  and parse_members :: "nat \<Rightarrow> string \<Rightarrow> (string \<times> json) list parsed option"
where
  "parse_json 0 s = None"
| "parse_json (Suc f) s =
     (let c = peek s in
      if c = CHR ''n'' then Some (parse_literal ''null'' JNull s)
      else if c = CHR ''t'' then Some (parse_literal ''true'' (JBool True) s)
      else if c = CHR ''f'' then Some (parse_literal ''false'' (JBool False) s)
      else if c = CHR 0x22 then Some (ebind (parse_str s) (\<lambda>(x, r). Inr (JString x, r)))
      else if c = CHR ''{'' then
        (let s1 = skip_ws (tl s) in
         if peek s1 = CHR ''}'' then Some (Inr (JObject [], tl s1))
         else obind (parse_members f s1) (\<lambda>(ps, r). Some (Inr (JObject ps, r))))
      else if c = CHR ''['' then
        (let s1 = skip_ws (tl s) in
         if peek s1 = CHR '']'' then Some (Inr (JArray [], tl s1))
         else obind (parse_elements f s1) (\<lambda>(vs, r). Some (Inr (JArray vs, r))))
      else if c = CHR ''-'' \<or> c_isdigit c then Some (parse_number s)
      else Some (fail ''Unexpected character while parsing value'' s))"
| "parse_elements 0 s = None"
| "parse_elements (Suc f) s =
     obind (parse_json f (skip_ws s)) (\<lambda>(v, r).
       let s1 = skip_ws r in
       if peek s1 = CHR '']'' then Some (Inr ([v], tl s1))
       else if peek s1 \<noteq> CHR '','' then Some (fail (''Expected '' @ CHR 0x27 # '','' @ CHR 0x27 # '' between array elements'') s1)
       else obind (parse_elements f (skip_ws (tl s1))) (\<lambda>(vs, r'). Some (Inr (v # vs, r'))))"
| "parse_members 0 s = None"
| "parse_members (Suc f) s =
     obind (Some (parse_str (skip_ws s))) (\<lambda>(k, r0).
       let s0 = skip_ws r0 in
       if peek s0 \<noteq> CHR '':'' then Some (fail (''Expected '' @ CHR 0x27 # '':'' @ CHR 0x27 # '' after object key'') s0)
       else obind (parse_json f (skip_ws (tl s0))) (\<lambda>(v, r).
         let s1 = skip_ws r in
         if peek s1 = CHR ''}'' then Some (Inr ([(k, v)], tl s1))
         else if peek s1 \<noteq> CHR '','' then Some (fail (''Expected '' @ CHR 0x27 # '','' @ CHR 0x27 # '' between object members'') s1)
         else obind (parse_members f (skip_ws (tl s1))) (\<lambda>(ps, r'). Some (Inr ((k, v) # ps, r')))))"

declare parse_json.simps [simp del] parse_elements.simps [simp del] parse_members.simps [simp del]

lemmas json_unfold = parse_json.simps(2) parse_elements.simps(2) parse_members.simps(2)

definition parse_text :: "nat \<Rightarrow> string \<Rightarrow> json parsed option" where
  "parse_text f s = obind (parse_json f (skip_ws s)) (\<lambda>(v, r).
     if skip_ws r \<noteq> [] then Some (fail ''Trailing characters after JSON value'' (skip_ws r))
     else Some (Inr (v, [])))"

record json_error =
  position :: nat
  message :: string

definition json_parse :: "string \<Rightarrow> (json_error + json) option" where
  "json_parse text =
     map_option (\<lambda>r. case r of Inl (msg, rest) \<Rightarrow> Inl \<lparr>position = length text - length rest, message = msg\<rparr>
                   | Inr (v, _) \<Rightarrow> Inr v)
       (parse_text (2 * length text + 2) text)"

definition json_validate :: "string \<Rightarrow> bool option" where
  "json_validate text = map_option (\<lambda>r. case r of Inl _ \<Rightarrow> False | Inr _ \<Rightarrow> True) (json_parse text)"

definition parse_or_throw :: "string \<Rightarrow> json res option" where
  "parse_or_throw text =
     map_option (\<lambda>r. case r of
         Inl e \<Rightarrow> Inl (''JSON parse error at position '' @ show_nat (position e) @ '': '' @ message e)
       | Inr v \<Rightarrow> Inr v) (json_parse text)"

section \<open>The printer\<close>

text \<open>The indentation is a natural number: a negative \<open>int\<close> becomes a size near \<open>2 ^ 64\<close>, which
  \<open>append\<close> refuses.\<close>

record stringify_options =
  pretty :: bool
  indent :: nat
  escape_solidus :: bool

definition upper_hex :: "nat \<Rightarrow> char" where
  "upper_hex n = ''0123456789ABCDEF'' ! n"

definition escape_char :: "bool \<Rightarrow> char \<Rightarrow> string" where
  "escape_char sol c =
     (if c = CHR 0x22 then [CHR 0x5C, CHR 0x22]
      else if c = CHR 0x5C then [CHR 0x5C, CHR 0x5C]
      else if c = CHR 0x08 then CHR 0x5C # ''b''
      else if c = CHR 0x0C then CHR 0x5C # ''f''
      else if c = CHR 0x0A then CHR 0x5C # ''n''
      else if c = CHR 0x0D then CHR 0x5C # ''r''
      else if c = CHR 0x09 then CHR 0x5C # ''t''
      else if c = CHR ''/'' then (if sol then CHR 0x5C # ''/'' else ''/'')
      else if (of_char c :: nat) < 0x20 then
        CHR 0x5C # ''u00'' @ [upper_hex (of_char c div 16 mod 16), upper_hex (of_char c mod 16)]
      else [c])"

definition escape_string :: "bool \<Rightarrow> string \<Rightarrow> string" where
  "escape_string sol s = concat (map (escape_char sol) s)"

definition quoted :: "stringify_options \<Rightarrow> string \<Rightarrow> string" where
  "quoted opt s = CHR 0x22 # escape_string (escape_solidus opt) s @ [CHR 0x22]"

definition newline :: "stringify_options \<Rightarrow> string" where
  "newline opt = (if pretty opt then [CHR 0x0A] else [])"

definition pad :: "stringify_options \<Rightarrow> nat \<Rightarrow> string" where
  "pad opt depth = (if pretty opt then replicate (depth * indent opt) (CHR 0x20) else [])"

fun joined :: "stringify_options \<Rightarrow> string list \<Rightarrow> string" where
  "joined opt [] = []"
| "joined opt [x] = x"
| "joined opt (x # y # xs) = x @ '','' @ newline opt @ joined opt (y # xs)"

fun stringify_impl :: "stringify_options \<Rightarrow> nat \<Rightarrow> json \<Rightarrow> string" where
  "stringify_impl opt d JNull = ''null''"
| "stringify_impl opt d (JBool b) = (if b then ''true'' else ''false'')"
| "stringify_impl opt d (JNumber r) = r"
| "stringify_impl opt d (JString s) = quoted opt s"
| "stringify_impl opt d (JArray vs) =
     (if vs = [] then ''[]''
      else ''['' @ newline opt @ joined opt (map (\<lambda>v. pad opt (d + 1) @ stringify_impl opt (d + 1) v) vs) @
           newline opt @ pad opt d @ '']'')"
| "stringify_impl opt d (JObject ps) =
     (if ps = [] then ''{}''
      else ''{'' @ newline opt @
           joined opt (map (\<lambda>p. pad opt (d + 1) @ quoted opt (fst p) @ (if pretty opt then '': '' else '':'') @
                              stringify_impl opt (d + 1) (snd p)) ps) @
           newline opt @ pad opt d @ ''}'')"

definition stringify :: "stringify_options \<Rightarrow> json \<Rightarrow> string" where
  "stringify opt v = stringify_impl opt 0 v"

section \<open>The recursion returns\<close>

lemma length_skip_ws: "length (skip_ws s) \<le> length s"
  by (simp add: skip_ws_def length_dropWhile_le)

lemma length_tl_peek: "peek s = c \<Longrightarrow> c \<noteq> CHR 0x00 \<Longrightarrow> length (tl s) < length s"
  by (cases s) (auto simp: peek_def)

lemma length_drop_digits: "length (dropWhile c_isdigit s) \<le> length s"
  by (rule length_dropWhile_le)

lemma not_digit_nul [simp]: "\<not> c_isdigit (CHR 0x00)"
  by (simp add: c_isdigit_def)

lemma drop_digits_shorter: "c_isdigit (peek s) \<Longrightarrow> length (dropWhile c_isdigit s) < length s"
  by (cases s) (auto simp: peek_def le_imp_less_Suc length_drop_digits)

lemma parse_chars_shorter: "parse_chars out s = Inr (x, r) \<Longrightarrow> length r < length s"
proof (induction out s rule: parse_chars.induct)
  case (2 out c s)
  consider "c = CHR 0x22" | e t y where "c = CHR 0x5C" "s = e # t" "simple_escape e = Some y"
      "parse_chars (out @ [y]) t = Inr (x, r)"
    | t cs r' where "c = CHR 0x5C" "s = CHR ''u'' # t" "simple_escape (CHR ''u'') = None"
      "parse_unicode_escape t = Inr (cs, r')" "parse_chars (out @ cs) r' = Inr (x, r)"
    | "c \<noteq> CHR 0x22" "\<not> (of_char c :: nat) < 0x20" "c \<noteq> CHR 0x5C" "parse_chars (out @ [c]) s = Inr (x, r)"
    using 2(4)[unfolded parse_chars.simps(2) [of out c s]]
    by (auto simp: fail_def split: if_splits list.splits option.splits sum.splits)
  then show ?case
  proof cases
    case 1
    with 2(4) show ?thesis by (simp add: parse_chars.simps(2))
  next
    case (2 e t y)
    then show ?thesis using "2.IH"(2) [of e t y] by simp
  next
    case (3 t cs r')
    then show ?thesis using "2.IH"(1) [of "CHR ''u''" t "(cs, r')" cs r'] parse_unicode_escape_shorter [of t cs r'] by simp
  next
    case 4
    then show ?thesis using "2.IH"(3) by simp
  qed
qed (simp add: fail_def)

lemma parse_str_shorter: "parse_str s = Inr (x, r) \<Longrightarrow> length r < length s"
  by (cases s) (auto simp: parse_str_def fail_def peek_def split: if_splits dest!: parse_chars_shorter)

lemma scan_int_shorter: "scan_int s = Inr (u, r) \<Longrightarrow> length r < length s"
  using drop_digits_shorter [of s] drop_digits_shorter [of "tl s"] length_tl_peek [of s]
  by (cases s) (auto simp: scan_int_def fail_def Let_def peek_def le_imp_less_Suc length_drop_digits less_SucI
      split: if_splits list.splits)

lemma scan_frac_le: "scan_frac s = Inr (u, r) \<Longrightarrow> length r \<le> length s"
  using drop_digits_shorter [of "tl s"] by (auto simp: scan_frac_def fail_def split: if_splits)

lemma scan_exp_le: "scan_exp s = Inr (u, r) \<Longrightarrow> length r \<le> length s"
  using drop_digits_shorter [of "tl s"] drop_digits_shorter [of "tl (tl s)"]
  by (auto simp: scan_exp_def fail_def Let_def split: if_splits)

lemma parse_number_shorter: "parse_number s = Inr (v, r) \<Longrightarrow> length r < length s"
  by (fastforce simp: parse_number_def scan_number_def ebind_Inr_iff
      dest: scan_int_shorter scan_frac_le scan_exp_le)

lemma parse_literal_shorter: "parse_literal lit v s = Inr (x, r) \<Longrightarrow> lit \<noteq> [] \<Longrightarrow> length r < length s"
  by (cases s) (auto simp: parse_literal_def fail_def split: if_splits)

lemma length_skip_tl: "length (skip_ws (tl s)) \<le> length s"
  using length_skip_ws [of "tl s"] by simp

lemma parse_json_shorter:
  "parse_json f s = Some (Inr (v, r)) \<Longrightarrow> length r < length s"
  "parse_elements f s = Some (Inr (vs, r)) \<Longrightarrow> length r < length s"
  "parse_members f s = Some (Inr (ps, r)) \<Longrightarrow> length r < length s"
proof (induction f s and f s and f s arbitrary: v r and vs r and ps r rule: parse_json_parse_elements_parse_members.induct)
  case (2 f s)
  let ?s1 = "skip_ws (tl s)"
  consider (lit) lit x where "lit \<noteq> []" "parse_literal lit x s = Inr (v, r)"
    | (str) x where "parse_str s = Inr (x, r)"
    | (emp) "peek s = CHR ''{'' \<or> peek s = CHR ''[''" "r = tl ?s1"
    | (mem) ps where "peek s = CHR ''{''" "peek ?s1 \<noteq> CHR ''}''" "parse_members f ?s1 = Some (Inr (ps, r))"
    | (elm) vs where "peek s = CHR ''[''" "peek ?s1 \<noteq> CHR '']''" "parse_elements f ?s1 = Some (Inr (vs, r))"
    | (num) "parse_number s = Inr (v, r)"
    using 2(3) by (auto simp: json_unfold Let_def obind_Inr_iff ebind_Inr_iff fail_def split: if_splits)
  then show ?case
  proof cases
    case emp
    then have "length (tl s) < length s" using length_tl_peek [of s] by auto
    with emp length_skip_ws [of "tl s"] show ?thesis by auto
  next
    case mem
    then have "length (tl s) < length s" using length_tl_peek [of s] by auto
    moreover have "length r < length ?s1" using mem by (intro 2(1)) simp_all
    ultimately show ?thesis using length_skip_ws [of "tl s"] by simp
  next
    case elm
    then have "length (tl s) < length s" using length_tl_peek [of s] by auto
    moreover have "length r < length ?s1" using elm by (intro 2(2)) simp_all
    ultimately show ?thesis using length_skip_ws [of "tl s"] by simp
  qed (simp_all add: parse_literal_shorter parse_str_shorter parse_number_shorter)
next
  case (4 f s)
  then obtain v r' where j: "parse_json f (skip_ws s) = Some (Inr (v, r'))"
    by (auto simp: json_unfold obind_Inr_iff)
  have l: "length r' < length s" using 4(1) [OF j] length_skip_ws [of s] by simp
  let ?s1 = "skip_ws r'"
  consider "r = tl ?s1" | vs' where "parse_elements f (skip_ws (tl ?s1)) = Some (Inr (vs', r))"
      "\<not> peek ?s1 = CHR '']''" "\<not> peek ?s1 \<noteq> CHR '',''"
    using 4(3) j by (auto simp: json_unfold Let_def obind_Inr_iff fail_def split: if_splits)
  then show ?case
  proof cases
    case 2
    then have "length r < length (skip_ws (tl ?s1))" using j by (intro 4(2)) simp_all
    with l length_skip_tl [of ?s1] length_skip_ws [of r'] show ?thesis by simp
  qed (use l length_skip_ws [of r'] in simp)
next
  case (6 f s)
  then obtain k r0 where k: "parse_str (skip_ws s) = Inr (k, r0)" and c: "peek (skip_ws r0) = CHR '':''"
    by (auto simp: json_unfold Let_def obind_Inr_iff fail_def split: if_splits)
  with 6(3) obtain v r' where j: "parse_json f (skip_ws (tl (skip_ws r0))) = Some (Inr (v, r'))"
    by (auto simp: json_unfold Let_def obind_Inr_iff)
  have "length r' < length (skip_ws (tl (skip_ws r0)))" using k c j by (intro 6(1)) simp_all
  then have l: "length r' < length s"
    using parse_str_shorter [OF k] length_skip_ws [of s] length_skip_ws [of r0] length_skip_tl [of "skip_ws r0"] by simp
  let ?s1 = "skip_ws r'"
  consider "r = tl ?s1" | ps' where "parse_members f (skip_ws (tl ?s1)) = Some (Inr (ps', r))"
      "\<not> peek ?s1 = CHR ''}''" "\<not> peek ?s1 \<noteq> CHR '',''"
    using 6(3) k c j by (auto simp: json_unfold Let_def obind_Inr_iff fail_def split: if_splits)
  then show ?case
  proof cases
    case 2
    then have "length r < length (skip_ws (tl ?s1))" using k c j by (intro 6(2)) simp_all
    with l length_skip_tl [of ?s1] length_skip_ws [of r'] show ?thesis by simp
  qed (use l length_skip_ws [of r'] in simp)
qed (simp_all add: parse_json.simps(1) parse_elements.simps(1) parse_members.simps(1))

lemma obind_not_None: "m \<noteq> None \<Longrightarrow> (\<And>x. m = Some (Inr x) \<Longrightarrow> f x \<noteq> None) \<Longrightarrow> obind m f \<noteq> None"
  by (auto simp: obind_def split: option.splits sum.splits)

lemma parse_value_returns:
  "2 * length s + 1 \<le> f \<Longrightarrow> parse_json f s \<noteq> None"
  "2 * length s + 2 \<le> f \<Longrightarrow> parse_elements f s \<noteq> None"
  "2 * length s + 2 \<le> f \<Longrightarrow> parse_members f s \<noteq> None"
proof (induction f s and f s and f s rule: parse_json_parse_elements_parse_members.induct)
  case (2 f s)
  let ?s1 = "skip_ws (tl s)"
  have "2 * length ?s1 + 2 \<le> f" if "peek s = CHR ''{'' \<or> peek s = CHR ''[''"
    using 2(3) that length_tl_peek [of s] length_skip_ws [of "tl s"] by auto
  then have "peek s = CHR ''{'' \<Longrightarrow> peek ?s1 \<noteq> CHR ''}'' \<Longrightarrow> parse_members f ?s1 \<noteq> None"
    "peek s = CHR ''['' \<Longrightarrow> peek ?s1 \<noteq> CHR '']'' \<Longrightarrow> parse_elements f ?s1 \<noteq> None"
    using 2(1,2) by auto
  then show ?case
    by (auto simp: parse_json.simps(2) Let_def obind_def split: option.splits sum.splits)
next
  case (4 f s)
  have "parse_json f (skip_ws s) \<noteq> None"
    using 4(3) length_skip_ws [of s] by (intro 4(1)) simp
  moreover have "parse_elements f (skip_ws (tl (skip_ws r))) \<noteq> None"
    if j: "parse_json f (skip_ws s) = Some (Inr (v, r))"
      and "\<not> peek (skip_ws r) = CHR '']''" "\<not> peek (skip_ws r) \<noteq> CHR '',''" for v r
  proof -
    have "2 * length (skip_ws (tl (skip_ws r))) + 2 \<le> f"
      using parse_json_shorter(1) [OF j] length_skip_ws [of s] length_skip_ws [of r]
        length_skip_tl [of "skip_ws r"] 4(3) by simp
    with 4(2) that show ?thesis by simp
  qed
  ultimately show ?case
    by (auto simp: parse_elements.simps(2) Let_def obind_def split: option.splits sum.splits)
next
  case (6 f s)
  show ?case
  proof (cases "parse_str (skip_ws s)")
    case (Inr kr)
    obtain k r0 where kr: "kr = (k, r0)" by force
    let ?s0 = "skip_ws r0"
    have l0: "length (skip_ws (tl ?s0)) < length s"
      using parse_str_shorter [of "skip_ws s" k r0] Inr kr length_skip_ws [of s] length_skip_ws [of r0]
        length_skip_tl [of ?s0] by simp
    have "parse_json f (skip_ws (tl ?s0)) \<noteq> None" if "\<not> peek ?s0 \<noteq> CHR '':''"
      using 6(1) Inr kr that l0 6(3) by simp
    moreover have "parse_members f (skip_ws (tl (skip_ws r))) \<noteq> None"
      if c: "\<not> peek ?s0 \<noteq> CHR '':''" and j: "parse_json f (skip_ws (tl ?s0)) = Some (Inr (v, r))"
        and "\<not> peek (skip_ws r) = CHR ''}''" "\<not> peek (skip_ws r) \<noteq> CHR '',''" for v r
    proof -
      have "2 * length (skip_ws (tl (skip_ws r))) + 2 \<le> f"
        using parse_json_shorter(1) [OF j] l0 length_skip_ws [of r] length_skip_tl [of "skip_ws r"] 6(3) by simp
      with 6(2) Inr kr that show ?thesis by simp
    qed
    ultimately show ?thesis using Inr kr
      by (auto simp: parse_members.simps(2) Let_def obind_def split: option.splits sum.splits)
  qed (simp add: parse_members.simps(2))
qed simp_all

lemma json_parse_returns: "\<exists>r. json_parse s = Some r"
proof -
  have "2 * length (skip_ws s) + 1 \<le> 2 * length s + 2" using length_skip_ws [of s] by simp
  then have "parse_json (2 * length s + 2) (skip_ws s) \<noteq> None" by (rule parse_value_returns)
  then show ?thesis
    by (auto simp: json_parse_def parse_text_def obind_def split: option.splits sum.splits)
qed

section \<open>Printing and parsing back\<close>

text \<open>A value the printer writes as JSON text: its numbers are JSON numbers, as those the parser
  makes are (\<open>JSON::number\<close> takes any text).\<close>

fun json_ok :: "json \<Rightarrow> bool" where
  "json_ok (JNumber r) \<longleftrightarrow> scan_number r = Inr ((), [])"
| "json_ok (JArray vs) \<longleftrightarrow> list_all json_ok vs"
| "json_ok (JObject ps) \<longleftrightarrow> list_all (\<lambda>p. json_ok (snd p)) ps"
| "json_ok v \<longleftrightarrow> True"

definition number_ends :: "string \<Rightarrow> bool" where
  "number_ends rest \<longleftrightarrow> \<not> c_isdigit (peek rest) \<and> peek rest \<notin> {CHR ''.'', CHR ''e'', CHR ''E''}"

lemma peek_simps [simp]: "peek [] = CHR 0x00" "peek (c # s) = c"
  by (simp_all add: peek_def)

lemma drop_digits_append: "\<not> c_isdigit (peek rest) \<Longrightarrow> dropWhile c_isdigit (r @ rest) = dropWhile c_isdigit r @ rest"
  by (induction r) (cases rest; simp)+

lemma drop_digits_end [simp]: "\<not> c_isdigit (peek rest) \<Longrightarrow> dropWhile c_isdigit rest = rest"
  using drop_digits_append [of rest "[]"] by simp

lemma scan_int_append:
  "scan_int s = Inr (u, r) \<Longrightarrow> \<not> c_isdigit (peek rest) \<Longrightarrow> scan_int (s @ rest) = Inr ((), r @ rest)"
  by (cases s; cases "tl s")
    (auto simp: scan_int_def fail_def Let_def drop_digits_append split: if_splits)

lemma scan_frac_append:
  "scan_frac s = Inr (u, r) \<Longrightarrow> \<not> c_isdigit (peek rest) \<Longrightarrow> peek rest \<noteq> CHR ''.'' \<Longrightarrow>
     scan_frac (s @ rest) = Inr ((), r @ rest)"
  by (cases s; cases "tl s")
    (auto simp: scan_frac_def fail_def drop_digits_append split: if_splits)

lemma scan_exp_append:
  "scan_exp s = Inr (u, r) \<Longrightarrow> number_ends rest \<Longrightarrow> scan_exp (s @ rest) = Inr ((), r @ rest)"
  by (cases s; cases "tl s"; cases "tl (tl s)")
    (auto simp: scan_exp_def fail_def number_ends_def drop_digits_append Let_def split: if_splits)

lemma scan_number_append:
  assumes "scan_number s = Inr ((), [])" "number_ends rest"
  shows "scan_number (s @ rest) = Inr ((), rest)"
proof -
  obtain u v s1 s2 where s: "scan_int s = Inr (u, s1)" "scan_frac s1 = Inr (v, s2)" "scan_exp s2 = Inr ((), [])"
    using assms(1) by (auto simp: scan_number_def ebind_Inr_iff)
  have n: "\<not> c_isdigit (peek rest)" "peek rest \<noteq> CHR ''.''" using assms(2) by (simp_all add: number_ends_def)
  from s(1) n(1) have "scan_int (s @ rest) = Inr ((), s1 @ rest)" by (rule scan_int_append)
  moreover have "scan_frac (s1 @ rest) = Inr ((), s2 @ rest)" using s(2) n by (rule scan_frac_append)
  moreover have "scan_exp (s2 @ rest) = Inr ((), [] @ rest)" using s(3) assms(2) by (rule scan_exp_append)
  ultimately show ?thesis by (simp add: scan_number_def)
qed

lemma parse_number_append:
  "scan_number s = Inr ((), []) \<Longrightarrow> number_ends rest \<Longrightarrow> parse_number (s @ rest) = Inr (JNumber s, rest)"
  by (simp add: parse_number_def scan_number_append)

lemma hex_digit_val_upper: "n < 16 \<Longrightarrow> hex_digit_val (upper_hex n) = Some n"
proof -
  have "list_all (\<lambda>n. hex_digit_val (upper_hex n) = Some n) [0..<16]" by code_simp
  then show "n < 16 \<Longrightarrow> ?thesis" by (simp add: list_all_iff)
qed

lemma parse_control_escape:
  assumes "n < 32"
  shows "parse_unicode_escape (CHR ''0'' # CHR ''0'' # upper_hex (n div 16 mod 16) # upper_hex (n mod 16) # t) =
    Inr ([char_of n], t)"
proof -
  have z: "hex_digit_val (CHR ''0'') = Some 0" by code_simp
  have m: "n div 16 mod 16 = n div 16" using assms by simp
  have "parse_hex4 (CHR ''0'' # CHR ''0'' # upper_hex (n div 16 mod 16) # upper_hex (n mod 16) # t) = Inr (n, t)"
    using assms by (simp add: parse_hex4_def Let_def hex_digit_val_upper z m)
  then show ?thesis using assms by (simp add: parse_unicode_escape_def append_codepoint_def)
qed

lemma parse_plain: "c \<noteq> CHR 0x22 \<Longrightarrow> c \<noteq> CHR 0x5C \<Longrightarrow> \<not> (of_char c :: nat) < 0x20 \<Longrightarrow>
    parse_chars out (c # t) = parse_chars (out @ [c]) t"
  by (simp add: parse_chars.simps(2) [of out c])

lemma parse_simple: "simple_escape e = Some x \<Longrightarrow> parse_chars out (CHR 0x5C # e # t) = parse_chars (out @ [x]) t"
  by (simp add: parse_chars.simps(2) [of out "CHR 0x5C"])

lemma parse_control: "n < 32 \<Longrightarrow>
    parse_chars out (CHR 0x5C # CHR ''u'' # CHR ''0'' # CHR ''0'' # upper_hex (n div 16 mod 16) # upper_hex (n mod 16) # t) =
    parse_chars (out @ [char_of n]) t"
  using parse_control_escape [of n t] by (simp add: parse_chars.simps(2) [of out "CHR 0x5C"] simple_escape_def)

lemma parse_escape_char: "parse_chars out (escape_char sol c @ t) = parse_chars (out @ [c]) t"
  using parse_plain [of c out t] parse_control [of "of_char c" out t]
  by (auto simp: escape_char_def parse_simple simple_escape_def)

lemma parse_escape_string: "parse_chars out (escape_string sol s @ CHR 0x22 # rest) = Inr (out @ s, rest)"
  by (induction s arbitrary: out)
    (simp_all add: escape_string_def parse_escape_char parse_chars.simps(2) [of _ "CHR 0x22"])

lemma parse_quoted: "parse_str (quoted opt s @ rest) = Inr (s, rest)"
  by (simp add: parse_str_def quoted_def parse_escape_string)

lemma skip_ws_simps [simp]:
  "skip_ws [] = []" "skip_ws (c # s) = (if c_isspace c then skip_ws s else c # s)"
  "skip_ws (newline opt @ s) = skip_ws s" "skip_ws (pad opt d @ s) = skip_ws s"
proof -
  have "skip_ws (replicate n (CHR 0x20) @ s) = skip_ws s" for n
    by (induction n) (simp_all add: skip_ws_def c_isspace_def)
  then show "skip_ws (pad opt d @ s) = skip_ws s" by (simp add: pad_def)
qed (simp_all add: skip_ws_def newline_def c_isspace_def)

lemma punctuation_facts [simp]:
  "\<not> c_isspace (CHR '']'')" "\<not> c_isspace (CHR ''}'')" "\<not> c_isspace (CHR '','')" "\<not> c_isspace (CHR '':'')"
  "\<not> c_isspace (CHR 0x22)"
  "number_ends (CHR '','' # rest)" "number_ends []"
  by (simp_all add: c_isspace_def number_ends_def c_isdigit_def)

lemma number_ends_close:
  "c \<in> {CHR '']'', CHR ''}''} \<Longrightarrow> number_ends (newline opt @ pad opt d @ c # rest)"
  by (cases "pretty opt") (auto simp: newline_def pad_def number_ends_def c_isdigit_def)

lemma scan_number_head: "scan_number r = Inr (u, s) \<Longrightarrow> \<exists>c t. r = c # t \<and> (c = CHR ''-'' \<or> c_isdigit c)"
  by (cases r) (auto simp: scan_number_def ebind_Inr_iff scan_int_def fail_def Let_def c_isdigit_def split: if_splits)

lemma stringify_head:
  assumes "json_ok v"
  shows "\<exists>c t. stringify_impl opt d v = c # t \<and> \<not> c_isspace c \<and> c \<noteq> CHR '']'' \<and> c \<noteq> CHR ''}''"
proof (cases v)
  case (JNumber r)
  with assms have "scan_number r = Inr ((), [])" by simp
  then obtain c t where "r = c # t" "c = CHR ''-'' \<or> c_isdigit c" using scan_number_head by blast
  moreover from this have "c \<noteq> CHR '']''" "c \<noteq> CHR ''}''" "\<not> c_isspace c"
    by (auto simp: c_isdigit_def c_isspace_def)
  ultimately show ?thesis using JNumber by simp
qed (simp_all add: quoted_def c_isspace_def)

lemma skip_stringify: "json_ok v \<Longrightarrow> skip_ws (stringify_impl opt d v @ rest) = stringify_impl opt d v @ rest"
  using stringify_head [of v opt d] by auto

lemma skip_ws_idem [simp]: "skip_ws (skip_ws s) = skip_ws s"
  by (induction s) simp_all

lemma parse_elements_skip: "parse_elements f (skip_ws s) = parse_elements f s"
  by (cases f) (simp_all add: parse_elements.simps)

lemma parse_members_skip: "parse_members f (skip_ws s) = parse_members f s"
  by (cases f) (simp_all add: parse_members.simps)

lemma parse_elements_printed:
  assumes "\<And>v f rest x. v \<in> set vs \<Longrightarrow> number_ends rest \<Longrightarrow>
      parse_json f (stringify_impl opt d v @ rest) = Some x \<Longrightarrow> x = Inr (v, rest)"
    and "list_all json_ok vs" "vs \<noteq> []"
    and "parse_elements f (joined opt (map (\<lambda>v. pad opt d @ stringify_impl opt d v) vs) @
           newline opt @ pad opt e @ CHR '']'' # rest) = Some x"
  shows "x = Inr (vs, rest)"
  using assms
proof (induction vs arbitrary: f x)
  case (Cons v vs)
  obtain g where f: "f = Suc g" using Cons.prems(4) by (cases f) (simp_all add: parse_elements.simps(1))
  have v: "json_ok v" using Cons.prems by simp
  have IH: "y = Inr (v, r)" if "number_ends r" "parse_json g (stringify_impl opt d v @ r) = Some y" for r y
    using Cons.prems(1) that by simp
  show ?case
  proof (cases vs)
    case Nil
    let ?r = "newline opt @ pad opt e @ CHR '']'' # rest"
    have "number_ends ?r" by (rule number_ends_close) simp
    with IH [of ?r] Cons.prems(4) show ?thesis
      by (auto simp: f Nil parse_elements.simps(2) skip_stringify v obind_Some_iff)
  next
    case (Cons w ws)
    let ?r = "CHR '','' # newline opt @ joined opt (map (\<lambda>v. pad opt d @ stringify_impl opt d v) vs) @
           newline opt @ pad opt e @ CHR '']'' # rest"
    have s: "skip_ws (joined opt (map (\<lambda>v. pad opt d @ stringify_impl opt d v) (v # vs)) @
           newline opt @ pad opt e @ CHR '']'' # rest) = stringify_impl opt d v @ ?r"
      by (simp add: Cons skip_stringify v)
    obtain y where y: "parse_json g (stringify_impl opt d v @ ?r) = Some y"
      using Cons.prems(4) unfolding f parse_elements.simps(2) s by (auto simp: obind_Some_iff)
    then have "y = Inr (v, ?r)" by (intro IH) simp_all
    then have "obind (parse_elements g (joined opt (map (\<lambda>v. pad opt d @ stringify_impl opt d v) vs) @
           newline opt @ pad opt e @ CHR '']'' # rest)) (\<lambda>(vs, r'). Some (Inr (v # vs, r'))) = Some x"
      using Cons.prems(4) y unfolding f parse_elements.simps(2) s by (simp add: parse_elements_skip)
    then obtain z where z: "parse_elements g (joined opt (map (\<lambda>v. pad opt d @ stringify_impl opt d v) vs) @
           newline opt @ pad opt e @ CHR '']'' # rest) = Some z"
      and x: "obind (Some z) (\<lambda>(vs, r'). Some (Inr (v # vs, r'))) = Some x"
      by (auto simp: obind_Some_iff)
    have "z = Inr (vs, rest)" using Cons.prems(1,2) Cons by (intro Cons.IH [OF _ _ _ z]) simp_all
    with x show ?thesis by simp
  qed
qed simp

definition member_text :: "stringify_options \<Rightarrow> nat \<Rightarrow> string \<times> json \<Rightarrow> string" where
  "member_text opt d p = quoted opt (fst p) @ (if pretty opt then '': '' else '':'') @ stringify_impl opt d (snd p)"

lemma skip_quoted: "skip_ws (quoted opt s @ rest) = quoted opt s @ rest"
  by (simp add: quoted_def)

lemma peek_quoted: "peek (quoted opt s @ rest) = CHR 0x22"
  by (simp add: quoted_def)

lemma skip_member: "skip_ws (member_text opt d p @ rest) = member_text opt d p @ rest"
  by (simp add: member_text_def quoted_def)

lemma parse_members_step:
  assumes "json_ok (snd p)" "number_ends r"
    and IH: "\<And>y. parse_json g (stringify_impl opt d (snd p) @ r) = Some y \<Longrightarrow> y = Inr (snd p, r)"
    and "parse_members (Suc g) (member_text opt d p @ r) = Some x"
  shows "(let s1 = skip_ws r in
         if peek s1 = CHR ''}'' then Some (Inr ([p], tl s1))
         else if peek s1 \<noteq> CHR '','' then Some (fail (''Expected '' @ CHR 0x27 # '','' @ CHR 0x27 # '' between object members'') s1)
         else obind (parse_members g (skip_ws (tl s1))) (\<lambda>(ps, r'). Some (Inr (p # ps, r')))) = Some x"
proof -
  let ?s = "stringify_impl opt d (snd p) @ r"
  let ?c = "(if pretty opt then '': '' else '':'') @ ?s"
  have q: "parse_str (skip_ws (member_text opt d p @ r)) = Inr (fst p, ?c)"
    unfolding skip_member by (simp add: member_text_def parse_quoted)
  have c: "skip_ws ?c = CHR '':'' # tl ?c" "skip_ws (tl ?c) = ?s"
    using skip_stringify [OF assms(1)] by (simp_all add: c_isspace_def)
  have e: "obind (parse_json g ?s) (\<lambda>(v, r).
         let s1 = skip_ws r in
         if peek s1 = CHR ''}'' then Some (Inr ([(fst p, v)], tl s1))
         else if peek s1 \<noteq> CHR '','' then Some (fail (''Expected '' @ CHR 0x27 # '','' @ CHR 0x27 # '' between object members'') s1)
         else obind (parse_members g (skip_ws (tl s1))) (\<lambda>(ps, r'). Some (Inr ((fst p, v) # ps, r')))) = Some x"
    using assms(4) unfolding parse_members.simps(2) q by (simp only: obind_simps prod.case Let_def c peek_simps list.sel) (simp only: simp_thms if_False c)
  then obtain y where "parse_json g ?s = Some y" by (auto simp: obind_Some_iff)
  with IH have j: "parse_json g ?s = Some (Inr (snd p, r))" by simp
  from e [unfolded j] show ?thesis by (simp only: obind_simps prod.case prod.collapse)
qed

lemma parse_members_printed:
  assumes "\<And>p f rest x. p \<in> set ps \<Longrightarrow> number_ends rest \<Longrightarrow>
      parse_json f (stringify_impl opt d (snd p) @ rest) = Some x \<Longrightarrow> x = Inr (snd p, rest)"
    and "list_all (\<lambda>p. json_ok (snd p)) ps" "ps \<noteq> []"
    and "parse_members f (joined opt (map (\<lambda>p. pad opt d @ member_text opt d p) ps) @
           newline opt @ pad opt e @ CHR ''}'' # rest) = Some x"
  shows "x = Inr (ps, rest)"
  using assms
proof (induction ps arbitrary: f x)
  case (Cons p ps)
  obtain g where f: "f = Suc g" using Cons.prems(4) by (cases f) (simp_all add: parse_members.simps(1))
  have v: "json_ok (snd p)" using Cons.prems by simp
  have IH: "y = Inr (snd p, r)" if "number_ends r" "parse_json g (stringify_impl opt d (snd p) @ r) = Some y" for r y
    using Cons.prems(1) that by simp
  show ?case
  proof (cases ps)
    case Nil
    let ?r = "newline opt @ pad opt e @ CHR ''}'' # rest"
    have n: "number_ends ?r" by (rule number_ends_close) simp
    have "parse_members (Suc g) (pad opt d @ member_text opt d p @ ?r) = Some x"
      using Cons.prems(4) by (simp add: f Nil)
    then have "parse_members (Suc g) (member_text opt d p @ ?r) = Some x"
      using parse_members_skip [of "Suc g" "pad opt d @ member_text opt d p @ ?r"] skip_member by simp
    from parse_members_step [OF v n IH [OF n] this] Nil show ?thesis by simp
  next
    case (Cons w ws)
    let ?t = "joined opt (map (\<lambda>p. pad opt d @ member_text opt d p) ps) @
           newline opt @ pad opt e @ CHR ''}'' # rest"
    let ?r = "CHR '','' # newline opt @ ?t"
    have n: "number_ends ?r" by simp
    have "parse_members (Suc g) (pad opt d @ member_text opt d p @ ?r) = Some x"
      using Cons.prems(4) by (simp add: f Cons)
    then have "parse_members (Suc g) (member_text opt d p @ ?r) = Some x"
      using parse_members_skip [of "Suc g" "pad opt d @ member_text opt d p @ ?r"] skip_member by simp
    from parse_members_step [OF v n IH [OF n] this]
    have "obind (parse_members g ?t) (\<lambda>(ps, r'). Some (Inr (p # ps, r'))) = Some x"
      by (simp add: parse_members_skip)
    then obtain z where z: "parse_members g ?t = Some z"
      and x: "obind (Some z) (\<lambda>(ps, r'). Some (Inr (p # ps, r'))) = Some x"
      by (auto simp: obind_Some_iff)
    have "z = Inr (ps, rest)" using Cons.prems(1,2) Cons by (intro Cons.IH [OF _ _ _ z]) simp_all
    with x show ?thesis by simp
  qed
qed simp

lemma peek_stringify:
  "json_ok v \<Longrightarrow> peek (stringify_impl opt d v @ rest) \<noteq> CHR '']'' \<and> peek (stringify_impl opt d v @ rest) \<noteq> CHR ''}''"
  using stringify_head [of v opt d] by auto

lemma parse_json_array:
  assumes "vs \<noteq> []" "list_all json_ok vs"
    and "\<And>v f rest x. v \<in> set vs \<Longrightarrow> number_ends rest \<Longrightarrow>
      parse_json f (stringify_impl opt (d + 1) v @ rest) = Some x \<Longrightarrow> x = Inr (v, rest)"
    and "parse_json f (stringify_impl opt d (JArray vs) @ rest) = Some x"
  shows "x = Inr (JArray vs, rest)"
proof -
  let ?t = "joined opt (map (\<lambda>v. pad opt (d + 1) @ stringify_impl opt (d + 1) v) vs) @
           newline opt @ pad opt d @ CHR '']'' # rest"
  obtain g where f: "f = Suc g" using assms(4) by (cases f) (simp_all add: parse_json.simps(1))
  obtain v ws where vs: "vs = v # ws" using assms(1) by (cases vs) auto
  have "\<exists>r. skip_ws ?t = stringify_impl opt (d + 1) v @ r"
    using assms(2) skip_stringify [of v opt "d + 1"] by (cases ws) (simp_all add: vs)
  then have p: "peek (skip_ws ?t) \<noteq> CHR '']''" using peek_stringify [of v opt "d + 1"] assms(2) vs by auto
  have s: "stringify_impl opt d (JArray vs) @ rest = CHR ''['' # newline opt @ ?t" using assms(1) by simp
  have "obind (parse_elements g ?t) (\<lambda>(vs, r). Some (Inr (JArray vs, r))) = Some x"
    using assms(4) p unfolding s f parse_json.simps(2) by (simp add: parse_elements_skip)
  moreover have "y = Inr (vs, rest)" if "parse_elements g ?t = Some y" for y
    using assms(3,2,1) that by (rule parse_elements_printed)
  ultimately show ?thesis by (auto simp: obind_Some_iff)
qed

lemma parse_json_object:
  assumes "ps \<noteq> []" "list_all (\<lambda>p. json_ok (snd p)) ps"
    and "\<And>p f rest x. p \<in> set ps \<Longrightarrow> number_ends rest \<Longrightarrow>
      parse_json f (stringify_impl opt (d + 1) (snd p) @ rest) = Some x \<Longrightarrow> x = Inr (snd p, rest)"
    and "parse_json f (stringify_impl opt d (JObject ps) @ rest) = Some x"
  shows "x = Inr (JObject ps, rest)"
proof -
  let ?t = "joined opt (map (\<lambda>p. pad opt (d + 1) @ member_text opt (d + 1) p) ps) @
           newline opt @ pad opt d @ CHR ''}'' # rest"
  obtain g where f: "f = Suc g" using assms(4) by (cases f) (simp_all add: parse_json.simps(1))
  obtain p qs where ps: "ps = p # qs" using assms(1) by (cases ps) auto
  have "\<exists>r. skip_ws ?t = member_text opt (d + 1) p @ r"
    using skip_member [of opt "d + 1" p] by (cases qs) (simp_all add: ps)
  then have p: "peek (skip_ws ?t) \<noteq> CHR ''}''" by (auto simp: member_text_def quoted_def)
  have s: "stringify_impl opt d (JObject ps) @ rest = CHR ''{'' # newline opt @ ?t"
    using assms(1) by (simp add: member_text_def)
  have "obind (parse_members g ?t) (\<lambda>(ps, r). Some (Inr (JObject ps, r))) = Some x"
    using assms(4) p unfolding s f parse_json.simps(2) by (simp add: parse_members_skip)
  moreover have "y = Inr (ps, rest)" if "parse_members g ?t = Some y" for y
    using assms(3,2,1) that by (rule parse_members_printed)
  ultimately show ?thesis by (auto simp: obind_Some_iff)
qed

lemma parse_json_printed:
  "json_ok v \<Longrightarrow> number_ends rest \<Longrightarrow> parse_json f (stringify_impl opt d v @ rest) = Some x \<Longrightarrow> x = Inr (v, rest)"
proof (induction v arbitrary: d rest f x)
  case (JNumber r)
  then obtain g where f: "f = Suc g" by (cases f) (simp_all add: parse_json.simps(1))
  have r: "scan_number r = Inr ((), [])" using JNumber by simp
  then obtain c t where "r = c # t" "c = CHR ''-'' \<or> c_isdigit c" using scan_number_head by blast
  moreover from this have "c \<notin> set ''ntf{[\"''" by (auto simp: c_isdigit_def)
  ultimately have "parse_json f (r @ rest) = Some (parse_number (r @ rest))"
    by (simp add: f parse_json.simps(2))
  with JNumber r show ?case by (simp add: parse_number_append)
next
  case (JString s)
  then obtain g where f: "f = Suc g" by (cases f) (simp_all add: parse_json.simps(1))
  have "peek (quoted opt s @ rest) = CHR 0x22" by (rule peek_quoted)
  with JString show ?case by (simp add: f parse_json.simps(2) parse_quoted)
next
  case (JArray vs)
  show ?case
  proof (cases "vs = []")
    case True
    with JArray.prems show ?thesis by (cases f) (simp_all add: parse_json.simps)
  next
    case False
    show ?thesis
    proof (rule parse_json_array [OF False _ _ JArray.prems(3)])
      show "list_all json_ok vs" using JArray.prems(1) by simp
      show "y = Inr (v, r)" if "v \<in> set vs" "number_ends r" "parse_json g (stringify_impl opt (d + 1) v @ r) = Some y"
        for v r g y using JArray.IH [OF that(1) _ that(2,3)] JArray.prems(1) that(1) by (simp add: list_all_iff)
    qed
  qed
next
  case (JObject ps)
  show ?case
  proof (cases "ps = []")
    case True
    with JObject.prems show ?thesis by (cases f) (simp_all add: parse_json.simps)
  next
    case False
    show ?thesis
    proof (rule parse_json_object [OF False _ _ JObject.prems(3)])
      show "list_all (\<lambda>p. json_ok (snd p)) ps" using JObject.prems(1) by simp
      show "y = Inr (snd p, r)"
        if "p \<in> set ps" "number_ends r" "parse_json g (stringify_impl opt (d + 1) (snd p) @ r) = Some y"
        for p r g y using JObject.IH [OF that(1) _ _ that(2,3)] JObject.prems(1) that(1)
        by (cases p) (auto simp: list_all_iff)
    qed
  qed
next
  case JNull
  then show ?case by (cases f) (simp_all add: parse_json.simps parse_literal_def)
next
  case (JBool b)
  then show ?case by (cases f; cases b) (simp_all add: parse_json.simps parse_literal_def)
qed

lemma stringify_parses:
  assumes "json_ok v"
  shows "json_parse (stringify opt v) = Some (Inr v)"
proof -
  let ?s = "stringify opt v" and ?f = "2 * length (stringify opt v) + 2"
  have s: "skip_ws ?s = ?s" using skip_stringify [OF assms, of opt 0 "[]"] by (simp add: stringify_def)
  have "parse_json ?f ?s \<noteq> None" by (rule parse_value_returns) simp
  then obtain x where x: "parse_json ?f ?s = Some x" by auto
  then have "parse_json ?f (stringify_impl opt 0 v @ []) = Some x" by (simp add: stringify_def)
  then have "x = Inr (v, [])" by (rule parse_json_printed [OF assms punctuation_facts(7)])
  with x show ?thesis by (simp add: json_parse_def parse_text_def s)
qed

interpretation json_text: codec "stringify opt"
    "\<lambda>s. case json_parse s of Some (Inr v) \<Rightarrow> Some v | _ \<Rightarrow> None" json_ok
  by unfold_locales (simp add: stringify_parses)

section \<open>What the parser accepts\<close>

lemma digits_prefix:
  assumes "c_isdigit (peek s)"
  shows "\<exists>p. s = p @ dropWhile c_isdigit s \<and> p \<noteq> [] \<and> c_isdigit (hd p) \<and> dropWhile c_isdigit p = []"
proof (intro exI conjI)
  show "s = takeWhile c_isdigit s @ dropWhile c_isdigit s" by simp
  show "takeWhile c_isdigit s \<noteq> []" "c_isdigit (hd (takeWhile c_isdigit s))"
    using assms by (cases s; simp)+
  show "dropWhile c_isdigit (takeWhile c_isdigit s) = []"
    by (auto simp: dropWhile_eq_Nil_conv dest: set_takeWhileD)
qed

lemma peek_hd: "p \<noteq> [] \<Longrightarrow> peek p = hd p"
  by (cases p) simp_all

lemma peek_cons: "peek s = c \<Longrightarrow> c \<noteq> CHR 0x00 \<Longrightarrow> s = c # tl s"
  by (cases s) auto

lemma scan_unsigned_prefix:
  assumes "peek t = CHR ''0'' \<and> r = tl t \<or> peek t \<noteq> CHR ''0'' \<and> c_isdigit (peek t) \<and> r = dropWhile c_isdigit t"
  shows "\<exists>p. t = p @ r \<and> p \<noteq> [] \<and> peek p \<noteq> CHR ''-'' \<and>
    (peek p = CHR ''0'' \<and> tl p = [] \<or> peek p \<noteq> CHR ''0'' \<and> c_isdigit (peek p) \<and> dropWhile c_isdigit p = [])"
  using assms
proof (elim disjE conjE)
  assume z: "peek t = CHR ''0''" and r: "r = tl t"
  have "t = [CHR ''0''] @ r" using peek_cons [OF z] r by simp
  then show ?thesis by (intro exI [of _ "[CHR ''0'']"]) simp
next
  assume z: "peek t \<noteq> CHR ''0''" "c_isdigit (peek t)" and r: "r = dropWhile c_isdigit t"
  obtain p where p: "t = p @ r" "p \<noteq> []" "c_isdigit (hd p)" "dropWhile c_isdigit p = []"
    using digits_prefix [OF z(2)] r by blast
  then have h: "peek p = peek t" "peek p = hd p" by (cases p; simp)+
  have "hd p \<noteq> CHR ''-''" using p(3) by (auto simp: c_isdigit_def)
  with p z h show ?thesis by (intro exI [of _ p]) simp
qed

lemma scan_int_prefix:
  assumes "scan_int s = Inr (u, r)"
  shows "\<exists>p. s = p @ r \<and> scan_int p = Inr ((), [])"
proof -
  define t where "t = (if peek s = CHR ''-'' then tl s else s)"
  have "peek t = CHR ''0'' \<and> r = tl t \<or> peek t \<noteq> CHR ''0'' \<and> c_isdigit (peek t) \<and> r = dropWhile c_isdigit t"
    using assms by (simp add: scan_int_def fail_def t_def [symmetric] split: if_splits)
  from scan_unsigned_prefix [OF this] obtain p where p: "t = p @ r" "p \<noteq> []" "peek p \<noteq> CHR ''-''"
      "peek p = CHR ''0'' \<and> tl p = [] \<or> peek p \<noteq> CHR ''0'' \<and> c_isdigit (peek p) \<and> dropWhile c_isdigit p = []"
    by blast
  show ?thesis
  proof (cases "peek s = CHR ''-''")
    case True
    then have "s = (CHR ''-'' # p) @ r" using p(1) peek_cons [OF True] by (simp add: t_def)
    moreover have "scan_int (CHR ''-'' # p) = Inr ((), [])" using p(4) by (auto simp: scan_int_def)
    ultimately show ?thesis by blast
  next
    case False
    then have "s = p @ r" using p(1) by (simp add: t_def)
    moreover have "scan_int p = Inr ((), [])" using p(3,4) by (auto simp: scan_int_def)
    ultimately show ?thesis by blast
  qed
qed

lemma scan_frac_prefix:
  assumes "scan_frac s = Inr (u, r)"
  shows "\<exists>p. s = p @ r \<and> scan_frac p = Inr ((), []) \<and> (p = [] \<or> peek p = CHR ''.'')"
proof (cases "peek s = CHR ''.''")
  case True
  with assms have d: "c_isdigit (peek (tl s))" "r = dropWhile c_isdigit (tl s)"
    by (simp_all add: scan_frac_def fail_def split: if_splits)
  with digits_prefix [OF d(1)] obtain p where p: "tl s = p @ r" "p \<noteq> []" "c_isdigit (hd p)" "dropWhile c_isdigit p = []"
    by blast
  have "s = (CHR ''.'' # p) @ r" using p(1) peek_cons [OF True] by simp
  moreover have "scan_frac (CHR ''.'' # p) = Inr ((), [])" using p by (simp add: scan_frac_def peek_hd)
  ultimately show ?thesis by (intro exI [of _ "CHR ''.'' # p"]) simp
qed (use assms in \<open>simp add: scan_frac_def\<close>)

lemma scan_exp_prefix:
  assumes "scan_exp s = Inr (u, r)"
  shows "\<exists>p. s = p @ r \<and> scan_exp p = Inr ((), []) \<and> (p = [] \<or> peek p = CHR ''e'' \<or> peek p = CHR ''E'')"
proof (cases "peek s = CHR ''e'' \<or> peek s = CHR ''E''")
  case True
  define t where "t = (if peek (tl s) = CHR ''+'' \<or> peek (tl s) = CHR ''-'' then tl (tl s) else tl s)"
  from assms True have d: "c_isdigit (peek t)" "r = dropWhile c_isdigit t"
    by (simp_all add: scan_exp_def fail_def t_def [symmetric] split: if_splits)
  with digits_prefix [OF d(1)] obtain p where p: "t = p @ r" "p \<noteq> []" "c_isdigit (hd p)" "dropWhile c_isdigit p = []"
    by blast
  have h: "hd p \<noteq> CHR ''+''" "hd p \<noteq> CHR ''-''" using p(3) by (auto simp: c_isdigit_def)
  have s: "s = peek s # tl s" using True by (cases s) auto
  define sg where "sg = (if peek (tl s) = CHR ''+'' \<or> peek (tl s) = CHR ''-'' then [peek (tl s)] else [])"
  have "tl s = sg @ t" by (cases "tl s") (simp_all add: sg_def t_def)
  then have "s = (peek s # sg @ p) @ r" using s p(1) by simp
  moreover have "scan_exp (peek s # sg @ p) = Inr ((), [])"
    using p h True by (simp add: scan_exp_def peek_hd sg_def)
  ultimately show ?thesis using True by (intro exI [of _ "peek s # sg @ p"]) simp
qed (use assms in \<open>simp add: scan_exp_def\<close>)

lemma scan_number_prefix:
  assumes "scan_number s = Inr (u, r)"
  shows "\<exists>p. s = p @ r \<and> scan_number p = Inr ((), [])"
proof -
  obtain v1 v2 s1 s2 where s: "scan_int s = Inr (v1, s1)" "scan_frac s1 = Inr (v2, s2)" "scan_exp s2 = Inr (u, r)"
    using assms by (auto simp: scan_number_def ebind_Inr_iff)
  obtain p1 where p1: "s = p1 @ s1" "scan_int p1 = Inr ((), [])" using scan_int_prefix [OF s(1)] by blast
  obtain p2 where p2: "s1 = p2 @ s2" "scan_frac p2 = Inr ((), [])" "p2 = [] \<or> peek p2 = CHR ''.''"
    using scan_frac_prefix [OF s(2)] by blast
  obtain p3 where p3: "s2 = p3 @ r" "scan_exp p3 = Inr ((), [])" "p3 = [] \<or> peek p3 = CHR ''e'' \<or> peek p3 = CHR ''E''"
    using scan_exp_prefix [OF s(3)] by blast
  have n: "\<not> c_isdigit (CHR ''.'')" "\<not> c_isdigit (CHR ''e'')" "\<not> c_isdigit (CHR ''E'')" by (simp_all add: c_isdigit_def)
  have d3: "\<not> c_isdigit (peek p3)" "peek p3 \<noteq> CHR ''.''" using p3(3) n by auto
  have "\<not> c_isdigit (peek (p2 @ p3))" using p2(3) d3 n by (cases p2) auto
  from scan_int_append [OF p1(2) this] scan_frac_append [OF p2(2) d3] p3(2)
  have "scan_number (p1 @ p2 @ p3) = Inr ((), [])" by (simp add: scan_number_def)
  with p1(1) p2(1) p3(1) show ?thesis by (intro exI [of _ "p1 @ p2 @ p3"]) simp
qed

lemma parse_number_ok: "parse_number s = Inr (v, r) \<Longrightarrow> json_ok v"
  using scan_number_prefix by (fastforce simp: parse_number_def ebind_Inr_iff)

lemma parse_json_ok:
  "parse_json f s = Some (Inr (v, r)) \<Longrightarrow> json_ok v"
  "parse_elements f s = Some (Inr (vs, r)) \<Longrightarrow> list_all json_ok vs"
  "parse_members f s = Some (Inr (ps, r)) \<Longrightarrow> list_all (\<lambda>p. json_ok (snd p)) ps"
proof (induction f s and f s and f s arbitrary: v r and vs r and ps r rule: parse_json_parse_elements_parse_members.induct)
  case (2 f s)
  then show ?case
    by (auto simp: parse_json.simps(2) Let_def obind_Inr_iff ebind_Inr_iff fail_def parse_literal_def
        parse_number_ok split: if_splits)
next
  case (4 f s)
  from 4(3) obtain v r1 where j: "parse_json f (skip_ws s) = Some (Inr (v, r1))"
    by (auto simp: parse_elements.simps(2) obind_Inr_iff)
  note v = 4(1) [OF j]
  from 4(3) j consider "vs = [v]"
    | ws where "peek (skip_ws r1) \<noteq> CHR '']''" "peek (skip_ws r1) = CHR '',''"
        "parse_elements f (skip_ws (tl (skip_ws r1))) = Some (Inr (ws, r))" "vs = v # ws"
    by (auto simp: parse_elements.simps(2) Let_def obind_Inr_iff fail_def split: if_splits)
  then show ?case
  proof cases
    case 2
    then have "list_all json_ok ws" using j by (intro 4(2)) simp_all
    with v 2 show ?thesis by simp
  qed (simp add: v)
next
  case (6 f s)
  then obtain k r0 where k: "parse_str (skip_ws s) = Inr (k, r0)" and c: "peek (skip_ws r0) = CHR '':''"
    by (auto simp: json_unfold Let_def obind_Inr_iff fail_def split: if_splits)
  with 6(3) obtain v r1 where j: "parse_json f (skip_ws (tl (skip_ws r0))) = Some (Inr (v, r1))"
    by (auto simp: json_unfold Let_def obind_Inr_iff)
  have v: "json_ok v" using k c j by (intro 6(1)) simp_all
  from 6(3) k c j consider "ps = [(k, v)]"
    | qs where "peek (skip_ws r1) \<noteq> CHR ''}''" "peek (skip_ws r1) = CHR '',''"
        "parse_members f (skip_ws (tl (skip_ws r1))) = Some (Inr (qs, r))" "ps = (k, v) # qs"
    by (auto simp: parse_members.simps(2) Let_def obind_Inr_iff fail_def split: if_splits)
  then show ?case
  proof cases
    case 2
    then have "list_all (\<lambda>p. json_ok (snd p)) qs" using k c j by (intro 6(2)) simp_all
    with v 2 show ?thesis by simp
  qed (simp add: v)
qed (simp_all add: parse_json.simps(1) parse_elements.simps(1) parse_members.simps(1))

section \<open>Properties\<close>

text \<open>C25: \<open>JSON::parse\<close>, \<open>validate\<close> and \<open>parse_or_throw\<close> return for every text: the recursion of
  the parser ends, with a value or with an error.\<close>

theorem json_total: "json_parse s \<noteq> None \<and> json_validate s \<noteq> None \<and> parse_or_throw s \<noteq> None"
  using json_parse_returns [of s] by (auto simp: json_validate_def parse_or_throw_def)

text \<open>C24: Printing a value and parsing the text gives the value back, whatever the printer's
  options (line breaks, indentation, escaped solidus), provided its numbers are JSON numbers:
  strings with quotes, backslashes, control characters and bytes above 127, nested and empty
  arrays and objects, and objects with repeated keys included.\<close>

theorem json_roundtrip: "json_ok v \<Longrightarrow> json_parse (stringify opt v) = Some (Inr v)"
  by (rule stringify_parses)

theorem json_roundtrip_witness:
  "json_parse (stringify \<lparr>pretty = True, indent = 2, escape_solidus = True\<rparr>
     (JObject [(''a/b'', JArray [JNumber ''-1.5e3'', JNull]), ([CHR 0x01, CHR 0x22], JObject [])])) =
   Some (Inr (JObject [(''a/b'', JArray [JNumber ''-1.5e3'', JNull]), ([CHR 0x01, CHR 0x22], JObject [])]))"
  by (rule json_roundtrip) code_simp

lemma json_parse_wf: "json_parse s = Some (Inr v) \<Longrightarrow> json_ok v"
proof -
  assume "json_parse s = Some (Inr v)"
  then obtain f r where "parse_json f (skip_ws s) = Some (Inr (v, r))"
    by (auto simp: json_parse_def parse_text_def obind_Some_iff fail_def split: if_splits sum.splits)
  then show "json_ok v" by (rule parse_json_ok)
qed



end
