(* ===== verification/Text.thy ===== *)
theory Text
  imports Interfaces
begin

text \<open>
  Searching and cutting strings as \<open>std::string::find\<close>, \<open>find_first_not_of\<close> and \<open>std::getline\<close>
  do, for the components that read text: the tracker client, the HTTP and the WebSocket server,
  the magnet links.
\<close>

fun find_str :: "string \<Rightarrow> string \<Rightarrow> nat option" where
  "find_str pat [] = (if pat = [] then Some 0 else None)"
| "find_str pat (c # s) = (if prefix pat (c # s) then Some 0 else map_option Suc (find_str pat s))"

text \<open>\<open>getline\<close> until the stream ends: a last line without its end counts, an empty rest does not.\<close>

fun get_lines :: "char \<Rightarrow> string \<Rightarrow> string \<Rightarrow> string list" where
  "get_lines d acc [] = (if acc = [] then [] else [rev acc])"
| "get_lines d acc (c # s) = (if c = d then rev acc # get_lines d [] s else get_lines d (c # acc) s)"

text \<open>A line without the carriage return before its end.\<close>

definition strip_cr :: "string \<Rightarrow> string" where
  "strip_cr l = (if l \<noteq> [] \<and> last l = CHR 0x0D then butlast l else l)"

text \<open>Reading a word with \<open>operator>>\<close>: it leaves the string empty when there is none.\<close>

definition next_word :: "string \<Rightarrow> string \<times> string" where
  "next_word s =
     (let s1 = dropWhile c_isspace s in (takeWhile (\<lambda>c. \<not> c_isspace c) s1, dropWhile (\<lambda>c. \<not> c_isspace c) s1))"

text \<open>What a C function sees of a string: the characters before the first null character.\<close>

definition c_str :: "string \<Rightarrow> string" where
  "c_str s = takeWhile (\<lambda>c. c \<noteq> CHR 0x00) s"

definition crlf :: string where
  "crlf = [CHR 0x0D, CHR 0x0A]"

definition blank_line :: string where
  "blank_line = crlf @ crlf"

lemma find_str_Some: "find_str pat s = Some i \<Longrightarrow> \<exists>r. s = take i s @ pat @ r \<and> i + length pat \<le> length s"
proof (induction s arbitrary: i)
  case (Cons c s)
  show ?case
  proof (cases "prefix pat (c # s)")
    case True
    then show ?thesis using Cons.prems prefix_length_le [OF True] by (auto simp: prefix_def)
  next
    case False
    then obtain j where j: "find_str pat s = Some j" "i = Suc j" using Cons.prems by auto
    from Cons.IH [OF j(1)] j(2) show ?thesis by auto
  qed
qed (auto split: if_splits)

lemma get_lines_line: "d \<notin> set l \<Longrightarrow> get_lines d acc (l @ d # s) = (rev acc @ l) # get_lines d [] s"
  by (induction l arbitrary: acc) auto

lemma get_lines_last: "d \<notin> set l \<Longrightarrow> l \<noteq> [] \<Longrightarrow> get_lines d acc l = [rev acc @ l]"
proof (induction l arbitrary: acc)
  case (Cons c l)
  then show ?case by (cases l) auto
qed simp

lemma find_str_append: "find_str p s = Some i \<Longrightarrow> find_str p (s @ t) = Some i"
proof (induction s arbitrary: i)
  case Nil
  then show ?case by (cases t) (auto split: if_splits)
next
  case (Cons c s)
  show ?case
  proof (cases "prefix p (c # s)")
    case True
    then have "prefix p (c # s @ t)" using prefix_prefix [OF True, of t] by simp
    with True Cons.prems show ?thesis by simp
  next
    case False
    with Cons.prems obtain j where j: "find_str p s = Some j" "i = Suc j" by auto
    with find_str_Some [OF j(1)] have "length p \<le> length s" by auto
    with False have "\<not> prefix p (c # s @ t)"
      using prefix_append [of p "c # s" t] by auto
    with Cons.IH [OF j(1)] j(2) show ?thesis by simp
  qed
qed

lemma next_word_append:
  "list_all (\<lambda>c. \<not> c_isspace c) w \<Longrightarrow> w \<noteq> [] \<Longrightarrow> s = [] \<or> c_isspace (hd s) \<Longrightarrow> next_word (w @ s) = (w, s)"
proof -
  assume w: "list_all (\<lambda>c. \<not> c_isspace c) w" "w \<noteq> []" and s: "s = [] \<or> c_isspace (hd s)"
  from w have "dropWhile c_isspace (w @ s) = w @ s" by (cases w) auto
  moreover from w(1) have "\<forall>c \<in> set w. \<not> c_isspace c" by (simp add: list_all_iff)
  ultimately show ?thesis using s
    by (cases s) (simp_all add: next_word_def takeWhile_tail dropWhile_append3)
qed

text \<open>The header block of a message: lines with their ends, then an empty line.\<close>

definition header_block :: "string list \<Rightarrow> string" where
  "header_block ls = concat (map (\<lambda>l. l @ crlf) ls)"

definition header_line :: "string \<Rightarrow> bool" where
  "header_line l \<longleftrightarrow> l \<noteq> [] \<and> CHR 0x0D \<notin> set l"

lemma header_block_simps [simp]:
  "header_block [] = []" "header_block (l # ls) = l @ crlf @ header_block ls"
  by (simp_all add: header_block_def)

lemma find_str_skip:
  "c \<notin> set l \<Longrightarrow> find_str (c # p) (l @ s) = map_option ((+) (length l)) (find_str (c # p) s)"
  by (cases "find_str (c # p) s"; induction l) auto

lemma find_blank_line:
  "list_all header_line ls \<Longrightarrow> ls \<noteq> [] \<Longrightarrow>
     find_str blank_line (header_block ls @ crlf @ body) = Some (length (header_block ls) - 2)"
proof (induction ls)
  case (Cons l ls)
  have l: "CHR 0x0D \<notin> set l" "l \<noteq> []" using Cons.prems by (simp_all add: header_line_def)
  note skip = find_str_skip [OF l(1), of "[CHR 0x0A, CHR 0x0D, CHR 0x0A]"]
  show ?case
  proof (cases ls)
    case Nil
    then show ?thesis using skip [of "crlf @ crlf @ body"] by (simp add: blank_line_def crlf_def)
  next
    case (Cons k ks)
    then have "header_line k" "list_all header_line ls" using Cons.prems by simp_all
    then obtain c cs where k: "k = c # cs" "c \<noteq> CHR 0x0D" by (cases k) (auto simp: header_line_def)
    have "find_str blank_line (header_block ls @ crlf @ body) = Some (length (header_block ls) - 2)"
      using \<open>list_all header_line ls\<close> Cons by (intro Cons.IH) simp_all
    moreover have "2 \<le> length (header_block ls)" using Cons by (simp add: crlf_def)
    ultimately show ?thesis using skip [of "crlf @ header_block ls @ crlf @ body"] Cons k
      by (simp add: blank_line_def crlf_def)
  qed
qed simp

end
