(* ===== verification/Tracker_Client.thy ===== *)
theory Tracker_Client
  imports Torrent_Metadata Json Text
begin

text \<open>
  \<open>src/tracker/client.cpp\<close>: the announce URL and the tracker's answer.  What \<open>http_get\<close> or
  \<open>https_get\<close> returns for a URL is an argument.  Every exception is caught and rethrown with
  a prefix; the outer option is the bencode parser's.
\<close>

record peer_info =
  pi_ip :: "byte list"
  pi_port :: "16 word"

definition peer_to_string :: "peer_info \<Rightarrow> string" where
  "peer_to_string p =
     show_nat (unat (pi_ip p ! 0)) @ ''.'' @ show_nat (unat (pi_ip p ! 1)) @ ''.'' @ show_nat (unat (pi_ip p ! 2)) @
     ''.'' @ show_nat (unat (pi_ip p ! 3)) @ '':'' @ show_nat (unat (pi_port p))"

section \<open>The announce URL\<close>

definition c_isalnum :: "char \<Rightarrow> bool" where
  "c_isalnum c \<longleftrightarrow> (let n = (of_char c :: nat) in 48 \<le> n \<and> n \<le> 57 \<or> 65 \<le> n \<and> n \<le> 90 \<or> 97 \<le> n \<and> n \<le> 122)"

definition url_char :: "char \<Rightarrow> string" where
  "url_char c =
     (if c_isalnum c \<or> c = CHR ''-'' \<or> c = CHR ''_'' \<or> c = CHR ''.'' \<or> c = CHR ''~'' then [c]
      else [CHR ''%'', hex_digit (of_char c div 16), hex_digit (of_char c mod 16)])"

definition url_encode :: "string \<Rightarrow> string" where
  "url_encode d = concat (map url_char d)"

definition build_tracker_url ::
    "torrent_metadata \<Rightarrow> byte list \<Rightarrow> 16 word \<Rightarrow> nat \<Rightarrow> nat \<Rightarrow> nat \<Rightarrow> string \<Rightarrow> string option \<Rightarrow> string" where
  "build_tracker_url m peer_id port uploaded downloaded left event announce_url =
     (case announce_url of Some u \<Rightarrow> u | None \<Rightarrow> announce m) @
     ''?info_hash='' @ url_encode (string_of_bytes (info_hash m)) @
     ''&peer_id='' @ url_encode (string_of_bytes peer_id) @
     ''&port='' @ show_nat (unat port) @ ''&uploaded='' @ show_nat uploaded @
     ''&downloaded='' @ show_nat downloaded @ ''&left='' @ show_nat left @ ''&compact=1'' @
     (if event \<noteq> [] then ''&event='' @ event else [])"

section \<open>The answer\<close>

definition compact_info :: "string \<Rightarrow> peer_info" where
  "compact_info d = \<lparr>pi_ip = bytes_of_string (take 4 d), pi_port = load16 (byte_of_char (d ! 4)) (byte_of_char (d ! 5))\<rparr>"

definition parse_compact_peers :: "string \<Rightarrow> peer_info list res" where
  "parse_compact_peers d =
     (if length d mod 6 \<noteq> 0 then Inl ''Invalid compact peers data length''
      else Inr (map (\<lambda>i. compact_info (drop (i * 6) d)) [0..<length d div 6]))"

text \<open>\<open>sscanf\<close> with \<open>%d.%d.%d.%d\<close>: the text ends at a null character; each \<open>%d\<close> skips white space
  and needs a digit, each point must follow at once.\<close>

definition scan_d :: "string \<Rightarrow> (int \<times> string) option" where
  "scan_d s = (if snd (strtoll s) = s then None else Some (strtoll s))"

definition scan_point :: "string \<Rightarrow> string option" where
  "scan_point s = (case s of [] \<Rightarrow> None | c # r \<Rightarrow> if c = CHR ''.'' then Some r else None)"

definition scan_ip :: "string \<Rightarrow> byte list option" where
  "scan_ip s0 =
     Option.bind (scan_d (takeWhile (\<lambda>c. c \<noteq> CHR 0x00) s0)) (\<lambda>(a, s).
     Option.bind (scan_point s) (\<lambda>s.
     Option.bind (scan_d s) (\<lambda>(b, s).
     Option.bind (scan_point s) (\<lambda>s.
     Option.bind (scan_d s) (\<lambda>(c, s).
     Option.bind (scan_point s) (\<lambda>s.
     Option.bind (scan_d s) (\<lambda>(d, s).
       Some (map word_of_int [a, b, c, d]))))))))"

definition dict_peer :: "bval \<Rightarrow> peer_info list" where
  "dict_peer v =
     (case v of
        BDict d \<Rightarrow>
          (case (map_of d ''ip'', map_of d ''port'') of
             (Some (BStr ip), Some (BInt port)) \<Rightarrow>
               (case scan_ip ip of Some i \<Rightarrow> [\<lparr>pi_ip = i, pi_port = word_of_int port\<rparr>] | None \<Rightarrow> [])
           | _ \<Rightarrow> [])
      | _ \<Rightarrow> [])"

definition response_peers :: "bval \<Rightarrow> peer_info list res" where
  "response_peers v =
     (case v of
        BDict d \<Rightarrow>
          (case map_of d ''failure reason'' of
             Some (BStr reason) \<Rightarrow> Inl (''Tracker failure: '' @ reason)
           | _ \<Rightarrow>
             (case map_of d ''peers'' of
                None \<Rightarrow> Inl ''No peers in tracker response''
              | Some (BStr ps) \<Rightarrow> parse_compact_peers ps
              | Some (BList vs) \<Rightarrow> Inr (concat (map dict_peer vs))
              | _ \<Rightarrow> Inl ''Unsupported peer format''))
      | _ \<Rightarrow> Inl ''Invalid tracker response: not a dictionary'')"

definition read_response :: "string \<Rightarrow> peer_info list res option" where
  "read_response response =
     (if response = [] then Some (Inl ''Empty tracker response'')
      else case find_str blank_line response of
          None \<Rightarrow> Some (Inl ''Invalid HTTP response format'')
        | Some i \<Rightarrow> map_option (\<lambda>r. ebind r response_peers) (parse (drop (i + 4) response)))"

definition get_peers ::
    "(bool \<Rightarrow> string \<Rightarrow> string res) \<Rightarrow> torrent_metadata \<Rightarrow> byte list \<Rightarrow> 16 word \<Rightarrow> nat \<Rightarrow> nat \<Rightarrow> nat \<Rightarrow> string \<Rightarrow>
     string option \<Rightarrow> peer_info list res option" where
  "get_peers fetch m peer_id port uploaded downloaded left event announce_url =
     (let url = build_tracker_url m peer_id port uploaded downloaded left event announce_url
      in map_option (map_sum (\<lambda>e. ''Tracker request failed: '' @ e) id)
           (obind (Some (fetch (prefix ''https://'' url) url)) read_response))"

section \<open>Percent encoding\<close>

text \<open>The reading of RFC 3986: a percent sign and two hexadecimal digits are a character.\<close>

fun percent_decode :: "string \<Rightarrow> string option" where
  "percent_decode [] = Some []"
| "percent_decode (c # s) =
     (if c = CHR ''%'' then
        (case s of
           a # b # r \<Rightarrow>
             (case (hex_digit_val a, hex_digit_val b) of
                (Some i, Some j) \<Rightarrow> map_option ((#) (char_of (16 * i + j))) (percent_decode r)
              | _ \<Rightarrow> None)
         | _ \<Rightarrow> None)
      else map_option ((#) c) (percent_decode s))"

definition url_safe :: "char \<Rightarrow> bool" where
  "url_safe c \<longleftrightarrow> c_isalnum c \<or> c \<in> set ''-_.~%''"

lemma char_nibbles: "(of_char c :: nat) div 16 < 16" "(of_char c :: nat) mod 16 < 16"
  "char_of (16 * (of_char c div 16) + of_char c mod 16 :: nat) = (c :: char)"
proof -
  have "(of_char c :: nat) mod 256 = of_char c" by simp
  then have "(of_char c :: nat) < 256" using mod_less_divisor [of 256 "of_char c :: nat"] by linarith
  moreover have "n < 256 \<Longrightarrow> n div 16 < 16" for n :: nat by presburger
  ultimately show "(of_char c :: nat) div 16 < 16" by blast
  show "char_of (16 * (of_char c div 16) + of_char c mod 16 :: nat) = (c :: char)" by simp
qed simp

lemma percent_decode_char: "percent_decode (url_char c @ s) = map_option ((#) c) (percent_decode s)"
proof (cases "c_isalnum c \<or> c = CHR ''-'' \<or> c = CHR ''_'' \<or> c = CHR ''.'' \<or> c = CHR ''~''")
  case True
  then have "c \<noteq> CHR ''%''" by (auto simp: c_isalnum_def)
  then show ?thesis using True by (simp add: url_char_def)
next
  case False
  then show ?thesis using hex_digit_facts(1) [OF char_nibbles(1) [of c]] hex_digit_facts(1) [OF char_nibbles(2) [of c]]
    by (simp add: url_char_def)
qed

lemma hex_digit_alnum: "n < 16 \<Longrightarrow> c_isalnum (hex_digit n)"
  by (auto simp: hex_digit_def c_isalnum_def Let_def)

lemma url_char_safe: "list_all url_safe (url_char c)"
  using hex_digit_alnum [OF char_nibbles(1) [of c]] hex_digit_alnum [OF char_nibbles(2) [of c]]
  by (auto simp: url_char_def url_safe_def)

lemma url_encode_sound: "percent_decode (url_encode d) = Some d" "list_all url_safe (url_encode d)"
proof (induction d)
  case (Cons c d)
  case 1
  then show ?case using Cons by (simp add: url_encode_def percent_decode_char)
  case 2
  then show ?case using Cons url_char_safe [of c] by (simp add: url_encode_def)
qed (simp_all add: url_encode_def)

interpretation url: codec url_encode percent_decode "\<lambda>_. True"
  by unfold_locales (rule url_encode_sound)

section \<open>Compact peers\<close>

definition info_bytes :: "peer_info \<Rightarrow> string" where
  "info_bytes p = string_of_bytes (pi_ip p @ store16 (pi_port p))"

lemma compact_info_bytes: "length (pi_ip p) = 4 \<Longrightarrow> compact_info (info_bytes p @ r) = p"
  by (cases p) (simp add: compact_info_def info_bytes_def nth_append store16_def del: map_map)

interpretation compact: fixed_codec info_bytes compact_info 6 "\<lambda>p. length (pi_ip p) = 4"
  using compact_info_bytes [where r = "[]"] by unfold_locales (simp_all add: info_bytes_def)

lemma compact_info_take: "6 \<le> length d \<Longrightarrow> compact_info (take 6 d) = compact_info d"
  by (simp add: compact_info_def)

lemma parse_compact_chunks: "6 dvd length d \<Longrightarrow> parse_compact_peers d = Inr (map compact_info (chunks 6 d))"
proof -
  assume d: "6 dvd length d"
  have "compact_info (drop (i * 6) d) = compact_info (chunks 6 d ! i)" if "i < length d div 6" for i
  proof -
    have "6 \<le> length (drop (i * 6) d)" using that by simp
    then show ?thesis using that compact_info_take [of "drop (i * 6) d"] by (simp add: nth_chunks)
  qed
  then have "map (\<lambda>i. compact_info (drop (i * 6) d)) [0..<length d div 6] = map compact_info (chunks 6 d)"
    by (intro nth_equalityI) (simp_all add: length_chunks)
  then show ?thesis using d by (simp add: parse_compact_peers_def)
qed

lemma parse_compact_peers_concat:
  "\<forall>p \<in> set ps. length (pi_ip p) = 4 \<Longrightarrow> parse_compact_peers (concat (map info_bytes ps)) = Inr ps"
  using compact.decode_concat [of ps] compact.length_concat [of ps] by (simp add: parse_compact_chunks)

section \<open>Reading an answer\<close>

lemma canon_scalar: "canon (BDict ps) = BDict qs \<Longrightarrow> distinct (map fst ps) \<Longrightarrow>
    map_of ps k = Some (BStr s) \<Longrightarrow> map_of qs k = Some (BStr s)"
  by (simp add: canon_lookup)

lemma read_response_peers:
  assumes "ls \<noteq> []" "list_all header_line ls" "bval_ok (BDict d)" "length (encode (BDict d)) < 2 ^ 64"
    and "map_of d ''failure reason'' = None" "map_of d ''peers'' = Some (BStr (concat (map info_bytes ps)))"
    and "\<forall>p \<in> set ps. length (pi_ip p) = 4"
  shows "read_response (header_block ls @ crlf @ encode (BDict d)) = Some (Inr ps)"
proof -
  let ?h = "header_block ls" and ?b = "encode (BDict d)"
  have two: "2 \<le> length ?h" using assms(1) by (cases ls) (simp_all add: crlf_def)
  obtain qs where q: "canon (BDict d) = BDict qs" by simp
  have "distinct (map fst d)" using assms(3) by simp
  note l = canon_lookup [OF q this]
  have "drop (length ?h - 2 + 4) (?h @ crlf @ ?b) = ?b" using two by (simp add: crlf_def)
  moreover have "parse ?b = Some (Inr (BDict qs))"
    using parse_data_encode [OF assms(3), of "[]"] assms(4) q by (simp add: parse_def)
  ultimately have "read_response (?h @ crlf @ ?b) = Some (response_peers (BDict qs))"
    using find_blank_line [OF assms(2,1), of ?b] by (simp add: read_response_def crlf_def)
  then show ?thesis using l assms(5-7) by (simp add: response_peers_def parse_compact_peers_concat)
qed



end
