(* ===== verification/Base64.thy ===== *)
theory Base64
  imports Interfaces
begin

text \<open>
  The base64 routines of \<open>src/storage/state_manager.cpp\<close> and \<open>src/api/websocket_server.cpp\<close>.
  The bytes of a \<open>char_array_4\<close> never exceed 8 bits, so byte arithmetic is the code's \<open>int\<close>
  arithmetic.  The decoder's \<open>val\<close> is an \<open>int\<close> shifted left at each character, a 32-bit word
  here: in C++20 the shift drops the upper bits.
\<close>

section \<open>Encoding and decoding\<close>

definition base64_chars :: string where
  "base64_chars = ''ABCDEFGHIJKLMNOPQRSTUVWXYZabcdefghijklmnopqrstuvwxyz0123456789+/''"

definition sextets :: "byte \<Rightarrow> byte \<Rightarrow> byte \<Rightarrow> byte list" where
  "sextets a b c =
     [drop_bit 2 (a AND 0xFC), push_bit 4 (a AND 0x03) + drop_bit 4 (b AND 0xF0),
      push_bit 2 (b AND 0x0F) + drop_bit 6 (c AND 0xC0), c AND 0x3F]"

definition digits64 :: "byte list \<Rightarrow> string" where
  "digits64 ss = map (\<lambda>s. base64_chars ! unat s) ss"

fun encode_bytes :: "byte list \<Rightarrow> string" where
  "encode_bytes (a # b # c # bs) = digits64 (sextets a b c) @ encode_bytes bs"
| "encode_bytes [a, b] = digits64 (take 3 (sextets a b 0)) @ ''=''"
| "encode_bytes [a] = digits64 (take 2 (sextets a 0 0)) @ ''==''"
| "encode_bytes [] = []"

definition base64_encode :: "string \<Rightarrow> string" where
  "base64_encode input = encode_bytes (bytes_of_string input)"

text \<open>The table \<open>T\<close>; \<open>None\<close> is its \<open>-1\<close>.\<close>

definition table64 :: "char \<Rightarrow> nat option" where
  "table64 c = map_of (zip base64_chars [0..<64]) c"

fun decode_loop :: "32 word \<Rightarrow> int \<Rightarrow> string \<Rightarrow> string" where
  "decode_loop val valb [] = []"
| "decode_loop val valb (c # cs) =
     (case table64 c of
        None \<Rightarrow> decode_loop val valb cs
      | Some i \<Rightarrow>
          (let val' = push_bit 6 val + word_of_nat i; valb' = valb + 6 in
           if 0 \<le> valb' then char_of_byte (ucast (signed_drop_bit (nat valb') val')) # decode_loop val' (valb' - 8) cs
           else decode_loop val' valb' cs))"

definition base64_decode :: "string \<Rightarrow> string" where
  "base64_decode encoded = decode_loop 0 (- 8) encoded"

section \<open>Decoding an encoding\<close>

lemma table_digit: "i < 64 \<Longrightarrow> table64 (base64_chars ! i) = Some i"
proof -
  have "\<forall>i \<in> set [0..<64]. table64 (base64_chars ! i) = Some i" by code_simp
  then show "i < 64 \<Longrightarrow> table64 (base64_chars ! i) = Some i" by simp
qed

lemma table_pad: "table64 CHR ''='' = None"
  by code_simp

lemma byte_eq_bits:
  "(x :: byte) = y \<longleftrightarrow> (\<forall>n \<in> {0, 1, 2, 3, 4, 5, 6, 7}. bit x n = bit y n)"
proof -
  have "{0, 1, 2, 3, 4, 5, 6, 7} = {..<8 :: nat}" by auto
  then show ?thesis by (simp only: bit_eq_iff [of x y]) (auto simp: bit_simps dest: bit_imp_le_length)
qed

lemma byte_high_bits [simp]: "8 \<le> n \<Longrightarrow> \<not> bit (x :: byte) n"
  by (auto dest: bit_imp_le_length)

text \<open>The four values of a group, with the sums as disjunctions.\<close>

lemma sextets_or:
  "sextets a b c =
     [drop_bit 2 a, push_bit 4 (a AND 0x03) OR drop_bit 4 b, push_bit 2 (b AND 0x0F) OR drop_bit 6 c, c AND 0x3F]"
proof -
  have m: "drop_bit 2 (a AND 0xFC) = drop_bit 2 a" "drop_bit 4 (b AND 0xF0) = drop_bit 4 b"
    "drop_bit 6 (c AND 0xC0) = drop_bit 6 c"
    by (simp_all add: byte_eq_bits bit_simps)
  have "push_bit 4 (a AND 0x03) AND drop_bit 4 b = 0" "push_bit 2 (b AND 0x0F) AND drop_bit 6 c = 0"
    by (rule bit_word_eqI; auto simp: bit_simps dest!: bit_imp_le_length)+
  then have "push_bit 4 (a AND 0x03) + drop_bit 4 b = push_bit 4 (a AND 0x03) OR drop_bit 4 b"
    "push_bit 2 (b AND 0x0F) + drop_bit 6 c = push_bit 2 (b AND 0x0F) OR drop_bit 6 c"
    by (simp_all only: disjunctive_add_eq_or)
  with m show ?thesis by (simp add: sextets_def)
qed

text \<open>A value below 64, by its bits.\<close>

definition sextet :: "byte \<Rightarrow> bool" where
  "sextet s \<longleftrightarrow> \<not> bit s 6 \<and> \<not> bit s 7"

lemma sextet_less: "sextet s \<Longrightarrow> unat s < 64"
proof -
  assume "sextet s"
  then have "s AND 0x3F = s" by (simp add: sextet_def byte_eq_bits bit_simps)
  then have "s \<le> 0x3F" by (metis word_and_le1)
  then show "unat s < 64" by (simp add: word_le_nat_alt)
qed

lemma sextets_ok: "list_all sextet (sextets a b c)"
  by (simp add: sextets_or sextet_def bit_simps)

definition add_sextet :: "32 word \<Rightarrow> byte \<Rightarrow> 32 word" where
  "add_sextet v s = push_bit 6 v OR ucast s"

definition byte_at :: "nat \<Rightarrow> 32 word \<Rightarrow> char" where
  "byte_at k v = char_of_byte (ucast (signed_drop_bit k v))"

lemma decode_digit:
  assumes "sextet s"
  shows "decode_loop v k (base64_chars ! unat s # r) =
    (if 0 \<le> k + 6 then byte_at (nat (k + 6)) (add_sextet v s) # decode_loop (add_sextet v s) (k - 2) r
     else decode_loop (add_sextet v s) (k + 6) r)"
proof -
  have "\<not> bit (push_bit 6 v AND ucast s :: 32 word) n" for n
  proof (cases "n < 8")
    case True
    then have "n < 6 \<or> n = 6 \<or> n = 7" by arith
    then show ?thesis using assms by (auto simp: sextet_def bit_simps)
  qed (simp add: bit_simps)
  then have "push_bit 6 v AND ucast s = 0" by (intro bit_word_eqI) simp
  then have "push_bit 6 v + word_of_nat (unat s) = add_sextet v s"
    by (simp add: add_sextet_def disjunctive_add_eq_or)
  then show ?thesis using table_digit [OF sextet_less [OF assms]] by (simp add: Let_def byte_at_def)
qed

lemma byte_at_group:
  "byte_at 4 (add_sextet (add_sextet v (sextets a b c ! 0)) (sextets a b c ! 1)) = char_of_byte a"
  "byte_at 2 (add_sextet (add_sextet w (sextets a b c ! 1)) (sextets a b c ! 2)) = char_of_byte b"
  "byte_at 0 (add_sextet (add_sextet w (sextets a b c ! 2)) (sextets a b c ! 3)) = char_of_byte c"
  by (simp_all add: byte_at_def add_sextet_def sextets_or byte_eq_bits bit_simps numeral_2_eq_2 [symmetric] numeral_3_eq_3 [symmetric])

lemma sextets_list: "sextets a b c = [sextets a b c ! 0, sextets a b c ! 1, sextets a b c ! 2, sextets a b c ! 3]"
  by (simp add: sextets_def)

lemma decode_groups:
  assumes "sextets a b c = [s, t, u, x]"
  shows "\<exists>v'. decode_loop v (- 8) (digits64 [s, t, u, x] @ r) =
      [char_of_byte a, char_of_byte b, char_of_byte c] @ decode_loop v' (- 8) r"
    "\<exists>v'. decode_loop v (- 8) (digits64 [s, t, u] @ r) = [char_of_byte a, char_of_byte b] @ decode_loop v' (- 6) r"
    "\<exists>v'. decode_loop v (- 8) (digits64 [s, t] @ r) = [char_of_byte a] @ decode_loop v' (- 4) r"
  using sextets_ok [of a b c] byte_at_group [of _ a b c]
  by (simp_all add: assms digits64_def decode_digit del: decode_loop.simps(2)) blast+

lemma decode_encode_bytes: "decode_loop v (- 8) (encode_bytes bs) = string_of_bytes bs"
proof (induction bs arbitrary: v rule: encode_bytes.induct)
  case (1 a b c bs)
  show ?case using decode_groups(1) [OF sextets_list, of v a b c "encode_bytes bs"] 1 sextets_list [of a b c] by auto
next
  case (2 a b)
  show ?case using decode_groups(2) [OF sextets_list, of v a b 0 "''=''"]
    by (auto simp: sextets_def table_pad)
next
  case (3 a)
  show ?case using decode_groups(3) [OF sextets_list, of v a 0 0 "''==''"]
    by (auto simp: sextets_def table_pad)
qed simp

lemma base64_decode_encode: "base64_decode (base64_encode s) = s"
  by (simp add: base64_decode_def base64_encode_def decode_encode_bytes del: map_map)

interpretation base64: codec base64_encode "\<lambda>s. Some (base64_decode s)" "\<lambda>_. True"
  by unfold_locales (simp add: base64_decode_encode)

lemma length_encode_bytes: "length (encode_bytes bs) = (length bs + 2) div 3 * 4"
proof (induction bs rule: encode_bytes.induct)
  case (1 a b c bs)
  have "(length bs + 5) div 3 = Suc ((length bs + 2) div 3)" by linarith
  with 1 show ?case by (simp add: sextets_def digits64_def add.commute)
qed (simp_all add: sextets_def digits64_def)

end
