(* ===== verification/State_Manager.thy ===== *)
theory State_Manager
  imports Base64 Json
begin

text \<open>
  \<open>src/storage/state_manager.cpp\<close>: the saved state of a torrent as a JSON file in the state
  directory.  The directory is an association list from file names to contents; opening a file
  for writing may fail, which is an argument.  Byte counts pass through \<open>double\<close> and
  \<open>setprecision(15)\<close> on their way into the file, the time through \<open>gmtime\<close> and \<open>timegm\<close>; both
  are written out.  Time points are nanoseconds since 1970.
\<close>

section \<open>Printing counters\<close>

text \<open>Rounding to the nearest, ties to even: \<open>double\<close> keeps 53 bits.\<close>

definition round_even :: "nat \<Rightarrow> nat \<Rightarrow> nat" where
  "round_even n d =
     (let q = n div d; r = n mod d in if d < 2 * r \<or> 2 * r = d \<and> odd q then q + 1 else q)"

fun excess_bits :: "nat \<Rightarrow> nat" where
  "excess_bits n = (if n < 2 ^ 53 then 0 else Suc (excess_bits (n div 2)))"

fun excess_digits :: "nat \<Rightarrow> nat" where
  "excess_digits n = (if n < 10 ^ 15 then 0 else Suc (excess_digits (n div 10)))"

declare excess_bits.simps [simp del] excess_digits.simps [simp del]

definition double_of_size :: "nat \<Rightarrow> nat" where
  "double_of_size n = round_even n (2 ^ excess_bits n) * 2 ^ excess_bits n"

definition strip_zeros :: "string \<Rightarrow> string" where
  "strip_zeros s = rev (dropWhile (\<lambda>c. c = CHR ''0'') (rev s))"

definition show2 :: "nat \<Rightarrow> string" where
  "show2 n = (if n < 10 then CHR ''0'' # show_nat n else show_nat n)"

text \<open>\<open>format_number\<close> of a \<open>double\<close> that is a natural number: all digits while there are at most
  fifteen, scientific notation with the trailing zeros dropped otherwise.\<close>

definition scientific :: "nat \<Rightarrow> nat \<Rightarrow> string" where
  "scientific m k =
     (let ds = strip_zeros (tl (show_nat m))
      in hd (show_nat m) # (if ds = [] then [] else CHR ''.'' # ds) @ ''e+'' @ show2 (k + 14))"

definition format_number :: "nat \<Rightarrow> string" where
  "format_number n =
     (if n < 10 ^ 15 then show_nat n
      else let k = excess_digits n; m = round_even n (10 ^ k)
           in if m = 10 ^ 15 then scientific (10 ^ 14) (k + 1) else scientific m k)"

definition size_number :: "nat \<Rightarrow> json" where
  "size_number n = JNumber (format_number (double_of_size n))"

section \<open>Calendar\<close>

definition leap :: "int \<Rightarrow> bool" where
  "leap y \<longleftrightarrow> 4 dvd y \<and> (\<not> 100 dvd y \<or> 400 dvd y)"

definition year_days :: "int \<Rightarrow> int" where
  "year_days y = (if leap y then 366 else 365)"

definition month_days :: "int \<Rightarrow> int list" where
  "month_days y = [31, if leap y then 29 else 28, 31, 30, 31, 30, 31, 31, 30, 31, 30, 31]"

function find_year :: "int \<Rightarrow> int \<Rightarrow> int \<times> int" where
  "find_year y d =
     (if d < 0 then find_year (y - 1) (d + year_days (y - 1))
      else if year_days y \<le> d then find_year (y + 1) (d - year_days y)
      else (y, d))"
  by pat_completeness auto
termination
  by (relation "measure (\<lambda>(y, d). nat (if d < 0 then 1000 - d else d))") (auto simp: year_days_def split: if_splits)

declare find_year.simps [simp del]

fun find_month :: "int list \<Rightarrow> nat \<Rightarrow> int \<Rightarrow> nat \<times> int" where
  "find_month [] m d = (m, d)"
| "find_month (l # ls) m d = (if d < l then (m, d) else find_month ls (Suc m) (d - l))"

record tm =
  tm_year :: int
  tm_month :: nat
  tm_day :: nat
  tm_hour :: nat
  tm_min :: nat
  tm_sec :: nat

definition gmtime :: "int \<Rightarrow> tm" where
  "gmtime t =
     (let (y, yd) = find_year 1970 (t div 86400);
          (m, d) = find_month (month_days y) 0 yd;
          s = nat (t mod 86400)
      in \<lparr>tm_year = y, tm_month = m + 1, tm_day = nat d + 1, tm_hour = s div 3600,
           tm_min = s mod 3600 div 60, tm_sec = s mod 60\<rparr>)"

definition days_before_year :: "int \<Rightarrow> int" where
  "days_before_year y = 365 * (y - 1970) + (y - 1) div 4 - (y - 1) div 100 + (y - 1) div 400 - 477"

text \<open>A day beyond its month and a leap second count on, as \<open>timegm\<close> has it.\<close>

definition timegm :: "tm \<Rightarrow> int" where
  "timegm t =
     (let d = days_before_year (tm_year t) + sum_list (take (tm_month t - 1) (month_days (tm_year t))) + int (tm_day t) - 1
      in d * 86400 + int (tm_hour t) * 3600 + int (tm_min t) * 60 + int (tm_sec t))"

definition put_time :: "tm \<Rightarrow> string" where
  "put_time t = show_int (tm_year t) @ ''-'' @ show2 (tm_month t) @ ''-'' @ show2 (tm_day t) @ ''T'' @
     show2 (tm_hour t) @ '':'' @ show2 (tm_min t) @ '':'' @ show2 (tm_sec t) @ ''Z''"

text \<open>\<open>get_time\<close> as libstdc++ has it: white space is skipped first, a field has all its digits and
  lies in its range, the other characters match, text after the last one is left alone.\<close>

definition read_field :: "nat \<Rightarrow> nat \<Rightarrow> nat \<Rightarrow> string \<Rightarrow> (nat \<times> string) option" where
  "read_field w lo hi s =
     (let v = dec_val (take w s) in
      if w \<le> length s \<and> list_all c_isdigit (take w s) \<and> lo \<le> v \<and> v \<le> hi then Some (v, drop w s) else None)"

definition read_mark :: "char \<Rightarrow> string \<Rightarrow> string option" where
  "read_mark c s = (case s of [] \<Rightarrow> None | x # r \<Rightarrow> if x = c then Some r else None)"

definition get_time :: "string \<Rightarrow> tm option" where
  "get_time s =
     Option.bind (read_field 4 0 9999 (dropWhile c_isspace s)) (\<lambda>(y, s).
     Option.bind (read_mark CHR ''-'' s) (\<lambda>s.
     Option.bind (read_field 2 1 12 s) (\<lambda>(mo, s).
     Option.bind (read_mark CHR ''-'' s) (\<lambda>s.
     Option.bind (read_field 2 1 31 s) (\<lambda>(d, s).
     Option.bind (read_mark CHR ''T'' s) (\<lambda>s.
     Option.bind (read_field 2 0 23 s) (\<lambda>(h, s).
     Option.bind (read_mark CHR '':'' s) (\<lambda>s.
     Option.bind (read_field 2 0 59 s) (\<lambda>(mi, s).
     Option.bind (read_mark CHR '':'' s) (\<lambda>s.
     Option.bind (read_field 2 0 60 s) (\<lambda>(se, s).
     Option.bind (read_mark CHR ''Z'' s) (\<lambda>s.
       Some \<lparr>tm_year = int y, tm_month = mo, tm_day = d, tm_hour = h, tm_min = mi, tm_sec = se\<rparr>))))))))))))"

definition parse_iso8601_utc :: "string \<Rightarrow> int option" where
  "parse_iso8601_utc s =
     (case get_time s of
        None \<Rightarrow> None
      | Some t \<Rightarrow> if timegm t = - 1 then None else Some (timegm t * 1000000000))"

text \<open>\<open>to_time_t\<close> rounds towards zero.\<close>

definition to_time_t :: "int \<Rightarrow> int" where
  "to_time_t t = (if 0 \<le> t then t div 1000000000 else - ((- t) div 1000000000))"

section \<open>The saved state\<close>

record torrent_state =
  ts_info_hash_hex :: string
  ts_torrent_data :: string
  ts_bitfield :: "bool list"
  ts_uploaded_bytes :: nat
  ts_downloaded_bytes :: nat
  ts_file_priorities :: "nat list"
  ts_last_updated :: int

type_synonym state_dir = "(string \<times> string) list"

definition get_state_file_path :: "string \<Rightarrow> string" where
  "get_state_file_path info_hash_hex = info_hash_hex @ ''.json''"

definition state_json :: "string \<Rightarrow> torrent_state \<Rightarrow> json" where
  "state_json info_hash_hex s =
     JObject
       ([(''info_hash'', JString info_hash_hex),
         (''uploaded_bytes'', size_number (ts_uploaded_bytes s)),
         (''downloaded_bytes'', size_number (ts_downloaded_bytes s))] @
        (if ts_torrent_data s \<noteq> [] then [(''torrent_data'', JString (base64_encode (ts_torrent_data s)))] else []) @
        [(''bitfield'', JArray (map JBool (ts_bitfield s))),
         (''file_priorities'', JArray (map size_number (ts_file_priorities s))),
         (''last_updated'', JString (put_time (gmtime (to_time_t (ts_last_updated s)))))])"

definition pretty_print :: stringify_options where
  "pretty_print = \<lparr>pretty = True, indent = 2, escape_solidus = False\<rparr>"

definition save_state :: "bool \<Rightarrow> string \<Rightarrow> torrent_state \<Rightarrow> state_dir \<Rightarrow> bool \<times> state_dir" where
  "save_state can_open info_hash_hex s dir =
     (if can_open
      then (True, AList.update (get_state_file_path info_hash_hex) (stringify pretty_print (state_json info_hash_hex s)) dir)
      else (False, dir))"

text \<open>Elements of the wrong kind are skipped.  A counter that is missing keeps what the
  uninitialised member holds, the argument \<open>junk\<close>; \<open>now\<close> is the clock.\<close>

definition read_bits :: "json list \<Rightarrow> bool list" where
  "read_bits vs = map (as_bool False) (filter (\<lambda>v. case v of JBool _ \<Rightarrow> True | _ \<Rightarrow> False) vs)"

definition size_of_number :: "string \<Rightarrow> nat" where
  "size_of_number r = u64_of_int (to_int64 0 r)"

definition read_sizes :: "json list \<Rightarrow> nat list" where
  "read_sizes vs = concat (map (\<lambda>v. case v of JNumber r \<Rightarrow> [size_of_number r] | _ \<Rightarrow> []) vs)"

definition read_counter :: "nat \<Rightarrow> string \<Rightarrow> json \<Rightarrow> nat" where
  "read_counter junk k j = (case json_find k j of Some (JNumber r) \<Rightarrow> size_of_number r | _ \<Rightarrow> junk)"

definition read_state :: "nat \<times> nat \<Rightarrow> int \<Rightarrow> json \<Rightarrow> torrent_state option" where
  "read_state junk now j =
     (case json_find ''info_hash'' j of
        Some (JString h) \<Rightarrow>
          Some \<lparr>ts_info_hash_hex = h,
            ts_torrent_data = (case json_find ''torrent_data'' j of Some (JString d) \<Rightarrow> base64_decode d | _ \<Rightarrow> []),
            ts_bitfield = (case json_find ''bitfield'' j of Some (JArray vs) \<Rightarrow> read_bits vs | _ \<Rightarrow> []),
            ts_uploaded_bytes = read_counter (fst junk) ''uploaded_bytes'' j,
            ts_downloaded_bytes = read_counter (snd junk) ''downloaded_bytes'' j,
            ts_file_priorities = (case json_find ''file_priorities'' j of Some (JArray vs) \<Rightarrow> read_sizes vs | _ \<Rightarrow> []),
            ts_last_updated = (case json_find ''last_updated'' j of
                Some (JString t) \<Rightarrow> (case parse_iso8601_utc t of Some p \<Rightarrow> p | None \<Rightarrow> now) | _ \<Rightarrow> now)\<rparr>
      | _ \<Rightarrow> None)"

text \<open>The outer option is the parser's.\<close>

definition load_state :: "nat \<times> nat \<Rightarrow> int \<Rightarrow> string \<Rightarrow> state_dir \<Rightarrow> torrent_state option option" where
  "load_state junk now info_hash_hex dir =
     (case map_of dir (get_state_file_path info_hash_hex) of
        None \<Rightarrow> Some None
      | Some text \<Rightarrow>
          if text = [] then Some None
          else map_option (\<lambda>r. case r of Inl _ \<Rightarrow> None | Inr j \<Rightarrow> read_state junk now j) (parse_or_throw text))"

definition delete_state :: "string \<Rightarrow> state_dir \<Rightarrow> bool \<times> state_dir" where
  "delete_state info_hash_hex dir = (True, AList.delete (get_state_file_path info_hash_hex) dir)"

section \<open>Info hashes as text\<close>

definition info_hash_to_hex :: "byte list \<Rightarrow> string" where
  "info_hash_to_hex bs = concat (map (\<lambda>b. [hex_digit (unat b div 16), hex_digit (unat b mod 16)]) bs)"

text \<open>Two characters read with \<open>std::hex\<close>: a failed read stores 0.\<close>

definition read_hex_int :: "string \<Rightarrow> int" where
  "read_hex_int s =
     (let s1 = dropWhile c_isspace s;
          neg = (s1 \<noteq> [] \<and> hd s1 = CHR ''-'');
          s2 = (if s1 \<noteq> [] \<and> (hd s1 = CHR ''-'' \<or> hd s1 = CHR ''+'') then tl s1 else s1);
          ds = takeWhile (\<lambda>c. hex_digit_val c \<noteq> None) s2;
          v = foldl (\<lambda>a c. a * 16 + int (the (hex_digit_val c))) 0 ds
      in if neg then - v else v)"

definition hex_to_info_hash :: "string \<Rightarrow> byte list res" where
  "hex_to_info_hash hex =
     (if length hex \<noteq> 40 then Inl ''Invalid info_hash hex length''
      else Inr (map (\<lambda>i. word_of_int (read_hex_int (take 2 (drop (i * 2) hex)))) [0..<20]))"

definition list_saved_torrents :: "state_dir \<Rightarrow> string list" where
  "list_saved_torrents dir =
     map (\<lambda>e. take 40 (fst e))
       (filter (\<lambda>e. length (fst e) = 45 \<and> drop 40 (fst e) = ''.json'' \<and>
                  list_all (\<lambda>c. hex_digit_val c \<noteq> None) (take 40 (fst e))) dir)"

section \<open>Counters survive up to fifteen digits\<close>

lemma double_of_size_exact: "n < 2 ^ 53 \<Longrightarrow> double_of_size n = n"
  by (subst double_of_size_def, subst excess_bits.simps) (simp add: round_even_def excess_bits.simps)

lemma strtoll_digits:
  assumes "list_all c_isdigit ds" "ds \<noteq> []" "r = [] \<or> \<not> c_isdigit (hd r)"
  shows "strtoll (ds @ r) = (min (2 ^ 63 - 1) (int (dec_val ds)), r)"
proof -
  obtain c cs where ds: "ds = c # cs" "c_isdigit c" using assms(1,2) by (cases ds) auto
  have "\<not> c_isspace c" "c \<noteq> CHR ''-''" "c \<noteq> CHR ''+''" using ds(2) by (auto simp: c_isdigit_def c_isspace_def)
  moreover have "takeWhile c_isdigit (ds @ r) = ds" "dropWhile c_isdigit (ds @ r) = r"
    using assms(1,3) by (auto simp: takeWhile_append2 dropWhile_append2 list_all_iff takeWhile_eq_Nil_iff dropWhile_eq_self_iff)
  ultimately show ?thesis using ds(1) by (simp add: strtoll_def Let_def)
qed

lemma show_nat_all_digits: "list_all c_isdigit (show_nat n)"
  using show_nat_digits [of n] by (simp add: list_all_iff)

lemma to_int64_show_nat: "n < 2 ^ 63 \<Longrightarrow> to_int64 k (show_nat n) = int n"
  using strtoll_digits [OF show_nat_all_digits, of n "[]"] by (simp add: to_int64_def at_nul_def)

lemma to_int64_scientific: "to_int64 k (scientific m e) = k"
proof -
  obtain c cs where m: "show_nat m = c # cs" by (cases "show_nat m") auto
  then have c: "list_all c_isdigit [c]" using show_nat_all_digits [of m] by simp
  define r where "r = (if strip_zeros cs = [] then [] else CHR ''.'' # strip_zeros cs) @ ''e+'' @ show2 (e + 14)"
  have "r \<noteq> [] \<and> \<not> c_isdigit (hd r) \<and> hd r \<noteq> CHR 0x00" by (simp add: r_def c_isdigit_def)
  moreover from this have "strtoll ([c] @ r) = (min (2 ^ 63 - 1) (int (dec_val [c])), r)"
    using c by (intro strtoll_digits) auto
  moreover have "scientific m e = [c] @ r" by (simp add: scientific_def m r_def Let_def)
  ultimately show ?thesis by (simp add: to_int64_def at_nul_def)
qed

lemma excess_bits_bound: "2 ^ 52 \<le> n \<Longrightarrow> 2 ^ 52 \<le> n div 2 ^ excess_bits n"
proof (induction n rule: excess_bits.induct)
  case (1 n)
  show ?case
  proof (cases "n < 2 ^ 53")
    case False
    then have "2 ^ 52 \<le> n div 2 div 2 ^ excess_bits (n div 2)" using 1 by simp
    then show ?thesis using False by (subst excess_bits.simps) (simp add: div_mult2_eq)
  qed (use 1(2) in \<open>simp add: excess_bits.simps [of n]\<close>)
qed

lemma round_even_ge: "n div d \<le> round_even n d"
  by (simp add: round_even_def Let_def)

lemma double_of_size_large:
  assumes "10 ^ 15 \<le> n"
  shows "10 ^ 15 \<le> double_of_size n"
proof (cases "n < 2 ^ 53")
  case False
  let ?e = "excess_bits n"
  have "2 ^ 52 \<le> round_even n (2 ^ ?e)"
    using excess_bits_bound [of n] round_even_ge [of n "2 ^ ?e"] False by simp
  moreover have "?e = Suc (excess_bits (n div 2))" using False by (simp add: excess_bits.simps [of n])
  then have "2 ^ 1 \<le> (2 :: nat) ^ ?e" by simp
  ultimately have "2 ^ 52 * 2 ^ 1 \<le> double_of_size n"
    unfolding double_of_size_def by (intro mult_le_mono) 
  then show ?thesis by simp
qed (use assms in \<open>simp add: double_of_size_exact\<close>)

definition kept_size :: "nat \<Rightarrow> nat" where
  "kept_size n = (if n < 10 ^ 15 then n else 0)"

lemma size_number_read: "size_number n = JNumber r \<Longrightarrow> size_of_number r = kept_size n"
proof (cases "n < 10 ^ 15")
  case True
  then have "format_number (double_of_size n) = show_nat n" by (simp add: format_number_def double_of_size_exact)
  then show "size_number n = JNumber r \<Longrightarrow> size_of_number r = kept_size n"
    using True by (auto simp: size_number_def size_of_number_def kept_size_def to_int64_show_nat u64_of_int_id)
next
  case False
  then have "to_int64 0 (format_number (double_of_size n)) = 0"
    using double_of_size_large [of n] by (simp add: format_number_def to_int64_scientific Let_def)
  then show "size_number n = JNumber r \<Longrightarrow> size_of_number r = kept_size n"
    using False by (auto simp: size_number_def size_of_number_def kept_size_def u64_of_int_def)
qed

section \<open>The printed counters are JSON numbers\<close>

lemma peek_append: "s \<noteq> [] \<Longrightarrow> peek (s @ r) = hd s"
  by (cases s) (simp_all add: peek_def)

lemma drop_digits:
  "list_all c_isdigit ds \<Longrightarrow> r = [] \<or> \<not> c_isdigit (hd r) \<Longrightarrow> dropWhile c_isdigit (ds @ r) = r"
  by (induction ds) (auto simp: dropWhile_eq_self_iff)

lemma scan_int_digits:
  assumes "list_all c_isdigit ds" "ds \<noteq> []" "hd ds = CHR ''0'' \<longrightarrow> tl ds = []" "r = [] \<or> \<not> c_isdigit (hd r)"
  shows "scan_int (ds @ r) = Inr ((), r)"
proof -
  obtain c cs where ds: "ds = c # cs" "c_isdigit c" using assms(1,2) by (cases ds) auto
  then have "c \<noteq> CHR ''-''" by (auto simp: c_isdigit_def)
  then show ?thesis using assms ds drop_digits [OF assms(1,4)]
    by (cases "c = CHR ''0''") (simp_all add: scan_int_def peek_def)
qed

lemma scan_exp_digits: "list_all c_isdigit ds \<Longrightarrow> ds \<noteq> [] \<Longrightarrow> scan_exp (''e+'' @ ds) = Inr ((), [])"
  using drop_digits [of ds "[]"] by (cases ds) (simp_all add: scan_exp_def peek_def)

lemma scan_frac_digits:
  "list_all c_isdigit ds \<Longrightarrow> ds \<noteq> [] \<Longrightarrow> \<not> c_isdigit (hd r) \<Longrightarrow> scan_frac (CHR ''.'' # ds @ r) = Inr ((), r)"
  using drop_digits [of ds r] by (cases ds) (simp_all add: scan_frac_def peek_def)

lemma show2_digits: "list_all c_isdigit (show2 n)" "show2 n \<noteq> []"
  using show_nat_all_digits [of n] by (simp_all add: show2_def c_isdigit_def)

lemma strip_zeros_digits: "list_all c_isdigit s \<Longrightarrow> list_all c_isdigit (strip_zeros s)"
  by (auto simp: strip_zeros_def list_all_iff dest: set_dropWhileD)

lemma show_nat_no_leading: "hd (show_nat n) = CHR ''0'' \<longrightarrow> tl (show_nat n) = []"
  using hd_show_nat [of n] by (cases "n = 0") auto

lemma scan_show_nat: "scan_number (show_nat n) = Inr ((), [])"
  using scan_int_digits [OF show_nat_all_digits show_nat_nonempty show_nat_no_leading, of "[]" n]
  by (simp add: scan_number_def scan_frac_def scan_exp_def peek_def)

lemma scan_scientific: "0 < m \<Longrightarrow> scan_number (scientific m k) = Inr ((), [])"
proof -
  assume "0 < m"
  obtain c cs where m: "show_nat m = c # cs" by (cases "show_nat m") auto
  let ?z = "strip_zeros cs" and ?e = "''e+'' @ show2 (k + 14)"
  have d: "c_isdigit c" "list_all c_isdigit ?z" using show_nat_all_digits [of m] m strip_zeros_digits by simp_all
  have e: "\<not> c_isdigit (hd ?e)" "scan_exp ?e = Inr ((), [])" "scan_frac ?e = Inr ((), ?e)"
    using scan_exp_digits [OF show2_digits] by (simp_all add: c_isdigit_def scan_frac_def peek_def)
  define r where "r = (if ?z = [] then [] else CHR ''.'' # ?z) @ ?e"
  have "scan_int ([c] @ r) = Inr ((), r)"
    using d by (intro scan_int_digits) (auto simp: r_def c_isdigit_def)
  moreover have "scan_frac r = Inr ((), ?e)"
  proof (cases "?z = []")
    case True
    then show ?thesis using e(3) by (simp add: r_def)
  next
    case False
    then show ?thesis using scan_frac_digits [OF d(2) False e(1)] by (simp add: r_def)
  qed
  moreover have "scientific m k = [c] @ r" by (simp add: scientific_def m r_def Let_def)
  ultimately show ?thesis using e(2) by (simp add: scan_number_def)
qed

lemma excess_digits_bound: "10 ^ 14 \<le> n \<Longrightarrow> 10 ^ 14 \<le> n div 10 ^ excess_digits n"
proof (induction n rule: excess_digits.induct)
  case (1 n)
  show ?case
  proof (cases "n < 10 ^ 15")
    case False
    then have "10 ^ 14 \<le> n div 10 div 10 ^ excess_digits (n div 10)" using 1 by simp
    then show ?thesis using False by (subst excess_digits.simps) (simp add: div_mult2_eq)
  qed (use 1(2) in \<open>simp add: excess_digits.simps [of n]\<close>)
qed

lemma size_number_ok: "json_ok (size_number n)"
proof -
  let ?d = "double_of_size n"
  have "0 < round_even ?d (10 ^ excess_digits ?d)" if "10 ^ 15 \<le> ?d"
    using excess_digits_bound [of ?d] round_even_ge [of ?d "10 ^ excess_digits ?d"] that by simp
  then show ?thesis
    by (simp add: size_number_def format_number_def scan_show_nat scan_scientific Let_def)
qed

section \<open>Times survive to the second\<close>

lemma div_step: "(0 :: int) < k \<Longrightarrow> y div k = (y - 1) div k + (if k dvd y then 1 else 0)"
proof -
  assume k: "0 < k"
  have y: "y = k * (y div k) + y mod k" by simp
  show ?thesis
  proof (cases "k dvd y")
    case True
    then have "(y - 1) div k = y div k - 1"
      using k y by (intro int_div_pos_eq [of _ _ _ "k - 1"]) (auto simp: algebra_simps)
    with True show ?thesis by simp
  next
    case False
    then have "0 < y mod k" using k by (metis dvd_eq_mod_eq_0 le_less pos_mod_sign)
    then have "(y - 1) div k = y div k"
      using k y pos_mod_bound [OF k, of y] by (intro int_div_pos_eq [of _ _ _ "y mod k - 1"]) auto
    with False show ?thesis by simp
  qed
qed

lemma days_before_Suc: "days_before_year (y + 1) = days_before_year y + year_days y"
proof -
  define i4 i100 i400 :: int where
    "i4 = (if 4 dvd y then 1 else 0)" "i100 = (if 100 dvd y then 1 else 0)" "i400 = (if 400 dvd y then 1 else 0)"
  note i = this
  have s: "y div 4 = (y - 1) div 4 + i4" "y div 100 = (y - 1) div 100 + i100" "y div 400 = (y - 1) div 400 + i400"
    unfolding i by (rule div_step, simp)+
  have "(4 :: int) dvd 100" "(100 :: int) dvd 400" by simp_all
  then have d: "100 dvd y \<Longrightarrow> 4 dvd y" "400 dvd y \<Longrightarrow> 100 dvd y" by (blast intro: dvd_trans)+
  have sum: "365 * (y + 1 - 1970) + a - b + c - 477 = 365 * (y - 1970) + a' - b' + c' - 477 + 365 + i - j + k"
    if "a = a' + i" "b = b' + j" "c = c' + k" for a b c a' b' c' i j k :: int
    using that by simp
  have "days_before_year (y + 1) = days_before_year y + 365 + i4 - i100 + i400"
    unfolding days_before_year_def add_diff_cancel_right' by (rule sum [OF s])
  then show ?thesis unfolding year_days_def leap_def i using d
    by (cases "4 dvd y"; cases "100 dvd y"; cases "400 dvd y"; simp)
qed

lemma find_year_sound:
  "find_year y d = (y', d') \<Longrightarrow>
     days_before_year y' + d' = days_before_year y + d \<and> 0 \<le> d' \<and> d' < year_days y'"
proof (induction y d rule: find_year.induct)
  case (1 y d)
  show ?case
  proof (cases "d < 0")
    case True
    have "days_before_year y = days_before_year (y - 1) + year_days (y - 1)"
      using days_before_Suc [of "y - 1"] by simp
    then show ?thesis using 1 True by (simp add: find_year.simps [of y d])
  next
    case False
    then show ?thesis using 1 days_before_Suc [of y]
      by (cases "year_days y \<le> d") (auto simp: find_year.simps [of y d])
  qed
qed

lemma find_month_sound:
  "find_month ls m d = (m', d') \<Longrightarrow> 0 \<le> d \<Longrightarrow> d < sum_list ls \<Longrightarrow>
     m \<le> m' \<and> m' - m < length ls \<and> d = sum_list (take (m' - m) ls) + d' \<and> 0 \<le> d' \<and> d' < ls ! (m' - m)"
proof (induction ls arbitrary: m d)
  case (Cons l ls)
  show ?case
  proof (cases "d < l")
    case False
    then have "find_month ls (Suc m) (d - l) = (m', d')" using Cons.prems by simp
    then have "Suc m \<le> m' \<and> m' - Suc m < length ls \<and>
        d - l = sum_list (take (m' - Suc m) ls) + d' \<and> 0 \<le> d' \<and> d' < ls ! (m' - Suc m)"
      using Cons.prems False by (intro Cons.IH) auto
    moreover from this have "m' - m = Suc (m' - Suc m)" by arith
    ultimately show ?thesis by simp
  qed (use Cons.prems in auto)
qed simp

lemma month_days_sum: "sum_list (month_days y) = year_days y"
  by (simp add: month_days_def year_days_def)

lemma timegm_gmtime:
  "timegm (gmtime t) = t"
  "1 \<le> tm_month (gmtime t)" "tm_month (gmtime t) \<le> 12" "1 \<le> tm_day (gmtime t)" "tm_day (gmtime t) \<le> 31"
  "tm_hour (gmtime t) \<le> 23" "tm_min (gmtime t) \<le> 59" "tm_sec (gmtime t) \<le> 59"
proof -
  obtain y yd where y: "find_year 1970 (t div 86400) = (y, yd)" by force
  obtain m d where m: "find_month (month_days y) 0 yd = (m, d)" by force
  note ys = find_year_sound [OF y]
  then have "yd < sum_list (month_days y)" "0 \<le> yd" by (simp_all add: month_days_sum)
  from find_month_sound [OF m this(2,1)] have ms: "m < 12" "yd = sum_list (take m (month_days y)) + d" "0 \<le> d" "d < month_days y ! m"
    by (simp_all add: month_days_def)
  have "list_all (\<lambda>l. l \<le> 31) (month_days y)" "length (month_days y) = 12" by (simp_all add: month_days_def)
  then have "month_days y ! m \<le> 31" using ms(1) by (metis list_all_length)
  then have d31: "d < 31" using ms(4) by simp
  define s where "s = nat (t mod 86400)"
  have s: "int s = t mod 86400" "s < 86400" by (simp_all add: s_def)
  have g: "gmtime t = \<lparr>tm_year = y, tm_month = m + 1, tm_day = nat d + 1, tm_hour = s div 3600,
      tm_min = s mod 3600 div 60, tm_sec = s mod 60\<rparr>"
    by (simp add: gmtime_def y m s_def Let_def)
  have "s mod 3600 mod 60 = s mod 60" by (rule mod_mod_cancel) simp
  then have "s mod 3600 div 60 * 60 + s mod 60 = s mod 3600" by (metis div_mult_mod_eq)
  then have e: "s div 3600 * 3600 + s mod 3600 div 60 * 60 + s mod 60 = s"
    using div_mult_mod_eq [of s 3600] by linarith
  have "int (s div 3600 * 3600 + s mod 3600 div 60 * 60 + s mod 60) = t mod 86400" by (simp only: e s(1))
  then have "int (s div 3600) * 3600 + int (s mod 3600 div 60) * 60 + int (s mod 60) = t mod 86400"
    by (simp only: of_nat_add of_nat_mult of_nat_numeral)
  moreover have "days_before_year 1970 = 0" by (simp add: days_before_year_def)
  moreover have "t = t div 86400 * 86400 + t mod 86400" by simp
  ultimately show "timegm (gmtime t) = t" using ms(2,3) ys by (simp add: timegm_def g add.assoc)
  show "1 \<le> tm_month (gmtime t)" "tm_month (gmtime t) \<le> 12" "1 \<le> tm_day (gmtime t)" "tm_day (gmtime t) \<le> 31"
    using ms(1,3) d31 by (simp_all add: g)
  show "tm_hour (gmtime t) \<le> 23" "tm_min (gmtime t) \<le> 59" "tm_sec (gmtime t) \<le> 59"
    using s(2) by (simp_all add: g)
qed

lemma days_before_mono: "y \<le> z \<Longrightarrow> days_before_year y \<le> days_before_year z"
proof (induction z rule: int_ge_induct)
  case (step z)
  then show ?case using days_before_Suc [of z] by (auto simp: year_days_def split: if_splits)
qed simp

lemma gmtime_year:
  assumes "0 \<le> t" "t < 253402300800"
  shows "1970 \<le> tm_year (gmtime t)" "tm_year (gmtime t) \<le> 9999"
proof -
  obtain y yd where y: "find_year 1970 (t div 86400) = (y, yd)" by force
  then have g: "tm_year (gmtime t) = y" by (simp add: gmtime_def Let_def split: prod.split)
  have "t div 86400 * 86400 + t mod 86400 = t" "0 \<le> t mod 86400" by simp_all
  then have d: "t div 86400 < 2932897" "0 \<le> t div 86400"
    using assms by (linarith, simp add: pos_imp_zdiv_nonneg_iff)
  have b: "days_before_year 1970 = 0" "days_before_year 10000 = 2932897" by (simp_all add: days_before_year_def)
  note ys = find_year_sound [OF y]
  show "1970 \<le> tm_year (gmtime t)"
  proof (rule ccontr)
    assume "\<not> ?thesis"
    then have "days_before_year (y + 1) \<le> 0" using days_before_mono [of "y + 1" 1970] b g by simp
    then show False using days_before_Suc [of y] ys b d by simp
  qed
  show "tm_year (gmtime t) \<le> 9999"
  proof (rule ccontr)
    assume "\<not> ?thesis"
    then have "2932897 \<le> days_before_year y" using days_before_mono [of 10000 y] b g by simp
    then show False using ys b d by simp
  qed
qed

lemma show2_facts: "n < 100 \<Longrightarrow> length (show2 n) = 2 \<and> dec_val (show2 n) = n"
proof -
  assume "n < 100"
  then have "n div 10 < 10" by linarith
  then have "show_nat n = (if n < 10 then [digit_char n] else [digit_char (n div 10), digit_char (n mod 10)])"
    by (simp add: show_nat.simps [of n] show_nat.simps [of "n div 10"])
  moreover have "dec_val (CHR ''0'' # ds) = dec_val ds" for ds by (simp add: dec_val_def digit_val_def)
  then have "dec_val (show2 n) = n" by (simp add: show2_def)
  ultimately show ?thesis by (simp add: show2_def)
qed

lemma length_show_nat4:
  assumes "1000 \<le> n" "n < 10000"
  shows "length (show_nat n) = 4"
proof -
  have step: "10 \<le> k \<Longrightarrow> length (show_nat k) = Suc (length (show_nat (k div 10)))" for k
    by (simp add: show_nat.simps [of k])
  have "10 \<le> n div 10" "10 \<le> n div 10 div 10" "n div 10 div 10 div 10 < 10" using assms by linarith+
  then show ?thesis using assms step [of n] step [of "n div 10"] step [of "n div 10 div 10"]
    by (simp add: show_nat.simps [of "n div 10 div 10 div 10"])
qed

lemma read_field_append:
  "length ds = w \<Longrightarrow> list_all c_isdigit ds \<Longrightarrow> lo \<le> dec_val ds \<Longrightarrow> dec_val ds \<le> hi \<Longrightarrow>
     read_field w lo hi (ds @ r) = Some (dec_val ds, r)"
  by (simp add: read_field_def Let_def)

lemma read_show2: "lo \<le> n \<Longrightarrow> n \<le> hi \<Longrightarrow> n < 100 \<Longrightarrow> read_field 2 lo hi (show2 n @ r) = Some (n, r)"
  using read_field_append [of "show2 n" 2 lo hi r] show2_facts [of n] show2_digits [of n] by simp

lemma read_mark_Cons [simp]: "read_mark c (c # r) = Some r"
  by (simp add: read_mark_def)

lemma get_put_time:
  assumes "1000 \<le> tm_year g" "tm_year g \<le> 9999" "1 \<le> tm_month g" "tm_month g \<le> 12" "1 \<le> tm_day g"
    "tm_day g \<le> 31" "tm_hour g \<le> 23" "tm_min g \<le> 59" "tm_sec g \<le> 59"
  shows "get_time (put_time g) = Some g"
proof -
  let ?y = "nat (tm_year g)"
  define r where "r = ''-'' @ show2 (tm_month g) @ ''-'' @ show2 (tm_day g) @ ''T'' @
     show2 (tm_hour g) @ '':'' @ show2 (tm_min g) @ '':'' @ show2 (tm_sec g) @ ''Z''"
  have y: "1000 \<le> ?y" "?y \<le> 9999" "int ?y = tm_year g" using assms(1,2) by auto
  have f: "read_field 4 0 9999 (show_nat ?y @ r) = Some (?y, r)"
    using read_field_append [of "show_nat ?y" 4 0 9999 r] y length_show_nat4 [of ?y] show_nat_all_digits [of ?y] by simp
  have "\<not> c_isspace (hd (show_nat ?y))"
    using show_nat_all_digits [of ?y] by (cases "show_nat ?y") (auto simp: c_isdigit_def c_isspace_def)
  then have "dropWhile c_isspace (show_nat ?y @ r) = show_nat ?y @ r" by (simp add: dropWhile_eq_self_iff)
  moreover have "put_time g = show_nat ?y @ r" using assms(1) by (simp add: put_time_def show_int_def r_def)
  ultimately have "get_time (put_time g) = Some \<lparr>tm_year = int ?y, tm_month = tm_month g, tm_day = tm_day g,
      tm_hour = tm_hour g, tm_min = tm_min g, tm_sec = tm_sec g\<rparr>"
    using assms by (simp add: get_time_def f) (simp add: r_def read_show2)
  then show ?thesis using assms(1) by simp
qed

lemma parse_put_time:
  assumes "0 \<le> t" "t < 253402300800"
  shows "parse_iso8601_utc (put_time (gmtime t)) = Some (t * 1000000000)"
  using get_put_time [of "gmtime t"] gmtime_year [OF assms] timegm_gmtime [of t] assms(1)
  by (simp add: parse_iso8601_utc_def)

section \<open>Saving and loading\<close>

lemma state_json_ok: "json_ok (state_json h s)"
  by (simp add: state_json_def list_all_iff size_number_ok)

definition kept_state :: "string \<Rightarrow> torrent_state \<Rightarrow> torrent_state" where
  "kept_state h s = s\<lparr>ts_info_hash_hex := h, ts_uploaded_bytes := kept_size (ts_uploaded_bytes s),
     ts_downloaded_bytes := kept_size (ts_downloaded_bytes s),
     ts_file_priorities := map kept_size (ts_file_priorities s),
     ts_last_updated := ts_last_updated s div 1000000000 * 1000000000\<rparr>"

lemma read_counter_size: "json_find k j = Some (size_number n) \<Longrightarrow> read_counter junk k j = kept_size n"
  using size_number_read [of n] by (simp add: read_counter_def size_number_def)

lemma read_sizes_map: "read_sizes (map size_number ns) = map kept_size ns"
  using size_number_read by (induction ns) (simp_all add: read_sizes_def size_number_def)

lemma read_bits_map: "read_bits (map JBool bs) = bs"
  by (induction bs) (simp_all add: read_bits_def as_bool_def)

lemma read_state_json:
  assumes "0 \<le> ts_last_updated s" "ts_last_updated s < 253402300800 * 1000000000"
  shows "read_state junk now (state_json h s) = Some (kept_state h s)"
proof -
  let ?j = "state_json h s" and ?t = "ts_last_updated s div 1000000000"
  have "0 \<le> ?t" "?t < 253402300800" using assms by (simp_all add: pos_imp_zdiv_nonneg_iff)
  then have t: "parse_iso8601_utc (put_time (gmtime ?t)) = Some (?t * 1000000000)" by (rule parse_put_time)
  have f: "json_find ''info_hash'' ?j = Some (JString h)"
    "json_find ''uploaded_bytes'' ?j = Some (size_number (ts_uploaded_bytes s))"
    "json_find ''downloaded_bytes'' ?j = Some (size_number (ts_downloaded_bytes s))"
    "json_find ''torrent_data'' ?j = (if ts_torrent_data s = [] then None else Some (JString (base64_encode (ts_torrent_data s))))"
    "json_find ''bitfield'' ?j = Some (JArray (map JBool (ts_bitfield s)))"
    "json_find ''file_priorities'' ?j = Some (JArray (map size_number (ts_file_priorities s)))"
    "json_find ''last_updated'' ?j = Some (JString (put_time (gmtime ?t)))"
    using assms(1) by (simp_all add: json_find_def state_json_def to_time_t_def)
  show ?thesis
    by (simp add: read_state_def f t read_counter_size [OF f(2)] read_counter_size [OF f(3)] read_sizes_map
        read_bits_map base64_decode_encode kept_state_def)
qed

lemma stringify_object_nonempty: "stringify opt (JObject ps) \<noteq> []"
  by (simp add: stringify_def)

lemma load_saved_state:
  assumes "map_of dir (get_state_file_path h) = Some (stringify pretty_print (state_json h s))"
    and "0 \<le> ts_last_updated s" "ts_last_updated s < 253402300800 * 1000000000"
  shows "load_state junk now h dir = Some (Some (kept_state h s))"
proof -
  have "stringify pretty_print (state_json h s) \<noteq> []" unfolding state_json_def by (rule stringify_object_nonempty)
  then show ?thesis using assms read_state_json
    by (simp add: load_state_def parse_or_throw_def stringify_parses [OF state_json_ok])
qed

lemma load_save_state:
  assumes "0 \<le> ts_last_updated s" "ts_last_updated s < 253402300800 * 1000000000"
  shows "load_state junk now h (snd (save_state True h s dir)) = Some (Some (kept_state h s))"
  using assms by (intro load_saved_state) (simp_all add: save_state_def um.look_put_same)

lemma load_other_state:
  "h \<noteq> h' \<Longrightarrow> load_state junk now h' (snd (save_state b h s dir)) = load_state junk now h' dir"
  by (simp add: load_state_def save_state_def get_state_file_path_def um.look_put_other)

lemma load_deleted_state: "load_state junk now h (snd (delete_state h dir)) = Some None"
  by (simp add: load_state_def delete_state_def um.look_del)

lemma load_state_returns: "load_state junk now h dir \<noteq> None"
proof -
  obtain r where "json_parse (the (map_of dir (get_state_file_path h))) = Some r" using json_parse_returns by blast
  then show ?thesis by (auto simp: load_state_def parse_or_throw_def split: option.splits)
qed

section \<open>Info hashes\<close>

lemma length_info_hash_to_hex: "length (info_hash_to_hex bs) = 2 * length bs"
  by (induction bs) (simp_all add: info_hash_to_hex_def)

lemma info_hash_to_hex_Cons:
  "info_hash_to_hex (b # bs) = [hex_digit (unat b div 16), hex_digit (unat b mod 16)] @ info_hash_to_hex bs"
  by (simp add: info_hash_to_hex_def)

lemma nibbles: "unat (b :: byte) div 16 < 16" "unat b mod 16 < 16" "unat b div 16 * 16 + unat b mod 16 = unat b"
  using unat_byte_less [of b] by (simp_all del: unat_byte_less)

lemma read_hex_pair: "read_hex_int [hex_digit (unat (b :: byte) div 16), hex_digit (unat b mod 16)] = int (unat b)"
proof -
  have "int (unat b div 16) * 16 + int (unat b mod 16) = int (unat b)"
    using nibbles(3) [of b] by (metis of_nat_add of_nat_mult of_nat_numeral)
  then show ?thesis
    using hex_digit_facts [OF nibbles(1) [of b]] hex_digit_facts [OF nibbles(2) [of b]] by (simp add: read_hex_int_def)
qed

lemma hex_pairs:
  "i < length bs \<Longrightarrow> take 2 (drop (i * 2) (info_hash_to_hex bs)) =
     [hex_digit (unat (bs ! i) div 16), hex_digit (unat (bs ! i) mod 16)]"
proof (induction bs arbitrary: i)
  case (Cons b bs)
  then show ?case by (cases i) (simp_all add: info_hash_to_hex_Cons)
qed simp

lemma hex_info_hash:
  assumes "length bs = 20"
  shows "hex_to_info_hash (info_hash_to_hex bs) = Inr bs"
proof -
  have "map (\<lambda>i. word_of_int (read_hex_int (take 2 (drop (i * 2) (info_hash_to_hex bs))))) [0..<20] = map ((!) bs) [0..<20]"
    using assms by (intro map_cong) (simp_all add: hex_pairs read_hex_pair)
  also have "\<dots> = bs" using assms map_nth [of bs] by simp
  finally show ?thesis using assms by (simp add: hex_to_info_hash_def length_info_hash_to_hex)
qed

interpretation info_hash_hex: codec info_hash_to_hex
    "\<lambda>h. case hex_to_info_hash h of Inr b \<Rightarrow> Some b | Inl _ \<Rightarrow> None" "\<lambda>b. length b = 20"
  by unfold_locales (simp add: hex_info_hash)

lemma info_hash_to_hex_digits: "list_all (\<lambda>c. hex_digit_val c \<noteq> None) (info_hash_to_hex bs)"
  using hex_digit_facts(1) [OF nibbles(1)] hex_digit_facts(1) [OF nibbles(2)]
  by (auto simp: info_hash_to_hex_def list_all_iff)

lemma mem_map_filter: "x \<in> set (map f (filter P xs)) \<longleftrightarrow> (\<exists>e \<in> set xs. P e \<and> f e = x)"
  by auto

lemma saved_torrent_listed:
  assumes "length b = 20"
  shows "info_hash_to_hex b \<in> set (list_saved_torrents dir) \<longleftrightarrow>
    get_state_file_path (info_hash_to_hex b) \<in> fst ` set dir"
proof -
  let ?h = "info_hash_to_hex b"
  have l: "length ?h = 40" using assms by (simp add: length_info_hash_to_hex)
  have "take 40 k @ drop 40 k = k" for k :: string by (rule append_take_drop_id)
  then have k: "length k = 45 \<and> drop 40 k = ''.json'' \<and> take 40 k = ?h \<longleftrightarrow> k = ?h @ ''.json''" for k
    using l by (cases "k = ?h @ ''.json''") (simp, metis)
  have "?h \<in> set (list_saved_torrents dir) \<longleftrightarrow> (\<exists>e \<in> set dir. length (fst e) = 45 \<and> drop 40 (fst e) = ''.json'' \<and>
      list_all (\<lambda>c. hex_digit_val c \<noteq> None) (take 40 (fst e)) \<and> take 40 (fst e) = ?h)"
    by (simp only: list_saved_torrents_def mem_map_filter conj_assoc)
  also have "\<dots> \<longleftrightarrow> (\<exists>e \<in> set dir. length (fst e) = 45 \<and> drop 40 (fst e) = ''.json'' \<and> take 40 (fst e) = ?h)"
    using info_hash_to_hex_digits [of b] by metis
  also have "\<dots> \<longleftrightarrow> ?h @ ''.json'' \<in> fst ` set dir" unfolding k image_iff by metis
  finally show ?thesis by (simp add: get_state_file_path_def)
qed

text \<open>C20: What \<open>load_state\<close> reads after \<open>save_state\<close> wrote a torrent's state, whatever else lies in the
  directory: the torrent data, byte for byte, the bit field and the priorities; the byte
  counts as long as they have at most fifteen digits (a longer one is printed with an
  exponent and read back as 0); the time to the second.\<close>

theorem state_roundtrip:
  assumes "0 \<le> ts_last_updated s" "ts_last_updated s < 253402300800 * 1000000000"
  shows "load_state junk now h (snd (save_state True h s dir)) =
    Some (Some (s\<lparr>ts_info_hash_hex := h, ts_uploaded_bytes := kept_size (ts_uploaded_bytes s),
      ts_downloaded_bytes := kept_size (ts_downloaded_bytes s),
      ts_file_priorities := map kept_size (ts_file_priorities s),
      ts_last_updated := ts_last_updated s div 1000000000 * 1000000000\<rparr>))"
  using load_save_state [OF assms] by (simp add: kept_state_def)

theorem state_roundtrip_witness:
  "load_state (7, 7) 0 ''ab'' (snd (save_state True ''ab'' \<lparr>ts_info_hash_hex = ''ab'', ts_torrent_data = ''d3:foo'',
      ts_bitfield = [True, False], ts_uploaded_bytes = 5, ts_downloaded_bytes = 1000000000000000,
      ts_file_priorities = [1, 0], ts_last_updated = 1700000000500000000\<rparr> [])) =
    Some (Some \<lparr>ts_info_hash_hex = ''ab'', ts_torrent_data = ''d3:foo'',
      ts_bitfield = [True, False], ts_uploaded_bytes = 5, ts_downloaded_bytes = 0,
      ts_file_priorities = [1, 0], ts_last_updated = 1700000000000000000\<rparr>)"
  by (subst state_roundtrip) (simp_all add: kept_size_def)

end
