(* ===== verification/Http_Server.thy ===== *)
theory Http_Server
  imports Socket Tracker_Client State_Manager
begin

text \<open>
  \<open>src/api/http_server.cpp\<close>: the server behind the API.  A request is read from the pieces a socket
  delivers; \<open>alloc n\<close> says whether the buffer for \<open>n\<close> further bytes of a body can be allocated.  A
  handler is a function of the request and of the program's state; \<open>None\<close> is a handler that does
  not return, \<open>Inl\<close> one that throws.  The text that is sent is the result.
\<close>

section \<open>Requests and responses\<close>

record http_request =
  hq_method :: string
  hq_path :: string
  hq_body :: string
  hq_headers :: "(string \<times> string) list"
  hq_query :: "(string \<times> string) list"

record http_response =
  hp_status :: int
  hp_message :: string
  hp_headers :: "(string \<times> string) list"
  hp_body :: string

definition new_response :: "int \<Rightarrow> string \<Rightarrow> http_response" where
  "new_response code msg = \<lparr>hp_status = code, hp_message = msg, hp_headers = [], hp_body = []\<rparr>"

type_synonym 's handler = "http_request \<Rightarrow> 's \<Rightarrow> (http_response res \<times> 's) option"

definition add_route :: "string \<Rightarrow> string \<Rightarrow> 's handler \<Rightarrow> (string \<times> 's handler) list \<Rightarrow> (string \<times> 's handler) list" where
  "add_route m path handler routes = AList.update (m @ '' '' @ path) handler routes"

section \<open>Reading a request\<close>

text \<open>A percent sign without two characters behind it is dropped; what \<open>std::hex\<close> does not accept is 0.\<close>

fun url_decode :: "string \<Rightarrow> string" where
  "url_decode [] = []"
| "url_decode (c # s) =
     (if c = CHR ''%'' then
        (case s of
           a # b # r \<Rightarrow> char_of_byte (word_of_int (read_hex_int [a, b])) # url_decode r
         | _ \<Rightarrow> url_decode s)
      else if c = CHR ''+'' then CHR '' '' # url_decode s
      else c # url_decode s)"

function read_header :: "string \<Rightarrow> string list \<Rightarrow> string \<times> string list" where
  "read_header acc cs =
     (case recv 4095 cs of (d, r) \<Rightarrow>
        if d = [] then (acc, r)
        else if find_str blank_line (acc @ d) \<noteq> None then (acc @ d, r)
        else read_header (acc @ d) r)"
  by pat_completeness auto
termination
proof (relation "measure (\<lambda>(acc, cs). length (concat cs))", goal_cases)
  case (2 acc cs d r)
  then have "recv 4095 cs = (d, r)" "d \<noteq> []" by simp_all
  then show ?case using recv_concat [of 4095 cs d r] by (cases d) simp_all
qed simp

declare read_header.simps [simp del]

definition parse_param :: "string \<Rightarrow> (string \<times> string) list \<Rightarrow> (string \<times> string) list" where
  "parse_param param ps =
     (case find_char CHR ''='' param 0 of
        None \<Rightarrow> ps
      | Some i \<Rightarrow> AList.update (url_decode (take i param)) (url_decode (drop (i + 1) param)) ps)"

definition parse_target :: "string \<Rightarrow> string \<times> (string \<times> string) list" where
  "parse_target target =
     (case find_char CHR ''?'' target 0 of
        None \<Rightarrow> (target, [])
      | Some i \<Rightarrow> (take i target, fold parse_param (get_lines CHR ''&'' [] (drop (i + 1) target)) []))"

definition trim :: "string \<Rightarrow> string" where
  "trim s = rev (dropWhile c_isspace (rev (dropWhile c_isspace s)))"

fun parse_headers :: "string list \<Rightarrow> (string \<times> string) list \<Rightarrow> (string \<times> string) list" where
  "parse_headers [] hs = hs"
| "parse_headers (l # ls) hs =
     (let line = strip_cr l in
      if line = [] then hs
      else case find_char CHR '':'' line 0 of
          None \<Rightarrow> parse_headers ls hs
        | Some i \<Rightarrow> parse_headers ls (AList.update (trim (take i line)) (trim (drop (i + 1) line)) hs))"

definition read_body :: "(nat \<Rightarrow> bool) \<Rightarrow> (string \<times> string) list \<Rightarrow> string \<Rightarrow> string list \<Rightarrow> string" where
  "read_body alloc headers body_section cs =
     (case map_of headers ''Content-Length'' of
        None \<Rightarrow> body_section
      | Some v \<Rightarrow>
          (case stoul v of
             Inl e \<Rightarrow> []
           | Inr n \<Rightarrow>
               if n = 0 then []
               else if length body_section < n then
                 (if alloc (n - length body_section)
                  then take n (body_section @ fst (recv_all (n - length body_section) cs)) else [])
               else take n body_section))"

definition parse_request :: "(nat \<Rightarrow> bool) \<Rightarrow> string list \<Rightarrow> http_request res" where
  "parse_request alloc cs =
     (case read_header [] cs of (data, r) \<Rightarrow>
        if data = [] then Inl ''Invalid request: no data received''
        else let header_end = find_str blank_line data;
                 header_section = (case header_end of Some i \<Rightarrow> take i data | None \<Rightarrow> data);
                 body_section = (case header_end of Some i \<Rightarrow> drop (i + 4) data | None \<Rightarrow> []);
                 lines = get_lines CHR 0x0A [] header_section;
                 line = (case lines of l # ls \<Rightarrow> strip_cr l | [] \<Rightarrow> [])
          in if line = [] then Inl ''Invalid request: empty request line''
             else let (m, rest) = next_word line;
                      (path, query) = parse_target (fst (next_word rest));
                      headers = parse_headers (tl lines) []
               in Inr \<lparr>hq_method = m, hq_path = path, hq_body = read_body alloc headers body_section r,
                    hq_headers = headers, hq_query = query\<rparr>)"

section \<open>Answering\<close>

definition send_response :: "http_response \<Rightarrow> string" where
  "send_response r =
     ''HTTP/1.1 '' @ show_int (hp_status r) @ '' '' @ hp_message r @ crlf @
     concat (map (\<lambda>(n, v). n @ '': '' @ v @ crlf) (hp_headers r)) @
     ''Content-Length: '' @ show_nat (length (hp_body r)) @ crlf @ crlf @ hp_body r"

definition not_found :: http_response where
  "not_found = (new_response 404 ''Not Found'')\<lparr>hp_body := ''Route not found''\<rparr>"

definition server_error :: "string \<Rightarrow> http_response" where
  "server_error e = (new_response 500 ''Internal Server Error'')\<lparr>hp_body := e\<rparr>"

definition handle_client ::
    "(nat \<Rightarrow> bool) \<Rightarrow> (string \<times> 's handler) list \<Rightarrow> string list \<Rightarrow> 's \<Rightarrow> (string \<times> 's) option" where
  "handle_client alloc routes cs s =
     (case parse_request alloc cs of
        Inl e \<Rightarrow> Some (send_response (server_error e), s)
      | Inr req \<Rightarrow>
          (case map_of routes (hq_method req @ '' '' @ hq_path req) of
             None \<Rightarrow> Some (send_response not_found, s)
           | Some handler \<Rightarrow>
               map_option
                 (\<lambda>(r, s'). (send_response (case r of Inl e \<Rightarrow> server_error e | Inr response \<Rightarrow> response), s'))
                 (handler req s)))"

lemma handle_client_state:
  assumes "handle_client alloc routes cs s = Some (answer, s')"
  shows "s' = s \<or> (\<exists>k handler req r. map_of routes k = Some handler \<and> handler req s = Some (r, s'))"
proof (cases "parse_request alloc cs")
  case (Inr req)
  show ?thesis
  proof (cases "map_of routes (hq_method req @ '' '' @ hq_path req)")
    case (Some handler)
    with assms Inr obtain r where "handler req s = Some (r, s')" by (auto simp: handle_client_def)
    with Some show ?thesis by blast
  qed (use assms Inr in \<open>simp add: handle_client_def\<close>)
qed (use assms in \<open>simp add: handle_client_def\<close>)

section \<open>Starting and stopping\<close>

text \<open>\<open>server_socket_\<close> is \<open>None\<close> for -1; \<open>hs_thread\<close> is whether the server thread was started and not
  joined.  \<open>sock\<close> is the new descriptor, \<open>None\<close> when \<open>socket\<close> fails; \<open>bound\<close> and \<open>listening\<close> are
  the other results.  The descriptors that are closed are returned.\<close>

record http_server =
  hs_socket :: "int option"
  hs_thread :: bool
  hs_running :: bool

definition http_server_new :: http_server where
  "http_server_new = \<lparr>hs_socket = None, hs_thread = False, hs_running = False\<rparr>"

definition http_start :: "int option \<Rightarrow> bool \<Rightarrow> bool \<Rightarrow> http_server \<Rightarrow> unit res \<times> int list \<times> http_server" where
  "http_start sock bound listening s =
     (if hs_running s then (Inr (), [], s)
      else case sock of
          None \<Rightarrow> (Inl ''Failed to create server socket'', [], s\<lparr>hs_socket := None\<rparr>)
        | Some fd \<Rightarrow>
            if \<not> bound then (Inl ''Failed to bind server socket'', [fd], s\<lparr>hs_socket := Some fd\<rparr>)
            else if \<not> listening then (Inl ''Failed to listen on server socket'', [fd], s\<lparr>hs_socket := Some fd\<rparr>)
            else (Inr (), [], \<lparr>hs_socket = Some fd, hs_thread = True, hs_running = True\<rparr>))"

definition http_stop :: "http_server \<Rightarrow> int list \<times> http_server" where
  "http_stop s =
     ((case hs_socket s of Some fd \<Rightarrow> [fd] | None \<Rightarrow> []), \<lparr>hs_socket = None, hs_thread = False, hs_running = False\<rparr>)"

text \<open>The server thread, given what each round reads from \<open>running_\<close> and gets from \<open>accept\<close>: the
  sockets that are handed to client threads.\<close>

fun http_run :: "(bool \<times> int) list \<Rightarrow> int list" where
  "http_run [] = []"
| "http_run ((running, client_socket) # rounds) =
     (if \<not> running then []
      else if client_socket < 0 then http_run rounds
      else client_socket # http_run rounds)"

section \<open>Decoding what was encoded\<close>

lemma url_safe_chars: "url_safe c \<Longrightarrow> c \<notin> {CHR ''='', CHR ''&'', CHR ''+'', CHR ''?''} \<and> \<not> c_isspace c"
  by (auto simp: url_safe_def c_isalnum_def c_isspace_def Let_def)

lemma read_hex_nibbles:
  assumes "n < 16" "k < 16"
  shows "read_hex_int [hex_digit n, hex_digit k] = int (16 * n + k)"
  using hex_digit_facts [OF assms(1)] hex_digit_facts [OF assms(2)] by (simp add: read_hex_int_def)

lemma char_of_byte_code: "char_of_byte (word_of_int (int (of_char c))) = c"
proof -
  have "(of_char c :: nat) < 256" using char_nibbles(1) [of c] by linarith
  then show ?thesis by (simp add: char_of_byte_def unat_of_nat)
qed

lemma url_decode_char: "url_decode (url_char c @ s) = c # url_decode s"
proof (cases "c_isalnum c \<or> c = CHR ''-'' \<or> c = CHR ''_'' \<or> c = CHR ''.'' \<or> c = CHR ''~''")
  case True
  then have "c \<noteq> CHR ''%''" "c \<noteq> CHR ''+''" by (auto simp: c_isalnum_def)
  then show ?thesis using True by (simp add: url_char_def)
next
  case False
  have "16 * (of_char c div 16) + of_char c mod 16 = (of_char c :: nat)" by simp
  then show ?thesis using False read_hex_nibbles [OF char_nibbles(1) [of c] char_nibbles(2) [of c]] char_of_byte_code [of c]
    by (simp add: url_char_def)
qed

lemma url_decode_encode: "url_decode (url_encode s) = s"
  by (induction s) (simp_all add: url_encode_def url_decode_char)

interpretation form: codec url_encode "\<lambda>s. Some (url_decode s)" "\<lambda>_. True"
  by unfold_locales (simp add: url_decode_encode)

text \<open>A query as a browser writes it.\<close>

definition param_text :: "string \<times> string \<Rightarrow> string" where
  "param_text p = url_encode (fst p) @ ''='' @ url_encode (snd p)"

fun query_text :: "(string \<times> string) list \<Rightarrow> string" where
  "query_text [] = []"
| "query_text [p] = param_text p"
| "query_text (p # ps) = param_text p @ ''&'' @ query_text ps"

definition target_text :: "string \<Rightarrow> (string \<times> string) list \<Rightarrow> string" where
  "target_text path ps = path @ (if ps = [] then [] else ''?'' @ query_text ps)"

lemma encoded_chars: "c \<in> set (url_encode s) \<Longrightarrow> c \<notin> {CHR ''='', CHR ''&'', CHR ''+'', CHR ''?''} \<and> \<not> c_isspace c"
  using url_encode_sound(2) [of s] url_safe_chars [of c] by (auto simp: list_all_iff)

lemma find_char_0: "c \<notin> set a \<Longrightarrow> find_char c (a @ c # b) 0 = Some (length a)"
proof -
  assume "c \<notin> set a"
  then have "\<forall>x \<in> set a. x \<noteq> c" by auto
  then have "takeWhile (\<lambda>x. x \<noteq> c) (a @ c # b) = a" by (simp add: takeWhile_tail)
  then show ?thesis by (simp add: find_char_def Let_def)
qed

lemma find_char_None: "c \<notin> set a \<Longrightarrow> find_char c a 0 = None"
proof -
  assume "c \<notin> set a"
  then have "\<forall>x \<in> set a. x \<noteq> c" by auto
  then have "takeWhile (\<lambda>x. x \<noteq> c) a = a" by (simp only: takeWhile_eq_all_conv)
  then show ?thesis by (simp only: find_char_def Let_def drop_0) simp
qed

lemma parse_param_text: "parse_param (param_text p) ps = AList.update (fst p) (snd p) ps"
proof -
  have "CHR ''='' \<notin> set (url_encode (fst p))" using encoded_chars [of "CHR ''=''" "fst p"] by blast
  from find_char_0 [OF this, of "url_encode (snd p)"] show ?thesis
    by (simp add: parse_param_def param_text_def url_decode_encode)
qed

lemma param_text_chars: "c \<in> set (param_text p) \<Longrightarrow> c \<noteq> CHR ''&'' \<and> \<not> c_isspace c" "param_text p \<noteq> []"
  using encoded_chars by (auto simp: param_text_def c_isspace_def)

lemma query_lines: "get_lines CHR ''&'' [] (query_text ps) = map param_text ps"
proof (induction ps rule: query_text.induct)
  case (2 p)
  then show ?case using param_text_chars(1) [of "CHR ''&''" p] param_text_chars(2) [of p] get_lines_last [of "CHR ''&''" "param_text p" "[]"] by auto
next
  case (3 p q ps)
  have "CHR ''&'' \<notin> set (param_text p)" using param_text_chars(1) [of "CHR ''&''" p] by blast
  from get_lines_line [OF this, of "[]"] 3 show ?case by simp
qed simp

lemma parse_target_text:
  assumes "CHR ''?'' \<notin> set path" "distinct (map fst ps)"
  shows "parse_target (target_text path ps) = (path, ps)"
proof -
  have "(\<lambda>p. parse_param (param_text p)) = (\<lambda>p. AList.update (fst p) (snd p))" by (intro ext parse_param_text)
  then have "fold parse_param (map param_text ps) [] = foldl (\<lambda>m (k, v). AList.update k v m) [] ps"
    by (simp add: foldl_conv_fold fold_map comp_def case_prod_unfold)
  then show ?thesis
    using find_char_0 [OF assms(1), of "query_text ps"] find_char_None [OF assms(1)]
    by (simp add: parse_target_def target_text_def query_lines foldl_update_distinct [OF assms(2)])
qed

section \<open>Reading what was written\<close>

definition trimmed :: "string \<Rightarrow> bool" where
  "trimmed s \<longleftrightarrow> s = [] \<or> \<not> c_isspace (hd s) \<and> \<not> c_isspace (last s)"

definition one_line :: "string \<Rightarrow> bool" where
  "one_line s \<longleftrightarrow> CHR 0x0D \<notin> set s \<and> CHR 0x0A \<notin> set s"

definition field_ok :: "string \<times> string \<Rightarrow> bool" where
  "field_ok h \<longleftrightarrow> one_line (fst h) \<and> one_line (snd h) \<and> trimmed (fst h) \<and> trimmed (snd h) \<and> CHR '':'' \<notin> set (fst h)"

definition field_text :: "string \<times> string \<Rightarrow> string" where
  "field_text h = fst h @ '': '' @ snd h"

lemma trim_trimmed: "trimmed s \<Longrightarrow> trim s = s"
proof (cases s)
  case (Cons c t)
  assume "trimmed s"
  with Cons have "\<not> c_isspace c" "\<not> c_isspace (last s)" by (simp_all add: trimmed_def)
  moreover have "rev s = last s # rev (butlast s)" using Cons append_butlast_last_id [of s]
    by (metis list.distinct(1) rev_append rev_singleton_conv append_Cons append_Nil)
  ultimately show ?thesis using Cons by (metis dropWhile.simps(2) rev_rev_ident trim_def)
qed (simp add: trim_def)

lemma trim_space: "trim (CHR '' '' # s) = trim s"
  by (simp add: trim_def c_isspace_def)

lemma parse_field:
  assumes "field_ok h"
  shows "parse_headers (field_text h # ls) hs = parse_headers ls (AList.update (fst h) (snd h) hs)"
proof -
  have ns: "field_text h \<noteq> []" "CHR 0x0D \<notin> set (field_text h)" using assms by (auto simp: field_text_def field_ok_def one_line_def)
  then have "last (field_text h) \<noteq> CHR 0x0D" using last_in_set by metis
  with ns have "strip_cr (field_text h) = field_text h" by (simp add: strip_cr_def)
  moreover have "find_char CHR '':'' (field_text h) 0 = Some (length (fst h))"
    using assms find_char_0 [of "CHR '':''" "fst h" "CHR '' '' # snd h"] by (simp add: field_text_def field_ok_def)
  ultimately show ?thesis using assms ns(1)
    by (simp add: field_ok_def field_text_def trim_trimmed trim_space)
qed

lemma parse_fields:
  assumes "list_all field_ok hs" "distinct (map fst hs)"
  shows "parse_headers (map field_text hs) [] = hs"
proof -
  have "parse_headers (map field_text hs) ms = foldl (\<lambda>m (k, v). AList.update k v m) ms hs" for ms
    using assms(1) by (induction hs arbitrary: ms) (simp_all add: parse_field case_prod_unfold del: parse_headers.simps(2))
  then show ?thesis by (simp add: foldl_update_distinct [OF assms(2)])
qed

text \<open>The lines of a header block, without its last end of line.\<close>

lemma strip_cr_snoc [simp]: "strip_cr (l @ [CHR 0x0D]) = l"
  by (simp add: strip_cr_def)

lemma header_lines:
  assumes "list_all (\<lambda>l. one_line l \<and> l \<noteq> []) ls" "ls \<noteq> []"
  shows "map strip_cr (get_lines CHR 0x0A [] (take (length (header_block ls) - 2) (header_block ls))) = ls"
  using assms
proof (induction ls)
  case (Cons l ls)
  from Cons.prems have l: "CHR 0x0A \<notin> set l" "CHR 0x0D \<notin> set l" "l \<noteq> []" by (simp_all add: one_line_def)
  then have strip: "strip_cr l = l" by (metis last_in_set strip_cr_def)
  show ?case
  proof (cases "ls = []")
    case True
    then show ?thesis using l strip get_lines_last [OF l(1,3), of "[]"] by (simp add: crlf_def)
  next
    case False
    with Cons have rs: "map strip_cr (get_lines CHR 0x0A [] (take (length (header_block ls) - 2) (header_block ls))) = ls"
      by simp
    have "2 \<le> length (header_block ls)" using False by (cases ls) (simp_all add: crlf_def)
    then obtain n where n: "length (header_block ls) = Suc (Suc n)" by (metis add_2_eq_Suc le_Suc_ex)
    have "CHR 0x0A \<notin> set (l @ [CHR 0x0D])" using l(1) by simp
    from get_lines_line [OF this, of "[]" "take (length (header_block ls) - 2) (header_block ls)"]
    have "get_lines CHR 0x0A [] (take (length (header_block (l # ls)) - 2) (header_block (l # ls))) =
        (l @ [CHR 0x0D]) # get_lines CHR 0x0A [] (take (length (header_block ls) - 2) (header_block ls))"
      by (simp add: crlf_def n)
    then show ?thesis using rs by (simp only: list.map strip_cr_snoc)
  qed
qed simp

lemma strip_cr_id: "CHR 0x0D \<notin> set l \<Longrightarrow> strip_cr l = l"
  by (metis last_in_set strip_cr_def)

lemma parse_headers_strip:
  "list_all (\<lambda>l. CHR 0x0D \<notin> set (strip_cr l)) ls \<Longrightarrow> parse_headers ls hs = parse_headers (map strip_cr ls) hs"
  by (induction ls arbitrary: hs) (simp_all add: Let_def strip_cr_id split: option.split)

lemma read_header_pieces:
  assumes "live cs" "acc @ concat cs = s" "find_str blank_line s = Some i"
  shows "\<exists>d r. read_header acc cs = (d, r) \<and> d @ concat r = s \<and> live r \<and> find_str blank_line d = Some i"
  using assms
proof (induction acc cs rule: read_header.induct)
  case (1 acc cs)
  obtain d r where d: "recv 4095 cs = (d, r)" by force
  show ?case
  proof (cases "d = []")
    case True
    with d have "recv 4095 cs = ([], r)" by simp
    from recv_Nil [OF this _ 1(2)] have "concat cs = []" "r = []" by simp_all
    moreover have "read_header acc cs = (acc, r)" using True d by (simp add: read_header.simps [of acc cs])
    ultimately show ?thesis using 1(3,4) by (simp del: concat_eq_Nil_conv)
  next
    case nonempty: False
    have s: "(acc @ d) @ concat r = s" using recv_concat [OF d] 1(3) by simp
    have live: "live r" using recv_live [OF d] 1(2) by simp
    show ?thesis
    proof (cases "find_str blank_line (acc @ d)")
      case None
      with 1(1) [OF d [symmetric] nonempty _ live s 1(4)] nonempty d show ?thesis
        by (simp add: read_header.simps [of acc cs])
    next
      case (Some j)
      with find_str_append [OF Some, of "concat r"] 1(4) s have "j = i" by simp
      with Some nonempty d s live show ?thesis by (simp add: read_header.simps [of acc cs])
    qed
  qed
qed

lemma read_body_pieces:
  assumes "live r" "map_of hs ''Content-Length'' = Some (show_nat (length b))" "length b < 2 ^ 64" "\<And>n. n \<le> length b \<Longrightarrow> alloc n"
    and "body_section @ concat r = b @ rest"
  shows "read_body alloc hs body_section r = b"
proof -
  have "take (length b) (body_section @ take (length b - length body_section) (concat r)) = take (length b) (body_section @ concat r)"
    by simp
  also have "\<dots> = b" using assms(5) by simp
  finally have "take (length b) (body_section @ take (length b - length body_section) (concat r)) = b" .
  moreover have "length b \<le> length body_section \<Longrightarrow> take (length b) body_section = b"
    using arg_cong [OF assms(5), of "take (length b)"] by simp
  ultimately show ?thesis
    using assms(2-4) recv_all_take [OF assms(1), of "length b - length body_section"]
    by (auto simp: read_body_def stoul_show_nat)
qed

section \<open>Requests as a client writes them\<close>

definition request_lines :: "string \<Rightarrow> string \<Rightarrow> (string \<times> string) list \<Rightarrow> (string \<times> string) list \<Rightarrow> string list" where
  "request_lines m path ps hs = (m @ '' '' @ target_text path ps @ '' HTTP/1.1'') # map field_text hs"

definition request_text :: "string \<Rightarrow> string \<Rightarrow> (string \<times> string) list \<Rightarrow> (string \<times> string) list \<Rightarrow> string \<Rightarrow> string" where
  "request_text m path ps hs body = header_block (request_lines m path ps hs) @ crlf @ body"

definition token :: "string \<Rightarrow> bool" where
  "token s \<longleftrightarrow> s \<noteq> [] \<and> list_all (\<lambda>c. \<not> c_isspace c \<and> c \<noteq> CHR ''?'') s"

definition request_ok :: "string \<Rightarrow> string \<Rightarrow> (string \<times> string) list \<Rightarrow> (string \<times> string) list \<Rightarrow> string \<Rightarrow> bool" where
  "request_ok m path ps hs body \<longleftrightarrow>
     token m \<and> token path \<and> distinct (map fst ps) \<and> distinct (map fst hs) \<and> list_all field_ok hs \<and>
     map_of hs ''Content-Length'' = Some (show_nat (length body)) \<and> length body < 2 ^ 64"

definition fields_ok :: "string \<Rightarrow> string \<Rightarrow> (string \<times> string) list \<Rightarrow> (string \<times> string) list \<Rightarrow> bool" where
  "fields_ok m path ps hs \<longleftrightarrow>
     token m \<and> token path \<and> distinct (map fst ps) \<and> distinct (map fst hs) \<and> list_all field_ok hs"

lemma request_fields_ok: "request_ok m path ps hs body \<Longrightarrow> fields_ok m path ps hs"
  by (simp add: request_ok_def fields_ok_def)

lemma query_text_chars: "list_all (\<lambda>c. \<not> c_isspace c) (query_text ps)"
proof -
  have p: "list_all (\<lambda>c. \<not> c_isspace c) (param_text p)" for p using param_text_chars(1) by (simp add: list_all_iff)
  have "\<not> c_isspace (CHR ''&'')" by (simp add: c_isspace_def)
  with p show ?thesis by (induction ps rule: query_text.induct) simp_all
qed

lemma token_no_space: "token s \<Longrightarrow> list_all (\<lambda>c. \<not> c_isspace c) s"
  by (simp add: token_def list_all_iff)

lemma target_text_chars: "token path \<Longrightarrow> list_all (\<lambda>c. \<not> c_isspace c) (target_text path ps)" "token path \<Longrightarrow> target_text path ps \<noteq> []"
proof -
  have "\<not> c_isspace (CHR ''?'')" by (simp add: c_isspace_def)
  then show "token path \<Longrightarrow> list_all (\<lambda>c. \<not> c_isspace c) (target_text path ps)"
    using query_text_chars [of ps] token_no_space [of path] by (simp add: target_text_def)
qed (simp add: target_text_def token_def)

lemma no_space_one_line: "list_all (\<lambda>c. \<not> c_isspace c) s \<Longrightarrow> one_line s"
  by (auto simp: one_line_def list_all_iff c_isspace_def)

lemma request_line_one_line:
  assumes "token m" "token path"
  shows "one_line (m @ '' '' @ target_text path ps @ '' HTTP/1.1'')"
proof -
  have "one_line m" using token_no_space [OF assms(1)] by (rule no_space_one_line)
  moreover have "one_line (target_text path ps)" using target_text_chars(1) [OF assms(2)] by (rule no_space_one_line)
  ultimately show ?thesis by (simp add: one_line_def)
qed

lemma request_lines_ok:
  assumes "fields_ok m path ps hs"
  shows "list_all (\<lambda>l. one_line l \<and> l \<noteq> []) (request_lines m path ps hs)"
proof -
  from assms have t: "token m" "token path" and f: "list_all field_ok hs" by (simp_all add: fields_ok_def)
  have "one_line (field_text h)" if "field_ok h" for h
    using that by (simp add: field_ok_def field_text_def one_line_def)
  with f have "list_all (\<lambda>l. one_line l \<and> l \<noteq> []) (map field_text hs)" by (auto simp: list_all_iff field_text_def)
  then show ?thesis using request_line_one_line [OF t, of ps] by (simp add: request_lines_def)
qed

lemma request_line_words:
  assumes "token m" "token path"
  shows "\<exists>r. next_word (m @ '' '' @ target_text path ps @ '' HTTP/1.1'') = (m, r) \<and> fst (next_word r) = target_text path ps"
proof -
  have m: "list_all (\<lambda>c. \<not> c_isspace c) m" "m \<noteq> []" using token_no_space [OF assms(1)] assms(1) by (simp_all add: token_def)
  have "next_word (m @ '' '' @ target_text path ps @ '' HTTP/1.1'') = (m, '' '' @ target_text path ps @ '' HTTP/1.1'')"
    using m by (intro next_word_append) (simp_all add: c_isspace_def)
  moreover have "next_word ('' '' @ w) = next_word w" for w by (simp add: next_word_def c_isspace_def)
  moreover have "next_word (target_text path ps @ '' HTTP/1.1'') = (target_text path ps, '' HTTP/1.1'')"
    using target_text_chars [OF assms(2), of ps] by (intro next_word_append) (simp_all add: c_isspace_def)
  ultimately show ?thesis by (metis fst_conv)
qed

text \<open>Everything but the body does not depend on the content length.\<close>

lemma parse_request_fields:
  assumes "live cs" "concat cs = request_text m path ps hs body @ rest" "fields_ok m path ps hs"
  shows "\<exists>b r. live r \<and> b @ concat r = body @ rest \<and> parse_request alloc cs =
    Inr \<lparr>hq_method = m, hq_path = path, hq_body = read_body alloc hs b r, hq_headers = hs, hq_query = ps\<rparr>"
proof -
  let ?ls = "request_lines m path ps hs" and ?i = "length (header_block (request_lines m path ps hs)) - 2"
  note ok = request_lines_ok [OF assms(3)]
  have ne: "?ls \<noteq> []" by (simp add: request_lines_def)
  then have two: "2 \<le> length (header_block ?ls)" by (cases ?ls) (simp_all add: crlf_def)
  have hl: "list_all header_line ?ls" using ok by (simp add: list_all_iff header_line_def one_line_def)
  let ?s = "header_block ?ls @ crlf @ body @ rest"
  have s: "[] @ concat cs = ?s" using assms(2) by (simp add: request_text_def)
  from read_header_pieces [OF assms(1) s find_blank_line [OF hl ne]] obtain d r where
    d: "read_header [] cs = (d, r)" "d @ concat r = ?s" "live r" "find_str blank_line d = Some ?i" by blast
  from find_str_Some [OF d(4)] have il: "?i + 4 \<le> length d" by (auto simp: blank_line_def crlf_def)
  from arg_cong [OF d(2), of "take ?i"] il have h: "take ?i d = take ?i (header_block ?ls)" using two by simp
  from arg_cong [OF d(2), of "drop (?i + 4)"] il two have b: "drop (?i + 4) d @ concat r = body @ rest"
    by (simp add: crlf_def)
  define rs where rs: "rs = get_lines CHR 0x0A [] (take ?i (header_block ?ls))"
  have "map strip_cr rs = ?ls" unfolding rs by (rule header_lines [OF ok ne])
  then obtain l ls where l: "rs = l # ls" "strip_cr l = m @ '' '' @ target_text path ps @ '' HTTP/1.1''" "map strip_cr ls = map field_text hs"
    by (cases rs) (auto simp: request_lines_def)
  have t: "token m" "token path" "list_all field_ok hs" "distinct (map fst hs)" "distinct (map fst ps)"
    using assms(3) by (simp_all add: fields_ok_def)
  have "list_all (\<lambda>l. CHR 0x0D \<notin> set l) (map field_text hs)"
    using ok by (simp add: request_lines_def list_all_iff one_line_def)
  then have "list_all (\<lambda>l. CHR 0x0D \<notin> set (strip_cr l)) ls" unfolding l(3) [symmetric] by (simp add: list_all_iff)
  from parse_headers_strip [OF this, of "[]"] l(3) parse_fields [OF t(3,4)] have hs: "parse_headers ls [] = hs" by simp
  from request_line_words [OF t(1,2), of ps] obtain w where
    w: "next_word (m @ '' '' @ target_text path ps @ '' HTTP/1.1'') = (m, w)" "fst (next_word w) = target_text path ps" by blast
  have q: "CHR ''?'' \<notin> set path" using t(2) by (auto simp: token_def list_all_iff)
  have "d \<noteq> []" using il by auto
  then have "parse_request alloc cs =
      Inr \<lparr>hq_method = m, hq_path = path, hq_body = read_body alloc hs (drop (?i + 4) d) r, hq_headers = hs, hq_query = ps\<rparr>"
    using rs [symmetric] l(1,2) hs w parse_target_text [OF q t(5)] by (simp add: parse_request_def d(1,4) h)
  with d(3) b show ?thesis by blast
qed

lemma parse_request_text:
  assumes "live cs" "concat cs = request_text m path ps hs body @ rest" "request_ok m path ps hs body" "\<And>n. n \<le> length body \<Longrightarrow> alloc n"
  shows "parse_request alloc cs =
    Inr \<lparr>hq_method = m, hq_path = path, hq_body = body, hq_headers = hs, hq_query = ps\<rparr>"
proof -
  from parse_request_fields [OF assms(1,2) request_fields_ok [OF assms(3)], of alloc] obtain b r where
    "live r" "b @ concat r = body @ rest" and p: "parse_request alloc cs =
      Inr \<lparr>hq_method = m, hq_path = path, hq_body = read_body alloc hs b r, hq_headers = hs, hq_query = ps\<rparr>" by blast
  then have "read_body alloc hs b r = body"
    using assms(3,4) by (intro read_body_pieces [of r hs body alloc b rest]) (simp_all add: request_ok_def)
  with p show ?thesis by simp
qed

text \<open>Without a content length the body is what has arrived behind the header.\<close>

lemma parse_request_no_body:
  assumes "live cs" "concat cs = request_text m path ps hs []" "fields_ok m path ps hs" "map_of hs ''Content-Length'' = None"
  shows "parse_request alloc cs = Inr \<lparr>hq_method = m, hq_path = path, hq_body = [], hq_headers = hs, hq_query = ps\<rparr>"
  using parse_request_fields [of cs m path ps hs "[]" "[]" alloc] assms by (auto simp: read_body_def)

interpretation request: codec "\<lambda>(m, path, ps, hs, body). [request_text m path ps hs body]"
    "\<lambda>cs. case parse_request (\<lambda>_. True) cs of
        Inr q \<Rightarrow> Some (hq_method q, hq_path q, hq_query q, hq_headers q, hq_body q) | Inl _ \<Rightarrow> None"
    "\<lambda>(m, path, ps, hs, body). request_ok m path ps hs body"
proof unfold_locales
  fix x :: "string \<times> string \<times> (string \<times> string) list \<times> (string \<times> string) list \<times> string"
  obtain m path ps hs body where x: "x = (m, path, ps, hs, body)" by (cases x)
  assume "case x of (m, path, ps, hs, body) \<Rightarrow> request_ok m path ps hs body"
  then show "(case parse_request (\<lambda>_. True) (case x of (m, path, ps, hs, body) \<Rightarrow> [request_text m path ps hs body]) of
      Inr q \<Rightarrow> Some (hq_method q, hq_path q, hq_query q, hq_headers q, hq_body q) | Inl _ \<Rightarrow> None) = Some x"
    using parse_request_text [of "[request_text m path ps hs body]" m path ps hs body "[]"]
    by (simp add: x request_text_def crlf_def)
qed

section \<open>Responses as a client reads them\<close>

text \<open>The first line, the fields and what follows the empty line.\<close>

definition read_reply :: "string \<Rightarrow> (string \<times> (string \<times> string) list \<times> string) option" where
  "read_reply t =
     Option.bind (find_str blank_line t) (\<lambda>i.
       case get_lines CHR 0x0A [] (take i t) of
         [] \<Rightarrow> None
       | l # ls \<Rightarrow> Some (strip_cr l, parse_headers ls [], drop (i + 4) t))"

definition status_line :: "http_response \<Rightarrow> string" where
  "status_line r = ''HTTP/1.1 '' @ show_int (hp_status r) @ '' '' @ hp_message r"

definition reply_ok :: "http_response \<Rightarrow> bool" where
  "reply_ok r \<longleftrightarrow> one_line (hp_message r) \<and> list_all field_ok (hp_headers r) \<and> distinct (map fst (hp_headers r)) \<and>
     ''Content-Length'' \<notin> fst ` set (hp_headers r)"

definition length_field :: "string \<Rightarrow> string \<times> string" where
  "length_field body = (''Content-Length'', show_nat (length body))"

lemma reply_text_lines:
  "send_response r = header_block (status_line r # map field_text (hp_headers r @ [length_field (hp_body r)])) @ crlf @ hp_body r"
proof -
  have "concat (map (\<lambda>(n, v). n @ '': '' @ v @ crlf) hs) = header_block (map field_text hs)" for hs
    by (induction hs) (auto simp: field_text_def)
  moreover have "header_block (ls @ [l]) = header_block ls @ l @ crlf" for ls l by (simp add: header_block_def)
  ultimately show ?thesis by (simp add: send_response_def status_line_def field_text_def length_field_def)
qed

lemma header_cut:
  assumes "2 \<le> length h"
  shows "take (length h - 2) (h @ crlf @ b) = take (length h - 2) h" "drop (length h - 2 + 4) (h @ crlf @ b) = b"
  using assms by (simp_all add: crlf_def)

lemma digits_one_line: "\<forall>c \<in> set s. c_isdigit c \<Longrightarrow> one_line s" "\<forall>c \<in> set s. c_isdigit c \<Longrightarrow> trimmed s"
proof -
  assume s: "\<forall>c \<in> set s. c_isdigit c"
  have n: "\<not> c_isdigit (CHR 0x0D)" "\<not> c_isdigit (CHR 0x0A)" by (simp_all add: c_isdigit_def)
  with s show "one_line s" by (auto simp: one_line_def)
  have "\<not> c_isspace c" if "c_isdigit c" for c using that by (auto simp: c_isdigit_def c_isspace_def)
  with s show "trimmed s" by (auto simp: trimmed_def)
qed

lemma field_text_one_line: "field_ok h \<Longrightarrow> one_line (field_text h) \<and> field_text h \<noteq> []"
  by (simp add: field_ok_def field_text_def one_line_def)

lemma read_reply_text:
  assumes "one_line l" "l \<noteq> []" "list_all field_ok fs" "distinct (map fst fs)"
  shows "read_reply (header_block (l # map field_text fs) @ crlf @ b) = Some (l, fs, b)"
proof -
  let ?ls = "l # map field_text fs"
  let ?i = "length (header_block ?ls) - 2"
  have "list_all (\<lambda>l. one_line l \<and> l \<noteq> []) (map field_text fs)"
    using assms(3) field_text_one_line by (auto simp: list_all_iff)
  with assms(1,2) have ok: "list_all (\<lambda>l. one_line l \<and> l \<noteq> []) ?ls" by simp
  then have hl: "list_all header_line ?ls" by (simp add: list_all_iff header_line_def one_line_def)
  have "2 \<le> length (header_block ?ls)" by (simp add: crlf_def)
  note cut = header_cut [OF this, of b]
  define rs where rs: "rs = get_lines CHR 0x0A [] (take ?i (header_block ?ls))"
  have "map strip_cr rs = ?ls" unfolding rs by (rule header_lines [OF ok]) simp
  then obtain r rs' where r: "rs = r # rs'" "strip_cr r = l" "map strip_cr rs' = map field_text fs" by (cases rs) auto
  have "list_all (\<lambda>l. CHR 0x0D \<notin> set l) (map field_text fs)" using ok by (simp add: list_all_iff one_line_def)
  then have "list_all (\<lambda>l. CHR 0x0D \<notin> set (strip_cr l)) rs'" unfolding r(3) [symmetric] by (simp add: list_all_iff)
  from parse_headers_strip [OF this, of "[]"] r(3) parse_fields [OF assms(3,4)] have "parse_headers rs' [] = fs" by simp
  moreover have "find_str blank_line (header_block ?ls @ crlf @ b) = Some ?i"
    by (rule find_blank_line [OF hl]) simp
  ultimately show ?thesis using rs [symmetric] r(1,2) cut by (simp add: read_reply_def)
qed

lemma read_reply_response:
  assumes "reply_ok r"
  shows "read_reply (send_response r) = Some (status_line r, hp_headers r @ [length_field (hp_body r)], hp_body r)"
proof -
  have l: "field_ok (length_field (hp_body r))"
    using digits_one_line [OF show_nat_digits] by (simp add: field_ok_def length_field_def one_line_def trimmed_def c_isspace_def)
  have "one_line (show_int (hp_status r))"
    using digits_one_line(1) [OF show_nat_digits] by (simp add: show_int_def one_line_def)
  then have s: "one_line (status_line r)" "status_line r \<noteq> []" using assms by (simp_all add: status_line_def one_line_def reply_ok_def)
  show ?thesis unfolding reply_text_lines
    using assms l by (intro read_reply_text [OF s]) (simp_all add: reply_ok_def length_field_def)
qed

section \<open>Properties\<close>

lemma shown: "show_nat (Suc (Suc 0)) = ''2''" "show_int 200 = ''200''" "show_int 404 = ''404''" "show_int 500 = ''500''"
  by code_simp+

text \<open>C27: However the socket cuts a request into pieces, and whatever follows it, the server reads its
  method, path, percent-decoded query parameters, header fields and body as the client wrote them.\<close>

theorem http_request_read:
  assumes "live cs" "concat cs = request_text m path ps hs body @ rest" "request_ok m path ps hs body"
    and "\<And>n. n \<le> length body \<Longrightarrow> alloc n"
  shows "parse_request alloc cs =
    Inr \<lparr>hq_method = m, hq_path = path, hq_body = body, hq_headers = hs, hq_query = ps\<rparr>"
  using assms by (rule parse_request_text)

theorem http_request_read_witness:
  "parse_request (\<lambda>n. n < 10)
     [''POST /a?b%26=%20%2b HT'', ''TP/1.1'' @ [CHR 0x0D], CHR 0x0A # ''Content-Length: 2'' @ crlf, crlf @ ''{'', ''}''] =
   Inr \<lparr>hq_method = ''POST'', hq_path = ''/a'', hq_body = ''{}'', hq_headers = [(''Content-Length'', ''2'')],
     hq_query = [(''b&'', '' +'')]\<rparr>"
proof -
  have "request_ok ''POST'' ''/a'' [(''b&'', '' +'')] [(''Content-Length'', ''2'')] ''{}''"
    by (simp add: request_ok_def token_def c_isspace_def field_ok_def one_line_def trimmed_def shown)
  then show ?thesis
    by (rule http_request_read [rotated 2, where rest = "[]"]) (simp, simp, code_simp)
qed

text \<open>The answer to such a request: the response of the handler of its route, a 500 with the message
  of the exception the handler throws, or a 404 without any effect; the client reads back the
  status, the fields and the body, whose length is the content length.\<close>

theorem http_answer:
  assumes "live cs" "concat cs = request_text m path ps hs body @ rest" "request_ok m path ps hs body"
    and "\<And>n. n \<le> length body \<Longrightarrow> alloc n"
    and "\<And>handler r s'. map_of routes (m @ '' '' @ path) = Some handler \<Longrightarrow>
      handler \<lparr>hq_method = m, hq_path = path, hq_body = body, hq_headers = hs, hq_query = ps\<rparr> s = Some (Inr r, s') \<Longrightarrow> reply_ok r"
  shows "case map_of routes (m @ '' '' @ path) of
      None \<Rightarrow> \<exists>sent. handle_client alloc routes cs s = Some (sent, s) \<and>
        read_reply sent = Some (''HTTP/1.1 404 Not Found'', [length_field ''Route not found''], ''Route not found'')
    | Some handler \<Rightarrow>
        (case handler \<lparr>hq_method = m, hq_path = path, hq_body = body, hq_headers = hs, hq_query = ps\<rparr> s of
           None \<Rightarrow> handle_client alloc routes cs s = None
         | Some (Inl e, s') \<Rightarrow> \<exists>sent. handle_client alloc routes cs s = Some (sent, s') \<and>
             read_reply sent = Some (''HTTP/1.1 500 Internal Server Error'', [length_field e], e)
         | Some (Inr r, s') \<Rightarrow> \<exists>sent. handle_client alloc routes cs s = Some (sent, s') \<and>
             read_reply sent = Some (status_line r, hp_headers r @ [length_field (hp_body r)], hp_body r))"
proof -
  note p = parse_request_text [OF assms(1-4)]
  have ok: "reply_ok not_found" "reply_ok (server_error e)" for e
    by (simp_all add: reply_ok_def not_found_def server_error_def new_response_def one_line_def)
  have st: "status_line not_found = ''HTTP/1.1 404 Not Found''" "status_line (server_error e) = ''HTTP/1.1 500 Internal Server Error''" for e
    by (simp_all add: status_line_def not_found_def server_error_def new_response_def shown)
  have "hp_headers not_found = []" "hp_body not_found = ''Route not found''" "hp_headers (server_error e) = []" "hp_body (server_error e) = e" for e
    by (simp_all add: not_found_def server_error_def new_response_def)
  note errors = read_reply_response [OF ok(1)] read_reply_response [OF ok(2)] st this
  show ?thesis
    using assms(5) by (auto simp: handle_client_def p errors split: option.splits sum.splits intro!: read_reply_response)
qed

theorem http_answer_witness:
  "\<exists>sent. handle_client (\<lambda>n. True) (add_route ''GET'' ''/'' (\<lambda>q n. Some (Inr (new_response 200 ''OK''\<lparr>hp_body := hq_body q\<rparr>), n + 1)) [])
      [''GET / HTTP/1.1'' @ crlf @ ''Content-Length: 2'' @ crlf @ crlf @ ''hi''] (7 :: nat) = Some (sent, 8) \<and>
    read_reply sent = Some (''HTTP/1.1 200 OK'', [length_field ''hi''], ''hi'')"
proof -
  let ?routes = "add_route ''GET'' ''/'' (\<lambda>q n. Some (Inr (new_response 200 ''OK''\<lparr>hp_body := hq_body q\<rparr>), n + (1 :: nat))) []"
  have "request_ok ''GET'' ''/'' [] [(''Content-Length'', ''2'')] ''hi''"
    by (simp add: request_ok_def token_def c_isspace_def field_ok_def one_line_def trimmed_def shown)
  moreover have "\<And>handler r s'. map_of ?routes (''GET'' @ '' '' @ ''/'') = Some handler \<Longrightarrow>
      handler \<lparr>hq_method = ''GET'', hq_path = ''/'', hq_body = ''hi'', hq_headers = [(''Content-Length'', ''2'')], hq_query = []\<rparr> 7 =
        Some (Inr r, s') \<Longrightarrow> reply_ok r"
    by (auto simp: add_route_def reply_ok_def new_response_def one_line_def)
  ultimately show ?thesis
    using http_answer [of "[''GET / HTTP/1.1'' @ crlf @ ''Content-Length: 2'' @ crlf @ crlf @ ''hi'']" "''GET''" "''/''" "[]"
        "[(''Content-Length'', ''2'')]" "''hi''" "[]" "\<lambda>_. True" ?routes 7]
    by (simp add: add_route_def request_text_def request_lines_def target_text_def field_text_def reply_ok_def new_response_def
        status_line_def one_line_def shown)
qed

end
