(* ===== verification/Piece_Manager.thy ===== *)
theory Piece_Manager
  imports Torrent_Metadata
begin

text \<open>
  \<open>src/storage/piece_manager.cpp\<close>: block bookkeeping, piece selection, verification, the
  map from pieces to file ranges and the disk side.  The file system is a partial map from
  paths to contents.  \<open>None\<close> is undefined behaviour of the C++ (an integer division by
  zero, an access outside a buffer); locks are held for a whole operation, so each
  operation is one step.
\<close>

section \<open>State\<close>

record piece_download =
  blocks_requested :: "bool list"
  blocks_received :: "bool list"
  block_data :: "byte list list"
  total_blocks :: nat

definition fresh_download :: piece_download where
  "fresh_download = \<lparr>blocks_requested = [], blocks_received = [], block_data = [], total_blocks = 0\<rparr>"

record file_mapping =
  fm_file :: nat
  fm_offset :: nat
  fm_length :: nat

datatype disk_request = DiskRead nat | DiskWrite nat "byte list"

record piece_manager =
  metadata :: torrent_metadata
  download_dir :: string
  file_priorities :: "nat list"
  have_pieces :: "bool list"
  active_downloads :: "piece_download list"
  piece_file_mappings :: "file_mapping list list"
  disk_queue :: "disk_request list"

type_synonym file_system = "string \<rightharpoonup> byte list"

abbreviation num_pieces :: "torrent_metadata \<Rightarrow> nat" where
  "num_pieces m \<equiv> length (piece_hashes m)"

section \<open>File mappings\<close>

text \<open>
  The inner loop for one file: \<open>rest\<close> bytes of it are left, \<open>cur\<close> and \<open>off\<close> are
  \<open>current_piece\<close> and \<open>piece_offset\<close>.  \<open>off\<close> never exceeds the piece length, so the
  subtraction does not wrap.
\<close>

function map_file :: "nat \<Rightarrow> nat \<Rightarrow> nat \<Rightarrow> nat \<Rightarrow> nat \<Rightarrow> nat \<Rightarrow> nat \<Rightarrow> file_mapping list list \<Rightarrow>
    nat \<times> nat \<times> file_mapping list list" where
  "map_file plen n idx flen rest cur off maps =
     (if 0 < rest \<and> cur < n then
        let bytes = min rest (plen - off);
            maps' = maps[cur := maps ! cur @ [\<lparr>fm_file = idx, fm_offset = flen - rest, fm_length = bytes\<rparr>]];
            rest' = rest - bytes;
            off' = off + bytes
        in if plen \<le> off' then map_file plen n idx flen rest' (cur + 1) 0 maps'
           else map_file plen n idx flen rest' cur off' maps'
      else (cur, off, maps))"
  by pat_completeness auto
termination
  by (relation "measure (\<lambda>(plen, n, idx, flen, rest, cur, off, maps). rest + (n - cur))") auto

declare map_file.simps [simp del]

fun map_files :: "nat \<Rightarrow> nat \<Rightarrow> nat \<Rightarrow> torrent_file list \<Rightarrow> nat \<times> nat \<times> file_mapping list list \<Rightarrow>
    file_mapping list list" where
  "map_files plen n idx [] (cur, off, maps) = maps"
| "map_files plen n idx (f # fs) (cur, off, maps) =
     map_files plen n (idx + 1) fs (map_file plen n idx (tf_length f) (tf_length f) cur off maps)"

definition calculate_file_mappings :: "torrent_metadata \<Rightarrow> file_mapping list list" where
  "calculate_file_mappings m =
     map_files (piece_length m) (num_pieces m) 0 (files m) (0, 0, replicate (num_pieces m) [])"

section \<open>Construction\<close>

definition file_path :: "string \<Rightarrow> torrent_file \<Rightarrow> string" where
  "file_path dir f = dir @ ''/'' @ tf_path f"

text \<open>
  An output stream opened with \<open>std::ios::out\<close> truncates the file; seeking to
  \<open>length - 1\<close> and writing one zero byte makes it a file of zeros.
\<close>

fun create_files :: "(string \<Rightarrow> bool) \<Rightarrow> string \<Rightarrow> torrent_file list \<Rightarrow> file_system \<Rightarrow> file_system res" where
  "create_files can_write dir [] fs = Inr fs"
| "create_files can_write dir (f # rest) fs =
     (let p = file_path dir f in
      if \<not> can_write p then Inl (''Failed to create file: '' @ p)
      else if 2 ^ 63 < tf_length f then Inl (''Failed to write sparse file: '' @ p)
      else create_files can_write dir rest (fs(p \<mapsto> replicate (tf_length f) 0)))"

definition resize_list :: "nat \<Rightarrow> 'a \<Rightarrow> 'a list \<Rightarrow> 'a list" where
  "resize_list n d xs = take n xs @ replicate (n - length xs) d"

definition init_priorities :: "torrent_metadata \<Rightarrow> nat list \<Rightarrow> nat list" where
  "init_priorities m ps =
     (if ps = [] then replicate (length (files m)) 1 else resize_list (length (files m)) 0 ps)"

definition new_manager :: "torrent_metadata \<Rightarrow> string \<Rightarrow> nat list \<Rightarrow> piece_manager" where
  "new_manager m dir ps =
     \<lparr>metadata = m, download_dir = dir, file_priorities = init_priorities m ps,
      have_pieces = replicate (num_pieces m) False,
      active_downloads = replicate (num_pieces m) fresh_download,
      piece_file_mappings = calculate_file_mappings m, disk_queue = []\<rparr>"

definition construct_manager ::
    "(string \<Rightarrow> bool) \<Rightarrow> torrent_metadata \<Rightarrow> string \<Rightarrow> nat list \<Rightarrow> file_system \<Rightarrow>
     (piece_manager \<times> file_system) res" where
  "construct_manager can_write m dir ps fs =
     ebind (create_files can_write dir (files m) fs) (\<lambda>fs'. Inr (new_manager m dir ps, fs'))"

section \<open>Selecting the rarest piece\<close>

definition count_availability :: "nat \<Rightarrow> bool list list \<Rightarrow> nat list" where
  "count_availability n bfs =
     foldl (\<lambda>av b. if length b \<noteq> n then av else map2 (\<lambda>a h. if h then a + 1 else a) av b)
       (replicate n 0) bfs"

definition piece_priorities :: "piece_manager \<Rightarrow> nat list" where
  "piece_priorities pm =
     map (\<lambda>ms. foldl (\<lambda>p m. max p (file_priorities pm ! fm_file m)) 0 ms) (piece_file_mappings pm)"

definition fully_requested :: "piece_download \<Rightarrow> bool" where
  "fully_requested d \<longleftrightarrow> blocks_requested d \<noteq> [] \<and> list_all id (blocks_requested d)"

definition is_candidate :: "piece_manager \<Rightarrow> nat list \<Rightarrow> bool list option \<Rightarrow> nat \<Rightarrow> bool" where
  "is_candidate pm av fmask i \<longleftrightarrow>
     \<not> have_pieces pm ! i \<and> 0 < av ! i \<and>
     (case fmask of None \<Rightarrow> True | Some f \<Rightarrow> i < length f \<and> f ! i) \<and>
     \<not> (i < length (active_downloads pm) \<and> fully_requested (active_downloads pm ! i))"

definition rarest_step ::
    "piece_manager \<Rightarrow> nat list \<Rightarrow> nat list \<Rightarrow> bool list option \<Rightarrow> nat \<times> nat \<times> nat \<Rightarrow> nat \<Rightarrow> nat \<times> nat \<times> nat" where
  "rarest_step pm av prio fmask st i =
     (case st of (best, min_av, max_prio) \<Rightarrow>
        if is_candidate pm av fmask i \<and>
           (av ! i < min_av \<or> av ! i = min_av \<and> max_prio < prio ! i)
        then (i, av ! i, prio ! i) else st)"

definition select_rarest_piece :: "piece_manager \<Rightarrow> bool list list \<Rightarrow> bool list option \<Rightarrow> nat" where
  "select_rarest_piece pm bfs fmask =
     (let av = count_availability (num_pieces (metadata pm)) bfs
      in fst (foldl (rarest_step pm av (piece_priorities pm) fmask) (size_max, size_max, 0) [0..<length av]))"

section \<open>Blocks\<close>

definition piece_size_of :: "torrent_metadata \<Rightarrow> nat \<Rightarrow> nat option" where
  "piece_size_of m i =
     (if i = u64_sub (num_pieces m) 1
      then (if piece_length m = 0 then None
            else Some (let r = total_length m mod piece_length m in if r = 0 then piece_length m else r))
      else Some (piece_length m))"

definition init_download :: "nat \<Rightarrow> nat \<Rightarrow> piece_download \<Rightarrow> piece_download" where
  "init_download psize bsize d =
     (let n = u64_sub (u64_add psize bsize) 1 div bsize
      in d\<lparr>total_blocks := n, blocks_requested := resize_list n False (blocks_requested d),
           blocks_received := resize_list n False (blocks_received d),
           block_data := resize_list n [] (block_data d)\<rparr>)"

definition request_block :: "piece_manager \<Rightarrow> nat \<Rightarrow> nat \<Rightarrow> nat \<Rightarrow> (bool \<times> piece_manager) option" where
  "request_block pm i b bsize =
     (if length (active_downloads pm) \<le> i then Some (False, pm)
      else let d = active_downloads pm ! i in
        case (if blocks_received d = []
              then (case piece_size_of (metadata pm) i of
                      None \<Rightarrow> None
                    | Some ps \<Rightarrow> if bsize = 0 then None else Some (init_download ps bsize d))
              else Some d) of
          None \<Rightarrow> None
        | Some d' \<Rightarrow>
            (let pm' = pm\<lparr>active_downloads := (active_downloads pm)[i := d']\<rparr> in
             if length (blocks_requested d') \<le> b then Some (False, pm')
             else if blocks_requested d' ! b then Some (False, pm')
             else Some (True, pm\<lparr>active_downloads := (active_downloads pm)
                    [i := d'\<lparr>blocks_requested := (blocks_requested d')[b := True]\<rparr>]\<rparr>)))"

definition receive_block :: "piece_manager \<Rightarrow> nat \<Rightarrow> nat \<Rightarrow> byte list \<Rightarrow> bool \<times> piece_manager" where
  "receive_block pm i begin data =
     (if length (active_downloads pm) \<le> i then (False, pm)
      else let d = active_downloads pm ! i; b = begin div 16384 in
        if blocks_received d = [] then (False, pm)
        else if length (blocks_received d) \<le> b then (False, pm)
        else if blocks_received d ! b then (False, pm)
        else (True, pm\<lparr>active_downloads := (active_downloads pm)
               [i := d\<lparr>blocks_received := (blocks_received d)[b := True],
                       block_data := (block_data d)[b := data]\<rparr>]\<rparr>))"

definition is_piece_complete :: "piece_manager \<Rightarrow> nat \<Rightarrow> bool" where
  "is_piece_complete pm i \<longleftrightarrow>
     i < length (active_downloads pm) \<and>
     (let d = active_downloads pm ! i in blocks_received d \<noteq> [] \<and> list_all id (blocks_received d))"

definition is_piece_fully_requested :: "piece_manager \<Rightarrow> nat \<Rightarrow> bool" where
  "is_piece_fully_requested pm i \<longleftrightarrow>
     i < length (active_downloads pm) \<and>
     (have_pieces pm ! i \<or> fully_requested (active_downloads pm ! i))"

definition verify_piece :: "piece_manager \<Rightarrow> nat \<Rightarrow> bool \<times> piece_manager" where
  "verify_piece pm i =
     (if \<not> is_piece_complete pm i then (False, pm)
      else let data = concat (block_data (active_downloads pm ! i)) in
        if sha1_hash data = piece_hashes (metadata pm) ! i
        then (True, pm\<lparr>have_pieces := (have_pieces pm)[i := True],
                       disk_queue := disk_queue pm @ [DiskWrite i data]\<rparr>)
        else (False, pm\<lparr>active_downloads := (active_downloads pm)[i := fresh_download]\<rparr>))"

section \<open>Files\<close>

text \<open>
  Reading one mapping into the piece buffer and writing one mapping from the data: the
  outer option is undefined behaviour (the buffer is too small), the inner one is a
  failure the code reports.
\<close>

fun read_mappings :: "(nat \<Rightarrow> byte list option) \<Rightarrow> file_mapping list \<Rightarrow> nat \<Rightarrow> byte list \<Rightarrow> byte list option option" where
  "read_mappings open_file [] offset buf = Some (Some buf)"
| "read_mappings open_file (m # ms) offset buf =
     (case open_file (fm_file m) of
        None \<Rightarrow> Some None
      | Some c \<Rightarrow>
          (let got = take (fm_length m) (drop (fm_offset m) c) in
           if length buf < offset + length got then None
           else if length got \<noteq> fm_length m then Some None
           else read_mappings open_file ms (offset + fm_length m) (put_bytes buf offset got)))"

definition open_in :: "piece_manager \<Rightarrow> file_system \<Rightarrow> nat \<Rightarrow> byte list option" where
  "open_in pm fs k = fs (file_path (download_dir pm) (files (metadata pm) ! k))"

definition read_piece :: "piece_manager \<Rightarrow> file_system \<Rightarrow> nat \<Rightarrow> byte list option" where
  "read_piece pm fs i =
     (if length (have_pieces pm) \<le> i \<or> \<not> have_pieces pm ! i then Some []
      else case piece_size_of (metadata pm) i of
        None \<Rightarrow> None
      | Some n \<Rightarrow>
          (case read_mappings (open_in pm fs) (piece_file_mappings pm ! i) 0 (replicate n 0) of
             None \<Rightarrow> None
           | Some None \<Rightarrow> Some []
           | Some (Some buf) \<Rightarrow> Some buf))"

definition write_at :: "byte list \<Rightarrow> nat \<Rightarrow> byte list \<Rightarrow> byte list" where
  "write_at c off bs = take off (c @ replicate (off - length c) 0) @ bs @ drop (off + length bs) c"

fun write_mappings :: "(nat \<Rightarrow> string) \<Rightarrow> file_mapping list \<Rightarrow> nat \<Rightarrow> byte list \<Rightarrow> file_system \<Rightarrow>
    (bool \<times> file_system) option" where
  "write_mappings path [] offset data fs = Some (True, fs)"
| "write_mappings path (m # ms) offset data fs =
     (case fs (path (fm_file m)) of
        None \<Rightarrow> Some (False, fs)
      | Some c \<Rightarrow>
          if length data < offset + fm_length m then None
          else write_mappings path ms (offset + fm_length m) data
                 (fs(path (fm_file m) \<mapsto> write_at c (fm_offset m) (take (fm_length m) (drop offset data)))))"

definition path_of :: "piece_manager \<Rightarrow> nat \<Rightarrow> string" where
  "path_of pm k = file_path (download_dir pm) (files (metadata pm) ! k)"

definition write_piece :: "piece_manager \<Rightarrow> file_system \<Rightarrow> nat \<Rightarrow> byte list \<Rightarrow> (bool \<times> file_system) option" where
  "write_piece pm fs i data = write_mappings (path_of pm) (piece_file_mappings pm ! i) 0 data fs"

text \<open>One round of \<open>disk_worker\<close> with a non-empty queue.\<close>

definition disk_step :: "piece_manager \<Rightarrow> file_system \<Rightarrow> (piece_manager \<times> file_system) option" where
  "disk_step pm fs =
     (case disk_queue pm of
        [] \<Rightarrow> Some (pm, fs)
      | r # q \<Rightarrow>
          (let pm' = pm\<lparr>disk_queue := q\<rparr> in
           case r of
             DiskRead i \<Rightarrow> map_option (\<lambda>_. (pm', fs)) (read_piece pm' fs i)
           | DiskWrite i data \<Rightarrow> map_option (\<lambda>(_, fs'). (pm', fs')) (write_piece pm' fs i data)))"

section \<open>Statistics and saved state\<close>

definition get_completed_pieces :: "piece_manager \<Rightarrow> nat" where
  "get_completed_pieces pm = length (filter id (have_pieces pm))"

definition counted_piece_size :: "piece_manager \<Rightarrow> nat \<Rightarrow> nat" where
  "counted_piece_size pm i =
     (let n = length (have_pieces pm); m = metadata pm in
      if i = u64_sub n 1 then u64_sub (total_length m) (u64_mul (u64_sub n 1) (piece_length m))
      else piece_length m)"

definition get_total_downloaded_bytes :: "piece_manager \<Rightarrow> nat" where
  "get_total_downloaded_bytes pm =
     (let t = foldl (\<lambda>t i. if have_pieces pm ! i then u64_add t (counted_piece_size pm i) else t)
                0 [0..<length (have_pieces pm)]
      in foldl (\<lambda>t d. foldl (\<lambda>t b. u64_add t (length b)) t (block_data d)) t (active_downloads pm))"

text \<open>\<open>get_completion_percentage() >= 100.0\<close>, on exact numbers.\<close>

definition completion_reached :: "piece_manager \<Rightarrow> bool" where
  "completion_reached pm \<longleftrightarrow>
     total_length (metadata pm) \<noteq> 0 \<and> total_length (metadata pm) \<le> get_total_downloaded_bytes pm"

definition get_bitfield :: "piece_manager \<Rightarrow> bool list" where
  "get_bitfield pm = have_pieces pm"

definition load_state :: "piece_manager \<Rightarrow> bool list \<Rightarrow> piece_manager" where
  "load_state pm bf = (if length bf = length (have_pieces pm) then pm\<lparr>have_pieces := bf\<rparr> else pm)"

fun find_range :: "torrent_file list \<Rightarrow> nat \<Rightarrow> nat \<Rightarrow> nat \<times> nat" where
  "find_range [] i g = (size_max, 0)"
| "find_range (f # fs) i g =
     (let st = (case tf_offset f of None \<Rightarrow> 0 | Some o' \<Rightarrow> o') in
      if st \<le> g \<and> g < u64_add st (tf_length f) then (i, g - st) else find_range fs (i + 1) g)"

definition get_file_range :: "piece_manager \<Rightarrow> nat \<Rightarrow> nat \<Rightarrow> nat \<times> nat" where
  "get_file_range pm i off =
     find_range (files (metadata pm)) 0 (u64_add (u64_mul i (piece_length (metadata pm))) off)"

end
