(* ===== verification/Piece_Storage.thy ===== *)
theory Piece_Storage
  imports Piece_Manager
begin

text \<open>
  The disk side of \<open>src/storage/piece_manager.cpp\<close>: the torrent's content is the
  concatenation of its files, the file mappings of a piece cover exactly its slice of it,
  \<open>read_piece\<close> returns the slice and \<open>write_piece\<close> overwrites it.  The last section is the
  step relation of the piece manager with the disk worker and what every reachable state
  keeps.
\<close>

section \<open>Mappings cover the content\<close>

definition file_start :: "torrent_file list \<Rightarrow> nat \<Rightarrow> nat" where
  "file_start fs k = exact_sum (take k fs)"

fun covers :: "torrent_file list \<Rightarrow> nat \<Rightarrow> file_mapping list \<Rightarrow> nat \<Rightarrow> bool" where
  "covers fs a [] b \<longleftrightarrow> a = b"
| "covers fs a (m # ms) b \<longleftrightarrow>
     0 < fm_length m \<and> fm_file m < length fs \<and>
     fm_offset m + fm_length m \<le> tf_length (fs ! fm_file m) \<and>
     file_start fs (fm_file m) + fm_offset m = a \<and> covers fs (a + fm_length m) ms b"

lemma covers_snoc:
  "covers fs a ms b \<Longrightarrow> 0 < fm_length m \<Longrightarrow> fm_file m < length fs \<Longrightarrow>
   fm_offset m + fm_length m \<le> tf_length (fs ! fm_file m) \<Longrightarrow>
   file_start fs (fm_file m) + fm_offset m = b \<Longrightarrow> covers fs a (ms @ [m]) (b + fm_length m)"
  by (induction ms arbitrary: a) auto

lemma covers_le: "covers fs a ms b \<Longrightarrow> a \<le> b"
  by (induction ms arbitrary: a) fastforce+

lemma file_start_0 [simp]: "file_start fs 0 = 0"
  by (simp add: file_start_def)

lemma file_start_Suc: "k < length fs \<Longrightarrow> file_start fs (Suc k) = file_start fs k + tf_length (fs ! k)"
  by (simp add: file_start_def take_Suc_conv_app_nth)

lemma file_start_all: "length fs \<le> k \<Longrightarrow> file_start fs k = exact_sum fs"
  by (simp add: file_start_def)

definition filling :: "torrent_file list \<Rightarrow> nat \<Rightarrow> nat \<Rightarrow> nat \<times> nat \<times> file_mapping list list \<Rightarrow> nat \<Rightarrow> bool" where
  "filling fs plen n st pos \<longleftrightarrow>
     (case st of (cur, off, maps) \<Rightarrow>
        length maps = n \<and> cur \<le> n \<and> off < plen \<and>
        (cur < n \<longrightarrow> pos = cur * plen + off) \<and> (cur = n \<longrightarrow> n * plen \<le> pos) \<and>
        (\<forall>j < n. covers fs (min (j * plen) pos) (maps ! j) (min ((j + 1) * plen) pos)))"

lemma filling_advance:
  assumes "filling fs plen n (n, off, maps) pos" "pos \<le> pos'"
  shows "filling fs plen n (n, off, maps) pos'"
proof -
  have "min (j * plen) pos' = min (j * plen) pos \<and> min ((j + 1) * plen) pos' = min ((j + 1) * plen) pos"
    if "j < n" for j
  proof -
    have "(j + 1) * plen \<le> n * plen" using that by (intro mult_right_mono) auto
    then show ?thesis using assms by (auto simp: filling_def min_def)
  qed
  with assms show ?thesis by (auto simp: filling_def)
qed

lemma filling_step:
  assumes fil: "filling fs plen n (cur, off, maps) pos" and cur: "cur < n" and idx: "idx < length fs"
    and m: "fm_offset m + fm_length m \<le> tf_length (fs ! idx)" "fm_file m = idx"
      "file_start fs idx + fm_offset m = pos"
    and len: "0 < fm_length m" "fm_length m \<le> plen - off"
  defines "maps' \<equiv> maps[cur := maps ! cur @ [m]]" and "off' \<equiv> off + fm_length m"
    and "pos' \<equiv> pos + fm_length m"
  shows "plen \<le> off' \<Longrightarrow> filling fs plen n (cur + 1, 0, maps') pos'"
    and "off' < plen \<Longrightarrow> filling fs plen n (cur, off', maps') pos'"
proof -
  from fil cur have f: "length maps = n" "off < plen" "pos = cur * plen + off"
    and c: "\<And>j. j < n \<Longrightarrow> covers fs (min (j * plen) pos) (maps ! j) (min ((j + 1) * plen) pos)"
    by (auto simp: filling_def)
  have cov: "covers fs (min (j * plen) pos') (maps' ! j) (min ((j + 1) * plen) pos')" if j: "j < n" for j
  proof -
    consider "j < cur" | "j = cur" | "cur < j" by linarith
    then show ?thesis
    proof cases
      case 1
      then have "(j + 1) * plen \<le> cur * plen" by (intro mult_right_mono) auto
      then have "min (j * plen) pos' = min (j * plen) pos" "min ((j + 1) * plen) pos' = min ((j + 1) * plen) pos"
        using f by (auto simp: pos'_def min_def)
      then show ?thesis using c [OF j] 1 by (simp add: maps'_def)
    next
      case 2
      have "covers fs (cur * plen) (maps ! cur) pos" using c [OF cur] f by (auto simp: min_def)
      from covers_snoc [OF this len(1)] m idx
      have "covers fs (cur * plen) (maps ! cur @ [m]) pos'" by (simp add: pos'_def)
      moreover have "pos' \<le> (cur + 1) * plen" "cur * plen \<le> pos'" using f len by (simp_all add: pos'_def)
      then have "min (cur * plen) pos' = cur * plen" "min ((cur + 1) * plen) pos' = pos'" by simp_all
      ultimately show ?thesis using 2 f cur by (simp add: maps'_def)
    next
      case 3
      then have "(cur + 1) * plen \<le> j * plen" by (intro mult_right_mono) auto
      then have "pos' \<le> j * plen" "pos \<le> j * plen" using f len by (auto simp: pos'_def)
      then have "min (j * plen) pos' = pos'" "min ((j + 1) * plen) pos' = pos'"
        "min (j * plen) pos = pos" "min ((j + 1) * plen) pos = pos" by auto
      then show ?thesis using c [OF j] 3 by (cases "maps ! j") (auto simp: maps'_def dest!: covers_le)
    qed
  qed
  show "filling fs plen n (cur + 1, 0, maps') pos'" if "plen \<le> off'"
  proof -
    have p: "pos' = (cur + 1) * plen" using that f len by (simp add: off'_def pos'_def)
    then have "cur + 1 < n \<Longrightarrow> pos' = (cur + 1) * plen + 0" "cur + 1 = n \<Longrightarrow> n * plen \<le> pos'" by auto
    then show ?thesis using cov f cur by (auto simp: filling_def maps'_def)
  qed
  show "off' < plen \<Longrightarrow> filling fs plen n (cur, off', maps') pos'"
    using cov f cur by (auto simp: filling_def off'_def pos'_def maps'_def)
qed

lemma map_file_go:
  assumes "0 < rest \<and> cur < n" "b = min rest (plen - off)"
    "maps' = maps[cur := maps ! cur @ [\<lparr>fm_file = idx, fm_offset = flen - rest, fm_length = b\<rparr>]]"
  shows "map_file plen n idx flen rest cur off maps =
    (if plen \<le> off + b then map_file plen n idx flen (rest - b) (cur + 1) 0 maps'
     else map_file plen n idx flen (rest - b) cur (off + b) maps')"
  using assms(1) unfolding assms(2,3) by (subst map_file.simps) (simp only: Let_def if_True simp_thms)

lemma map_file_filling:
  assumes "0 < plen" "idx < length fs" "flen = tf_length (fs ! idx)" "rest \<le> flen"
    "filling fs plen n (cur, off, maps) (file_start fs idx + (flen - rest))"
  shows "filling fs plen n (map_file plen n idx flen rest cur off maps) (file_start fs idx + flen)"
  using assms
proof (induction plen n idx flen rest cur off maps rule: map_file.induct)
  case (1 plen n idx flen rest cur off maps)
  show ?case
  proof (cases "0 < rest \<and> cur < n")
    case False
    have "cur \<le> n" using 1(7) by (simp add: filling_def)
    with False consider "rest = 0" | "cur = n" by linarith
    then have "filling fs plen n (cur, off, maps) (file_start fs idx + flen)"
    proof cases
      case 2
      then show ?thesis using 1(7) filling_advance by simp
    qed (use 1(7) in simp)
    with False show ?thesis by (subst map_file.simps) (simp only: if_False)
  next
    case True
    let ?b = "min rest (plen - off)"
    let ?m = "\<lparr>fm_file = idx, fm_offset = flen - rest, fm_length = ?b\<rparr>"
    have pos: "file_start fs idx + (flen - rest) + ?b = file_start fs idx + (flen - (rest - ?b))"
      using 1(6) by simp
    note st = filling_step [OF 1(7) _ 1(4), of ?m, unfolded file_mapping.simps pos]
    have m: "flen - rest + ?b \<le> tf_length (fs ! idx)" "0 < ?b"
      using 1(5,6,7) True by (auto simp: filling_def)
    show ?thesis
    proof (cases "plen \<le> off + ?b")
      case wrap: True
      have "filling fs plen n (cur + 1, 0, maps[cur := maps ! cur @ [?m]]) (file_start fs idx + (flen - (rest - ?b)))"
        using st(1) True wrap m by simp
      from 1(1) [OF True refl refl refl refl wrap 1(3,4,5) _ this] 1(6)
      have "filling fs plen n (map_file plen n idx flen (rest - ?b) (cur + 1) 0 (maps[cur := maps ! cur @ [?m]])) (file_start fs idx + flen)"
        by simp
      then show ?thesis using wrap by (simp only: map_file_go [OF True refl refl] if_True)
    next
      case stay: False
      have "filling fs plen n (cur, off + ?b, maps[cur := maps ! cur @ [?m]]) (file_start fs idx + (flen - (rest - ?b)))"
        using st(2) True stay m by simp
      from 1(2) [OF True refl refl refl refl stay 1(3,4,5) _ this] 1(6)
      have "filling fs plen n (map_file plen n idx flen (rest - ?b) cur (off + ?b) (maps[cur := maps ! cur @ [?m]])) (file_start fs idx + flen)"
        by simp
      then show ?thesis using stay by (simp only: map_file_go [OF True refl refl] if_False)
    qed
  qed
qed

lemma map_files_covers:
  assumes "0 < plen" "filling fs plen n st (file_start fs idx)" "rest = drop idx fs" "j < n"
  shows "length (map_files plen n idx rest st) = n \<and>
    covers fs (min (j * plen) (exact_sum fs)) (map_files plen n idx rest st ! j) (min ((j + 1) * plen) (exact_sum fs))"
  using assms
proof (induction plen n idx rest st rule: map_files.induct)
  case (1 plen n idx cur off maps)
  then have "file_start fs idx = exact_sum fs" by (intro file_start_all) simp
  with 1 show ?case by (simp add: filling_def)
next
  case (2 plen n idx f rest cur off maps)
  from 2(4) have f: "idx < length fs" "f = fs ! idx" "rest = drop (Suc idx) fs"
    by (metis drop_eq_Nil list.distinct(1) not_le)
      (metis 2(4) Cons_nth_drop_Suc drop_eq_Nil list.distinct(1) list.inject not_le)+
  have "filling fs plen n (map_file plen n idx (tf_length f) (tf_length f) cur off maps) (file_start fs (idx + 1))"
    using map_file_filling [OF 2(2) f(1), of "tf_length f" "tf_length f" n cur off maps] 2(3) f
    by (simp add: file_start_Suc)
  from 2(1) [OF 2(2) this _ 2(5)] f show ?case by simp
qed

lemma mappings_cover:
  assumes "0 < piece_length m" "j < num_pieces m"
  shows "length (calculate_file_mappings m) = num_pieces m"
    and "covers (files m) (min (j * piece_length m) (exact_sum (files m))) (calculate_file_mappings m ! j)
      (min ((j + 1) * piece_length m) (exact_sum (files m)))"
proof -
  have "filling (files m) (piece_length m) (num_pieces m) (0, 0, replicate (num_pieces m) []) (file_start (files m) 0)"
    using assms by (auto simp: filling_def)
  from map_files_covers [OF assms(1) this _ assms(2)] 
  show "length (calculate_file_mappings m) = num_pieces m"
    and "covers (files m) (min (j * piece_length m) (exact_sum (files m))) (calculate_file_mappings m ! j)
      (min ((j + 1) * piece_length m) (exact_sum (files m)))"
    by (simp_all add: calculate_file_mappings_def)
qed

section \<open>The content on disk\<close>

definition stored :: "(nat \<Rightarrow> string) \<Rightarrow> torrent_file list \<Rightarrow> file_system \<Rightarrow> bool" where
  "stored path fl fs \<longleftrightarrow> (\<forall>k < length fl. \<exists>c. fs (path k) = Some c \<and> length c = tf_length (fl ! k))"

definition parts :: "(nat \<Rightarrow> string) \<Rightarrow> torrent_file list \<Rightarrow> file_system \<Rightarrow> byte list list" where
  "parts path fl fs = map (\<lambda>k. the (fs (path k))) [0..<length fl]"

abbreviation content :: "(nat \<Rightarrow> string) \<Rightarrow> torrent_file list \<Rightarrow> file_system \<Rightarrow> byte list" where
  "content path fl fs \<equiv> concat (parts path fl fs)"

lemma parts_facts:
  assumes "stored path fl fs" "k < length fl"
  shows "fs (path k) = Some (parts path fl fs ! k)" "length (parts path fl fs ! k) = tf_length (fl ! k)"
    "length (parts path fl fs) = length fl"
  using assms by (auto simp: stored_def parts_def)

lemma length_parts_take:
  assumes "stored path fl fs"
  shows "length (concat (take k (parts path fl fs))) = file_start fl k"
proof -
  have "map length (take k (parts path fl fs)) = map tf_length (take k fl)"
    using parts_facts [OF assms] by (intro nth_equalityI) (auto simp: parts_def)
  then show ?thesis by (simp add: length_concat file_start_def)
qed

lemma length_content: "stored path fl fs \<Longrightarrow> length (content path fl fs) = exact_sum fl"
  using length_parts_take [of path fl fs "length fl"] by (simp add: parts_def file_start_all)

lemma covers_bound: "covers fl a ms b \<Longrightarrow> ms \<noteq> [] \<Longrightarrow> b \<le> exact_sum fl"
proof (induction ms arbitrary: a)
  case (Cons m ms)
  show ?case
  proof (cases ms)
    case Nil
    have "file_start fl (Suc (fm_file m)) \<le> exact_sum fl"
      unfolding file_start_def
      by (metis append_take_drop_id le_add1 map_append sum_list_append)
    with Cons.prems Nil show ?thesis by (auto simp: file_start_Suc)
  qed (use Cons in auto)
qed simp

lemma read_mappings_covers:
  assumes "stored path fl fs" "covers fl a ms b" "off + (b - a) \<le> length buf"
  shows "read_mappings (\<lambda>k. fs (path k)) ms off buf =
    Some (Some (put_bytes buf off (take (b - a) (drop a (content path fl fs)))))"
  using assms(2,3)
proof (induction ms arbitrary: a off buf)
  case (Cons m ms)
  let ?k = "fm_file m" and ?C = "content path fl fs"
  let ?n = "fm_length m"
  from Cons.prems have k: "?k < length fl" "fm_offset m + ?n \<le> tf_length (fl ! ?k)"
    and a: "a = file_start fl ?k + fm_offset m" and cov: "covers fl (a + ?n) ms b" by auto
  note pf = parts_facts [OF assms(1) k(1)]
  have got: "take ?n (drop (fm_offset m) (parts path fl fs ! ?k)) = take ?n (drop a ?C)"
    using concat_slice [of ?k "parts path fl fs" "fm_offset m" ?n] k pf length_parts_take [OF assms(1)]
    by (simp add: a)
  have len: "length (take ?n (drop a ?C)) = ?n"
    unfolding got [symmetric] using k pf by simp
  have ab: "b - a = ?n + (b - (a + ?n))" using covers_le [OF cov] by simp
  have IH: "read_mappings (\<lambda>k. fs (path k)) ms (off + ?n) (put_bytes buf off (take ?n (drop a ?C))) =
      Some (Some (put_bytes (put_bytes buf off (take ?n (drop a ?C))) (off + ?n) (take (b - (a + ?n)) (drop (a + ?n) ?C))))"
    using Cons.prems(2) ab len by (intro Cons.IH [OF cov]) auto
  also have "put_bytes (put_bytes buf off (take ?n (drop a ?C))) (off + ?n) (take (b - (a + ?n)) (drop (a + ?n) ?C)) =
      put_bytes buf off (take (b - a) (drop a ?C))"
    using Cons.prems(2) ab len slice_append [of ?n a ?C "b - (a + ?n)"]
      put_bytes_put_bytes [of off "take ?n (drop a ?C)" "take (b - (a + ?n)) (drop (a + ?n) ?C)" buf]
    by (auto simp: add.commute)
  finally show ?case using Cons.prems(2) ab pf len got by simp
qed simp

lemma write_at_put: "off + length bs \<le> length c \<Longrightarrow> write_at c off bs = put_bytes c off bs"
  by (simp add: write_at_def put_bytes_def)

lemma write_mappings_covers:
  assumes "inj_on path {..<length fl}" "stored path fl fs" "covers fl a ms b" "off + (b - a) \<le> length data"
  shows "\<exists>fs'. write_mappings path ms off data fs = Some (True, fs') \<and> stored path fl fs' \<and>
    content path fl fs' = put_bytes (content path fl fs) a (take (b - a) (drop off data))"
  using assms(2,3,4)
proof (induction ms arbitrary: a off fs)
  case (Cons m ms)
  let ?k = "fm_file m" and ?n = "fm_length m"
  let ?d = "take ?n (drop off data)"
  from Cons.prems have k: "?k < length fl" "fm_offset m + ?n \<le> tf_length (fl ! ?k)"
    and a: "a = file_start fl ?k + fm_offset m" and cov: "covers fl (a + ?n) ms b" by auto
  note pf = parts_facts [OF Cons.prems(1) k(1)]
  have ab: "b - a = ?n + (b - (a + ?n))" using covers_le [OF cov] by simp
  then have ld: "length ?d = ?n" using Cons.prems(3) by simp
  let ?c = "put_bytes (parts path fl fs ! ?k) (fm_offset m) ?d"
  let ?fs = "fs(path ?k \<mapsto> ?c)"
  have upd: "parts path fl ?fs = (parts path fl fs)[?k := ?c]"
    using k(1) inj_onD [OF assms(1)]
    by (intro nth_equalityI) (auto simp: parts_def nth_list_update)
  have st: "stored path fl ?fs"
    using Cons.prems(1) k pf ld by (auto simp: stored_def dest: inj_onD [OF assms(1)])
  have C: "content path fl ?fs = put_bytes (content path fl fs) a ?d"
    using concat_update_slice [of ?k "parts path fl fs" "fm_offset m" ?d] k pf ld
      length_parts_take [OF Cons.prems(1)] by (simp add: upd a)
  have bound: "a + ?n + (b - (a + ?n)) \<le> length (content path fl fs)"
    using covers_bound [OF Cons.prems(2)] covers_le [OF cov] length_content [OF Cons.prems(1)] by simp
  have "off + ?n + (b - (a + ?n)) \<le> length data" using Cons.prems(3) ab by simp
  from Cons.IH [OF st cov this] obtain fs' where
    w: "write_mappings path ms (off + ?n) data ?fs = Some (True, fs')" "stored path fl fs'"
    and C': "content path fl fs' = put_bytes (content path fl ?fs) (a + ?n) (take (b - (a + ?n)) (drop (off + ?n) data))"
    by blast
  have "content path fl fs' = put_bytes (content path fl fs) a (?d @ take (b - (a + ?n)) (drop (off + ?n) data))"
    using put_bytes_put_bytes [of a ?d "take (b - (a + ?n)) (drop (off + ?n) data)" "content path fl fs"]
      bound ld by (simp add: C' C)
  moreover have "?d @ take (b - (a + ?n)) (drop (off + ?n) data) = take (b - a) (drop off data)"
    using slice_append [of ?n off data "b - (a + ?n)"] ab by simp
  moreover have "write_mappings path (m # ms) off data fs = Some (True, fs')"
    using w(1) pf k ab Cons.prems(3) ld by (simp add: write_at_put)
  ultimately show ?case using w(2) by auto
qed simp

section \<open>Pieces of the content\<close>

text \<open>A metadata record whose piece count and file table agree, within 64 bits.\<close>

definition metadata_ok :: "torrent_metadata \<Rightarrow> bool" where
  "metadata_ok m \<longleftrightarrow>
     0 < piece_length m \<and> piece_length m + 16384 < 2 ^ 64 \<and>
     total_length m = exact_sum (files m) \<and> total_length m < 2 ^ 64 \<and>
     (piece_hashes m \<noteq> [] \<longrightarrow> (num_pieces m - 1) * piece_length m < total_length m) \<and>
     total_length m \<le> num_pieces m * piece_length m"

definition piece_len :: "torrent_metadata \<Rightarrow> nat \<Rightarrow> nat" where
  "piece_len m i = min ((i + 1) * piece_length m) (total_length m) - i * piece_length m"

lemma metadata_ok_count: "metadata_ok m \<Longrightarrow> num_pieces m < 2 ^ 64"
proof (cases "piece_hashes m = []")
  case False
  assume m: "metadata_ok m"
  have "(num_pieces m - 1) * 1 \<le> (num_pieces m - 1) * piece_length m"
    using m by (intro mult_left_mono) (auto simp: metadata_ok_def)
  moreover have "(num_pieces m - 1) * piece_length m < total_length m" "total_length m < 2 ^ 64"
    using m False by (simp_all add: metadata_ok_def)
  ultimately have "num_pieces m - 1 < 2 ^ 64 - 1" by linarith
  then show ?thesis by linarith
qed simp

lemma piece_bounds:
  assumes "metadata_ok m" "i < num_pieces m"
  shows "i * piece_length m < total_length m" "0 < piece_len m i" "piece_len m i \<le> piece_length m"
    "i * piece_length m + piece_len m i = min ((i + 1) * piece_length m) (total_length m)"
    "i < num_pieces m - 1 \<Longrightarrow> piece_len m i = piece_length m"
proof -
  have "i * piece_length m \<le> (num_pieces m - 1) * piece_length m"
    using assms(2) by (intro mult_right_mono) auto
  moreover have "piece_hashes m \<noteq> []" using assms(2) by auto
  ultimately show lt: "i * piece_length m < total_length m"
    using assms(1) unfolding metadata_ok_def by linarith
  with assms show "0 < piece_len m i" "piece_len m i \<le> piece_length m"
    "i * piece_length m + piece_len m i = min ((i + 1) * piece_length m) (total_length m)"
    by (auto simp: piece_len_def metadata_ok_def)
  assume "i < num_pieces m - 1"
  then have "(i + 1) * piece_length m \<le> (num_pieces m - 1) * piece_length m"
    by (intro mult_right_mono) auto
  then have "(i + 1) * piece_length m \<le> total_length m" using assms by (auto simp: metadata_ok_def)
  then show "piece_len m i = piece_length m" by (simp add: piece_len_def)
qed

lemma piece_size_of_len:
  assumes "metadata_ok m" "i < num_pieces m"
  shows "piece_size_of m i = Some (piece_len m i)"
proof (cases "i = num_pieces m - 1")
  case True
  let ?t = "total_length m" and ?p = "piece_length m"
  have u: "u64_sub (num_pieces m) 1 = i"
    using True assms metadata_ok_count [OF assms(1)] by (simp add: u64_sub_id)
  have t: "i * ?p < ?t" "?t \<le> (i + 1) * ?p" "0 < ?p"
    using True assms piece_bounds(1) [OF assms] unfolding metadata_ok_def
    by (linarith, metis Suc_eq_plus1 Suc_pred' gr_implies_not0 not_gr0, linarith)
  have "?t mod ?p = (?t - i * ?p) mod ?p"
    using t by (metis less_imp_le_nat mod_mult_self1 le_add_diff_inverse2)
  also have "\<dots> = (if ?t = (i + 1) * ?p then 0 else ?t - i * ?p)" using t by auto
  finally show ?thesis using t u by (auto simp: piece_size_of_def piece_len_def Let_def)
next
  case False
  have u: "u64_sub (num_pieces m) 1 = num_pieces m - 1"
    using assms metadata_ok_count [OF assms(1)] by (simp add: u64_sub_id)
  with False assms piece_bounds(5) [OF assms] show ?thesis
    by (auto simp: piece_size_of_def)
qed

definition download_ok :: "torrent_metadata \<Rightarrow> nat \<Rightarrow> piece_download \<Rightarrow> bool" where
  "download_ok m i d \<longleftrightarrow>
     length (blocks_requested d) = total_blocks d \<and> length (blocks_received d) = total_blocks d \<and>
     length (block_data d) = total_blocks d \<and>
     (total_blocks d = 0 \<or> total_blocks d = (piece_len m i + 16383) div 16384) \<and>
     (\<forall>b < total_blocks d. \<not> blocks_received d ! b \<longrightarrow> block_data d ! b = [])"

definition pm_ok :: "piece_manager \<Rightarrow> bool" where
  "pm_ok pm \<longleftrightarrow>
     (let m = metadata pm in
      metadata_ok m \<and> piece_file_mappings pm = calculate_file_mappings m \<and>
      length (have_pieces pm) = num_pieces m \<and> length (active_downloads pm) = num_pieces m \<and>
      length (file_priorities pm) = length (files m) \<and>
      (\<forall>i < num_pieces m. download_ok m i (active_downloads pm ! i)))"

definition disk_ok :: "piece_manager \<Rightarrow> file_system \<Rightarrow> bool" where
  "disk_ok pm fs \<longleftrightarrow>
     inj_on (path_of pm) {..<length (files (metadata pm))} \<and> stored (path_of pm) (files (metadata pm)) fs"

abbreviation disk_content :: "piece_manager \<Rightarrow> file_system \<Rightarrow> byte list" where
  "disk_content pm fs \<equiv> content (path_of pm) (files (metadata pm)) fs"

definition disk_piece :: "piece_manager \<Rightarrow> file_system \<Rightarrow> nat \<Rightarrow> byte list" where
  "disk_piece pm fs i =
     take (piece_len (metadata pm) i) (drop (i * piece_length (metadata pm)) (disk_content pm fs))"

lemma piece_covers:
  assumes "pm_ok pm" "i < num_pieces (metadata pm)"
  shows "covers (files (metadata pm)) (i * piece_length (metadata pm)) (piece_file_mappings pm ! i)
    (i * piece_length (metadata pm) + piece_len (metadata pm) i)"
proof -
  from assms have m: "metadata_ok (metadata pm)" by (simp add: pm_ok_def Let_def)
  from piece_bounds [OF this assms(2)] mappings_cover(2) [of "metadata pm" i] assms m show ?thesis
    by (auto simp: pm_ok_def Let_def metadata_ok_def)
qed

lemma read_piece_disk:
  assumes "pm_ok pm" "disk_ok pm fs" "i < num_pieces (metadata pm)" "have_pieces pm ! i"
  shows "read_piece pm fs i = Some (disk_piece pm fs i)"
proof -
  let ?m = "metadata pm"
  from assms(1) have m: "metadata_ok ?m" "length (have_pieces pm) = num_pieces ?m"
    by (simp_all add: pm_ok_def Let_def)
  let ?n = "piece_len ?m i"
  have "open_in pm fs = (\<lambda>k. fs (path_of pm k))" by (simp add: open_in_def path_of_def fun_eq_iff)
  with read_mappings_covers [OF _ piece_covers [OF assms(1,3)], of "path_of pm" fs 0 "replicate ?n 0"] assms(2)
  have "read_mappings (open_in pm fs) (piece_file_mappings pm ! i) 0 (replicate ?n 0) =
      Some (Some (put_bytes (replicate ?n 0) 0 (disk_piece pm fs i)))"
    by (simp add: disk_ok_def disk_piece_def)
  moreover have "length (disk_piece pm fs i) = ?n"
    using assms(2) m piece_bounds(4) [OF m(1) assms(3)]
    by (simp add: disk_piece_def disk_ok_def length_content) (simp add: metadata_ok_def)
  ultimately show ?thesis
    using assms(3,4) m piece_size_of_len [OF m(1) assms(3)]
    by (simp add: read_piece_def put_bytes_def)
qed

lemma write_piece_disk:
  assumes "pm_ok pm" "disk_ok pm fs" "i < num_pieces (metadata pm)" "length data = piece_len (metadata pm) i"
  shows "\<exists>fs'. write_piece pm fs i data = Some (True, fs') \<and> disk_ok pm fs' \<and>
    disk_content pm fs' = put_bytes (disk_content pm fs) (i * piece_length (metadata pm)) data"
  using write_mappings_covers [OF _ _ piece_covers [OF assms(1,3)], of "path_of pm" fs 0 data] assms(2,4)
  by (auto simp: disk_ok_def write_piece_def)

lemma disk_piece_write:
  assumes "pm_ok pm" "disk_ok pm fs" "i < num_pieces (metadata pm)" "length data = piece_len (metadata pm) i"
    "write_piece pm fs i data = Some (True, fs')" "j < num_pieces (metadata pm)"
  shows "disk_piece pm fs' j = (if j = i then data else disk_piece pm fs j)"
proof -
  let ?m = "metadata pm" and ?p = "piece_length (metadata pm)"
  from write_piece_disk [OF assms(1-4)] assms(5)
  have C: "disk_content pm fs' = put_bytes (disk_content pm fs) (i * ?p) data" by auto
  from assms(1) have m: "metadata_ok ?m" by (simp add: pm_ok_def Let_def)
  have len: "i * ?p + length data \<le> length (disk_content pm fs)"
    using assms(2,4) m piece_bounds(4) [OF m assms(3)]
    by (simp add: disk_ok_def length_content) (simp add: metadata_ok_def)
  show ?thesis
  proof (cases "j = i")
    case True
    then show ?thesis using slice_put_bytes_same [OF len] by (simp add: disk_piece_def C assms(4))
  next
    case False
    then consider "j + 1 \<le> i" | "i + 1 \<le> j" by linarith
    then have "j * ?p + piece_len ?m j \<le> i * ?p \<or> i * ?p + length data \<le> j * ?p"
    proof cases
      case 1
      then have "(j + 1) * ?p \<le> i * ?p" by (rule mult_right_mono) simp
      with piece_bounds(4) [OF m assms(6)] have "j * ?p + piece_len ?m j \<le> i * ?p" by linarith
      then show ?thesis ..
    next
      case 2
      then have "(i + 1) * ?p \<le> j * ?p" by (rule mult_right_mono) simp
      with piece_bounds(4) [OF m assms(3)] assms(4) have "i * ?p + length data \<le> j * ?p" by linarith
      then show ?thesis ..
    qed
    with slice_put_bytes_other [OF len] False show ?thesis by (simp add: disk_piece_def C)
  qed
qed

section \<open>The piece manager and the disk worker as a transition system\<close>

text \<open>
  The callers' operations and the disk worker's rounds, in any order.  \<open>Receive\<close> is a block
  of the length that was requested (\<open>peer_worker\<close> always requests blocks of 16384 bytes,
  the last one of a piece shorter).
\<close>

definition block_len :: "torrent_metadata \<Rightarrow> nat \<Rightarrow> nat \<Rightarrow> nat" where
  "block_len m i b = min 16384 (piece_len m i - b * 16384)"

datatype pm_event = Request nat nat | Receive nat nat "byte list" | Verify nat | Disk

inductive pm_step :: "piece_manager \<times> file_system \<Rightarrow> pm_event \<Rightarrow> piece_manager \<times> file_system \<Rightarrow> bool" where
  step_request: "request_block pm i b 16384 = Some (r, pm') \<Longrightarrow> pm_step (pm, fs) (Request i b) (pm', fs)"
| step_receive: "length data = block_len (metadata pm) i (begin div 16384) \<Longrightarrow>
    receive_block pm i begin data = (r, pm') \<Longrightarrow> pm_step (pm, fs) (Receive i begin data) (pm', fs)"
| step_verify: "verify_piece pm i = (r, pm') \<Longrightarrow> pm_step (pm, fs) (Verify i) (pm', fs)"
| step_disk: "disk_step pm fs = Some (pm', fs') \<Longrightarrow> pm_step (pm, fs) Disk (pm', fs')"

inductive pm_reach :: "piece_manager \<times> file_system \<Rightarrow> piece_manager \<times> file_system \<Rightarrow> bool" for s where
  reach_refl: "pm_reach s s"
| reach_step: "pm_reach s t \<Longrightarrow> pm_step t e u \<Longrightarrow> pm_reach s u"

inductive_cases pm_step_request: "pm_step (pm, fs) (Request i b) t"
inductive_cases pm_step_receive: "pm_step (pm, fs) (Receive i begin data) t"
inductive_cases pm_step_verify: "pm_step (pm, fs) (Verify i) t"
inductive_cases pm_step_disk: "pm_step (pm, fs) Disk t"
inductive_simps pm_step_disk_iff: "pm_step (pm, fs) Disk (pm', fs')"

lemmas pm_step_elims = pm_step_request pm_step_receive pm_step_verify pm_step_disk

definition sized :: "torrent_metadata \<Rightarrow> nat \<Rightarrow> piece_download \<Rightarrow> bool" where
  "sized m i d \<longleftrightarrow>
     (\<forall>b < total_blocks d. blocks_received d ! b \<longrightarrow> length (block_data d ! b) = block_len m i b)"

definition good_write :: "torrent_metadata \<Rightarrow> disk_request \<Rightarrow> bool" where
  "good_write m r \<longleftrightarrow> (case r of DiskRead i \<Rightarrow> i < num_pieces m
     | DiskWrite i d \<Rightarrow> i < num_pieces m \<and> length d = piece_len m i \<and> sha1_hash d = piece_hashes m ! i)"

definition backed :: "piece_manager \<Rightarrow> file_system \<Rightarrow> nat \<Rightarrow> bool" where
  "backed pm fs i \<longleftrightarrow>
     (\<exists>d. DiskWrite i d \<in> set (disk_queue pm)) \<or>
     sha1_hash (disk_piece pm fs i) = piece_hashes (metadata pm) ! i"

definition synced :: "piece_manager \<times> file_system \<Rightarrow> bool" where
  "synced s \<longleftrightarrow> (case s of (pm, fs) \<Rightarrow>
     pm_ok pm \<and> disk_ok pm fs \<and>
     (\<forall>i < num_pieces (metadata pm). sized (metadata pm) i (active_downloads pm ! i)) \<and>
     (\<forall>r \<in> set (disk_queue pm). good_write (metadata pm) r) \<and>
     (\<forall>i < num_pieces (metadata pm). have_pieces pm ! i \<longrightarrow> backed pm fs i))"

subsection \<open>Blocks of a piece\<close>

lemma sum_blocks: "sum_list (map (\<lambda>b. min B (L - b * B)) [0..<k]) = min (k * B) (L :: nat)"
  by (induction k) (auto simp: min_def algebra_simps)

lemma complete_length:
  assumes "metadata_ok m" "i < num_pieces m" "download_ok m i d" "sized m i d"
    "blocks_received d \<noteq> []" "list_all id (blocks_received d)"
  shows "length (concat (block_data d)) = piece_len m i"
proof -
  let ?n = "(piece_len m i + 16383) div 16384"
  have n: "total_blocks d = ?n" "length (block_data d) = ?n" "length (blocks_received d) = ?n"
    using assms(3,5) by (auto simp: download_ok_def)
  have "map length (block_data d) = map (\<lambda>b. min 16384 (piece_len m i - b * 16384)) [0..<?n]"
    using assms(4,6) n by (intro nth_equalityI) (auto simp: sized_def list_all_length block_len_def)
  then have "length (concat (block_data d)) = min (?n * 16384) (piece_len m i)"
    by (simp only: length_concat sum_blocks)
  then show ?thesis by simp
qed

lemma init_download_facts:
  assumes "metadata_ok m" "i < num_pieces m" "download_ok m i d" "blocks_received d = []"
  shows "download_ok m i (init_download (piece_len m i) 16384 d)"
    "sized m i (init_download (piece_len m i) 16384 d)"
proof -
  have b: "piece_len m i + 16384 < 2 ^ 64"
    using assms(1) piece_bounds(3) [OF assms(1,2)] by (auto simp: metadata_ok_def)
  then have n: "u64_sub (u64_add (piece_len m i) 16384) 1 = piece_len m i + 16383"
    using b by (simp add: u64_add_id u64_sub_id)
  have "total_blocks d = 0" "blocks_requested d = []" "block_data d = []"
    using assms(3,4) by (auto simp: download_ok_def)
  with n show "download_ok m i (init_download (piece_len m i) 16384 d)"
    "sized m i (init_download (piece_len m i) 16384 d)"
    using assms(4) by (auto simp: init_download_def download_ok_def sized_def resize_list_def Let_def)
qed

lemma download_upd:
  "\<forall>j < n. P j (ds ! j) \<Longrightarrow> i < n \<Longrightarrow> length ds = n \<Longrightarrow> P i d \<Longrightarrow> \<forall>j < n. P j (ds[i := d] ! j)"
  by (simp add: nth_list_update)

subsection \<open>Every step keeps the invariant\<close>

lemma path_of_update [simp]:
  "path_of (pm\<lparr>disk_queue := q\<rparr>) = path_of pm"
  "path_of (pm\<lparr>active_downloads := ds\<rparr>) = path_of pm"
  "path_of (pm\<lparr>have_pieces := h\<rparr>) = path_of pm"
  by (simp_all add: path_of_def fun_eq_iff)

lemma synced_downloads:
  assumes "synced (pm, fs)" "i < num_pieces (metadata pm)" "download_ok (metadata pm) i d" "sized (metadata pm) i d"
  shows "synced (pm\<lparr>active_downloads := (active_downloads pm)[i := d]\<rparr>, fs)"
  using assms
  by (auto simp: synced_def pm_ok_def Let_def disk_ok_def backed_def disk_piece_def nth_list_update)

lemma synced_facts:
  assumes "synced (pm, fs)"
  shows "pm_ok pm" "disk_ok pm fs" "metadata_ok (metadata pm)"
    "length (active_downloads pm) = num_pieces (metadata pm)"
    "length (have_pieces pm) = num_pieces (metadata pm)"
    "i < num_pieces (metadata pm) \<Longrightarrow> download_ok (metadata pm) i (active_downloads pm ! i)"
    "i < num_pieces (metadata pm) \<Longrightarrow> sized (metadata pm) i (active_downloads pm ! i)"
    "i < num_pieces (metadata pm) \<Longrightarrow> have_pieces pm ! i \<Longrightarrow> backed pm fs i"
    "r \<in> set (disk_queue pm) \<Longrightarrow> good_write (metadata pm) r"
  using assms by (auto simp: synced_def pm_ok_def Let_def)

lemma request_synced:
  assumes s: "synced (pm, fs)"
  shows "\<exists>r pm'. request_block pm i b 16384 = Some (r, pm') \<and> synced (pm', fs)"
proof (cases "i < length (active_downloads pm)")
  case True
  let ?m = "metadata pm" and ?d = "active_downloads pm ! i"
  from True have i: "i < num_pieces ?m" using synced_facts(4) [OF s] by simp
  define d' where "d' = (if blocks_received ?d = [] then init_download (piece_len ?m i) 16384 ?d else ?d)"
  have ok: "download_ok ?m i d'" "sized ?m i d'"
    using init_download_facts [OF synced_facts(3) [OF s] i] synced_facts(6,7) [OF s i]
    by (auto simp: d'_def)
  then have ok': "download_ok ?m i (d'\<lparr>blocks_requested := (blocks_requested d')[b := True]\<rparr>)"
    "sized ?m i (d'\<lparr>blocks_requested := (blocks_requested d')[b := True]\<rparr>)"
    by (auto simp: download_ok_def sized_def)
  have "request_block pm i b 16384 =
      (if length (blocks_requested d') \<le> b \<or> blocks_requested d' ! b
       then Some (False, pm\<lparr>active_downloads := (active_downloads pm)[i := d']\<rparr>)
       else Some (True, pm\<lparr>active_downloads := (active_downloads pm)
              [i := d'\<lparr>blocks_requested := (blocks_requested d')[b := True]\<rparr>]\<rparr>))"
    using True piece_size_of_len [OF synced_facts(3) [OF s] i]
    by (auto simp: request_block_def d'_def Let_def)
  then show ?thesis using synced_downloads [OF s i ok] synced_downloads [OF s i ok'] by auto
qed (use s in \<open>auto simp: request_block_def\<close>)

lemma receive_synced:
  assumes s: "synced (pm, fs)" and len: "length data = block_len (metadata pm) i (begin div 16384)"
    and r: "receive_block pm i begin data = (r, pm')"
  shows "synced (pm', fs)"
proof (cases r)
  case True
  let ?m = "metadata pm" and ?d = "active_downloads pm ! i" and ?b = "begin div 16384"
  from r True have i: "i < num_pieces ?m" and b: "?b < length (blocks_received ?d)"
    and pm': "pm' = pm\<lparr>active_downloads := (active_downloads pm)
        [i := ?d\<lparr>blocks_received := (blocks_received ?d)[?b := True], block_data := (block_data ?d)[?b := data]\<rparr>]\<rparr>"
    using synced_facts(4) [OF s] by (auto simp: receive_block_def Let_def split: if_splits)
  have "download_ok ?m i (?d\<lparr>blocks_received := (blocks_received ?d)[?b := True], block_data := (block_data ?d)[?b := data]\<rparr>)"
    using synced_facts(6) [OF s i] b by (auto simp: download_ok_def nth_list_update)
  moreover have "sized ?m i (?d\<lparr>blocks_received := (blocks_received ?d)[?b := True], block_data := (block_data ?d)[?b := data]\<rparr>)"
    using synced_facts(6,7) [OF s i] b len by (auto simp: sized_def download_ok_def nth_list_update)
  ultimately show ?thesis unfolding pm' by (rule synced_downloads [OF s i])
next
  case False
  with r s show ?thesis by (auto simp: receive_block_def Let_def split: if_splits)
qed

lemma verify_piece_cases:
  assumes "verify_piece pm i = (r, pm')"
  shows "(\<not> is_piece_complete pm i \<and> \<not> r \<and> pm' = pm) \<or>
    (is_piece_complete pm i \<and> r \<and>
      sha1_hash (concat (block_data (active_downloads pm ! i))) = piece_hashes (metadata pm) ! i \<and>
      pm' = pm\<lparr>have_pieces := (have_pieces pm)[i := True],
               disk_queue := disk_queue pm @ [DiskWrite i (concat (block_data (active_downloads pm ! i)))]\<rparr>) \<or>
    (is_piece_complete pm i \<and> \<not> r \<and>
      sha1_hash (concat (block_data (active_downloads pm ! i))) \<noteq> piece_hashes (metadata pm) ! i \<and>
      pm' = pm\<lparr>active_downloads := (active_downloads pm)[i := fresh_download]\<rparr>)"
  using assms by (auto simp: verify_piece_def Let_def split: if_splits)

lemma complete_bounds:
  assumes "synced (pm, fs)" "is_piece_complete pm i"
  shows "i < num_pieces (metadata pm)"
    "length (concat (block_data (active_downloads pm ! i))) = piece_len (metadata pm) i"
proof -
  show i: "i < num_pieces (metadata pm)"
    using assms synced_facts(4) [OF assms(1)] by (simp add: is_piece_complete_def)
  show "length (concat (block_data (active_downloads pm ! i))) = piece_len (metadata pm) i"
    using assms(2) synced_facts [OF assms(1)] i
    by (intro complete_length) (auto simp: is_piece_complete_def Let_def)
qed

lemma verify_synced:
  assumes s: "synced (pm, fs)" and r: "verify_piece pm i = (r, pm')"
  shows "synced (pm', fs)"
  using verify_piece_cases [OF r]
proof (elim disjE)
  let ?d = "concat (block_data (active_downloads pm ! i))"
  assume a: "is_piece_complete pm i \<and> r \<and> sha1_hash ?d = piece_hashes (metadata pm) ! i \<and>
      pm' = pm\<lparr>have_pieces := (have_pieces pm)[i := True], disk_queue := disk_queue pm @ [DiskWrite i ?d]\<rparr>"
  note i = complete_bounds [OF s, of i]
  from a i have "good_write (metadata pm) (DiskWrite i ?d)" by (simp add: good_write_def)
  then show ?thesis using s a
    by (auto simp: synced_def pm_ok_def Let_def disk_ok_def backed_def disk_piece_def)
      (metis nth_list_update_neq)
next
  assume a: "is_piece_complete pm i \<and> \<not> r \<and>
      sha1_hash (concat (block_data (active_downloads pm ! i))) \<noteq> piece_hashes (metadata pm) ! i \<and>
      pm' = pm\<lparr>active_downloads := (active_downloads pm)[i := fresh_download]\<rparr>"
  have "download_ok (metadata pm) i fresh_download" "sized (metadata pm) i fresh_download"
    by (simp_all add: download_ok_def sized_def fresh_download_def)
  with a synced_downloads [OF s complete_bounds(1) [OF s]] show ?thesis by blast
qed (use s in simp)

lemma pm_ok_queue [simp]:
  "pm_ok (pm\<lparr>disk_queue := q\<rparr>) = pm_ok pm" "disk_ok (pm\<lparr>disk_queue := q\<rparr>) fs = disk_ok pm fs"
  "disk_piece (pm\<lparr>disk_queue := q\<rparr>) fs i = disk_piece pm fs i"
  "write_piece (pm\<lparr>disk_queue := q\<rparr>) fs i data = write_piece pm fs i data"
  by (simp_all add: pm_ok_def Let_def disk_ok_def disk_piece_def write_piece_def)

lemma read_piece_defined:
  assumes "pm_ok pm" "disk_ok pm fs" "i < num_pieces (metadata pm)"
  shows "read_piece pm fs i \<noteq> None"
  using read_piece_disk [OF assms] by (cases "have_pieces pm ! i") (simp_all add: read_piece_def)

lemma disk_synced:
  assumes s: "synced (pm, fs)"
  shows "\<exists>pm' fs'. disk_step pm fs = Some (pm', fs') \<and> synced (pm', fs')"
proof (cases "disk_queue pm")
  case (Cons r q)
  let ?pm = "pm\<lparr>disk_queue := q\<rparr>"
  have good: "good_write (metadata pm) r" using synced_facts(9) [OF s] Cons by simp
  show ?thesis
  proof (cases r)
    case (DiskRead i)
    with good have "read_piece ?pm fs i \<noteq> None"
      using synced_facts(1,2) [OF s] by (intro read_piece_defined) (auto simp: good_write_def)
    moreover have "synced (?pm, fs)" using s Cons DiskRead by (auto simp: synced_def backed_def)
    ultimately show ?thesis using Cons DiskRead by (auto simp: disk_step_def Let_def)
  next
    case (DiskWrite i d)
    with good have i: "i < num_pieces (metadata pm)" "length d = piece_len (metadata pm) i"
      "sha1_hash d = piece_hashes (metadata pm) ! i" by (auto simp: good_write_def)
    from write_piece_disk [OF synced_facts(1,2) [OF s] i(1,2)] obtain fs' where
      w: "write_piece pm fs i d = Some (True, fs')" and dk: "disk_ok pm fs'" by blast
    note dp = disk_piece_write [OF synced_facts(1,2) [OF s] i(1,2) w]
    have "backed ?pm fs' j" if "j < num_pieces (metadata pm)" "have_pieces pm ! j" for j
      using synced_facts(8) [OF s that] dp [OF that(1)] i(3) Cons DiskWrite by (auto simp: backed_def)
    then have "synced (?pm, fs')" using s Cons dk by (auto simp: synced_def)
    then show ?thesis using Cons DiskWrite w by (auto simp: disk_step_def Let_def)
  qed
qed (use s in \<open>simp add: disk_step_def\<close>)

lemma pm_step_synced: "pm_step s e t \<Longrightarrow> synced s \<Longrightarrow> synced t"
proof (induction rule: pm_step.induct)
  case (step_request pm i b r pm' fs)
  then show ?case using request_synced [of pm fs i b] by auto
next
  case (step_disk pm fs pm' fs')
  then show ?case using disk_synced [of pm fs] by auto
qed (auto intro: receive_synced verify_synced)

lemma pm_reach_synced: "pm_reach s t \<Longrightarrow> synced s \<Longrightarrow> synced t"
  by (induction rule: pm_reach.induct) (auto intro: pm_step_synced)

section \<open>A new piece manager\<close>

lemma create_files_zero:
  assumes "create_files cw dir fl fs = Inr fs'" "distinct (map tf_path fl)"
  shows "(\<forall>f \<in> set fl. fs' (file_path dir f) = Some (replicate (tf_length f) 0)) \<and>
    (\<forall>p. p \<notin> file_path dir ` set fl \<longrightarrow> fs' p = fs p)"
  using assms
proof (induction fl arbitrary: fs)
  case (Cons f fl)
  from Cons.prems(1) have c: "create_files cw dir fl (fs(file_path dir f \<mapsto> replicate (tf_length f) 0)) = Inr fs'"
    by (auto simp: Let_def split: if_splits)
  have "file_path dir f \<notin> file_path dir ` set fl"
    using Cons.prems(2) by (auto simp: file_path_def)
  with Cons.IH [OF c] Cons.prems(2) show ?case by auto
qed simp

lemma construct_synced:
  assumes c: "construct_manager cw m dir ps fs = Inr (pm, fs')" and m: "metadata_ok m"
    and d: "distinct (map tf_path (files m))"
  shows "synced (pm, fs')" "disk_content pm fs' = replicate (total_length m) 0" "metadata pm = m"
    "have_pieces pm = replicate (num_pieces m) False" "active_downloads pm = replicate (num_pieces m) fresh_download"
proof -
  from c have cf: "create_files cw dir (files m) fs = Inr fs'" and pm: "pm = new_manager m dir ps"
    by (auto simp: construct_manager_def ebind_Inr_iff)
  have p: "path_of pm = (\<lambda>k. file_path dir (files m ! k))"
    by (simp add: path_of_def pm new_manager_def fun_eq_iff)
  have mp: "metadata pm = m" by (simp add: pm new_manager_def)
  have z: "fs' (path_of pm k) = Some (replicate (tf_length (files m ! k)) 0)" if "k < length (files m)" for k
    using create_files_zero [OF cf d] that by (simp add: p)
  then have st: "stored (path_of pm) (files m) fs'" by (simp add: stored_def)
  have "inj_on (path_of pm) {..<length (files m)}"
    using d by (auto simp: inj_on_def p file_path_def distinct_conv_nth)
  with st have dk: "disk_ok pm fs'" by (simp add: disk_ok_def mp)
  have "pm_ok pm"
    using m by (auto simp: pm_ok_def Let_def pm new_manager_def init_priorities_def resize_list_def
        download_ok_def fresh_download_def)
  with dk show "synced (pm, fs')"
    by (simp add: synced_def mp) (simp add: pm new_manager_def sized_def fresh_download_def)
  have "set (concat (parts (path_of pm) (files m) fs')) \<subseteq> {0}"
    using z by (auto simp: parts_def)
  then have "disk_content pm fs' = replicate (length (disk_content pm fs')) 0"
    by (intro replicate_eqI) (auto simp: mp)
  then show "disk_content pm fs' = replicate (total_length m) 0"
    using length_content [OF st] m by (simp add: mp metadata_ok_def)
  show "metadata pm = m" "have_pieces pm = replicate (num_pieces m) False"
    "active_downloads pm = replicate (num_pieces m) fresh_download"
    by (simp_all add: pm new_manager_def)
qed

section \<open>The selected piece\<close>

definition better_or_same :: "nat list \<Rightarrow> nat list \<Rightarrow> nat \<Rightarrow> nat \<Rightarrow> bool" where
  "better_or_same av prio i j \<longleftrightarrow>
     av ! i < av ! j \<or> av ! i = av ! j \<and> (prio ! j < prio ! i \<or> prio ! j = prio ! i \<and> i \<le> j)"

lemma rarest_foldl:
  assumes "\<forall>i < k. av ! i < size_max"
  shows "case foldl (rarest_step pm av prio fm) (size_max, size_max, 0) [0..<k] of (best, mn, mx) \<Rightarrow>
    ((\<forall>i < k. \<not> is_candidate pm av fm i) \<and> best = size_max \<and> mn = size_max \<and> mx = 0) \<or>
    (best < k \<and> is_candidate pm av fm best \<and> mn = av ! best \<and> mx = prio ! best \<and>
      (\<forall>j < k. is_candidate pm av fm j \<longrightarrow> better_or_same av prio best j))"
  using assms
proof (induction k)
  case (Suc k)
  obtain best mn mx where f: "foldl (rarest_step pm av prio fm) (size_max, size_max, 0) [0..<k] = (best, mn, mx)"
    by (metis prod.exhaust)
  from Suc have IH: "((\<forall>i < k. \<not> is_candidate pm av fm i) \<and> best = size_max \<and> mn = size_max \<and> mx = 0) \<or>
      (best < k \<and> is_candidate pm av fm best \<and> mn = av ! best \<and> mx = prio ! best \<and>
        (\<forall>j < k. is_candidate pm av fm j \<longrightarrow> better_or_same av prio best j))"
    by (simp add: f)
  have k: "av ! k < size_max" using Suc.prems by simp
  have st: "foldl (rarest_step pm av prio fm) (size_max, size_max, 0) [0..<Suc k] =
      (if is_candidate pm av fm k \<and> (av ! k < mn \<or> av ! k = mn \<and> mx < prio ! k)
       then (k, av ! k, prio ! k) else (best, mn, mx))"
    by (simp add: f) (auto simp: rarest_step_def)
  show ?case
  proof (cases "is_candidate pm av fm k \<and> (av ! k < mn \<or> av ! k = mn \<and> mx < prio ! k)")
    case True
    then have "better_or_same av prio k j" if "j < Suc k" "is_candidate pm av fm j" for j
      using IH that by (auto simp: better_or_same_def less_Suc_eq)
    with True show ?thesis unfolding st by simp
  next
    case False
    have "\<not> is_candidate pm av fm k \<or> best < k \<and> better_or_same av prio best k"
      using IH False k by (auto simp: better_or_same_def)
    with IH False k show ?thesis unfolding st by (auto simp: less_Suc_eq)
  qed
qed simp

lemma length_count_availability: "length (count_availability n bfs) = n"
proof -
  have "length (foldl (\<lambda>av b. if length b \<noteq> n then av else map2 (\<lambda>a h. if h then a + 1 else a) av b) av bfs) = n"
    if "length av = n" for av :: "nat list"
    using that by (induction bfs arbitrary: av) auto
  then show ?thesis by (simp add: count_availability_def)
qed

lemma count_availability_le: "i < n \<Longrightarrow> length (count_availability n bfs) = n \<and> count_availability n bfs ! i \<le> length bfs"
proof -
  assume i: "i < n"
  have "length (foldl (\<lambda>av b. if length b \<noteq> n then av else map2 (\<lambda>a h. if h then a + 1 else a) av b) av bfs) = n \<and>
      foldl (\<lambda>av b. if length b \<noteq> n then av else map2 (\<lambda>a h. if h then a + 1 else a) av b) av bfs ! i \<le> av ! i + length bfs"
    if "length av = n" for av :: "nat list"
    using that
  proof (induction bfs arbitrary: av)
    case (Cons b bfs)
    let ?av = "if length b \<noteq> n then av else map2 (\<lambda>a h. if h then a + 1 else a) av b"
    have "length ?av = n" "?av ! i \<le> av ! i + 1" using Cons.prems i by auto
    with Cons.IH [of ?av] show ?case by simp
  qed simp
  from this [of "replicate n 0"] i show ?thesis by (simp add: count_availability_def)
qed

lemma count_availability_nth:
  "i < n \<Longrightarrow> count_availability n bfs ! i = length (filter (\<lambda>b. length b = n \<and> b ! i) bfs)"
proof -
  assume i: "i < n"
  have "foldl (\<lambda>av b. if length b \<noteq> n then av else map2 (\<lambda>a h. if h then a + 1 else a) av b) av bfs ! i =
      av ! i + length (filter (\<lambda>b. length b = n \<and> b ! i) bfs)" if "length av = n" for av :: "nat list"
    using that i by (induction bfs arbitrary: av) auto
  from this [of "replicate n 0"] i show ?thesis by (simp add: count_availability_def)
qed

text \<open>What the selection is meant to be, on the peers that hold a piece.\<close>

definition holders :: "piece_manager \<Rightarrow> bool list list \<Rightarrow> nat \<Rightarrow> nat" where
  "holders pm bfs i = length (filter (\<lambda>b. length b = num_pieces (metadata pm) \<and> b ! i) bfs)"

definition candidates :: "piece_manager \<Rightarrow> bool list list \<Rightarrow> bool list option \<Rightarrow> nat set" where
  "candidates pm bfs fm = {i. i < num_pieces (metadata pm) \<and> \<not> have_pieces pm ! i \<and> 0 < holders pm bfs i \<and>
     (\<forall>f. fm = Some f \<longrightarrow> i < length f \<and> f ! i) \<and>
     \<not> (i < length (active_downloads pm) \<and> fully_requested (active_downloads pm ! i))}"

definition preferred :: "piece_manager \<Rightarrow> bool list list \<Rightarrow> nat \<Rightarrow> nat \<Rightarrow> bool" where
  "preferred pm bfs i j \<longleftrightarrow>
     holders pm bfs i < holders pm bfs j \<or> holders pm bfs i = holders pm bfs j \<and>
       (piece_priorities pm ! j < piece_priorities pm ! i \<or>
        piece_priorities pm ! j = piece_priorities pm ! i \<and> i \<le> j)"

section \<open>Properties\<close>

subsection \<open>A torrent of two files and two pieces\<close>

definition demo_meta :: torrent_metadata where
  "demo_meta = \<lparr>announce = ''http://t'', announce_list = [''http://t''], info_hash = [], tname = ''n'',
     piece_length = 4, piece_hashes = [sha1_hash [1, 2, 3, 4], sha1_hash [5, 6, 7, 8]], total_length = 8,
     files = [\<lparr>tf_path = ''a'', tf_length = 3, tf_offset = Some 0\<rparr>,
              \<lparr>tf_path = ''b'', tf_length = 5, tf_offset = Some 3\<rparr>]\<rparr>"

definition demo_pm :: piece_manager where
  "demo_pm = new_manager demo_meta ''d'' []"

definition demo_fs :: file_system where
  "demo_fs = [''d/a'' \<mapsto> [0, 0, 0], ''d/b'' \<mapsto> [0, 0, 0, 0, 0]]"

lemma demo_meta_ok: "metadata_ok demo_meta"
  by (simp add: metadata_ok_def demo_meta_def)

lemma demo_constructed: "construct_manager (\<lambda>_. True) demo_meta ''d'' [] Map.empty = Inr (demo_pm, demo_fs)"
proof -
  have "replicate 3 0 = [0, 0, 0 :: byte]" "replicate 5 0 = [0, 0, 0, 0, 0 :: byte]"
    by (simp_all add: numeral_eq_Suc)
  then show ?thesis
    by (simp add: construct_manager_def demo_pm_def demo_fs_def demo_meta_def file_path_def)
qed

lemma demo_synced: "synced (demo_pm, demo_fs)"
  by (rule construct_synced(1) [OF demo_constructed demo_meta_ok]) (simp add: demo_meta_def)

definition demo_done :: piece_manager where
  "demo_done = demo_pm\<lparr>have_pieces := [True, False],
     active_downloads := [\<lparr>blocks_requested = [True], blocks_received = [True],
       block_data = [[1, 2, 3, 4]], total_blocks = 1\<rparr>, fresh_download],
     disk_queue := [DiskWrite 0 [1, 2, 3, 4]]\<rparr>"

lemma demo_run: "pm_reach (demo_pm, demo_fs) (demo_done, demo_fs)"
proof -
  define d0 where "d0 = demo_pm\<lparr>active_downloads := [\<lparr>blocks_requested = [True], blocks_received = [False],
       block_data = [[]], total_blocks = 1\<rparr>, fresh_download]\<rparr>"
  define d1 where "d1 = demo_pm\<lparr>active_downloads := [\<lparr>blocks_requested = [True], blocks_received = [True],
       block_data = [[1, 2, 3, 4]], total_blocks = 1\<rparr>, fresh_download]\<rparr>"
  have "request_block demo_pm 0 0 16384 = Some (True, d0)"
    by (simp add: request_block_def demo_pm_def new_manager_def demo_meta_def piece_size_of_def u64_sub_def
        u64_add_def init_download_def resize_list_def fresh_download_def d0_def)
  then have 0: "pm_step (demo_pm, demo_fs) (Request 0 0) (d0, demo_fs)" by (rule step_request)
  have "receive_block d0 0 0 [1, 2, 3, 4] = (True, d1)"
    by (simp add: receive_block_def d0_def d1_def)
  then have 1: "pm_step (d0, demo_fs) (Receive 0 0 [1, 2, 3, 4]) (d1, demo_fs)"
    by (intro step_receive [of _ _ _ _ True])
      (simp_all add: block_len_def piece_len_def d0_def demo_pm_def new_manager_def demo_meta_def)
  have "verify_piece d1 0 = (True, demo_done)"
    by (simp add: verify_piece_def is_piece_complete_def Let_def d1_def demo_done_def demo_pm_def new_manager_def demo_meta_def)
  then have "pm_step (d1, demo_fs) (Verify 0) (demo_done, demo_fs)" by (rule step_verify)
  with 0 1 show ?thesis by (blast intro: pm_reach.intros)
qed

subsection \<open>Selection, storage, integrity\<close>



text \<open>Reading a verified piece returns its slice of the concatenated files.\<close>

theorem read_piece_slice:
  assumes "pm_ok pm" "disk_ok pm fs" "i < num_pieces (metadata pm)" "have_pieces pm ! i"
  shows "read_piece pm fs i = Some (take (piece_len (metadata pm) i)
    (drop (i * piece_length (metadata pm)) (disk_content pm fs)))"
  using read_piece_disk [OF assms] by (simp add: disk_piece_def)

theorem read_piece_slice_witness:
  "read_piece demo_done demo_fs 0 = Some [0, 0, 0, 0]"
proof -
  have m: "metadata demo_done = demo_meta" by (simp add: demo_done_def demo_pm_def new_manager_def)
  have "synced (demo_done, demo_fs)" using pm_reach_synced [OF demo_run demo_synced] .
  from read_piece_slice [OF synced_facts(1,2) [OF this], of 0]
  have "read_piece demo_done demo_fs 0 = Some (take 4 (drop 0 (disk_content demo_done demo_fs)))"
    by (simp add: m) (simp add: demo_meta_def demo_done_def piece_len_def)
  moreover have "disk_content demo_done demo_fs = [0, 0, 0, 0, 0, 0, 0, 0]"
    by (simp add: m parts_def path_of_def) (simp add: demo_meta_def demo_done_def demo_pm_def
        new_manager_def file_path_def demo_fs_def)
  ultimately show ?thesis by simp
qed

text \<open>C6: Writing a piece succeeds; afterwards reading it returns what was written and reading any
  other piece returns what it did before.\<close>

theorem write_piece_read:
  assumes "pm_ok pm" "disk_ok pm fs" "i < num_pieces (metadata pm)" "length data = piece_len (metadata pm) i"
  shows "\<exists>fs'. write_piece pm fs i data = Some (True, fs') \<and> disk_ok pm fs' \<and>
    (\<forall>j < num_pieces (metadata pm). have_pieces pm ! j \<longrightarrow>
       read_piece pm fs' j = (if j = i then Some data else read_piece pm fs j))"
  using write_piece_disk [OF assms] disk_piece_write [OF assms] read_piece_disk [OF assms(1)] assms(2)
  by fastforce

theorem write_piece_read_witness:
  "\<exists>fs'. write_piece demo_done demo_fs 0 [1, 2, 3, 4] = Some (True, fs') \<and>
     read_piece demo_done fs' 0 = Some [1, 2, 3, 4]"
proof -
  have m: "metadata demo_done = demo_meta" "have_pieces demo_done ! 0"
    by (simp_all add: demo_done_def demo_pm_def new_manager_def)
  have "synced (demo_done, demo_fs)" using pm_reach_synced [OF demo_run demo_synced] .
  from write_piece_read [OF synced_facts(1,2) [OF this], of 0 "[1, 2, 3, 4]"] m
  show ?thesis by (auto simp: demo_meta_def piece_len_def)
qed



text \<open>In every reachable state the callers' operations and the disk worker's round are defined:
  no division by zero and no access outside a buffer.\<close>

theorem piece_manager_defined:
  assumes "construct_manager can_write m dir prios fs0 = Inr (pm0, fs1)" "metadata_ok m"
    "distinct (map tf_path (files m))" "pm_reach (pm0, fs1) (pm, fs)"
  shows "request_block pm i b 16384 \<noteq> None \<and> disk_step pm fs \<noteq> None \<and>
    (i < num_pieces (metadata pm) \<longrightarrow> read_piece pm fs i \<noteq> None)"
proof -
  have s: "synced (pm, fs)"
    using pm_reach_synced [OF assms(4) construct_synced(1) [OF assms(1-3)]] .
  then show ?thesis
    using request_synced [OF s, of i b] disk_synced [OF s] read_piece_defined [OF synced_facts(1,2) [OF s]]
    by auto
qed

theorem piece_manager_defined_witness: "disk_step demo_done demo_fs \<noteq> None"
proof -
  have "distinct (map tf_path (files demo_meta))" by (simp add: demo_meta_def)
  from piece_manager_defined [OF demo_constructed demo_meta_ok this demo_run]
  show ?thesis by blast
qed

text \<open>The constructor truncates existing files, so after a restart a piece whose bit is restored
  by \<open>load_state\<close> is served as zeros.\<close>

theorem restored_piece_is_zero:
  assumes "construct_manager can_write m dir prios fs0 = Inr (pm, fs)" "metadata_ok m"
    "distinct (map tf_path (files m))" "length bits = num_pieces m" "i < num_pieces m" "bits ! i"
  shows "read_piece (load_state pm bits) fs i = Some (replicate (piece_len m i) 0)"
proof -
  note c = construct_synced [OF assms(1-3)]
  let ?pm = "load_state pm bits"
  have l: "?pm = pm\<lparr>have_pieces := bits\<rparr>" using assms(4) c(4) by (simp add: load_state_def)
  have ok: "pm_ok ?pm" "disk_ok ?pm fs"
    using synced_facts(1,2) [OF c(1)] assms(4) c(3) by (simp_all add: l pm_ok_def Let_def disk_ok_def)
  have "read_piece ?pm fs i = Some (disk_piece ?pm fs i)"
    using read_piece_disk [OF ok] assms(5,6) c(3) by (simp add: l)
  also have "disk_piece ?pm fs i = replicate (piece_len m i) 0"
  proof -
    have "i * piece_length m + piece_len m i \<le> total_length m"
      using piece_bounds(4) [OF assms(2,5)] by linarith
    then show ?thesis using c(2,3) by (simp add: l disk_piece_def)
  qed
  finally show ?thesis .
qed

theorem restored_piece_is_zero_witness:
  "read_piece (load_state demo_pm [True, False]) demo_fs 0 = Some [0, 0, 0, 0]"
proof -
  have "distinct (map tf_path (files demo_meta))" "num_pieces demo_meta = 2" "piece_len demo_meta 0 = 4"
    by (simp_all add: demo_meta_def piece_len_def)
  with restored_piece_is_zero [OF demo_constructed demo_meta_ok, of "[True, False]" 0]
  show ?thesis by (simp add: numeral_eq_Suc)
qed

text \<open>Verified pieces are counted twice, once by their bit and once by the blocks kept in memory:
  a reachable state with one of two pieces reports the download as complete.\<close>

theorem completion_reached_early:
  "\<exists>pm fs. pm_reach (demo_pm, demo_fs) (pm, fs) \<and> num_pieces (metadata pm) = 2 \<and>
     get_completed_pieces pm = 1 \<and> get_total_downloaded_bytes pm = total_length (metadata pm) \<and> completion_reached pm"
proof -
  have "[0..<2] = [0, 1 :: nat]" by (simp add: upt_rec)
  then have "get_total_downloaded_bytes demo_done = 8"
    by (simp add: get_total_downloaded_bytes_def Let_def counted_piece_size_def demo_done_def demo_pm_def
        new_manager_def demo_meta_def u64_sub_def u64_add_def fresh_download_def)
  then show ?thesis using demo_run
    by (intro exI [of _ demo_done] exI [of _ demo_fs])
      (simp add: completion_reached_def get_completed_pieces_def, simp add: demo_done_def demo_pm_def new_manager_def demo_meta_def)
qed

end
