(* ===== verification/Peer_Wire.thy ===== *)
theory Peer_Wire
  imports Piece_Manager
begin

text \<open>
  \<open>src/peer/connection.cpp\<close>: one peer connection.  What the socket does is part of the
  state: \<open>sends\<close> are the results of the coming \<open>send\<close> calls (the bytes accepted, 0 for a
  result that is not positive; when the list is used up everything is accepted), \<open>sent\<close> is
  what went out.  The bytes a blocking \<open>recv\<close> will deliver are an argument.  \<open>None\<close> is a
  read outside a buffer.
\<close>

section \<open>Messages\<close>

datatype message_type = CHOKE | UNCHOKE | INTERESTED | NOT_INTERESTED | HAVE | BITFIELD | REQUEST | PIECE
  | CANCEL | PORT | KEEP_ALIVE | EXTENDED | OTHER byte

definition code_of_type :: "message_type \<Rightarrow> byte" where
  "code_of_type t = (case t of CHOKE \<Rightarrow> 0 | UNCHOKE \<Rightarrow> 1 | INTERESTED \<Rightarrow> 2 | NOT_INTERESTED \<Rightarrow> 3 | HAVE \<Rightarrow> 4
     | BITFIELD \<Rightarrow> 5 | REQUEST \<Rightarrow> 6 | PIECE \<Rightarrow> 7 | CANCEL \<Rightarrow> 8 | PORT \<Rightarrow> 9 | KEEP_ALIVE \<Rightarrow> 10 | EXTENDED \<Rightarrow> 20
     | OTHER b \<Rightarrow> b)"

definition type_of_code :: "byte \<Rightarrow> message_type" where
  "type_of_code b =
     (if b = 0 then CHOKE else if b = 1 then UNCHOKE else if b = 2 then INTERESTED
      else if b = 3 then NOT_INTERESTED else if b = 4 then HAVE else if b = 5 then BITFIELD
      else if b = 6 then REQUEST else if b = 7 then PIECE else if b = 8 then CANCEL
      else if b = 9 then PORT else if b = 10 then KEEP_ALIVE else if b = 20 then EXTENDED
      else OTHER b)"

record peer_message =
  mtype :: message_type
  payload :: "byte list"

definition create_message :: "message_type \<Rightarrow> byte list \<Rightarrow> peer_message" where
  "create_message t p = \<lparr>mtype = t, payload = p\<rparr>"

definition serialize_message :: "peer_message \<Rightarrow> byte list" where
  "serialize_message m = be_bytes 4 (1 + length (payload m)) @ [code_of_type (mtype m)] @ payload m"

section \<open>Connection state\<close>

record peer_conn =
  pc_info_hash :: "byte list"
  pc_peer_id :: "byte list"
  pc_pieces :: nat
  socket_open :: bool
  connected :: bool
  am_choking :: bool
  am_interested :: bool
  peer_choking :: bool
  peer_interested :: bool
  bitfield :: "bool list"
  dht_port :: "16 word option"
  hs_buffer :: "byte list"
  hs_received :: nat
  write_buffer :: "byte list"
  sends :: "nat list"
  sent :: "byte list"

definition new_conn :: "bool \<Rightarrow> torrent_metadata \<Rightarrow> byte list \<Rightarrow> byte list \<Rightarrow> piece_manager \<Rightarrow> nat list \<Rightarrow> peer_conn" where
  "new_conn has_socket m ih pid pm ss =
     \<lparr>pc_info_hash = ih, pc_peer_id = pid, pc_pieces = num_pieces m, socket_open = has_socket,
      connected = False, am_choking = True, am_interested = False, peer_choking = True,
      peer_interested = False, bitfield = get_bitfield pm, dht_port = None, hs_buffer = [],
      hs_received = 0, write_buffer = [], sends = ss, sent = []\<rparr>"

definition disconnect :: "peer_conn \<Rightarrow> peer_conn" where
  "disconnect c = c\<lparr>connected := False, hs_buffer := [], hs_received := 0, socket_open := False\<rparr>"

section \<open>Sending\<close>

fun send_loop :: "nat list \<Rightarrow> byte list \<Rightarrow> byte list \<times> bool \<times> nat list" where
  "send_loop rs [] = ([], True, rs)"
| "send_loop [] (b # bs) = (b # bs, True, [])"
| "send_loop (r # rs) (b # bs) =
     (if r = 0 then ([], False, rs)
      else case send_loop rs (drop r (b # bs)) of (out, ok, rs') \<Rightarrow> (take r (b # bs) @ out, ok, rs'))"

definition send_message :: "peer_message \<Rightarrow> peer_conn \<Rightarrow> peer_conn" where
  "send_message m c =
     (if \<not> connected c then c
      else case send_loop (sends c) (serialize_message m) of (out, ok, rs) \<Rightarrow>
        c\<lparr>sent := sent c @ out, sends := rs, connected := ok\<rparr>)"

definition htonl_bytes :: "nat \<Rightarrow> byte list" where
  "htonl_bytes n = store32 (word_of_nat n)"

definition send_have :: "nat \<Rightarrow> peer_conn \<Rightarrow> peer_conn" where
  "send_have i c = send_message (create_message HAVE (htonl_bytes i)) c"

definition send_request :: "nat \<Rightarrow> nat \<Rightarrow> nat \<Rightarrow> peer_conn \<Rightarrow> peer_conn" where
  "send_request i b l c = send_message (create_message REQUEST (htonl_bytes i @ htonl_bytes b @ htonl_bytes l)) c"

definition send_piece :: "nat \<Rightarrow> nat \<Rightarrow> byte list \<Rightarrow> peer_conn \<Rightarrow> peer_conn" where
  "send_piece i b d c = send_message (create_message PIECE (htonl_bytes i @ htonl_bytes b @ d)) c"

definition send_extended_message :: "byte \<Rightarrow> byte list \<Rightarrow> peer_conn \<Rightarrow> peer_conn" where
  "send_extended_message i p c = send_message (create_message EXTENDED (i # p)) c"

definition set_interested :: "bool \<Rightarrow> peer_conn \<Rightarrow> peer_conn" where
  "set_interested v c =
     (if am_interested c = v then c
      else send_message (create_message (if v then INTERESTED else NOT_INTERESTED) []) (c\<lparr>am_interested := v\<rparr>))"

definition set_have_piece :: "nat \<Rightarrow> bool \<Rightarrow> peer_conn \<Rightarrow> peer_conn" where
  "set_have_piece i have_it c =
     (if i < length (bitfield c)
      then let c' = c\<lparr>bitfield := (bitfield c)[i := have_it]\<rparr> in if have_it then send_have i c' else c'
      else c)"

section \<open>Bit fields\<close>

fun pack_loop :: "bool list \<Rightarrow> nat \<Rightarrow> byte \<Rightarrow> byte list" where
  "pack_loop [] cnt b = (if 0 < cnt then [b] else [])"
| "pack_loop (h # hs) cnt b =
     (let b' = (if h then b OR push_bit (7 - cnt) 1 else b) in
      if cnt + 1 = 8 then b' # pack_loop hs 0 0 else pack_loop hs (cnt + 1) b')"

definition pack_bits :: "bool list \<Rightarrow> byte list" where
  "pack_bits bits = pack_loop bits 0 0"

definition unpack_into :: "bool list \<Rightarrow> byte list \<Rightarrow> bool list" where
  "unpack_into old p =
     map (\<lambda>k. if k div 8 < length p then p ! (k div 8) AND push_bit (7 - k mod 8) 1 \<noteq> 0 else old ! k)
       [0..<length old]"

definition send_bitfield :: "peer_conn \<Rightarrow> peer_conn" where
  "send_bitfield c =
     (if list_ex id (bitfield c) then send_message (create_message BITFIELD (pack_bits (bitfield c))) c else c)"

section \<open>Handshake\<close>

definition protocol_string :: "byte list" where
  "protocol_string = bytes_of_string ''BitTorrent protocol''"

definition handshake_bytes :: "peer_conn \<Rightarrow> byte list" where
  "handshake_bytes c = [19] @ protocol_string @ replicate 8 0 @ pc_info_hash c @ pc_peer_id c"

definition handshake_valid :: "peer_conn \<Rightarrow> byte list \<Rightarrow> bool" where
  "handshake_valid c h \<longleftrightarrow>
     h ! 0 = 19 \<and> take 19 (drop 1 h) = protocol_string \<and> take 20 (drop 28 h) = pc_info_hash c"

text \<open>The result of one non-blocking \<open>send\<close> or \<open>recv\<close>.\<close>

datatype io_result = Did nat | Again | Io_error

datatype recv_result = Got "byte list" | Recv_again | Recv_error

definition send_handshake :: "io_result \<Rightarrow> peer_conn \<Rightarrow> bool \<times> peer_conn" where
  "send_handshake r c =
     (if \<not> socket_open c then (False, c)
      else let h = handshake_bytes c in
        case r of
          Io_error \<Rightarrow> (False, c)
        | Again \<Rightarrow> (True, c\<lparr>write_buffer := write_buffer c @ h\<rparr>)
        | Did n \<Rightarrow> (True, c\<lparr>sent := sent c @ take n h, write_buffer := write_buffer c @ drop n h\<rparr>))"

definition flush_write_buffer :: "io_result \<Rightarrow> peer_conn \<Rightarrow> bool \<times> peer_conn" where
  "flush_write_buffer r c =
     (if \<not> socket_open c \<or> write_buffer c = [] then (True, c)
      else case r of
          Again \<Rightarrow> (False, c)
        | Io_error \<Rightarrow> (False, c\<lparr>socket_open := False\<rparr>)
        | Did n \<Rightarrow>
            (let w = drop n (write_buffer c) in
             (w = [], c\<lparr>sent := sent c @ take n (write_buffer c), write_buffer := w\<rparr>)))"

definition unchoke_and_announce :: "peer_conn \<Rightarrow> peer_conn" where
  "unchoke_and_announce c =
     send_bitfield ((send_message (create_message UNCHOKE []) c)\<lparr>am_choking := False\<rparr>)"

definition receive_handshake_nonblocking :: "recv_result \<Rightarrow> peer_conn \<Rightarrow> bool \<times> peer_conn" where
  "receive_handshake_nonblocking r c =
     (if \<not> socket_open c then (False, c)
      else let c1 = (if hs_buffer c = [] then c\<lparr>hs_buffer := replicate 68 0, hs_received := 0\<rparr> else c);
               reset = c1\<lparr>hs_buffer := [], hs_received := 0\<rparr>
           in case r of
                Recv_again \<Rightarrow> (False, c1)
              | Recv_error \<Rightarrow> (False, reset)
              | Got d \<Rightarrow>
                  (let got = take (68 - hs_received c1) d in
                   if got = [] then (False, reset)
                   else let buf = put_bytes (hs_buffer c1) (hs_received c1) got;
                            n = hs_received c1 + length got
                        in if n < 68 then (False, c1\<lparr>hs_buffer := buf, hs_received := n\<rparr>)
                           else if \<not> handshake_valid c1 buf then (False, reset)
                           else (True, unchoke_and_announce reset)))"

text \<open>\<open>n\<close> is what \<open>send\<close> returned (0 for an error), \<open>response\<close> what the peer sends back.\<close>

definition perform_handshake :: "nat \<Rightarrow> byte list \<Rightarrow> peer_conn \<Rightarrow> bool \<times> peer_conn" where
  "perform_handshake n response c =
     (if \<not> connected c then (False, c)
      else let h = handshake_bytes c; c1 = c\<lparr>sent := sent c @ take n h\<rparr> in
        if n \<noteq> length h then (False, c1)
        else if length response < 68 then (False, c1)
        else if \<not> handshake_valid c1 (take 68 response) then (False, c1)
        else (True, unchoke_and_announce c1))"

definition respond_to_handshake :: "nat \<Rightarrow> peer_conn \<Rightarrow> bool \<times> peer_conn" where
  "respond_to_handshake n c =
     (if \<not> socket_open c then (False, c)
      else let h = handshake_bytes c; c1 = c\<lparr>sent := sent c @ take n h\<rparr> in
        if n \<noteq> length h then (False, c1) else (True, unchoke_and_announce c1))"

definition start :: "peer_conn \<Rightarrow> peer_conn" where
  "start c = (if connected c then c else c\<lparr>connected := True\<rparr>)"

section \<open>Connecting\<close>

datatype connect_result = No_socket | In_progress | Refused | Connected_now

definition start_connect :: "connect_result \<Rightarrow> peer_conn \<Rightarrow> bool \<times> peer_conn" where
  "start_connect r c =
     (if connected c then (True, c)
      else case r of
          No_socket \<Rightarrow> (False, c\<lparr>socket_open := False\<rparr>)
        | Refused \<Rightarrow> (False, c\<lparr>socket_open := False\<rparr>)
        | In_progress \<Rightarrow> (True, c\<lparr>socket_open := True\<rparr>)
        | Connected_now \<Rightarrow> (True, c\<lparr>socket_open := True\<rparr>))"

definition check_connect_result :: "bool \<Rightarrow> peer_conn \<Rightarrow> bool \<times> peer_conn" where
  "check_connect_result err c =
     (if \<not> socket_open c then (False, c) else if err then (False, c\<lparr>socket_open := False\<rparr>) else (True, c))"

text \<open>The loop that flushes the write buffer: each round has the result of \<open>select\<close> and of
  \<open>send\<close>; \<open>None\<close> when the given rounds do not suffice.\<close>

fun flush_loop :: "(bool \<times> io_result) list \<Rightarrow> peer_conn \<Rightarrow> (bool \<times> peer_conn) option" where
  "flush_loop [] c = (if write_buffer c = [] then Some (True, c) else None)"
| "flush_loop ((ready, r) # rs) c =
     (if write_buffer c = [] then Some (True, c)
      else if \<not> ready then Some (False, c\<lparr>socket_open := False\<rparr>)
      else case flush_write_buffer r c of (ok, c') \<Rightarrow>
        if \<not> ok \<and> \<not> socket_open c' then Some (False, c') else flush_loop rs c')"

definition connect :: "connect_result \<Rightarrow> bool \<Rightarrow> bool \<Rightarrow> io_result \<Rightarrow> (bool \<times> io_result) list \<Rightarrow> nat \<Rightarrow> byte list \<Rightarrow>
    peer_conn \<Rightarrow> (bool \<times> peer_conn) option" where
  "connect cr ready err hs flushes n response c =
     (case start_connect cr c of (ok, c1) \<Rightarrow>
        if \<not> ok then Some (False, c1)
        else if \<not> ready then Some (False, c1\<lparr>socket_open := False\<rparr>)
        else case check_connect_result err c1 of (ok, c2) \<Rightarrow>
          if \<not> ok then Some (False, c2)
          else case send_handshake hs c2 of (ok, c3) \<Rightarrow>
            if \<not> ok then Some (False, c3)
            else case flush_loop flushes c3 of
                None \<Rightarrow> None
              | Some (ok, c4) \<Rightarrow>
                  if \<not> ok then Some (False, c4)
                  else case perform_handshake n response c4 of (ok, c5) \<Rightarrow>
                    if \<not> ok then Some (False, c5\<lparr>socket_open := False\<rparr>)
                    else Some (True, c5\<lparr>connected := True\<rparr>))"

section \<open>Receiving\<close>

definition load32_at :: "byte list \<Rightarrow> nat \<Rightarrow> nat" where
  "load32_at p k = unat (load32 (p ! k) (p ! (k + 1)) (p ! (k + 2)) (p ! (k + 3)))"

definition receive_message :: "peer_conn \<Rightarrow> byte list \<Rightarrow> peer_message option \<times> peer_conn \<times> byte list" where
  "receive_message c inp =
     (if \<not> connected c then (None, c, inp)
      else if length inp < 4 then (None, c, [])
      else let n = load32_at inp 0; rest = drop 4 inp in
        if n = 0 then (Some (create_message KEEP_ALIVE []), c, rest)
        else if 1024 * 1024 < n then (None, c\<lparr>connected := False\<rparr>, rest)
        else if length rest < n then (None, c, [])
        else (Some (create_message (type_of_code (hd rest)) (tl (take n rest))), c, drop n rest))"

text \<open>\<open>read\<close> is \<open>PieceManager::read_piece\<close>; the calls of the piece callback are collected.\<close>

type_synonym block_call = "nat \<times> nat \<times> byte list"

definition handle_request :: "(nat \<Rightarrow> byte list option) \<Rightarrow> byte list \<Rightarrow> peer_conn \<Rightarrow> peer_conn option" where
  "handle_request read p c =
     (if length p < 12 then Some c
      else let i = load32_at p 0; b = load32_at p 4; l = load32_at p 8 in
        if am_choking c \<or> \<not> (i < length (bitfield c) \<and> bitfield c ! i) then Some c
        else case read i of
            None \<Rightarrow> None
          | Some d \<Rightarrow>
              if d = [] \<or> length d < (b + l) mod 2 ^ 32 then Some c
              else if length d < b + l then None
              else Some (send_piece i b (take l (drop b d)) c))"

definition handle_message :: "(nat \<Rightarrow> byte list option) \<Rightarrow> peer_message \<Rightarrow> peer_conn \<Rightarrow> (peer_conn \<times> block_call list) option" where
  "handle_message read m c =
     (let p = payload m in
      case mtype m of
        CHOKE \<Rightarrow> Some (c\<lparr>peer_choking := True\<rparr>, [])
      | UNCHOKE \<Rightarrow> Some (c\<lparr>peer_choking := False\<rparr>, [])
      | INTERESTED \<Rightarrow> Some (c\<lparr>peer_interested := True\<rparr>, [])
      | NOT_INTERESTED \<Rightarrow> Some (c\<lparr>peer_interested := False\<rparr>, [])
      | HAVE \<Rightarrow>
          Some (if 4 \<le> length p \<and> load32_at p 0 < length (bitfield c)
                then c\<lparr>bitfield := (bitfield c)[load32_at p 0 := True]\<rparr> else c, [])
      | BITFIELD \<Rightarrow> Some (c\<lparr>bitfield := unpack_into (resize_list (pc_pieces c) False (bitfield c)) p\<rparr>, [])
      | REQUEST \<Rightarrow> map_option (\<lambda>c'. (c', [])) (handle_request read p c)
      | PIECE \<Rightarrow> Some (c, if 8 \<le> length p then [(load32_at p 0, load32_at p 4, drop 8 p)] else [])
      | PORT \<Rightarrow> Some (if 2 \<le> length p then c\<lparr>dht_port := Some (load16 (p ! 0) (p ! 1))\<rparr> else c, [])
      | _ \<Rightarrow> Some (c, []))"

lemma receive_shorter: "receive_message c inp = (Some m, c', rest) \<Longrightarrow> length rest < length inp"
  by (auto simp: receive_message_def Let_def split: if_splits)

text \<open>The thread's loop on everything the peer sends before it closes the connection.\<close>

function run :: "(nat \<Rightarrow> byte list option) \<Rightarrow> byte list \<Rightarrow> peer_conn \<Rightarrow> (peer_conn \<times> block_call list) option" where
  "run read inp c =
     (if \<not> connected c then Some (c, [])
      else case receive_message c inp of
          (None, c1, rest) \<Rightarrow> Some (c1\<lparr>connected := False\<rparr>, [])
        | (Some m, c1, rest) \<Rightarrow>
            (case handle_message read m c1 of
               None \<Rightarrow> None
             | Some (c2, calls) \<Rightarrow> map_option (\<lambda>(c3, more). (c3, calls @ more)) (run read rest c2)))"
  by pat_completeness auto
termination
  by (relation "measure (\<lambda>(read, inp, c). length inp)") (auto dest: receive_shorter [OF sym])

declare run.simps [simp del]

section \<open>The message stream\<close>

definition message_ok :: "peer_message \<Rightarrow> bool" where
  "message_ok m \<longleftrightarrow> length (payload m) < 1024 * 1024 \<and> type_of_code (code_of_type (mtype m)) = mtype m"

lemma known_type_ok: "\<forall>b. t \<noteq> OTHER b \<Longrightarrow> type_of_code (code_of_type t) = t"
  by (cases t) (simp_all add: type_of_code_def code_of_type_def)

lemma be_bytes_4: "be_bytes 4 n = [be_bytes 4 n ! 0, be_bytes 4 n ! 1, be_bytes 4 n ! 2, be_bytes 4 n ! 3]"
  by (rule list4) simp

lemma load32_at_be:
  assumes "take 4 (drop k p) = be_bytes 4 n"
  shows "load32_at p k = n mod 2 ^ 32"
proof -
  have "length (take 4 (drop k p)) = 4" using assms by simp
  then have k: "k + 4 \<le> length p" by simp
  have "be_bytes 4 n = [p ! k, p ! (k + 1), p ! (k + 2), p ! (k + 3)]"
    unfolding assms [symmetric] using k by (subst list4) simp_all
  then have "be_val [p ! k, p ! (k + 1), p ! (k + 2), p ! (k + 3)] = n mod 256 ^ 4"
    by (metis be_val_bytes)
  then show ?thesis by (simp add: load32_at_def load32_be unat_of_nat)
qed

lemma htonl_bytes_be: "htonl_bytes n = be_bytes 4 n"
proof -
  have "unat (word_of_nat n :: 32 word) = n mod 256 ^ 4" by (simp add: unat_of_nat)
  then show ?thesis by (simp only: htonl_bytes_def store32_be be_bytes_mod)
qed

lemma receive_serialized:
  assumes "connected c" "message_ok m"
  shows "receive_message c (serialize_message m @ r) = (Some m, c, r)"
proof -
  let ?n = "1 + length (payload m)"
  have "load32_at (serialize_message m @ r) 0 = ?n mod 2 ^ 32"
    by (rule load32_at_be) (simp add: serialize_message_def)
  then have n: "load32_at (serialize_message m @ r) 0 = ?n" using assms by (simp add: message_ok_def)
  have rest: "drop 4 (serialize_message m @ r) = code_of_type (mtype m) # payload m @ r"
    by (simp add: serialize_message_def)
  show ?thesis
    using assms by (simp add: receive_message_def Let_def n rest message_ok_def create_message_def)
      (simp add: serialize_message_def)
qed

definition idle_conn :: peer_conn where
  "idle_conn = \<lparr>pc_info_hash = [], pc_peer_id = [], pc_pieces = 0, socket_open = True, connected = True,
     am_choking = True, am_interested = False, peer_choking = True, peer_interested = False, bitfield = [],
     dht_port = None, hs_buffer = [], hs_received = 0, write_buffer = [], sends = [], sent = []\<rparr>"

interpretation wire: stream_codec serialize_message
    "\<lambda>inp. case receive_message idle_conn inp of (Some m, _, r) \<Rightarrow> Some (m, r) | (None, _, _) \<Rightarrow> None" message_ok
  by unfold_locales (simp add: receive_serialized idle_conn_def)

text \<open>What the loop does on whole messages.\<close>

fun handle_all :: "(nat \<Rightarrow> byte list option) \<Rightarrow> peer_message list \<Rightarrow> peer_conn \<Rightarrow> (peer_conn \<times> block_call list) option" where
  "handle_all read [] c = Some (c, [])"
| "handle_all read (m # ms) c =
     (if \<not> connected c then Some (c, [])
      else case handle_message read m c of
          None \<Rightarrow> None
        | Some (c', calls) \<Rightarrow> map_option (\<lambda>(c'', more). (c'', calls @ more)) (handle_all read ms c'))"

lemma run_messages:
  assumes "\<forall>m \<in> set ms. message_ok m"
  shows "run read (concat (map serialize_message ms)) c =
    map_option (\<lambda>(c', calls). (c'\<lparr>connected := False\<rparr>, calls)) (handle_all read ms c)"
  using assms
proof (induction ms arbitrary: c)
  case Nil
  have "\<not> connected c \<Longrightarrow> c\<lparr>connected := False\<rparr> = c" by simp
  then show ?case by (subst run.simps) (simp add: receive_message_def)
next
  case (Cons m ms)
  have d: "\<not> connected c \<Longrightarrow> c\<lparr>connected := False\<rparr> = c" by simp
  from Cons receive_serialized [of c m "concat (map serialize_message ms)"] show ?case
    by (subst run.simps) (simp add: d option.map_comp comp_def case_prod_unfold split: option.splits)
qed

section \<open>Bit fields on the wire\<close>

lemma pack_loop_bits:
  assumes "cnt < 8" "\<forall>j \<le> 7 - cnt. \<not> bit b j"
  shows "length (pack_loop hs cnt b) = (cnt + length hs + 7) div 8 \<and>
    (\<forall>k < length hs. bit (pack_loop hs cnt b ! ((cnt + k) div 8)) (7 - (cnt + k) mod 8) = hs ! k) \<and>
    (\<forall>j < cnt. bit (pack_loop hs cnt b ! 0) (7 - j) = bit b (7 - j))"
  using assms
proof (induction hs cnt b rule: pack_loop.induct)
  case (2 h hs cnt b)
  define b' where "b' = (if h then b OR push_bit (7 - cnt) 1 else b)"
  have this_bit: "bit b' (7 - cnt) = h" using 2(3,4) less_imp_diff_less [of 7 8 cnt] by (simp add: b'_def bit_simps)
  have others: "bit b' j = bit b j" if "j \<noteq> 7 - cnt" "j < 8" for j
    using that by (simp add: b'_def bit_simps)
  show ?case
  proof (cases "cnt + 1 = 8")
    case True
    then have c: "cnt = 7" by simp
    have IH: "length (pack_loop hs 0 0) = (0 + length hs + 7) div 8 \<and>
        (\<forall>k < length hs. bit (pack_loop hs 0 0 ! ((0 + k) div 8)) (7 - (0 + k) mod 8) = hs ! k)"
      using 2(1) [OF b'_def True] by simp
    have eq: "pack_loop (h # hs) cnt b = b' # pack_loop hs 0 0" using c by (simp add: b'_def Let_def)
    have "bit (pack_loop (h # hs) cnt b ! ((cnt + k) div 8)) (7 - (cnt + k) mod 8) = (h # hs) ! k"
      if "k < length (h # hs)" for k
    proof (cases k)
      case 0
      then show ?thesis unfolding eq using this_bit c by simp
    next
      case (Suc k')
      then have "(cnt + k) div 8 = Suc (k' div 8)" "(cnt + k) mod 8 = k' mod 8" using c by simp_all
      with IH that Suc show ?thesis unfolding eq by simp
    qed
    moreover have "bit (pack_loop (h # hs) cnt b ! 0) (7 - j) = bit b (7 - j)" if "j < cnt" for j
      unfolding eq using others [of "7 - j"] that c by simp
    moreover have "length (pack_loop (h # hs) cnt b) = (cnt + length (h # hs) + 7) div 8"
      unfolding eq using IH c by simp
    ultimately show ?thesis by blast
  next
    case False
    have z: "\<forall>j \<le> 7 - (cnt + 1). \<not> bit b' j" using 2(3,4) others False by auto
    have IH: "length (pack_loop hs (cnt + 1) b') = (cnt + 1 + length hs + 7) div 8 \<and>
        (\<forall>k < length hs. bit (pack_loop hs (cnt + 1) b' ! ((cnt + 1 + k) div 8)) (7 - (cnt + 1 + k) mod 8) = hs ! k) \<and>
        (\<forall>j < cnt + 1. bit (pack_loop hs (cnt + 1) b' ! 0) (7 - j) = bit b' (7 - j))"
      using 2(2) [OF b'_def False] 2(3) False z by simp
    have eq: "pack_loop (h # hs) cnt b = pack_loop hs (cnt + 1) b'" using False by (simp add: b'_def Let_def)
    have "bit (pack_loop (h # hs) cnt b ! ((cnt + k) div 8)) (7 - (cnt + k) mod 8) = (h # hs) ! k"
      if "k < length (h # hs)" for k
    proof (cases k)
      case 0
      then show ?thesis unfolding eq using IH this_bit 2(3) by simp
    next
      case (Suc k')
      then show ?thesis unfolding eq using IH that by simp
    qed
    moreover have "bit (pack_loop (h # hs) cnt b ! 0) (7 - j) = bit b (7 - j)" if "j < cnt" for j
      unfolding eq using IH others [of "7 - j"] that 2(3) by simp
    moreover have "length (pack_loop (h # hs) cnt b) = (cnt + length (h # hs) + 7) div 8"
      unfolding eq using IH by simp
    ultimately show ?thesis by blast
  qed
qed (auto simp: less_Suc_eq_le)

lemma unpack_pack: "length old = length bits \<Longrightarrow> unpack_into old (pack_bits bits) = bits"
proof -
  assume l: "length old = length bits"
  have p: "length (pack_bits bits) = (length bits + 7) div 8"
    "\<And>k. k < length bits \<Longrightarrow> bit (pack_bits bits ! (k div 8)) (7 - k mod 8) = bits ! k"
    using pack_loop_bits [of 0 0 bits] by (simp_all add: pack_bits_def)
  have "k div 8 < length (pack_bits bits)" if "k < length bits" for k
    using that p(1) by simp
  then show ?thesis using l p(2)
    by (intro nth_equalityI) (simp_all add: unpack_into_def bit_iff_and_push_bit_not_eq_0)
qed

section \<open>Handshakes in pieces\<close>

text \<open>Reading a handshake in several calls, as the socket delivers it.\<close>

fun feed :: "byte list list \<Rightarrow> peer_conn \<Rightarrow> bool \<times> peer_conn" where
  "feed [] c = (False, c)"
| "feed [d] c = receive_handshake_nonblocking (Got d) c"
| "feed (d # ds) c = feed ds (snd (receive_handshake_nonblocking (Got d) c))"

definition awaiting :: "byte list \<Rightarrow> peer_conn \<Rightarrow> bool" where
  "awaiting m c \<longleftrightarrow> socket_open c \<and> length m < 68 \<and>
     (if m = [] then hs_buffer c = [] else length (hs_buffer c) = 68 \<and> hs_received c = length m \<and>
        take (length m) (hs_buffer c) = m)"

lemma handshake_valid_update [simp]:
  "handshake_valid (c\<lparr>hs_buffer := b, hs_received := n\<rparr>) h = handshake_valid c h"
  by (simp add: handshake_valid_def)

lemma receive_partial:
  assumes w: "awaiting m c" and d: "d \<noteq> []" "length m + length d < 68"
  defines "r \<equiv> receive_handshake_nonblocking (Got d) c"
  shows "\<not> fst r" "awaiting (m @ d) (snd r)" "handshake_valid (snd r) = handshake_valid c"
    "connected (snd r) = connected c" "sent (snd r) = sent c"
proof -
  define c1 where "c1 = (if hs_buffer c = [] then c\<lparr>hs_buffer := replicate 68 0, hs_received := 0\<rparr> else c)"
  have c1: "hs_received c1 = length m" "length (hs_buffer c1) = 68" "take (length m) (hs_buffer c1) = m"
    "socket_open c1" "handshake_valid c1 = handshake_valid c" "connected c1 = connected c" "sent c1 = sent c"
    using w by (auto simp: awaiting_def c1_def handshake_valid_def fun_eq_iff split: if_splits)
  have "r = (False, c1\<lparr>hs_buffer := put_bytes (hs_buffer c1) (length m) d, hs_received := length m + length d\<rparr>)"
    using w d c1 by (simp add: r_def receive_handshake_nonblocking_def Let_def c1_def [symmetric] awaiting_def)
  then show "\<not> fst r" "awaiting (m @ d) (snd r)" "handshake_valid (snd r) = handshake_valid c"
    "connected (snd r) = connected c" "sent (snd r) = sent c"
    using c1 d take_put_bytes [of "length m" "hs_buffer c1" d]
    by (auto simp: awaiting_def handshake_valid_def fun_eq_iff)
qed

lemma receive_final:
  assumes w: "awaiting m c" and d: "d \<noteq> []" "length m + length d = 68"
  defines "r \<equiv> receive_handshake_nonblocking (Got d) c"
  shows "fst r = handshake_valid c (m @ d)"
    "fst r \<Longrightarrow> snd r = unchoke_and_announce (c\<lparr>hs_buffer := [], hs_received := 0\<rparr>)"
proof -
  define c1 where "c1 = (if hs_buffer c = [] then c\<lparr>hs_buffer := replicate 68 0, hs_received := 0\<rparr> else c)"
  have c1: "hs_received c1 = length m" "length (hs_buffer c1) = 68" "take (length m) (hs_buffer c1) = m"
    "handshake_valid c1 = handshake_valid c" "c1\<lparr>hs_buffer := [], hs_received := 0\<rparr> = c\<lparr>hs_buffer := [], hs_received := 0\<rparr>"
    using w by (auto simp: awaiting_def c1_def handshake_valid_def fun_eq_iff split: if_splits)
  have "put_bytes (hs_buffer c1) (length m) d = m @ d"
    using c1 d put_bytes_full [of "length m" d "hs_buffer c1"] by simp
  with w d c1 have "r = (if handshake_valid c (m @ d)
      then (True, unchoke_and_announce (c\<lparr>hs_buffer := [], hs_received := 0\<rparr>))
      else (False, c\<lparr>hs_buffer := [], hs_received := 0\<rparr>))"
    by (simp add: r_def receive_handshake_nonblocking_def Let_def c1_def [symmetric] awaiting_def)
  then show "fst r = handshake_valid c (m @ d)"
    "fst r \<Longrightarrow> snd r = unchoke_and_announce (c\<lparr>hs_buffer := [], hs_received := 0\<rparr>)"
    by (auto split: if_splits)
qed

lemma feed_valid:
  assumes "awaiting m c" "ds \<noteq> []" "\<forall>d \<in> set ds. d \<noteq> []" "length m + length (concat ds) = 68"
  shows "fst (feed ds c) = handshake_valid c (m @ concat ds)"
  using assms
proof (induction ds c arbitrary: m rule: feed.induct)
  case (2 d c)
  then show ?case using receive_final [of m c d] by simp
next
  case (3 d e ds c)
  have "0 < length e" using 3(4) by (simp only: length_greater_0_conv list.set insert_iff simp_thms)
  moreover have "length m + length d + length e + length (concat ds) = 68" using 3(5) by simp
  ultimately have lt: "length m + length d < 68" by linarith
  note p = receive_partial [OF 3(2) _ lt]
  have "fst (feed (e # ds) (snd (receive_handshake_nonblocking (Got d) c))) =
      handshake_valid (snd (receive_handshake_nonblocking (Got d) c)) ((m @ d) @ concat (e # ds))"
    using 3(4,5) p(2) by (intro 3(1)) auto
  then show ?case using p(3) 3(4) by simp
qed simp

lemma length_protocol [simp]: "length protocol_string = 19"
  by (simp add: protocol_string_def)

lemma own_handshake_valid:
  assumes "length (pc_info_hash c) = 20" "length (pc_peer_id c) = 20"
  shows "length (handshake_bytes c) = 68" "pc_info_hash c' = pc_info_hash c \<Longrightarrow> handshake_valid c' (handshake_bytes c)"
  using assms by (simp_all add: handshake_bytes_def handshake_valid_def)

lemma not_connected_silent:
  "\<not> connected c \<Longrightarrow> send_message m c = c"
  by (simp add: send_message_def)

section \<open>Serving a block\<close>

lemma send_loop_all: "send_loop [] d = (d, True, [])"
  by (cases d) simp_all

lemma send_message_all:
  "connected c \<Longrightarrow> sends c = [] \<Longrightarrow> send_message m c = c\<lparr>sent := sent c @ serialize_message m\<rparr>"
  by (simp add: send_message_def send_loop_all)

lemma request_fields:
  assumes "i < 2 ^ 32" "b < 2 ^ 32" "l < 2 ^ 32"
  shows "load32_at (htonl_bytes i @ htonl_bytes b @ htonl_bytes l) 0 = i"
    "load32_at (htonl_bytes i @ htonl_bytes b @ htonl_bytes l) 4 = b"
    "load32_at (htonl_bytes i @ htonl_bytes b @ htonl_bytes l) 8 = l"
    "load32_at (htonl_bytes i @ htonl_bytes b @ d) 0 = i"
    "load32_at (htonl_bytes i @ htonl_bytes b @ d) 4 = b"
  using load32_at_be [of 0 "htonl_bytes i @ htonl_bytes b @ htonl_bytes l" i]
    load32_at_be [of 4 "htonl_bytes i @ htonl_bytes b @ htonl_bytes l" b]
    load32_at_be [of 8 "htonl_bytes i @ htonl_bytes b @ htonl_bytes l" l]
    load32_at_be [of 0 "htonl_bytes i @ htonl_bytes b @ d" i]
    load32_at_be [of 4 "htonl_bytes i @ htonl_bytes b @ d" b] assms
  by (simp_all add: htonl_bytes_be)

section \<open>Properties\<close>

text \<open>C19: On the concatenation of serialized messages the connection's loop handles exactly these
  messages in order, until one of them closes the connection.\<close>

theorem run_handles_messages:
  assumes "\<forall>m \<in> set ms. message_ok m"
  shows "run read (concat (map serialize_message ms)) c =
    map_option (\<lambda>(c', calls). (c'\<lparr>connected := False\<rparr>, calls)) (handle_all read ms c)"
  using assms by (rule run_messages)

theorem run_handles_messages_witness:
  "run (\<lambda>_. None) (concat (map serialize_message [create_message UNCHOKE [], create_message PIECE [0, 0, 0, 1, 0, 0, 0, 2, 9, 8]])) idle_conn =
     Some (idle_conn\<lparr>peer_choking := False, connected := False\<rparr>, [(1, 2, [9, 8])])"
  by (subst run_handles_messages)
    (auto simp: message_ok_def create_message_def type_of_code_def code_of_type_def handle_message_def idle_conn_def
      load32_at_def load32_be be_val_def)

text \<open>The bit field a connection sends is the bit field its peer then holds for it.\<close>

theorem bitfield_exchange:
  assumes "length (bitfield c) = pc_pieces c'"
  shows "\<exists>c''. handle_message read (create_message BITFIELD (pack_bits (bitfield c))) c' = Some (c'', []) \<and>
    bitfield c'' = bitfield c"
  using unpack_pack [of "resize_list (pc_pieces c') False (bitfield c')" "bitfield c"] assms
  by (simp add: handle_message_def create_message_def resize_list_def)

theorem bitfield_exchange_witness:
  "\<exists>c''. handle_message (\<lambda>_. None) (create_message BITFIELD (pack_bits [True, False, True]))
       (idle_conn\<lparr>pc_pieces := 3\<rparr>) = Some (c'', []) \<and> bitfield c'' = [True, False, True]"
  using bitfield_exchange [of "idle_conn\<lparr>bitfield := [True, False, True]\<rparr>" "idle_conn\<lparr>pc_pieces := 3\<rparr>"]
  by (simp add: idle_conn_def)

text \<open>Sixty-eight bytes of a handshake are accepted, however the socket cuts them, exactly when
  they carry the protocol string and the connection's info hash; the handshake that a peer with
  the same info hash sends is accepted.\<close>

theorem handshake_in_fragments:
  assumes "socket_open c" "hs_buffer c = []" "ds \<noteq> []" "\<forall>d \<in> set ds. d \<noteq> []" "length (concat ds) = 68"
  shows "fst (feed ds c) = handshake_valid c (concat ds) \<and>
    (pc_info_hash p = pc_info_hash c \<and> length (pc_info_hash p) = 20 \<and> length (pc_peer_id p) = 20 \<and>
     concat ds = handshake_bytes p \<longrightarrow> fst (feed ds c))"
proof -
  have "awaiting [] c" using assms(1,2) by (simp add: awaiting_def)
  from feed_valid [OF this assms(3,4)] assms(5) have "fst (feed ds c) = handshake_valid c (concat ds)" by simp
  then show ?thesis using own_handshake_valid(2) [of p c] by metis
qed

theorem handshake_in_fragments_witness:
  "fst (feed [take 5 (handshake_bytes (idle_conn\<lparr>pc_info_hash := replicate 20 7, pc_peer_id := replicate 20 1\<rparr>)),
       drop 5 (handshake_bytes (idle_conn\<lparr>pc_info_hash := replicate 20 7, pc_peer_id := replicate 20 1\<rparr>))]
     (idle_conn\<lparr>pc_info_hash := replicate 20 7\<rparr>))"
proof -
  let ?c = "idle_conn\<lparr>pc_info_hash := replicate 20 7\<rparr>"
  let ?p = "idle_conn\<lparr>pc_info_hash := replicate 20 7, pc_peer_id := replicate 20 1\<rparr>"
  let ?ds = "[take 5 (handshake_bytes ?p), drop 5 (handshake_bytes ?p)]"
  have l: "length (handshake_bytes ?p) = 68" by (rule own_handshake_valid(1)) simp_all
  then have "take 5 (handshake_bytes ?p) \<noteq> []" "drop 5 (handshake_bytes ?p) \<noteq> []" by auto
  then have ds: "?ds \<noteq> []" "\<forall>d \<in> set ?ds. d \<noteq> []" "length (concat ?ds) = 68" "concat ?ds = handshake_bytes ?p"
    using l by simp_all
  have c: "socket_open ?c" "hs_buffer ?c = []" by (simp_all add: idle_conn_def)
  have p: "pc_info_hash ?p = pc_info_hash ?c" "length (pc_info_hash ?p) = 20" "length (pc_peer_id ?p) = 20" by simp_all
  from handshake_in_fragments [OF c ds(1-3), of ?p] p ds(4) show ?thesis by blast
qed



text \<open>When the non-blocking handshake completes the connection is not yet marked as connected:
  the unchoke and the bit field are dropped, although the connection counts itself as unchoking.\<close>

theorem handshake_announces_nothing:
  assumes "\<not> connected c" "receive_handshake_nonblocking r c = (True, c')"
  shows "sent c' = sent c \<and> \<not> am_choking c' \<and> \<not> connected c'"
  using assms
  by (auto simp: receive_handshake_nonblocking_def Let_def unchoke_and_announce_def send_bitfield_def
      not_connected_silent split: if_splits recv_result.splits)

theorem handshake_announces_nothing_witness:
  "\<exists>c'. receive_handshake_nonblocking (Got ([19] @ protocol_string @ replicate 48 0))
     (idle_conn\<lparr>connected := False, pc_info_hash := replicate 20 0\<rparr>) = (True, c') \<and> sent c' = []"
proof -
  let ?c = "idle_conn\<lparr>connected := False, pc_info_hash := replicate 20 0\<rparr>"
  let ?h = "[19] @ protocol_string @ replicate 48 0"
  have "awaiting [] ?c" by (simp add: awaiting_def idle_conn_def)
  then have "fst (receive_handshake_nonblocking (Got ?h) ?c)"
    using receive_final(1) [of "[]" ?c ?h] by (simp add: handshake_valid_def)
  then obtain c' where "receive_handshake_nonblocking (Got ?h) ?c = (True, c')" by (metis prod.collapse)
  with handshake_announces_nothing [of ?c "Got ?h" c'] show ?thesis by (simp add: idle_conn_def)
qed

lemma flush_loop_connected: "flush_loop rs c = Some (ok, c') \<Longrightarrow> connected c' = connected c"
  by (induction rs c rule: flush_loop.induct)
    (auto simp: flush_write_buffer_def Let_def split: if_splits io_result.splits prod.splits)

text \<open>The blocking \<open>connect\<close> of a connection that is not connected fails whatever the network
  does, because \<open>perform_handshake\<close> requires the connection to be connected already.\<close>

theorem connect_never_succeeds:
  assumes "\<not> connected c"
  shows "connect cr ready err hs flushes n response c \<noteq> Some (True, c')"
proof -
  have a: "start_connect cr c = (ok, c1) \<Longrightarrow> \<not> connected c1" for ok c1
    using assms by (auto simp: start_connect_def split: connect_result.splits)
  have b: "check_connect_result err c1 = (ok, c2) \<Longrightarrow> connected c2 = connected c1" for ok c1 c2
    by (auto simp: check_connect_result_def split: if_splits)
  have d: "send_handshake hs c2 = (ok, c3) \<Longrightarrow> connected c3 = connected c2" for ok c2 c3
    by (auto simp: send_handshake_def Let_def split: if_splits io_result.splits)
  show ?thesis
    by (auto simp: connect_def perform_handshake_def split: prod.splits if_splits option.splits
        dest!: a b d flush_loop_connected)
qed

theorem connect_never_succeeds_witness:
  "connect Connected_now True False (Did 68) [] 68 (handshake_bytes idle_conn) (idle_conn\<lparr>connected := False\<rparr>) \<noteq> Some (True, idle_conn)"
  by (rule connect_never_succeeds) simp

text \<open>The range check of a request adds 32-bit numbers: a request whose begin and length wrap
  around passes it and is read outside the piece.\<close>

theorem request_reads_outside:
  "handle_message (\<lambda>_. Some [1, 2, 3, 4]) (create_message REQUEST (htonl_bytes 0 @ htonl_bytes (2 ^ 32 - 1) @ htonl_bytes 2))
     (idle_conn\<lparr>am_choking := False, bitfield := [True]\<rparr>) = None"
proof -
  have "(0 :: nat) < 2 ^ 32" "(2 :: nat) ^ 32 - 1 < 2 ^ 32" "(2 :: nat) < 2 ^ 32" by simp_all
  note f = request_fields [OF this]
  show ?thesis
    by (simp add: handle_message_def create_message_def handle_request_def Let_def f(1,2,3) [simplified] idle_conn_def)
      (simp add: htonl_bytes_def)
qed

end
