(* ===== verification/Dht_Node.thy ===== *)
theory Dht_Node
  imports Interfaces
begin

text \<open>
  \<open>src/dht/node.cpp\<close>: node ids with the XOR metric, k-buckets and the routing table.  A
  time point is a number of nanoseconds; the clock is read once per operation (\<open>now\<close>).
  \<open>std::array\<close> is a list whose length \<open>id_ok\<close> and \<open>node_ok\<close> fix.
\<close>

section \<open>Node ids\<close>

type_synonym node_id = "byte list"

abbreviation id_ok :: "node_id \<Rightarrow> bool" where
  "id_ok i \<equiv> length i = 20"

definition zero_id :: node_id where
  "zero_id = replicate 20 0"

text \<open>\<open>std::stoi(s, nullptr, 16)\<close> on two characters: there is no room for a \<open>0x\<close> prefix with a digit.\<close>

definition stoi16 :: "string \<Rightarrow> int res" where
  "stoi16 s =
     (let s1 = dropWhile c_isspace s;
          neg = (s1 \<noteq> [] \<and> hd s1 = CHR ''-'');
          s2 = (if s1 \<noteq> [] \<and> (hd s1 = CHR ''-'' \<or> hd s1 = CHR ''+'') then tl s1 else s1);
          ds = takeWhile (\<lambda>c. hex_digit_val c \<noteq> None) s2;
          v = foldl (\<lambda>a c. a * 16 + int (the (hex_digit_val c))) 0 ds
      in if ds = [] then Inl ''stoi'' else Inr (if neg then - v else v))"

fun hex_bytes :: "string \<Rightarrow> byte list res" where
  "hex_bytes (a # b # s) = ebind (stoi16 [a, b]) (\<lambda>v. ebind (hex_bytes s) (\<lambda>bs. Inr (word_of_int v # bs)))"
| "hex_bytes _ = Inr []"

definition node_id_of_hex :: "string \<Rightarrow> node_id res" where
  "node_id_of_hex s = (if length s \<noteq> 40 then Inr zero_id else hex_bytes s)"

definition to_hex :: "byte list \<Rightarrow> string" where
  "to_hex bs = concat (map (\<lambda>b. [hex_digit (unat b div 16), hex_digit (unat b mod 16)]) bs)"

definition distance :: "node_id \<Rightarrow> node_id \<Rightarrow> node_id" where
  "distance a b = map2 (XOR) a b"

definition leading_zeros :: "byte \<Rightarrow> nat" where
  "leading_zeros b = length (takeWhile (\<lambda>k. b AND push_bit k 1 = 0) [7, 6, 5, 4, 3, 2, 1, 0])"

fun bucket_from :: "nat \<Rightarrow> node_id \<Rightarrow> nat" where
  "bucket_from i [] = 0"
| "bucket_from i (b # bs) = (if b \<noteq> 0 then 159 - (i * 8 + leading_zeros b) else bucket_from (i + 1) bs)"

definition bucket_index :: "node_id \<Rightarrow> nat" where
  "bucket_index i = bucket_from 0 i"

section \<open>Nodes\<close>

record dht_node =
  nid :: node_id
  nip :: "byte list"
  nport :: "16 word"
  last_seen :: int
  last_query :: int
  failed_queries :: int

datatype node_state = Good | Questionable | Bad

definition minutes :: "int \<Rightarrow> int" where
  "minutes d = (if 0 \<le> d then d div 60000000000 else - ((- d) div 60000000000))"

definition get_state :: "int \<Rightarrow> dht_node \<Rightarrow> node_state" where
  "get_state now n =
     (let t = minutes (now - last_seen n) in
      if 3 \<le> failed_queries n then Bad
      else if t < 15 then Good
      else if t < 60 then Questionable
      else Bad)"

definition is_good :: "int \<Rightarrow> dht_node \<Rightarrow> bool" where
  "is_good now n \<longleftrightarrow> get_state now n = Good"

section \<open>K-buckets\<close>

fun update_first :: "('a \<Rightarrow> bool) \<Rightarrow> ('a \<Rightarrow> 'a) \<Rightarrow> 'a list \<Rightarrow> 'a list" where
  "update_first P f [] = []"
| "update_first P f (x # xs) = (if P x then f x # xs else x # update_first P f xs)"

definition try_replace_bad_node :: "int \<Rightarrow> dht_node \<Rightarrow> dht_node list \<Rightarrow> bool \<times> dht_node list" where
  "try_replace_bad_node now new b =
     (if list_ex (\<lambda>n. get_state now n = Bad) b
      then (True, update_first (\<lambda>n. get_state now n = Bad) (\<lambda>_. new) b) else (False, b))"

definition bucket_add :: "int \<Rightarrow> dht_node \<Rightarrow> dht_node list \<Rightarrow> bool \<times> dht_node list" where
  "bucket_add now node b =
     (if list_ex (\<lambda>n. nid n = nid node) b then (True, update_first (\<lambda>n. nid n = nid node) (\<lambda>_. node) b)
      else if length b < 8 then (True, b @ [node])
      else try_replace_bad_node now node b)"

definition bucket_remove :: "node_id \<Rightarrow> dht_node list \<Rightarrow> dht_node list" where
  "bucket_remove i b = filter (\<lambda>n. nid n \<noteq> i) b"

definition bucket_get :: "node_id \<Rightarrow> dht_node list \<Rightarrow> dht_node option" where
  "bucket_get i b = find (\<lambda>n. nid n = i) b"

definition get_good_nodes :: "int \<Rightarrow> dht_node list \<Rightarrow> dht_node list" where
  "get_good_nodes now b = filter (is_good now) b"

definition bucket_seen :: "int \<Rightarrow> node_id \<Rightarrow> dht_node list \<Rightarrow> dht_node list" where
  "bucket_seen now i b = update_first (\<lambda>n. nid n = i) (\<lambda>n. n\<lparr>last_seen := now, failed_queries := 0\<rparr>) b"

definition bucket_query_sent :: "int \<Rightarrow> node_id \<Rightarrow> dht_node list \<Rightarrow> dht_node list" where
  "bucket_query_sent now i b = update_first (\<lambda>n. nid n = i) (\<lambda>n. n\<lparr>last_query := now\<rparr>) b"

definition bucket_query_failed :: "node_id \<Rightarrow> dht_node list \<Rightarrow> dht_node list" where
  "bucket_query_failed i b = update_first (\<lambda>n. nid n = i) (\<lambda>n. n\<lparr>failed_queries := failed_queries n + 1\<rparr>) b"

section \<open>The routing table\<close>

record routing_table =
  own_id :: node_id
  buckets :: "dht_node list list"

definition new_table :: "node_id \<Rightarrow> routing_table" where
  "new_table i = \<lparr>own_id = i, buckets = replicate 160 []\<rparr>"

definition get_bucket_index :: "routing_table \<Rightarrow> node_id \<Rightarrow> nat" where
  "get_bucket_index rt i = bucket_index (distance (own_id rt) i)"

definition on_bucket :: "node_id \<Rightarrow> (dht_node list \<Rightarrow> dht_node list) \<Rightarrow> routing_table \<Rightarrow> routing_table" where
  "on_bucket i f rt =
     (let k = get_bucket_index rt i in
      if k < 160 then rt\<lparr>buckets := (buckets rt)[k := f (buckets rt ! k)]\<rparr> else rt)"

definition rt_add_node :: "int \<Rightarrow> dht_node \<Rightarrow> routing_table \<Rightarrow> routing_table" where
  "rt_add_node now node rt =
     (if nid node = own_id rt then rt else on_bucket (nid node) (\<lambda>b. snd (bucket_add now node b)) rt)"

definition rt_remove_node :: "node_id \<Rightarrow> routing_table \<Rightarrow> routing_table" where
  "rt_remove_node i rt = on_bucket i (bucket_remove i) rt"

definition rt_update_last_seen :: "int \<Rightarrow> node_id \<Rightarrow> routing_table \<Rightarrow> routing_table" where
  "rt_update_last_seen now i rt = on_bucket i (bucket_seen now i) rt"

definition rt_mark_query_sent :: "int \<Rightarrow> node_id \<Rightarrow> routing_table \<Rightarrow> routing_table" where
  "rt_mark_query_sent now i rt = on_bucket i (bucket_query_sent now i) rt"

definition rt_mark_query_failed :: "node_id \<Rightarrow> routing_table \<Rightarrow> routing_table" where
  "rt_mark_query_failed i rt = on_bucket i (bucket_query_failed i) rt"

definition find_closest_nodes :: "int \<Rightarrow> node_id \<Rightarrow> nat \<Rightarrow> routing_table \<Rightarrow> dht_node list" where
  "find_closest_nodes now target count rt =
     take count (sort_key (\<lambda>n. distance (nid n) target) (concat (map (get_good_nodes now) (buckets rt))))"

definition get_all_nodes :: "routing_table \<Rightarrow> dht_node list" where
  "get_all_nodes rt = concat (buckets rt)"

definition table_size :: "routing_table \<Rightarrow> nat" where
  "table_size rt = sum_list (map length (buckets rt))"

definition get_nodes_needing_refresh :: "int \<Rightarrow> routing_table \<Rightarrow> dht_node list" where
  "get_nodes_needing_refresh now rt =
     filter (\<lambda>n. 15 \<le> minutes (now - last_query n)) (concat (buckets rt))"

subsection \<open>Persistence\<close>

definition encode_entry :: "node_id \<times> byte list \<times> 16 word \<Rightarrow> byte list" where
  "encode_entry e = (case e of (i, ip, port) \<Rightarrow> i @ ip @ store16 port)"

definition decode_entry :: "byte list \<Rightarrow> node_id \<times> byte list \<times> 16 word" where
  "decode_entry d = (take 20 d, take 4 (drop 20 d), load16 (d ! 24) (d ! 25))"

definition entry_of :: "dht_node \<Rightarrow> node_id \<times> byte list \<times> 16 word" where
  "entry_of n = (nid n, nip n, nport n)"

definition rt_serialize :: "int \<Rightarrow> routing_table \<Rightarrow> byte list" where
  "rt_serialize now rt =
     (let good = concat (map (get_good_nodes now) (buckets rt)) in
      own_id rt @ store32 (word_of_nat (length good)) @ concat (map (\<lambda>n. encode_entry (entry_of n)) good))"

fun read_entries :: "nat \<Rightarrow> byte list \<Rightarrow> (node_id \<times> byte list \<times> 16 word) list" where
  "read_entries 0 d = []"
| "read_entries (Suc k) d = (if length d < 26 then [] else decode_entry d # read_entries k (drop 26 d))"

definition loaded_node :: "int \<Rightarrow> node_id \<times> byte list \<times> 16 word \<Rightarrow> dht_node" where
  "loaded_node now e = (case e of (i, ip, port) \<Rightarrow>
     \<lparr>nid = i, nip = ip, nport = port, last_seen = now, last_query = now - 20 * 60000000000, failed_queries = 0\<rparr>)"

definition rt_deserialize :: "int \<Rightarrow> byte list \<Rightarrow> routing_table \<Rightarrow> bool \<times> routing_table" where
  "rt_deserialize now data rt =
     (if length data < 24 then (False, rt)
      else let count = unat (load32 (data ! 20) (data ! 21) (data ! 22) (data ! 23));
               entries = read_entries count (drop 24 data)
           in (True, foldl (\<lambda>t e. rt_add_node now (loaded_node now e) t) (rt\<lparr>own_id := take 20 data\<rparr>) entries))"

section \<open>The metric\<close>

lemma length_distance [simp]: "length (distance a b) = min (length a) (length b)"
  by (simp add: distance_def)

lemma be_val_distance: "length a = length b \<Longrightarrow> be_val (distance a b) = be_val a XOR be_val b"
  by (simp add: distance_def be_val_xor)

lemma distance_commute: "distance a b = distance b a"
  by (simp add: distance_def zip_commute [of a b] xor.commute comp_def case_prod_unfold)

lemma distance_zero_iff: "length a = length b \<Longrightarrow> be_val (distance a b) = 0 \<longleftrightarrow> a = b"
proof -
  assume l: "length a = length b"
  have "be_val a XOR be_val b = 0 \<longleftrightarrow> be_val a = be_val b"
    by (metis xor.assoc xor.right_neutral xor_self_eq)
  with l show ?thesis by (simp add: be_val_distance be_val_inject)
qed

lemma distance_triangle:
  assumes "length a = length b" "length b = length c"
  shows "be_val (distance a c) \<le> be_val (distance a b) + be_val (distance b c)"
proof -
  have "be_val a XOR be_val c = (be_val a XOR be_val b) XOR (be_val b XOR be_val c)"
    by (metis xor.assoc xor.right_neutral xor_self_eq)
  with assms xor_le_add show ?thesis by (simp add: be_val_distance)
qed

lemma distance_inj: "length a = length t \<Longrightarrow> length b = length t \<Longrightarrow> distance a t = distance b t \<Longrightarrow> a = b"
proof -
  assume l: "length a = length t" "length b = length t" and eq: "distance a t = distance b t"
  then have "be_val a XOR be_val t = be_val b XOR be_val t" by (metis be_val_distance)
  then have "be_val a = be_val b" by (metis xor.assoc xor.right_neutral xor_self_eq)
  with l show ?thesis by (simp add: be_val_inject)
qed

section \<open>Bucket indices\<close>

lemma takeWhile_stops: "\<exists>x \<in> set xs. \<not> P x \<Longrightarrow> length (takeWhile P xs) < length xs"
  by (induction xs) auto

lemma leading_zeros_bit:
  assumes "b \<noteq> 0"
  shows "leading_zeros b \<le> 7" "bit b (7 - leading_zeros b)" "7 - leading_zeros b < j \<Longrightarrow> \<not> bit b j"
proof -
  let ?l = "[7, 6, 5, 4, 3, 2, 1, 0] :: nat list"
  let ?P = "\<lambda>k. b AND push_bit k 1 = 0"
  have P: "?P k \<longleftrightarrow> \<not> bit b k" for k by (simp add: bit_iff_and_push_bit_not_eq_0)
  have nth: "?l ! k = 7 - k" if "k < 8" for k
    using that by (auto simp: less_Suc_eq numeral_eq_Suc)
  obtain k0 where "bit b k0" using assms by (metis bit_eqI bit_0_eq bot_apply bot_bool_def)
  then have "\<exists>k < 8. bit b k" using bit_imp_le_length [of b k0] by auto
  then obtain k where k: "k < 8" "bit b k" by blast
  then have "k \<in> set ?l" by (auto simp: less_Suc_eq numeral_eq_Suc)
  moreover have "\<not> ?P k" using k P by blast
  ultimately have lt: "leading_zeros b < length ?l"
    unfolding leading_zeros_def by (intro takeWhile_stops bexI)
  then show le: "leading_zeros b \<le> 7" by simp
  have stop: "\<not> ?P (?l ! leading_zeros b)" using nth_length_takeWhile lt unfolding leading_zeros_def by blast
  have "leading_zeros b < 8" using le by simp
  from stop [unfolded nth [OF this] P] show "bit b (7 - leading_zeros b)" by blast
  show "\<not> bit b j" if "7 - leading_zeros b < j"
  proof (cases "j < 8")
    case True
    with that le have j: "7 - j < leading_zeros b" by linarith
    then have "?P (takeWhile ?P ?l ! (7 - j))" unfolding leading_zeros_def
      by (metis (mono_tags, lifting) nth_mem set_takeWhileD)
    moreover have "takeWhile ?P ?l ! (7 - j) = ?l ! (7 - j)"
      using j unfolding leading_zeros_def by (rule takeWhile_nth)
    ultimately have "?P (?l ! (7 - j))" by simp
    moreover have "?l ! (7 - j) = j" using nth [of "7 - j"] True by simp
    ultimately show ?thesis by (simp only: P not_False_eq_True)
  qed (auto dest: bit_imp_le_length)
qed

lemma leading_zeros_value:
  assumes "b \<noteq> 0"
  shows "2 ^ (7 - leading_zeros b) \<le> unat b" "unat b < 2 ^ (8 - leading_zeros b)"
proof -
  let ?k = "7 - leading_zeros b"
  note lz = leading_zeros_bit [OF assms]
  have "bit (unat b) ?k" using lz(2) by (simp add: bit_simps)
  then show "2 ^ ?k \<le> unat b" by (metis bit_iff_odd div_less even_zero not_le)
  have "take_bit (Suc ?k) (unat b) = unat b"
  proof (rule bit_eqI)
    fix n
    show "bit (take_bit (Suc ?k) (unat b)) n \<longleftrightarrow> bit (unat b) n"
      using lz(3) [of n] by (cases "?k < n") (auto simp: bit_simps)
  qed
  then have "unat b < 2 ^ Suc ?k" by (simp only: take_bit_nat_eq_self_iff)
  moreover have "Suc ?k = 8 - leading_zeros b" using lz(1) by simp
  ultimately show "unat b < 2 ^ (8 - leading_zeros b)" by simp
qed

lemma bucket_from_value:
  "i + length bs = 20 \<Longrightarrow> be_val bs \<noteq> 0 \<Longrightarrow>
     2 ^ bucket_from i bs \<le> be_val bs \<and> be_val bs < 2 ^ (bucket_from i bs + 1)"
proof (induction i bs rule: bucket_from.induct)
  case (2 i b bs)
  let ?n = "length bs" and ?z = "leading_zeros b"
  show ?case
  proof (cases "b = 0")
    case False
    note lz = leading_zeros_bit(1) [OF False] and v = leading_zeros_value [OF False]
    have idx: "159 - (i * 8 + ?z) = (7 - ?z) + 8 * ?n" using 2(2) lz by simp
    have p: "(256 :: nat) ^ ?n = 2 ^ (8 * ?n)" by (simp add: power_mult)
    have rest: "be_val bs < 256 ^ ?n" by (rule be_val_less)
    have "2 ^ (7 - ?z) * 256 ^ ?n \<le> unat b * 256 ^ ?n" using v(1) by (rule mult_right_mono) simp
    then have "2 ^ (7 - ?z) * 256 ^ ?n \<le> be_val (b # bs)" by (simp only: be_val_Cons trans_le_add1)
    then have lo: "2 ^ ((7 - ?z) + 8 * ?n) \<le> be_val (b # bs)" by (simp only: power_add p)
    have "(unat b + 1) * 256 ^ ?n \<le> 2 ^ (8 - ?z) * 256 ^ ?n" using v(2) by (intro mult_right_mono) auto
    moreover have "be_val (b # bs) < (unat b + 1) * 256 ^ ?n" using rest by (simp add: be_val_Cons)
    ultimately have "be_val (b # bs) < 2 ^ (8 - ?z) * 256 ^ ?n" by linarith
    also have "8 - ?z = (7 - ?z) + 1" using lz by simp
    then have "2 ^ (8 - ?z) * 256 ^ ?n = (2 :: nat) ^ ((7 - ?z) + 8 * ?n + 1)" by (simp only: p power_add ac_simps)
    finally show ?thesis using lo False by (simp add: idx)
  next
    case True
    with 2(1) [OF _] 2(2,3) show ?thesis by (simp add: be_val_Cons)
  qed
qed simp

lemma bucket_index_bound: "bucket_index i \<le> 159"
proof -
  have "bucket_from k i \<le> 159" for k by (induction k i rule: bucket_from.induct) auto
  then show ?thesis by (simp add: bucket_index_def)
qed

lemma get_bucket_index_bound [simp]: "get_bucket_index rt i < 160"
  using bucket_index_bound [of "distance (own_id rt) i"] by (simp add: get_bucket_index_def)

section \<open>The routing table's invariant\<close>

definition node_ok :: "dht_node \<Rightarrow> bool" where
  "node_ok n \<longleftrightarrow> id_ok (nid n) \<and> length (nip n) = 4"

definition bucket_ok :: "routing_table \<Rightarrow> nat \<Rightarrow> dht_node list \<Rightarrow> bool" where
  "bucket_ok rt k b \<longleftrightarrow> length b \<le> 8 \<and> distinct (map nid b) \<and>
     (\<forall>n \<in> set b. node_ok n \<and> nid n \<noteq> own_id rt \<and> get_bucket_index rt (nid n) = k)"

definition table_ok :: "routing_table \<Rightarrow> bool" where
  "table_ok rt \<longleftrightarrow> id_ok (own_id rt) \<and> length (buckets rt) = 160 \<and>
     (\<forall>k < 160. bucket_ok rt k (buckets rt ! k))"

lemma update_first_map: "\<forall>x. g (f x) = g x \<Longrightarrow> map g (update_first P f xs) = map g xs"
  by (induction xs) auto

lemma length_update_first [simp]: "length (update_first P f xs) = length xs"
  by (induction xs) auto

lemma set_update_first: "y \<in> set (update_first P f xs) \<Longrightarrow> y \<in> set xs \<or> (\<exists>x \<in> set xs. P x \<and> y = f x)"
  by (induction xs) (auto split: if_splits)

lemma update_first_same_key:
  "map g (update_first (\<lambda>n. g n = g new) (\<lambda>_. new) xs) = map g xs"
  by (induction xs) auto

lemma update_first_new_key:
  "distinct (map g xs) \<Longrightarrow> g new \<notin> g ` set xs \<Longrightarrow> distinct (map g (update_first P (\<lambda>_. new) xs))"
proof (induction xs)
  case (Cons x xs)
  have "g ` set (update_first P (\<lambda>_. new) xs) \<subseteq> insert (g new) (g ` set xs)"
    using set_update_first [of _ P "\<lambda>_. new" xs] by auto
  with Cons show ?case by auto
qed simp

lemma list_ex_key: "list_ex (\<lambda>m. g m = i) b \<longleftrightarrow> i \<in> g ` set b"
  by (induction b) auto

lemma bucket_add_ok:
  assumes "bucket_ok rt k b" "node_ok n" "nid n \<noteq> own_id rt" "get_bucket_index rt (nid n) = k"
  shows "bucket_ok rt k (snd (bucket_add now n b))"
proof -
  have *: "\<forall>m \<in> set (update_first P (\<lambda>_. n) b). node_ok m \<and> nid m \<noteq> own_id rt \<and> get_bucket_index rt (nid m) = k" for P
    using assms set_update_first [of _ P "\<lambda>_. n" b] by (auto simp: bucket_ok_def)
  show ?thesis
    using assms * update_first_same_key [of nid n b] update_first_new_key [of nid b n]
    by (auto simp: bucket_add_def try_replace_bad_node_def bucket_ok_def list_ex_key)
qed

lemma on_bucket_ok:
  assumes "table_ok rt" "\<And>b. bucket_ok rt (get_bucket_index rt i) b \<Longrightarrow> bucket_ok rt (get_bucket_index rt i) (f b)"
  shows "table_ok (on_bucket i f rt)" "own_id (on_bucket i f rt) = own_id rt"
proof -
  have b: "bucket_ok (rt\<lparr>buckets := bs\<rparr>) k b = bucket_ok rt k b" for bs k b
    by (simp add: bucket_ok_def get_bucket_index_def)
  show "table_ok (on_bucket i f rt)"
    using assms by (auto simp: on_bucket_def Let_def table_ok_def b nth_list_update)
  show "own_id (on_bucket i f rt) = own_id rt" by (simp add: on_bucket_def Let_def)
qed

lemma update_first_ok:
  assumes "bucket_ok rt k b" "\<forall>n. nid (f n) = nid n \<and> nip (f n) = nip n"
  shows "bucket_ok rt k (update_first P f b)"
proof -
  have "\<forall>m \<in> set (update_first P f b). node_ok m \<and> nid m \<noteq> own_id rt \<and> get_bucket_index rt (nid m) = k"
  proof
    fix m assume "m \<in> set (update_first P f b)"
    from set_update_first [OF this] assms
    show "node_ok m \<and> nid m \<noteq> own_id rt \<and> get_bucket_index rt (nid m) = k"
      by (auto simp: bucket_ok_def node_ok_def)
  qed
  then show ?thesis using assms update_first_map [of nid f P b] by (simp add: bucket_ok_def)
qed

lemma add_node_ok: "table_ok rt \<Longrightarrow> node_ok n \<Longrightarrow> table_ok (rt_add_node now n rt)"
  by (auto simp: rt_add_node_def intro!: on_bucket_ok bucket_add_ok)

lemma remove_node_ok: "table_ok rt \<Longrightarrow> table_ok (rt_remove_node i rt)"
  unfolding rt_remove_node_def
  by (rule on_bucket_ok) (auto simp: bucket_remove_def bucket_ok_def distinct_map_filter intro: le_trans [OF length_filter_le])

lemma mark_ok:
  "table_ok rt \<Longrightarrow> table_ok (rt_update_last_seen now i rt)"
  "table_ok rt \<Longrightarrow> table_ok (rt_mark_query_sent now i rt)"
  "table_ok rt \<Longrightarrow> table_ok (rt_mark_query_failed i rt)"
  by (auto simp: rt_update_last_seen_def rt_mark_query_sent_def rt_mark_query_failed_def
      bucket_seen_def bucket_query_sent_def bucket_query_failed_def intro!: on_bucket_ok update_first_ok)

lemma new_table_ok: "id_ok i \<Longrightarrow> table_ok (new_table i)"
  by (simp add: table_ok_def new_table_def bucket_ok_def)

lemma table_nodes:
  assumes "table_ok rt" "n \<in> set (concat (buckets rt))"
  shows "node_ok n" "nid n \<noteq> own_id rt" "n \<in> set (buckets rt ! get_bucket_index rt (nid n))"
proof -
  from assms obtain k where k: "k < 160" "n \<in> set (buckets rt ! k)"
    by (auto simp: table_ok_def in_set_conv_nth) metis
  with assms(1) show "node_ok n" "nid n \<noteq> own_id rt" "n \<in> set (buckets rt ! get_bucket_index rt (nid n))"
    by (auto simp: table_ok_def bucket_ok_def)
qed

lemma distinct_concat_keys:
  assumes "\<forall>k < length bs. distinct (map g (bs ! k)) \<and> (\<forall>n \<in> set (bs ! k). h (g n) = k + s)"
  shows "distinct (map g (concat bs))"
  using assms
proof (induction bs arbitrary: s)
  case (Cons b bs)
  have "\<forall>k < length bs. distinct (map g (bs ! k)) \<and> (\<forall>n \<in> set (bs ! k). h (g n) = k + Suc s)"
    using Cons.prems by fastforce
  then have "distinct (map g (concat bs))" by (rule Cons.IH)
  moreover have "distinct (map g b)" "\<forall>n \<in> set b. h (g n) = s" using Cons.prems by fastforce+
  moreover have "\<forall>n \<in> set (concat bs). s < h (g n)"
  proof
    fix n assume "n \<in> set (concat bs)"
    then obtain k where "k < length bs" "n \<in> set (bs ! k)" by (auto simp: in_set_conv_nth [of _ bs])
    with Cons.prems [rule_format, of "Suc k"] show "s < h (g n)" by auto
  qed
  ultimately show ?case by fastforce
qed simp

lemma table_distinct:
  assumes "table_ok rt"
  shows "distinct (map nid (concat (buckets rt)))"
  using assms by (intro distinct_concat_keys [where h = "get_bucket_index rt" and s = 0])
    (auto simp: table_ok_def bucket_ok_def)

section \<open>Ageing\<close>

instantiation node_state :: linorder
begin

definition state_rank :: "node_state \<Rightarrow> nat" where
  "state_rank s = (case s of Good \<Rightarrow> 0 | Questionable \<Rightarrow> 1 | Bad \<Rightarrow> 2)"

definition less_eq_node_state :: "node_state \<Rightarrow> node_state \<Rightarrow> bool" where
  "s \<le> t \<longleftrightarrow> state_rank s \<le> state_rank t"

definition less_node_state :: "node_state \<Rightarrow> node_state \<Rightarrow> bool" where
  "s < t \<longleftrightarrow> state_rank s < state_rank t"

instance
  by standard (auto simp: less_eq_node_state_def less_node_state_def state_rank_def split: node_state.splits)

end

lemma minutes_mono: "a \<le> b \<Longrightarrow> minutes a \<le> minutes b"
proof -
  assume ab: "a \<le> b"
  consider "0 \<le> a" | "a < 0" "0 \<le> b" | "b < 0" using ab by linarith
  then show ?thesis
  proof cases
    case 2
    then have "0 \<le> (- a) div 60000000000" "0 \<le> b div 60000000000" by simp_all
    with 2 show ?thesis by (simp add: minutes_def)
  next
    case 3
    have "(- b) div 60000000000 \<le> (- a) div 60000000000" using ab by (intro zdiv_mono1) auto
    with 3 ab show ?thesis by (simp add: minutes_def)
  qed (use ab in \<open>simp add: minutes_def zdiv_mono1\<close>)
qed

lemma get_state_ages: "now \<le> later \<Longrightarrow> get_state now n \<le> get_state later n"
  using minutes_mono [of "now - last_seen n" "later - last_seen n"]
  by (auto simp: get_state_def Let_def less_eq_node_state_def state_rank_def)

section \<open>The closest nodes\<close>

lemma find_closest_parts:
  fixes now target count rt
  defines "good \<equiv> concat (map (get_good_nodes now) (buckets rt))"
  shows "find_closest_nodes now target count rt = take count (sort_key (\<lambda>n. distance (nid n) target) good)"
    "good = filter (is_good now) (concat (buckets rt))"
  by (simp_all add: find_closest_nodes_def good_def get_good_nodes_def [abs_def] filter_concat)

lemma take_sort_key_closest:
  assumes "inj_on d (set xs)" "distinct xs" "x \<in> set (take k (sort_key d xs))" "y \<in> set xs"
    "y \<notin> set (take k (sort_key d xs))"
  shows "d x < (d y :: 'b :: linorder)"
proof -
  let ?s = "sort_key d xs"
  have "y \<in> set (drop k ?s)" using assms(4,5) by (metis Un_iff append_take_drop_id set_append set_sort)
  moreover have "sorted (map d (take k ?s) @ map d (drop k ?s))"
    by (metis append_take_drop_id map_append sorted_sort_key)
  ultimately have "d x \<le> d y" using assms(3) by (auto simp: sorted_append)
  moreover have "x \<in> set xs" using assms(3) by (metis in_set_takeD set_sort)
  ultimately show ?thesis using assms by (metis inj_onD order_le_imp_less_or_eq)
qed

section \<open>Saving and loading\<close>

definition entry_ok :: "node_id \<times> byte list \<times> 16 word \<Rightarrow> bool" where
  "entry_ok e \<longleftrightarrow> (case e of (i, ip, _) \<Rightarrow> id_ok i \<and> length ip = 4)"

interpretation entry: fixed_codec encode_entry decode_entry 26 entry_ok
proof unfold_locales
  fix e assume "entry_ok e"
  then obtain i ip p where e: "e = (i, ip, p)" "length i = 20" "length ip = 4"
    by (auto simp: entry_ok_def split: prod.splits)
  then show "length (encode_entry e) = 26" by (simp add: encode_entry_def)
  show "decode_entry (encode_entry e) = e"
    using e by (simp add: encode_entry_def decode_entry_def nth_append store16_def)
qed simp

lemma read_entries_chunks: "read_entries k d = map decode_entry (take k (chunks 26 d))"
proof (induction k arbitrary: d)
  case (Suc k)
  show ?case
  proof (cases "length d < 26")
    case False
    have "decode_entry (take 26 d) = decode_entry d"
      using False by (simp add: decode_entry_def min_def drop_take)
    with False Suc show ?thesis by (subst chunks.simps) simp
  qed simp
qed simp

lemma foldl_add_nodes:
  assumes "distinct (map nid ns)" "\<forall>n \<in> set ns. nid n \<noteq> own_id t \<and> (\<forall>b \<in> set (buckets t). nid n \<notin> nid ` set b)"
    "length (buckets t) = 160"
    "\<forall>k < 160. length (buckets t ! k) + length (filter (\<lambda>n. get_bucket_index t (nid n) = k) ns) \<le> 8"
  shows "foldl (\<lambda>t n. rt_add_node now n t) t ns =
    t\<lparr>buckets := map (\<lambda>k. buckets t ! k @ filter (\<lambda>n. get_bucket_index t (nid n) = k) ns) [0..<160]\<rparr>"
  using assms
proof (induction ns arbitrary: t)
  case Nil
  have "map ((!) (buckets t)) [0..<160] = buckets t" using Nil(3) by (metis map_nth)
  then show ?case by simp
next
  case (Cons n ns)
  let ?k = "get_bucket_index t (nid n)"
  let ?t = "t\<lparr>buckets := (buckets t)[?k := buckets t ! ?k @ [n]]\<rparr>"
  have k: "?k < 160" by simp
  have gbi: "get_bucket_index ?t i = get_bucket_index t i" for i by (simp add: get_bucket_index_def)
  have "length (buckets t ! ?k) < 8" using Cons.prems(4) [rule_format, OF k] by simp
  moreover have "buckets t ! ?k \<in> set (buckets t)" using k Cons.prems(3) by simp
  then have "\<not> list_ex (\<lambda>m. nid m = nid n) (buckets t ! ?k)"
    using Cons.prems(2) by (simp add: list_ex_key)
  ultimately have add: "rt_add_node now n t = ?t"
    using Cons.prems(2) k by (simp add: rt_add_node_def on_bucket_def Let_def bucket_add_def)
  have "foldl (\<lambda>t n. rt_add_node now n t) ?t ns =
      ?t\<lparr>buckets := map (\<lambda>k. buckets ?t ! k @ filter (\<lambda>n. get_bucket_index ?t (nid n) = k) ns) [0..<160]\<rparr>"
  proof (rule Cons.IH)
    show "\<forall>m \<in> set ns. nid m \<noteq> own_id ?t \<and> (\<forall>b \<in> set (buckets ?t). nid m \<notin> nid ` set b)"
    proof (intro ballI conjI)
      fix m b assume m: "m \<in> set ns" and "b \<in> set (buckets ?t)"
      then have "b = buckets t ! ?k @ [n] \<or> b \<in> set (buckets t)"
        using set_update_subset_insert [of "buckets t" ?k "buckets t ! ?k @ [n]"] by auto
      moreover have "buckets t ! ?k \<in> set (buckets t)" using k Cons.prems(3) by simp
      moreover have "nid m \<noteq> nid n" using Cons.prems(1) m
        by (metis distinct.simps(2) image_eqI list.set_map list.simps(9))
      moreover have "\<forall>b \<in> set (buckets t). nid m \<notin> nid ` set b" using Cons.prems(2) m by simp
      ultimately show "nid m \<notin> nid ` set b" by (elim disjE) simp_all
    qed (use Cons.prems(2) in simp)
    show "\<forall>k < 160. length (buckets ?t ! k) + length (filter (\<lambda>n. get_bucket_index ?t (nid n) = k) ns) \<le> 8"
      using Cons.prems(3,4) k by (auto simp: gbi nth_list_update split: if_splits)
  qed (use Cons.prems in simp_all)
  also have "\<dots> = t\<lparr>buckets := map (\<lambda>k. buckets t ! k @ filter (\<lambda>n. get_bucket_index t (nid n) = k) (n # ns)) [0..<160]\<rparr>"
    using Cons.prems(3) k by (auto simp: gbi nth_list_update)
  finally show ?case by (simp add: add)
qed

lemma good_in_bucket:
  assumes "table_ok rt" "k < 160"
  shows "filter (\<lambda>n. get_bucket_index rt (nid n) = k) (concat (map (get_good_nodes now) (buckets rt))) =
    get_good_nodes now (buckets rt ! k)"
proof -
  have len: "length (buckets rt) = 160" using assms(1) by (simp add: table_ok_def)
  have pick: "filter (\<lambda>n. h n = k) (concat bs) = (if s \<le> k \<and> k < s + length bs then bs ! (k - s) else [])"
    if "\<forall>j < length bs. \<forall>n \<in> set (bs ! j). h n = j + s" for bs :: "dht_node list list" and h s
    using that
  proof (induction bs arbitrary: s)
    case (Cons b bs)
    have "\<forall>j < length bs. \<forall>n \<in> set (bs ! j). h n = j + Suc s" using Cons.prems by fastforce
    note IH = Cons.IH [OF this]
    have "\<forall>n \<in> set b. h n = s" using Cons.prems by fastforce
    then have "filter (\<lambda>n. h n = k) b = (if s = k then b else [])"
      by (auto simp: filter_id_conv filter_empty_conv)
    with IH show ?case by (auto simp: nth_Cons' Suc_le_eq)
  qed auto
  have "\<forall>j < 160. \<forall>n \<in> set (map (get_good_nodes now) (buckets rt) ! j). get_bucket_index rt (nid n) = j + 0"
    using assms(1) len by (auto simp: table_ok_def bucket_ok_def get_good_nodes_def)
  from pick [of "map (get_good_nodes now) (buckets rt)" "\<lambda>n. get_bucket_index rt (nid n)" 0] this
  show ?thesis using len assms(2) by simp
qed

lemma store32_parts: "store32 x = [store32 x ! 0, store32 x ! 1, store32 x ! 2, store32 x ! 3]"
  by (simp add: store32_def)

lemma loaded_entry [simp]: "nid (loaded_node now (entry_of n)) = nid n"
  by (simp add: loaded_node_def entry_of_def)

lemma deserialize_serialize:
  assumes ok: "table_ok rt"
  shows "rt_deserialize now' (rt_serialize now rt) (new_table i) =
    (True, \<lparr>own_id = own_id rt,
       buckets = map (\<lambda>b. map (\<lambda>n. loaded_node now' (entry_of n)) (get_good_nodes now b)) (buckets rt)\<rparr>)"
proof -
  let ?good = "concat (map (get_good_nodes now) (buckets rt))"
  let ?es = "map entry_of ?good" and ?ld = "\<lambda>n. loaded_node now' (entry_of n)"
  let ?t = "new_table (own_id rt)"
  have own: "length (own_id rt) = 20" and len: "length (buckets rt) = 160" using ok by (simp_all add: table_ok_def)
  have sub: "?good = filter (is_good now) (concat (buckets rt))" by (rule find_closest_parts(2))
  have eo: "\<forall>e \<in> set ?es. entry_ok e"
    using table_nodes(1) [OF ok] unfolding sub by (auto simp: entry_ok_def entry_of_def node_ok_def)
  have "length (get_good_nodes now (buckets rt ! k)) \<le> 8" if "k < 160" for k
    using ok that length_filter_le [of "is_good now" "buckets rt ! k"]
    unfolding table_ok_def bucket_ok_def get_good_nodes_def by (meson le_trans)
  then have l8: "\<forall>b \<in> set (buckets rt). length (get_good_nodes now b) \<le> 8"
    using len by (auto simp: in_set_conv_nth)
  then have "sum_list (map (\<lambda>b. length (get_good_nodes now b)) (buckets rt)) \<le> sum_list (map (\<lambda>_. 8) (buckets rt))"
    by (intro sum_list_mono) auto
  then have "length ?good \<le> 1280" using len by (simp add: length_concat comp_def sum_list_triv)
  then have cnt: "unat (word_of_nat (length ?good) :: 32 word) = length ?good" by (simp add: unat_of_nat)
  let ?w = "store32 (word_of_nat (length ?good))"
  let ?d = "rt_serialize now rt"
  have d: "?d = own_id rt @ ?w @ concat (map encode_entry ?es)"
    by (simp add: rt_serialize_def Let_def comp_def)
  have hd: "take 20 ?d = own_id rt" "drop 24 ?d = concat (map encode_entry ?es)" "24 \<le> length ?d"
    unfolding d using own by simp_all
  have "?d ! 20 = ?w ! 0" "?d ! 21 = ?w ! 1" "?d ! 22 = ?w ! 2" "?d ! 23 = ?w ! 3"
    unfolding d using own by (simp_all add: nth_append)
  then have w: "load32 (?d ! 20) (?d ! 21) (?d ! 22) (?d ! 23) = word_of_nat (length ?good)"
    by (simp only: load32_store32 [OF store32_parts])
  have "length (chunks 26 (concat (map encode_entry ?es))) = length ?es"
    using entry.decode_concat [OF eo] by (metis length_map)
  then have "read_entries (length ?good) (drop 24 ?d) = ?es"
    using entry.decode_concat [OF eo] by (simp add: read_entries_chunks hd)
  then have "rt_deserialize now' ?d (new_table i) =
      (True, foldl (\<lambda>t e. rt_add_node now' (loaded_node now' e) t) ?t ?es)"
    using hd by (simp add: rt_deserialize_def Let_def w cnt new_table_def)
  also have "foldl (\<lambda>t e. rt_add_node now' (loaded_node now' e) t) ?t ?es =
      foldl (\<lambda>t n. rt_add_node now' n t) ?t (map ?ld ?good)"
    by (simp only: foldl_map)
  also have "\<dots> = ?t\<lparr>buckets := map (\<lambda>k. buckets ?t ! k @
      filter (\<lambda>n. get_bucket_index ?t (nid n) = k) (map ?ld ?good)) [0..<160]\<rparr>"
  proof (rule foldl_add_nodes)
    show "distinct (map nid (map ?ld ?good))"
      using distinct_map_filter [OF table_distinct [OF ok], of "is_good now"] by (simp add: comp_def sub)
    show "\<forall>n \<in> set (map ?ld ?good). nid n \<noteq> own_id ?t \<and> (\<forall>b \<in> set (buckets ?t). nid n \<notin> nid ` set b)"
      using table_nodes(2) [OF ok] unfolding sub by (auto simp: new_table_def)
    show "length (buckets ?t) = 160" by (simp add: new_table_def)
    show "\<forall>k < 160. length (buckets ?t ! k) + length (filter (\<lambda>n. get_bucket_index ?t (nid n) = k) (map ?ld ?good)) \<le> 8"
    proof (intro allI impI)
      fix k :: nat assume k: "k < 160"
      have "filter (\<lambda>n. get_bucket_index ?t (nid n) = k) (map ?ld ?good) = map ?ld (get_good_nodes now (buckets rt ! k))"
        using good_in_bucket [OF ok k, of now] by (simp add: filter_map comp_def get_bucket_index_def new_table_def)
      then show "length (buckets ?t ! k) + length (filter (\<lambda>n. get_bucket_index ?t (nid n) = k) (map ?ld ?good)) \<le> 8"
        using l8 len k by (simp add: new_table_def)
    qed
  qed
  also have "map (\<lambda>k. buckets ?t ! k @ filter (\<lambda>n. get_bucket_index ?t (nid n) = k) (map ?ld ?good)) [0..<160] =
      map (\<lambda>b. map ?ld (get_good_nodes now b)) (buckets rt)"
    using len good_in_bucket [OF ok, of _ now]
    by (intro nth_equalityI) (simp_all add: filter_map comp_def get_bucket_index_def new_table_def)
  finally show ?thesis by (simp add: new_table_def)
qed

section \<open>Hexadecimal ids\<close>

lemma stoi16_digits: "a < 16 \<Longrightarrow> b < 16 \<Longrightarrow> stoi16 [hex_digit a, hex_digit b] = Inr (int (16 * a + b))"
  using hex_digit_facts [of a] hex_digit_facts [of b] by (simp add: stoi16_def)

lemma hex_bytes_to_hex: "hex_bytes (to_hex bs) = Inr bs"
proof (induction bs)
  case (Cons b bs)
  have "16 * (unat b div 16) + unat b mod 16 = unat b" by simp
  then have "stoi16 [hex_digit (unat b div 16), hex_digit (unat b mod 16)] = Inr (int (unat b))"
    using stoi16_digits [of "unat b div 16" "unat b mod 16"] div_less_iff_less_mult [of 16 "unat b" 16] by simp
  with Cons show ?case by (simp add: to_hex_def)
qed (simp add: to_hex_def)

lemma length_to_hex: "length (to_hex bs) = 2 * length bs"
  by (induction bs) (simp_all add: to_hex_def)

interpretation node_hex: codec to_hex "\<lambda>s. case node_id_of_hex s of Inr i \<Rightarrow> Some i | Inl _ \<Rightarrow> None" id_ok
  by unfold_locales (simp add: node_id_of_hex_def length_to_hex hex_bytes_to_hex)

section \<open>Properties\<close>

text \<open>The distance is a metric on 160-bit numbers (symmetric, zero exactly on equal ids,
  triangle inequality), ids compare like these numbers, and the bucket index is the position of
  the highest set bit.\<close>

theorem distance_metric:
  assumes "id_ok a" "id_ok b" "id_ok c"
  shows "distance a b = distance b a \<and> (be_val (distance a b) = 0 \<longleftrightarrow> a = b) \<and>
    be_val (distance a c) \<le> be_val (distance a b) + be_val (distance b c) \<and>
    (distance a b < distance a c \<longleftrightarrow> be_val (distance a b) < be_val (distance a c)) \<and>
    (a \<noteq> b \<longrightarrow> 2 ^ bucket_index (distance a b) \<le> be_val (distance a b) \<and>
       be_val (distance a b) < 2 ^ (bucket_index (distance a b) + 1))"
  using assms distance_commute [of a b] distance_zero_iff [of a b] distance_triangle [of a b c]
    be_val_less_iff [of "distance a b" "distance a c"] bucket_from_value [of 0 "distance a b"]
  by (simp add: bucket_index_def)

theorem distance_metric_witness:
  "2 ^ bucket_index (distance (replicate 20 1) (replicate 20 7)) \<le> be_val (distance (replicate 20 1) (replicate 20 7))"
proof -
  have ne: "replicate 20 (1 :: byte) \<noteq> replicate 20 7" by simp
  have "id_ok (replicate 20 (1 :: byte))" "id_ok (replicate 20 (7 :: byte))" "id_ok zero_id"
    by (simp_all add: zero_id_def)
  from distance_metric [OF this] ne show ?thesis by blast
qed

datatype rt_op = Add int dht_node | Remove node_id | Seen int node_id | Sent int node_id | Failed node_id

definition rt_apply :: "routing_table \<Rightarrow> rt_op \<Rightarrow> routing_table" where
  "rt_apply rt e = (case e of Add now n \<Rightarrow> rt_add_node now n rt | Remove i \<Rightarrow> rt_remove_node i rt
     | Seen now i \<Rightarrow> rt_update_last_seen now i rt | Sent now i \<Rightarrow> rt_mark_query_sent now i rt
     | Failed i \<Rightarrow> rt_mark_query_failed i rt)"

lemma foldl_apply_ok:
  "table_ok rt \<Longrightarrow> \<forall>now n. Add now n \<in> set es \<longrightarrow> node_ok n \<Longrightarrow> table_ok (foldl rt_apply rt es)"
proof (induction es arbitrary: rt)
  case (Cons e es)
  have "table_ok (rt_apply rt e)"
    using Cons.prems by (cases e) (auto simp: rt_apply_def intro: add_node_ok remove_node_ok mark_ok)
  with Cons show ?case by simp
qed simp


definition demo_node :: "byte \<Rightarrow> dht_node" where
  "demo_node b = \<lparr>nid = replicate 19 0 @ [b], nip = [10, 0, 0, b], nport = 6881, last_seen = 0, last_query = 0,
     failed_queries = 0\<rparr>"

lemma demo_node_ok: "node_ok (demo_node b)"
  by (simp add: node_ok_def demo_node_def)

definition demo_table :: routing_table where
  "demo_table = foldl rt_apply (new_table zero_id) [Add 0 (demo_node 3), Add 0 (demo_node 2), Add 1 (demo_node 3)]"

lemma demo_table_ok: "table_ok demo_table"
  unfolding demo_table_def
  by (rule foldl_apply_ok) (auto simp: demo_node_ok intro: new_table_ok simp: zero_id_def)


text \<open>C12: \<open>find_closest_nodes\<close> returns good nodes of the table, without repetition, in increasing
  distance from the target, as many as asked for and present, and every good node it leaves out
  is farther away than every node it returns.\<close>

theorem find_closest_optimal:
  assumes "table_ok rt" "id_ok target"
  shows "let good = filter (is_good now) (get_all_nodes rt); r = find_closest_nodes now target count rt in
    length r = min count (length good) \<and> set r \<subseteq> set good \<and> distinct (map nid r) \<and>
    sorted (map (\<lambda>n. distance (nid n) target) r) \<and>
    (\<forall>x \<in> set r. \<forall>y \<in> set good - set r. distance (nid x) target < distance (nid y) target)"
proof -
  define good where "good = filter (is_good now) (get_all_nodes rt)"
  define r where "r = find_closest_nodes now target count rt"
  let ?d = "\<lambda>n. distance (nid n) target"
  have r: "r = take count (sort_key ?d good)"
    by (simp add: r_def good_def get_all_nodes_def find_closest_parts)
  have dn: "distinct (map nid good)"
    unfolding good_def get_all_nodes_def by (rule distinct_map_filter [OF table_distinct [OF assms(1)]])
  have ids: "n \<in> set good \<Longrightarrow> id_ok (nid n)" for n
    using table_nodes(1) [OF assms(1)] by (auto simp: good_def get_all_nodes_def node_ok_def)
  have inj: "inj_on ?d (set good)"
  proof (rule inj_onI)
    fix x y assume x: "x \<in> set good" "y \<in> set good" "?d x = ?d y"
    then have "nid x = nid y" using ids assms(2) distance_inj [of "nid x" target "nid y"] by simp
    with x dn show "x = y" by (metis distinct_map inj_onD)
  qed
  have "distinct good" using dn by (simp add: distinct_map)
  from take_sort_key_closest [OF inj this] have far: "\<forall>x \<in> set r. \<forall>y \<in> set good - set r. ?d x < ?d y"
    unfolding r by blast
  have "distinct (map nid (sort_key ?d good))" using dn by (simp add: distinct_map)
  then have "distinct (map nid r)" by (simp add: r take_map [symmetric])
  moreover have "sorted (map ?d r)" by (simp add: r take_map [symmetric] sorted_wrt_take)
  moreover have "set r \<subseteq> set good" unfolding r by (metis set_sort set_take_subset)
  ultimately show ?thesis using far
    by (simp add: Let_def r_def [symmetric] good_def [symmetric]) (simp add: r)
qed

theorem find_closest_optimal_witness:
  "length (find_closest_nodes 0 (replicate 20 1) 1 demo_table) \<le> 1 \<and>
   set (find_closest_nodes 0 (replicate 20 1) 1 demo_table) \<subseteq> set (get_all_nodes demo_table)"
  using find_closest_optimal [OF demo_table_ok, of "replicate 20 1" 0 1] by (auto simp: Let_def)

text \<open>Adding to a bucket fails exactly when it is full, does not know the id and has no bad
  node; then it is unchanged.  Otherwise the node is in it and every node that disappears has its
  id or is bad.\<close>

theorem bucket_add_policy:
  assumes "bucket_add now n b = (r, b')"
  shows "(\<not> r \<longleftrightarrow> 8 \<le> length b \<and> nid n \<notin> nid ` set b \<and> (\<forall>m \<in> set b. get_state now m \<noteq> Bad)) \<and>
    (\<not> r \<longrightarrow> b' = b) \<and>
    (r \<longrightarrow> n \<in> set b' \<and> set b' \<subseteq> insert n (set b) \<and>
       (\<forall>m \<in> set b - set b'. nid m = nid n \<or> get_state now m = Bad))"
proof -
  have u: "(\<exists>m \<in> set b. P m) \<Longrightarrow> n \<in> set (update_first P (\<lambda>_. n) b) \<and>
      set (update_first P (\<lambda>_. n) b) \<subseteq> insert n (set b) \<and> (\<forall>m \<in> set b - set (update_first P (\<lambda>_. n) b). P m)" for P
    by (induction b) auto
  have k: "nid n \<in> nid ` set b \<longleftrightarrow> (\<exists>m \<in> set b. nid m = nid n)"
    by (metis (no_types, lifting) image_iff)
  consider "nid n \<in> nid ` set b" | "nid n \<notin> nid ` set b" "length b < 8"
    | "nid n \<notin> nid ` set b" "8 \<le> length b" "\<exists>m \<in> set b. get_state now m = Bad"
    | "nid n \<notin> nid ` set b" "8 \<le> length b" "\<forall>m \<in> set b. get_state now m \<noteq> Bad" by fastforce
  then show ?thesis
  proof cases
    case 1
    with k have ex: "\<exists>m \<in> set b. nid m = nid n" by blast
    have "r" "b' = update_first (\<lambda>m. nid m = nid n) (\<lambda>_. n) b"
      using assms 1 by (simp_all add: bucket_add_def list_ex_key)
    with 1 u [OF ex] show ?thesis by blast
  next
    case 2
    then have "r" "b' = b @ [n]" using assms by (auto simp: bucket_add_def list_ex_key)
    with 2 show ?thesis by auto
  next
    case 3
    then have bad: "list_ex (\<lambda>m. get_state now m = Bad) b" by (simp only: list_ex_iff)
    from 3 have "r" "b' = update_first (\<lambda>m. get_state now m = Bad) (\<lambda>_. n) b"
      using assms bad by (simp_all add: bucket_add_def list_ex_key [of nid] try_replace_bad_node_def)
    with 3 u [OF 3(3)] show ?thesis by blast
  next
    case 4
    then have bad: "\<not> list_ex (\<lambda>m. get_state now m = Bad) b" by (simp only: list_ex_iff) blast
    from 4 have "\<not> r" "b' = b"
      using assms bad by (simp_all add: bucket_add_def list_ex_key [of nid] try_replace_bad_node_def)
    with 4 show ?thesis by blast
  qed
qed

theorem bucket_add_policy_witness:
  "\<exists>b'. bucket_add 0 (demo_node 9) (map (\<lambda>k. demo_node (word_of_nat k)) [0..<8]) = (False, b') \<and>
     b' = map (\<lambda>k. demo_node (word_of_nat k)) [0..<8]"
proof -
  let ?b = "map (\<lambda>k. demo_node (word_of_nat k)) [0..<8]"
  obtain r b' where rb: "bucket_add 0 (demo_node 9) ?b = (r, b')" by force
  have "nid (demo_node 9) \<notin> nid ` set ?b"
  proof
    assume "nid (demo_node 9) \<in> nid ` set ?b"
    then obtain k where "k < 8" "word_of_nat k = (9 :: byte)" by (auto simp: demo_node_def)
    then show False using unat_of_nat [of k, where ?'a = 8] by simp
  qed
  moreover have "\<forall>m \<in> set ?b. get_state 0 m \<noteq> Bad"
    by (auto simp: demo_node_def get_state_def minutes_def)
  ultimately show ?thesis using bucket_add_policy [OF rb] rb by auto
qed

text \<open>Loading what was saved into a fresh table restores the own id and, bucket by bucket and in
  order, the id, address and port of every good node.\<close>

theorem routing_table_roundtrip:
  assumes "table_ok rt"
  shows "\<exists>rt'. rt_deserialize now' (rt_serialize now rt) (new_table i) = (True, rt') \<and> own_id rt' = own_id rt \<and>
    map entry_of (get_all_nodes rt') = map entry_of (filter (is_good now) (get_all_nodes rt))"
proof -
  let ?rt = "\<lparr>own_id = own_id rt,
     buckets = map (\<lambda>b. map (\<lambda>n. loaded_node now' (entry_of n)) (get_good_nodes now b)) (buckets rt)\<rparr>"
  have e: "entry_of (loaded_node now' (entry_of n)) = entry_of n" for n
    by (simp add: entry_of_def loaded_node_def)
  have "map entry_of (get_all_nodes ?rt) = map entry_of (concat (map (get_good_nodes now) (buckets rt)))"
    by (simp add: get_all_nodes_def map_concat comp_def e)
  with deserialize_serialize [OF assms] find_closest_parts(2) show ?thesis
    by (metis get_all_nodes_def routing_table.select_convs(1))
qed

theorem routing_table_roundtrip_witness:
  "\<exists>rt'. rt_deserialize 5 (rt_serialize 0 demo_table) (new_table (replicate 20 9)) = (True, rt') \<and>
     own_id rt' = own_id demo_table"
  using routing_table_roundtrip [OF demo_table_ok] by blast

end
