(* ===== verification/Torrent_Manager.thy ===== *)
theory Torrent_Manager
  imports Piece_Storage Peer_Wire Dht_Node State_Manager Tracker_Client
begin

text \<open>
  \<open>src/manager/operations.cpp\<close>, \<open>lifecycle.cpp\<close> and \<open>status.cpp\<close>: the torrents of the session, adding,
  removing, pausing, saving at shutdown and restoring at start, and the status reports.  A
  \<open>unique_ptr\<close> map is an association list; a peer is a connection with its endpoint.  Each method
  is one step: it holds the manager's mutex or runs before the torrent's threads see the torrent.
  \<open>None\<close> is a call that does not come back: the bencode parser runs away, or the process is
  terminated, which the constructor of the piece manager does when it throws, since its disk
  thread is running.
\<close>

section \<open>State\<close>

record torrent =
  t_meta :: torrent_metadata
  t_pm :: piece_manager
  t_peers :: "(peer_info \<times> peer_conn) list"
  t_discovered :: "peer_info list"
  t_pending :: "string list"
  t_peer_id :: "byte list"
  t_uploaded :: nat
  t_downloaded :: nat
  t_download_speed :: nat
  t_upload_speed :: nat
  t_last_downloaded :: nat
  t_last_uploaded :: nat
  t_last_update :: int
  t_priorities :: "nat list"
  t_paused :: bool
  t_stopping :: bool

datatype connection_state = CONNECTING | HANDSHAKING | COMPLETED | FAILED

record conn_request =
  cr_torrent :: string
  cr_peer :: peer_info
  cr_conn :: peer_conn
  cr_state :: connection_state
  cr_start :: int

record manager =
  mg_torrents :: "(string \<times> torrent) list"
  mg_ids :: "(string \<times> string) list"
  mg_dir :: string
  mg_state :: state_dir
  mg_fs :: file_system
  mg_queue :: "conn_request list"
  mg_active :: "conn_request list"
  mg_searches :: "(byte list \<times> string) list"

text \<open>What the calls find in their environment: which files can be written, whether a state file can
  be opened, the clocks, the bytes of a fresh peer id, the content of uninitialised counters.\<close>

record environment =
  can_write :: "string \<Rightarrow> bool"
  can_save :: bool
  wall_clock :: int
  steady_clock :: int
  random_bytes :: "byte list"
  junk_counters :: "nat \<times> nat"

definition generate_peer_id :: "byte list \<Rightarrow> byte list" where
  "generate_peer_id random = bytes_of_string ''-PS0001-'' @ take 12 random"

definition put_torrent :: "string \<Rightarrow> torrent \<Rightarrow> manager \<Rightarrow> manager" where
  "put_torrent h t m = m\<lparr>mg_torrents := AList.update h t (mg_torrents m)\<rparr>"

section \<open>Adding\<close>

definition fresh_torrent :: "environment \<Rightarrow> torrent_metadata \<Rightarrow> piece_manager \<Rightarrow> nat list \<Rightarrow> torrent" where
  "fresh_torrent env meta pm prio =
     \<lparr>t_meta = meta, t_pm = pm, t_peers = [], t_discovered = [], t_pending = [],
       t_peer_id = generate_peer_id (random_bytes env), t_uploaded = 0, t_downloaded = 0, t_download_speed = 0,
       t_upload_speed = 0, t_last_downloaded = 0, t_last_uploaded = 0, t_last_update = steady_clock env,
       t_priorities = init_priorities meta prio, t_paused = False, t_stopping = False\<rparr>"

definition apply_saved :: "torrent_state option \<Rightarrow> torrent \<Rightarrow> torrent" where
  "apply_saved saved t =
     (case saved of
        None \<Rightarrow> t
      | Some s \<Rightarrow> t\<lparr>t_pm := Piece_Manager.load_state (t_pm t) (ts_bitfield s), t_uploaded := ts_uploaded_bytes s,
          t_downloaded := ts_downloaded_bytes s,
          t_priorities := (if ts_file_priorities s \<noteq> [] then ts_file_priorities s else t_priorities t)\<rparr>)"

definition save_added :: "environment \<Rightarrow> string \<Rightarrow> string \<Rightarrow> torrent_state option \<Rightarrow> torrent \<Rightarrow> state_dir \<Rightarrow> state_dir" where
  "save_added env h raw saved t dir =
     (if raw = [] then dir
      else case saved of
          None \<Rightarrow> snd (save_state (can_save env) h
             \<lparr>ts_info_hash_hex = h, ts_torrent_data = raw, ts_bitfield = get_bitfield (t_pm t), ts_uploaded_bytes = 0,
               ts_downloaded_bytes = 0, ts_file_priorities = t_priorities t, ts_last_updated = wall_clock env\<rparr> dir)
        | Some s \<Rightarrow>
            if ts_torrent_data s = [] then snd (save_state (can_save env) h (s\<lparr>ts_torrent_data := raw\<rparr>) dir)
            else dir)"

definition add_torrent_impl ::
    "environment \<Rightarrow> torrent_metadata \<Rightarrow> nat list \<Rightarrow> string \<Rightarrow> manager \<Rightarrow> (string res \<times> manager) option" where
  "add_torrent_impl env meta prio raw m =
     (let h = info_hash_to_hex (info_hash meta) in
      if map_of (mg_torrents m) h \<noteq> None then Some (Inl ''Torrent already exists'', m)
      else case construct_manager (can_write env) meta (mg_dir m) prio (mg_fs m) of
          Inl e \<Rightarrow> None
        | Inr (pm, fs) \<Rightarrow>
            (case State_Manager.load_state (junk_counters env) (wall_clock env) h (mg_state m) of
               None \<Rightarrow> None
             | Some saved \<Rightarrow>
                 (let t = apply_saved saved (fresh_torrent env meta pm prio)
                  in Some (Inr h, (put_torrent h t m)
                       \<lparr>mg_ids := AList.update (string_of_bytes (info_hash meta)) h (mg_ids m),
                         mg_fs := fs, mg_state := save_added env h raw saved t (mg_state m)\<rparr>))))"

definition add_torrent_data :: "environment \<Rightarrow> string \<Rightarrow> nat list \<Rightarrow> manager \<Rightarrow> (string res \<times> manager) option" where
  "add_torrent_data env data prio m =
     (case parse_torrent data of
        None \<Rightarrow> None
      | Some (Inl e) \<Rightarrow> Some (Inl e, m)
      | Some (Inr meta) \<Rightarrow> add_torrent_impl env meta prio data m)"

text \<open>\<open>read_file\<close> of a path that cannot be opened is the empty string.\<close>

definition add_torrent :: "environment \<Rightarrow> string \<Rightarrow> nat list \<Rightarrow> manager \<Rightarrow> (string res \<times> manager) option" where
  "add_torrent env path prio m =
     add_torrent_data env (case mg_fs m path of Some c \<Rightarrow> string_of_bytes c | None \<Rightarrow> []) prio m"

text \<open>A magnet link only starts a search for peers; \<open>dht_running\<close> is \<open>is_running\<close> of the client.\<close>

definition add_magnet_link :: "bool \<Rightarrow> string \<Rightarrow> manager \<Rightarrow> string res \<times> manager" where
  "add_magnet_link dht_running uri m =
     (if \<not> prefix ''magnet:?'' uri then (Inl ''Invalid magnet link format'', m)
      else case find_str ''xt=urn:btih:'' uri of
          None \<Rightarrow> (Inl ''Magnet link missing info hash'', m)
        | Some p \<Rightarrow>
            (let hex = takeWhile (\<lambda>c. c \<noteq> CHR ''&'') (drop (p + 12) uri) in
             if length hex \<noteq> 40 then (Inl ''Invalid info hash length'', m)
             else case hex_bytes hex of
                 Inl e \<Rightarrow> (Inl e, m)
               | Inr ih \<Rightarrow>
                   (Inr (info_hash_to_hex ih),
                    if dht_running then m\<lparr>mg_searches := mg_searches m @ [(ih, info_hash_to_hex ih)]\<rparr> else m)))"

section \<open>Peers found by the DHT and the trackers\<close>

definition known_peer :: "peer_info list \<Rightarrow> peer_info \<Rightarrow> bool" where
  "known_peer ps p \<longleftrightarrow> (\<exists>q \<in> set ps. pi_ip q = pi_ip p \<and> pi_port q = pi_port p)"

definition add_discovered :: "peer_info list \<Rightarrow> peer_info list \<Rightarrow> peer_info list" where
  "add_discovered found ps = foldl (\<lambda>qs p. if known_peer qs p then qs else qs @ [p]) ps found"

text \<open>The callback that a magnet link passes to the DHT client.\<close>

definition dht_peers_found :: "string \<Rightarrow> peer_info list \<Rightarrow> manager \<Rightarrow> manager" where
  "dht_peers_found h found m =
     (case map_of (mg_torrents m) h of
        None \<Rightarrow> m
      | Some t \<Rightarrow> put_torrent h (t\<lparr>t_discovered := add_discovered found (t_discovered t)\<rparr>) m)"

section \<open>Removing, pausing\<close>

definition torrent_state_of :: "environment \<Rightarrow> string \<Rightarrow> string \<Rightarrow> torrent \<Rightarrow> torrent_state" where
  "torrent_state_of env h data t =
     \<lparr>ts_info_hash_hex = h, ts_torrent_data = data, ts_bitfield = get_bitfield (t_pm t),
       ts_uploaded_bytes = t_uploaded t, ts_downloaded_bytes = t_downloaded t,
       ts_file_priorities = t_priorities t, ts_last_updated = wall_clock env\<rparr>"

definition remove_torrent :: "environment \<Rightarrow> string \<Rightarrow> manager \<Rightarrow> bool \<times> manager" where
  "remove_torrent env h m =
     (case map_of (mg_torrents m) h of
        None \<Rightarrow> (False, m)
      | Some t \<Rightarrow>
          (True, m\<lparr>mg_torrents := AList.delete h (mg_torrents m),
             mg_ids := AList.delete (string_of_bytes (info_hash (t_meta t))) (mg_ids m),
             mg_state := snd (save_state (can_save env) h (torrent_state_of env h [] t) (mg_state m))\<rparr>))"

definition set_paused :: "bool \<Rightarrow> string \<Rightarrow> manager \<Rightarrow> bool \<times> manager" where
  "set_paused p h m =
     (case map_of (mg_torrents m) h of
        None \<Rightarrow> (False, m)
      | Some t \<Rightarrow> (True, put_torrent h (t\<lparr>t_paused := p\<rparr>) m))"

definition pause_torrent :: "string \<Rightarrow> manager \<Rightarrow> bool \<times> manager" where
  "pause_torrent h m = set_paused True h m"

definition resume_torrent :: "string \<Rightarrow> manager \<Rightarrow> bool \<times> manager" where
  "resume_torrent h m = set_paused False h m"

definition list_torrents :: "manager \<Rightarrow> string list" where
  "list_torrents m = map fst (mg_torrents m)"

section \<open>Shutting down and starting again\<close>

text \<open>The destructor saves every torrent with the torrent data of its saved state.\<close>

definition shutdown_torrent :: "environment \<Rightarrow> string \<Rightarrow> torrent \<Rightarrow> state_dir \<Rightarrow> state_dir option" where
  "shutdown_torrent env h t dir =
     map_option
       (\<lambda>old. snd (save_state (can_save env) h
          (torrent_state_of env h (case old of Some s \<Rightarrow> ts_torrent_data s | None \<Rightarrow> []) t) dir))
       (State_Manager.load_state (junk_counters env) (wall_clock env) h dir)"

fun shutdown_torrents :: "environment \<Rightarrow> (string \<times> torrent) list \<Rightarrow> state_dir \<Rightarrow> state_dir option" where
  "shutdown_torrents env [] dir = Some dir"
| "shutdown_torrents env ((h, t) # ts) dir = Option.bind (shutdown_torrent env h t dir) (shutdown_torrents env ts)"

definition shutdown :: "environment \<Rightarrow> manager \<Rightarrow> (state_dir \<times> file_system) option" where
  "shutdown env m = map_option (\<lambda>dir. (dir, mg_fs m)) (shutdown_torrents env (mg_torrents m) (mg_state m))"

definition restore_one :: "environment \<Rightarrow> string \<Rightarrow> manager \<Rightarrow> manager option" where
  "restore_one env h m =
     (case State_Manager.load_state (junk_counters env) (wall_clock env) h (mg_state m) of
        None \<Rightarrow> None
      | Some None \<Rightarrow> Some m
      | Some (Some s) \<Rightarrow>
          if ts_torrent_data s = [] then Some m
          else case parse_torrent (ts_torrent_data s) of
              None \<Rightarrow> None
            | Some (Inl e) \<Rightarrow> Some m
            | Some (Inr meta) \<Rightarrow>
                map_option snd (add_torrent_impl env meta (ts_file_priorities s) (ts_torrent_data s) m))"

fun restore_all :: "environment \<Rightarrow> string list \<Rightarrow> manager \<Rightarrow> manager option" where
  "restore_all env [] m = Some m"
| "restore_all env (h # hs) m = Option.bind (restore_one env h m) (restore_all env hs)"

definition restore_torrents :: "environment \<Rightarrow> manager \<Rightarrow> manager option" where
  "restore_torrents env m = restore_all env (list_saved_torrents (mg_state m)) m"

definition new_session :: "string \<Rightarrow> state_dir \<Rightarrow> file_system \<Rightarrow> manager" where
  "new_session dir states fs =
     \<lparr>mg_torrents = [], mg_ids = [], mg_dir = dir, mg_state = states, mg_fs = fs, mg_queue = [], mg_active = [],
       mg_searches = []\<rparr>"

definition start_session :: "environment \<Rightarrow> string \<Rightarrow> state_dir \<Rightarrow> file_system \<Rightarrow> manager option" where
  "start_session env dir states fs = restore_torrents env (new_session dir states fs)"

section \<open>Speeds and reports\<close>

text \<open>The quotient of two \<open>double\<close> values that are natural numbers, rounded and cut to an integer.\<close>

definition double_quot :: "nat \<Rightarrow> nat \<Rightarrow> nat" where
  "double_quot a b =
     (if a div b < 2 ^ 53 then round_even (a * 2 ^ 53) b div 2 ^ 53
      else let e = excess_bits (a div b) in round_even a (b * 2 ^ e) * 2 ^ e)"

definition speed :: "nat \<Rightarrow> nat \<Rightarrow> nat" where
  "speed diff ms = double_quot (double_of_size (double_of_size diff * 1000)) ms"

definition milliseconds :: "int \<Rightarrow> int" where
  "milliseconds d = (if 0 \<le> d then d div 1000000 else - ((- d) div 1000000))"

definition update_torrent_speed :: "int \<Rightarrow> torrent \<Rightarrow> torrent" where
  "update_torrent_speed now t =
     (let ms = milliseconds (now - t_last_update t) in
      if ms < 500 then t
      else let down = get_total_downloaded_bytes (t_pm t) in
        t\<lparr>t_download_speed := speed (down - t_last_downloaded t) (nat ms),
          t_upload_speed := speed (t_uploaded t - t_last_uploaded t) (nat ms),
          t_last_downloaded := down, t_last_uploaded := t_uploaded t, t_last_update := now\<rparr>)"

definition update_speeds :: "int \<Rightarrow> manager \<Rightarrow> manager" where
  "update_speeds now m = m\<lparr>mg_torrents := map (map_prod id (update_torrent_speed now)) (mg_torrents m)\<rparr>"

definition u64_sum :: "nat list \<Rightarrow> nat" where
  "u64_sum ns = foldl u64_add 0 ns"

text \<open>\<open>dht\<close> is what the client reports: running, nodes, queries.\<close>

definition get_global_stats :: "(bool \<times> nat \<times> nat) option \<Rightarrow> manager \<Rightarrow> json" where
  "get_global_stats dht m =
     (let ts = map snd (mg_torrents m) in
      JObject
        ([(''total_torrents'', size_number (length ts)),
          (''total_downloaded'', size_number (u64_sum (map t_last_downloaded ts))),
          (''total_uploaded'', size_number (u64_sum (map t_uploaded ts))),
          (''active_peers'', size_number (u64_sum (map (\<lambda>t. length (t_peers t)) ts))),
          (''download_speed'', size_number (u64_sum (map t_download_speed ts))),
          (''upload_speed'', size_number (u64_sum (map t_upload_speed ts)))] @
         (case dht of
            None \<Rightarrow> []
          | Some (running, nodes, queries) \<Rightarrow>
              [(''dht_active'', JBool running), (''dht_nodes'', size_number nodes), (''dht_queries'', size_number queries)])))"

definition is_seed :: "peer_conn \<Rightarrow> bool" where
  "is_seed c \<longleftrightarrow> bitfield c \<noteq> [] \<and> list_all id (bitfield c)"

definition file_json :: "nat list \<Rightarrow> nat \<Rightarrow> torrent_file \<Rightarrow> json" where
  "file_json prios i f =
     JObject [(''path'', JString (tf_path f)), (''size'', size_number (tf_length f)), (''priority'', size_number (prios ! i))]"

text \<open>The printed percentage is an argument, a \<open>double\<close> that need not be a whole number.  The inner
  option is the code's; the outer one is the read past the end of the priorities.\<close>

definition get_torrent_status :: "(piece_manager \<Rightarrow> string) \<Rightarrow> string \<Rightarrow> manager \<Rightarrow> json option option" where
  "get_torrent_status percentage h m =
     (case map_of (mg_torrents m) h of
        None \<Rightarrow> Some None
      | Some t \<Rightarrow>
          if length (t_priorities t) < length (files (t_meta t)) then None
          else let cs = filter connected (map snd (t_peers t)) in
            Some (Some (JObject
              [(''name'', JString (tname (t_meta t))), (''info_hash'', JString h),
               (''total_size'', size_number (total_length (t_meta t))),
               (''downloaded'', size_number (get_total_downloaded_bytes (t_pm t))),
               (''uploaded'', size_number (t_uploaded t)),
               (''download_speed'', size_number (t_download_speed t)),
               (''upload_speed'', size_number (t_upload_speed t)),
               (''completion'', JNumber (percentage (t_pm t))), (''paused'', JBool (t_paused t)),
               (''seeds'', size_number (length (filter is_seed cs))),
               (''peers'', size_number (length (filter (\<lambda>c. \<not> is_seed c) cs))),
               (''total_peers'', size_number (length (t_peers t) + length (t_discovered t))),
               (''peers_list'', JArray []),
               (''files'', JArray (map (\<lambda>i. file_json (t_priorities t) i (files (t_meta t) ! i))
                  [0..<length (files (t_meta t))]))])))"

end
