(* ===== verification/Manager_Workers.thy ===== *)
theory Manager_Workers
  imports Torrent_Manager
begin

text \<open>
  The threads of the torrent manager: \<open>src/manager/peer_worker.cpp\<close> (one round per torrent and the
  piece callback), \<open>connection_worker.cpp\<close> (the state machine of outgoing connections),
  \<open>tcp_listener.cpp\<close> (incoming connections) and \<open>tracker_worker.cpp\<close>.  What a socket or \<open>select\<close>
  reports is an argument.  A connection object belongs either to a request in the worker's queue
  or to the torrent's peers, so it is a value there.
\<close>

section \<open>Outgoing connections: the peer worker's part\<close>

definition peer_key :: "peer_info \<Rightarrow> string" where
  "peer_key p = peer_to_string p @ '':'' @ show_nat (unat (pi_port p))"

definition outgoing_conn :: "torrent \<Rightarrow> nat list \<Rightarrow> peer_conn" where
  "outgoing_conn t ss = new_conn False (t_meta t) (info_hash (t_meta t)) (t_peer_id t) (t_pm t) ss"

text \<open>\<open>ss\<close> gives the results of the sends of the connection of a peer.\<close>

fun enqueue_peers ::
    "int \<Rightarrow> (peer_info \<Rightarrow> nat list) \<Rightarrow> string \<Rightarrow> peer_info list \<Rightarrow> torrent \<times> conn_request list \<Rightarrow> torrent \<times> conn_request list" where
  "enqueue_peers now ss h [] st = st"
| "enqueue_peers now ss h (p # ps) (t, q) =
     (if 50 \<le> length (t_peers t) then (t, q)
      else if peer_key p \<in> set (t_pending t) then enqueue_peers now ss h ps (t, q)
      else enqueue_peers now ss h ps
        (t\<lparr>t_pending := peer_key p # t_pending t\<rparr>,
         q @ [\<lparr>cr_torrent = h, cr_peer = p, cr_conn = outgoing_conn t (ss p), cr_state = CONNECTING, cr_start = now\<rparr>]))"

definition drop_disconnected :: "torrent \<Rightarrow> torrent" where
  "drop_disconnected t = t\<lparr>t_peers := filter (\<lambda>p. connected (snd p)) (t_peers t)\<rparr>"

section \<open>Requesting blocks\<close>

fun request_blocks ::
    "nat \<Rightarrow> nat \<Rightarrow> nat list \<Rightarrow> nat \<Rightarrow> piece_manager \<Rightarrow> peer_conn \<Rightarrow> (nat \<times> piece_manager \<times> peer_conn) option" where
  "request_blocks i psize [] k pm c = Some (k, pm, c)"
| "request_blocks i psize (b # bs) k pm c =
     (if 4 \<le> k then Some (k, pm, c)
      else case request_block pm i b 16384 of
          None \<Rightarrow> None
        | Some (False, pm') \<Rightarrow> request_blocks i psize bs k pm' c
        | Some (True, pm') \<Rightarrow>
            request_blocks i psize bs (k + 1) pm' (send_request i (b * 16384) (min 16384 (psize - b * 16384)) c))"

fun request_from ::
    "nat \<Rightarrow> nat \<Rightarrow> (peer_info \<times> peer_conn) list \<Rightarrow> piece_manager \<Rightarrow> (piece_manager \<times> (peer_info \<times> peer_conn) list) option" where
  "request_from i psize [] pm = Some (pm, [])"
| "request_from i psize ((p, c) # ps) pm =
     (if \<not> connected c \<or> \<not> (i < length (bitfield c) \<and> bitfield c ! i)
      then map_option (map_prod id ((#) (p, c))) (request_from i psize ps pm)
      else if peer_choking c
      then map_option (map_prod id ((#) (p, set_interested True c))) (request_from i psize ps pm)
      else case request_blocks i psize [0..<u64_sub (u64_add psize 16384) 1 div 16384] 0 pm c of
          None \<Rightarrow> None
        | Some (k, pm', c') \<Rightarrow>
            if 0 < k then Some (pm', (p, c') # ps)
            else map_option (map_prod id ((#) (p, c'))) (request_from i psize ps pm'))"

definition download_step :: "torrent \<Rightarrow> torrent option" where
  "download_step t =
     (if completion_reached (t_pm t) then Some t
      else let fields = map bitfield (filter connected (map snd (t_peers t)));
               i = select_rarest_piece (t_pm t) fields None
           in if i = size_max then Some t
              else case piece_size_of (t_meta t) i of
                  None \<Rightarrow> None
                | Some psize \<Rightarrow>
                    map_option (\<lambda>(pm, ps). t\<lparr>t_pm := pm, t_peers := ps\<rparr>) (request_from i psize (t_peers t) (t_pm t)))"

text \<open>One round of \<open>peer_worker\<close> for a torrent that is neither stopping nor paused.\<close>

definition peer_round :: "int \<Rightarrow> (peer_info \<Rightarrow> nat list) \<Rightarrow> string \<Rightarrow> manager \<Rightarrow> manager option" where
  "peer_round now ss h m =
     (case map_of (mg_torrents m) h of
        None \<Rightarrow> Some m
      | Some t \<Rightarrow>
          if t_stopping t \<or> t_paused t then Some m
          else let (t1, q) = enqueue_peers now ss h (t_discovered t) (t, mg_queue m)
               in map_option (\<lambda>t2. (put_torrent h t2 m)\<lparr>mg_queue := q\<rparr>) (download_step (drop_disconnected t1)))"

text \<open>The piece callback of a torrent's connections.\<close>

definition announce_piece :: "nat \<Rightarrow> torrent \<Rightarrow> torrent" where
  "announce_piece i t = t\<lparr>t_peers := map (\<lambda>(p, c). (p, if connected c then set_have_piece i True c else c)) (t_peers t)\<rparr>"

definition piece_callback :: "string \<Rightarrow> nat \<Rightarrow> nat \<Rightarrow> byte list \<Rightarrow> manager \<Rightarrow> manager" where
  "piece_callback h i begin data m =
     (case map_of (mg_torrents m) h of
        None \<Rightarrow> m
      | Some t \<Rightarrow>
          (case receive_block (t_pm t) i begin data of (got, pm) \<Rightarrow>
             if \<not> got then m
             else let t1 = t\<lparr>t_pm := pm, t_downloaded := u64_add (t_downloaded t) (length data)\<rparr> in
               if \<not> is_piece_complete pm i then put_torrent h t1 m
               else case verify_piece pm i of (good, pm') \<Rightarrow>
                 put_torrent h (if good then announce_piece i (t1\<lparr>t_pm := pm'\<rparr>) else t1\<lparr>t_pm := pm'\<rparr>) m))"

section \<open>The connection worker\<close>

definition drain_queue :: "manager \<Rightarrow> manager" where
  "drain_queue m = m\<lparr>mg_active := mg_active m @ mg_queue m, mg_queue := []\<rparr>"

definition forget_pending :: "conn_request \<Rightarrow> manager \<Rightarrow> manager" where
  "forget_pending r m =
     (case map_of (mg_torrents m) (cr_torrent r) of
        None \<Rightarrow> m
      | Some t \<Rightarrow> put_torrent (cr_torrent r) (t\<lparr>t_pending := removeAll (peer_key (cr_peer r)) (t_pending t)\<rparr>) m)"

text \<open>The first pass over a request: \<open>None\<close> drops it.\<close>

definition cap_reached :: "conn_request \<Rightarrow> manager \<Rightarrow> bool" where
  "cap_reached r m \<longleftrightarrow>
     (case map_of (mg_torrents m) (cr_torrent r) of None \<Rightarrow> True | Some t \<Rightarrow> 50 \<le> length (t_peers t))"

definition prepare_request :: "int \<Rightarrow> connect_result \<Rightarrow> manager \<Rightarrow> conn_request \<Rightarrow> conn_request option" where
  "prepare_request now result m r =
     (if 30 * 1000000000 < now - cr_start r then None
      else case cr_state r of
          CONNECTING \<Rightarrow>
            if socket_open (cr_conn r) then Some r
            else if cap_reached r m then None
            else (case start_connect result (cr_conn r) of (ok, c) \<Rightarrow>
                    if ok \<and> socket_open c then Some (r\<lparr>cr_conn := c\<rparr>) else None)
        | HANDSHAKING \<Rightarrow> if socket_open (cr_conn r) then Some r else None
        | _ \<Rightarrow> Some r)"

fun prepare_all :: "int \<Rightarrow> (conn_request \<Rightarrow> connect_result) \<Rightarrow> conn_request list \<Rightarrow> manager \<Rightarrow> manager" where
  "prepare_all now result [] m = m"
| "prepare_all now result (r # rs) m =
     (case prepare_request now (result r) m r of
        None \<Rightarrow> prepare_all now result rs (forget_pending r m)
      | Some r' \<Rightarrow> prepare_all now result rs (m\<lparr>mg_active := mg_active m @ [r']\<rparr>))"

text \<open>What \<open>select\<close> and the socket report for a request.\<close>

record io_report =
  writable :: bool
  readable :: bool
  connect_error :: bool
  send_result :: io_result
  recv_data :: recv_result

datatype progress = Waiting conn_request | Failed conn_request | Finished conn_request

definition advance_request :: "io_report \<Rightarrow> conn_request \<Rightarrow> progress" where
  "advance_request io r =
     (if \<not> socket_open (cr_conn r) then Waiting r
      else case cr_state r of
          CONNECTING \<Rightarrow>
            if \<not> writable io then Waiting r
            else (case check_connect_result (connect_error io) (cr_conn r) of (ok, c) \<Rightarrow>
                    if \<not> ok then Failed (r\<lparr>cr_conn := c\<rparr>)
                    else case send_handshake (send_result io) c of (ok', c') \<Rightarrow>
                      if ok' then Waiting (r\<lparr>cr_conn := c', cr_state := HANDSHAKING\<rparr>) else Failed (r\<lparr>cr_conn := c'\<rparr>))
        | HANDSHAKING \<Rightarrow>
            if \<not> readable io then Waiting r
            else (case receive_handshake_nonblocking (recv_data io) (cr_conn r) of (ok, c) \<Rightarrow>
                    if ok then Finished (r\<lparr>cr_conn := c\<rparr>) else Failed (r\<lparr>cr_conn := c\<rparr>))
        | _ \<Rightarrow> Waiting r)"

definition attach_finished :: "conn_request \<Rightarrow> manager \<Rightarrow> manager" where
  "attach_finished r m =
     (case map_of (mg_torrents m) (cr_torrent r) of
        None \<Rightarrow> m
      | Some t \<Rightarrow>
          put_torrent (cr_torrent r)
            (t\<lparr>t_pending := removeAll (peer_key (cr_peer r)) (t_pending t),
               t_peers := t_peers t @ [(cr_peer r, start (cr_conn r))]\<rparr>) m)"

fun advance_all :: "(conn_request \<Rightarrow> io_report) \<Rightarrow> conn_request list \<Rightarrow> manager \<Rightarrow> manager" where
  "advance_all io [] m = m"
| "advance_all io (r # rs) m =
     (case advance_request (io r) r of
        Waiting r' \<Rightarrow> advance_all io rs (m\<lparr>mg_active := mg_active m @ [r']\<rparr>)
      | Failed r' \<Rightarrow> advance_all io rs (forget_pending r' m)
      | Finished r' \<Rightarrow> advance_all io rs (attach_finished r' m))"

text \<open>One round: \<open>selected\<close> is \<open>None\<close> when \<open>select\<close> fails.\<close>

definition connection_round ::
    "int \<Rightarrow> (conn_request \<Rightarrow> connect_result) \<Rightarrow> (conn_request \<Rightarrow> io_report) option \<Rightarrow> manager \<Rightarrow> manager" where
  "connection_round now result selected m =
     (let m1 = drain_queue m;
          m2 = prepare_all now result (mg_active m1) (m1\<lparr>mg_active := []\<rparr>)
      in case selected of
           None \<Rightarrow> m2
         | Some io \<Rightarrow> advance_all io (mg_active m2) (m2\<lparr>mg_active := []\<rparr>))"

section \<open>Incoming connections\<close>

text \<open>\<open>buf\<close> is what \<open>recv\<close> brought of the 68 bytes, \<open>n\<close> the result of sending our handshake.  When
  that fails the thread locks the manager's mutex it already holds: \<open>None\<close>.\<close>

definition accept_peer :: "byte list \<Rightarrow> peer_info \<Rightarrow> nat \<Rightarrow> nat list \<Rightarrow> manager \<Rightarrow> manager option" where
  "accept_peer buf p n ss m =
     (if length buf \<noteq> 68 \<or> buf ! 0 \<noteq> 19 \<or> take 19 (drop 1 buf) \<noteq> protocol_string then Some m
      else case map_of (mg_ids m) (string_of_bytes (take 20 (drop 28 buf))) of
          None \<Rightarrow> Some m
        | Some h \<Rightarrow>
            (case map_of (mg_torrents m) h of
               None \<Rightarrow> Some m
             | Some t \<Rightarrow>
                 if 50 \<le> length (t_peers t) \<or> peer_key p \<in> set (t_pending t) \<or> known_peer (map fst (t_peers t)) p then Some m
                 else (case respond_to_handshake n
                         (new_conn True (t_meta t) (info_hash (t_meta t)) (t_peer_id t) (t_pm t) ss) of (ok, c) \<Rightarrow>
                         if ok then Some (put_torrent h (t\<lparr>t_peers := t_peers t @ [(p, start c)]\<rparr>) m) else None)))"

section \<open>The tracker worker\<close>

definition ask_tracker ::
    "(bool \<Rightarrow> string \<Rightarrow> string res) \<Rightarrow> bool \<Rightarrow> torrent \<Rightarrow> string \<Rightarrow> torrent option" where
  "ask_tracker fetch first t url =
     map_option
       (\<lambda>r. case r of
          Inl e \<Rightarrow> t
        | Inr ps \<Rightarrow> t\<lparr>t_discovered := add_discovered ps (t_discovered t)\<rparr>)
       (get_peers fetch (t_meta t) (t_peer_id t) 6881 (t_uploaded t) (t_downloaded t)
          (u64_sub (total_length (t_meta t)) (t_downloaded t)) (if first then ''started'' else []) (Some url))"

fun ask_trackers :: "(bool \<Rightarrow> string \<Rightarrow> string res) \<Rightarrow> bool \<Rightarrow> string list \<Rightarrow> torrent \<Rightarrow> torrent option" where
  "ask_trackers fetch first [] t = Some t"
| "ask_trackers fetch first (u # us) t =
     (if t_stopping t then Some t else Option.bind (ask_tracker fetch first t u) (ask_trackers fetch first us))"

definition tracker_round :: "(bool \<Rightarrow> string \<Rightarrow> string res) \<Rightarrow> bool \<Rightarrow> string \<Rightarrow> manager \<Rightarrow> manager option" where
  "tracker_round fetch first h m =
     (case map_of (mg_torrents m) h of
        None \<Rightarrow> Some m
      | Some t \<Rightarrow>
          if t_stopping t \<or> t_paused t then Some m
          else map_option (\<lambda>t'. put_torrent h t' m) (ask_trackers fetch first (announce_list (t_meta t)) t))"

section \<open>Messages and disk rounds of a torrent\<close>

text \<open>A connection's thread handles a message with the torrent's piece manager; the blocks it brings
  go through the piece callback.\<close>

definition deliver_message :: "string \<Rightarrow> nat \<Rightarrow> peer_message \<Rightarrow> manager \<Rightarrow> manager option" where
  "deliver_message h k msg m =
     (case map_of (mg_torrents m) h of
        None \<Rightarrow> Some m
      | Some t \<Rightarrow>
          if length (t_peers t) \<le> k then Some m
          else (case handle_message (read_piece (t_pm t) (mg_fs m)) msg (snd (t_peers t ! k)) of
              None \<Rightarrow> None
            | Some (c, calls) \<Rightarrow>
                Some (fold (\<lambda>(i, b, d). piece_callback h i b d) calls
                  (put_torrent h (t\<lparr>t_peers := (t_peers t)[k := (fst (t_peers t ! k), c)]\<rparr>) m))))"

definition disk_round :: "string \<Rightarrow> manager \<Rightarrow> manager option" where
  "disk_round h m =
     (case map_of (mg_torrents m) h of
        None \<Rightarrow> Some m
      | Some t \<Rightarrow> map_option (\<lambda>(pm, fs). (put_torrent h (t\<lparr>t_pm := pm\<rparr>) m)\<lparr>mg_fs := fs\<rparr>) (disk_step (t_pm t) (mg_fs m)))"

section \<open>Steps of a session\<close>

inductive manager_step :: "(environment \<Rightarrow> bool) \<Rightarrow> manager \<Rightarrow> manager \<Rightarrow> bool" for E where
  add: "E env \<Longrightarrow> add_torrent_data env data prio m = Some (r, m') \<Longrightarrow> manager_step E m m'"
| magnet: "add_magnet_link running uri m = (r, m') \<Longrightarrow> manager_step E m m'"
| found: "manager_step E m (dht_peers_found h ps m)"
| remove: "E env \<Longrightarrow> remove_torrent env h m = (r, m') \<Longrightarrow> manager_step E m m'"
| pause: "set_paused p h m = (r, m') \<Longrightarrow> manager_step E m m'"
| speeds: "manager_step E m (update_speeds now m)"
| peers: "peer_round now ss h m = Some m' \<Longrightarrow> manager_step E m m'"
| connections: "manager_step E m (connection_round now result selected m)"
| accept: "accept_peer buf p n ss m = Some m' \<Longrightarrow> manager_step E m m'"
| tracker: "tracker_round fetch first h m = Some m' \<Longrightarrow> manager_step E m m'"
| message: "deliver_message h k msg m = Some m' \<Longrightarrow> manager_step E m m'"
| disk: "disk_round h m = Some m' \<Longrightarrow> manager_step E m m'"

section \<open>The invariant\<close>

text \<open>What no operation on a piece manager changes.\<close>

definition pm_shape :: "piece_manager \<Rightarrow> torrent_metadata \<times> nat" where
  "pm_shape pm = (metadata pm, length (have_pieces pm))"

definition pi_endpoint :: "peer_info \<Rightarrow> byte list \<times> 16 word" where
  "pi_endpoint p = (pi_ip p, pi_port p)"

definition torrent_ok :: "string \<Rightarrow> torrent \<Rightarrow> bool" where
  "torrent_ok h t \<longleftrightarrow> h = info_hash_to_hex (info_hash (t_meta t)) \<and> pm_shape (t_pm t) = (t_meta t, num_pieces (t_meta t)) \<and>
     list_all (\<lambda>f. tf_length f \<le> 2 ^ 63) (files (t_meta t)) \<and> distinct (map pi_endpoint (t_discovered t))"

text \<open>The index of the info hashes is exact; the endpoints a torrent refuses to contact again have a
  request under way, among the requests \<open>rs\<close>.\<close>

definition index_ok :: "manager \<Rightarrow> bool" where
  "index_ok m \<longleftrightarrow> um_ok (mg_torrents m) \<and> (\<forall>h t. map_of (mg_torrents m) h = Some t \<longrightarrow> torrent_ok h t) \<and>
     (\<forall>k h. map_of (mg_ids m) k = Some h \<longleftrightarrow>
        (\<exists>t. map_of (mg_torrents m) h = Some t \<and> k = string_of_bytes (info_hash (t_meta t))))"

definition requested_keys :: "string \<Rightarrow> conn_request list \<Rightarrow> string set" where
  "requested_keys h rs = (peer_key \<circ> cr_peer) ` {r \<in> set rs. cr_torrent r = h}"

definition pending_covered :: "conn_request list \<Rightarrow> manager \<Rightarrow> bool" where
  "pending_covered rs m \<longleftrightarrow>
     (\<forall>h t. map_of (mg_torrents m) h = Some t \<longrightarrow> set (t_pending t) \<subseteq> requested_keys h rs)"

definition manager_ok :: "manager \<Rightarrow> bool" where
  "manager_ok m \<longleftrightarrow> index_ok m \<and> pending_covered (mg_active m @ mg_queue m) m"

lemma put_torrent_simps [simp]:
  "map_of (mg_torrents (put_torrent h t m)) = (map_of (mg_torrents m))(h \<mapsto> t)"
  "mg_ids (put_torrent h t m) = mg_ids m" "mg_dir (put_torrent h t m) = mg_dir m"
  "mg_state (put_torrent h t m) = mg_state m" "mg_fs (put_torrent h t m) = mg_fs m"
  "mg_queue (put_torrent h t m) = mg_queue m" "mg_active (put_torrent h t m) = mg_active m"
  "um_ok (mg_torrents m) \<Longrightarrow> um_ok (mg_torrents (put_torrent h t m))"
  by (simp_all add: put_torrent_def um.look_put um.inv_put)

text \<open>Replacing a torrent by one of the same metadata.\<close>

lemma put_index_ok:
  assumes "index_ok m" "map_of (mg_torrents m) h = Some t" "torrent_ok h t'" "t_meta t' = t_meta t"
  shows "index_ok (put_torrent h t' m)"
  using assms unfolding index_ok_def by (auto split: if_splits)

lemma put_pending_covered:
  assumes "pending_covered rs m" "set (t_pending t') \<subseteq> requested_keys h rs"
  shows "pending_covered rs (put_torrent h t' m)"
  using assms by (auto simp: pending_covered_def split: if_splits)

lemma put_same_pending:
  assumes "manager_ok m" "map_of (mg_torrents m) h = Some t" "torrent_ok h t'" "t_meta t' = t_meta t"
    "set (t_pending t') \<subseteq> set (t_pending t)"
  shows "manager_ok (put_torrent h t' m)"
proof -
  have "set (t_pending t') \<subseteq> requested_keys h (mg_active m @ mg_queue m)"
    using assms(1,2,5) by (fastforce simp: manager_ok_def pending_covered_def)
  then show ?thesis using assms put_index_ok put_pending_covered by (simp add: manager_ok_def)
qed

lemma manager_okD: "manager_ok m \<Longrightarrow> map_of (mg_torrents m) h = Some t \<Longrightarrow> torrent_ok h t"
  by (simp add: manager_ok_def index_ok_def)

lemma manager_ok_frame:
  "manager_ok m \<Longrightarrow> mg_torrents m' = mg_torrents m \<Longrightarrow> mg_ids m' = mg_ids m \<Longrightarrow> mg_queue m' = mg_queue m \<Longrightarrow>
   mg_active m' = mg_active m \<Longrightarrow> manager_ok m'"
  by (simp add: manager_ok_def index_ok_def pending_covered_def)

lemma ok_frame [simp]:
  "index_ok (m\<lparr>mg_queue := q\<rparr>) = index_ok m" "pending_covered rs (m\<lparr>mg_queue := q\<rparr>) = pending_covered rs m"
  "index_ok (m\<lparr>mg_active := q\<rparr>) = index_ok m" "pending_covered rs (m\<lparr>mg_active := q\<rparr>) = pending_covered rs m"
  by (simp_all add: index_ok_def pending_covered_def)

lemma requested_keys_mono: "set rs \<subseteq> set rs' \<Longrightarrow> requested_keys h rs \<subseteq> requested_keys h rs'"
  by (auto simp: requested_keys_def)

lemma new_session_ok: "manager_ok (new_session d s f)"
  by (simp add: manager_ok_def index_ok_def pending_covered_def new_session_def um_ok_def)

subsection \<open>Adding and removing\<close>

lemma add_discovered_distinct:
  "distinct (map pi_endpoint ps) \<Longrightarrow> distinct (map pi_endpoint (add_discovered found ps))"
  unfolding add_discovered_def
proof (induction found arbitrary: ps)
  case (Cons p found)
  have "\<not> known_peer ps p \<Longrightarrow> pi_endpoint p \<notin> pi_endpoint ` set ps"
    by (auto simp: known_peer_def pi_endpoint_def)
  then show ?case using Cons by simp
qed simp

lemma load_state_shape [simp]: "pm_shape (Piece_Manager.load_state pm bf) = pm_shape pm"
  by (simp add: Piece_Manager.load_state_def pm_shape_def)

lemma create_files_lengths: "create_files cw d fs f = Inr f' \<Longrightarrow> list_all (\<lambda>f. tf_length f \<le> 2 ^ 63) fs"
  by (induction cw d fs f rule: create_files.induct) (auto simp: Let_def split: if_splits)

lemma construct_meta: "construct_manager cw meta d prio fs = Inr (pm, fs') \<Longrightarrow> pm = new_manager meta d prio \<and> list_all (\<lambda>f. tf_length f \<le> 2 ^ 63) (files meta)"
  by (auto simp: construct_manager_def ebind_Inr_iff dest: create_files_lengths)

lemma apply_saved_fields [simp]:
  "t_meta (apply_saved s t) = t_meta t" "t_discovered (apply_saved s t) = t_discovered t"
  "t_pending (apply_saved s t) = t_pending t" "pm_shape (t_pm (apply_saved s t)) = pm_shape (t_pm t)"
  by (simp_all add: apply_saved_def split: option.splits)

lemma fresh_torrent_fields [simp]:
  "t_meta (fresh_torrent env meta pm prio) = meta" "t_discovered (fresh_torrent env meta pm prio) = []"
  "t_pending (fresh_torrent env meta pm prio) = []" "t_pm (fresh_torrent env meta pm prio) = pm"
  by (simp_all add: fresh_torrent_def)

lemma add_impl_ok:
  assumes m: "manager_ok m" and a: "add_torrent_impl env meta prio raw m = Some (r, m')"
  shows "manager_ok m'"
proof -
  let ?h = "info_hash_to_hex (info_hash meta)"
  from a consider "m' = m" | pm fs saved where "map_of (mg_torrents m) ?h = None"
    "construct_manager (can_write env) meta (mg_dir m) prio (mg_fs m) = Inr (pm, fs)"
    "m' = (put_torrent ?h (apply_saved saved (fresh_torrent env meta pm prio)) m)
       \<lparr>mg_ids := AList.update (string_of_bytes (info_hash meta)) ?h (mg_ids m), mg_fs := fs,
        mg_state := save_added env ?h raw saved (apply_saved saved (fresh_torrent env meta pm prio)) (mg_state m)\<rparr>"
    by (auto simp: add_torrent_impl_def Let_def split: if_splits sum.splits option.splits)
  then show ?thesis
  proof cases
    case 2
    let ?t = "apply_saved saved (fresh_torrent env meta pm prio)"
    have "pm_shape pm = (meta, num_pieces meta)" "list_all (\<lambda>f. tf_length f \<le> 2 ^ 63) (files meta)"
      using construct_meta [OF 2(2)] by (simp_all add: pm_shape_def new_manager_def)
    then have t: "torrent_ok ?h ?t" by (simp add: torrent_ok_def)
    have "index_ok m'"
      using m t 2(1) unfolding manager_ok_def index_ok_def 2(3)
      by (auto simp: AList.update_conv' torrent_ok_def split: if_splits)
    moreover have "pending_covered (mg_active m @ mg_queue m) (put_torrent ?h ?t m)"
      using m by (intro put_pending_covered) (simp_all add: manager_ok_def)
    ultimately show ?thesis by (simp add: 2(3) manager_ok_def pending_covered_def)
  qed (use m in simp)
qed

lemma remove_ok:
  assumes m: "manager_ok m" and r: "remove_torrent env h m = (b, m')"
  shows "manager_ok m'"
proof (cases "map_of (mg_torrents m) h")
  case (Some t)
  then have t: "torrent_ok h t" using m by (rule manager_okD [rotated])
  have m': "mg_torrents m' = AList.delete h (mg_torrents m)" "mg_queue m' = mg_queue m" "mg_active m' = mg_active m"
    "mg_ids m' = AList.delete (string_of_bytes (info_hash (t_meta t))) (mg_ids m)"
    using r Some by (auto simp: remove_torrent_def)
  have "index_ok m'"
    using m t Some unfolding manager_ok_def index_ok_def m'
    by (auto simp: AList.delete_conv' um.inv_del torrent_ok_def split: if_splits) metis
  moreover have "pending_covered (mg_active m @ mg_queue m) m'"
    using m unfolding manager_ok_def pending_covered_def m' by (simp add: AList.delete_conv')
  ultimately show ?thesis by (simp add: manager_ok_def m')
qed (use m r in \<open>simp add: remove_torrent_def\<close>)

subsection \<open>The peer worker\<close>

lemma request_block_meta: "request_block pm i b n = Some (r, pm') \<Longrightarrow> pm_shape pm' = pm_shape pm"
  by (auto simp: request_block_def pm_shape_def Let_def split: if_splits option.splits)

lemma request_blocks_meta: "request_blocks i n bs k pm c = Some (k', pm', c') \<Longrightarrow> pm_shape pm' = pm_shape pm"
  by (induction i n bs k pm c rule: request_blocks.induct)
    (auto dest: request_block_meta split: if_splits option.splits bool.splits)

lemma request_from_meta: "request_from i n ps pm = Some (pm', ps') \<Longrightarrow> pm_shape pm' = pm_shape pm"
proof (induction i n ps pm arbitrary: ps' rule: request_from.induct)
  case (2 i n p c ps pm)
  note b = request_blocks_meta [of i n _ 0 pm c]
  show ?case using 2 by (auto dest!: b split: if_splits option.splits)
qed simp

lemma download_step_fields:
  "download_step t = Some t' \<Longrightarrow> t_meta t' = t_meta t \<and> pm_shape (t_pm t') = pm_shape (t_pm t) \<and>
     t_pending t' = t_pending t \<and> t_discovered t' = t_discovered t"
  by (auto simp: download_step_def Let_def dest: request_from_meta split: if_splits option.splits)

lemma enqueue_peers_fields:
  "enqueue_peers now ss h ps (t, q) = (t', q') \<Longrightarrow>
     t_meta t' = t_meta t \<and> t_pm t' = t_pm t \<and> t_discovered t' = t_discovered t \<and> set q \<subseteq> set q' \<and>
     set (t_pending t') \<subseteq> set (t_pending t) \<union> requested_keys h q'"
proof (induction now ss h ps "(t, q)" arbitrary: t q rule: enqueue_peers.induct)
  case (2 now ss h p ps t q)
  let ?r = "\<lparr>cr_torrent = h, cr_peer = p, cr_conn = outgoing_conn t (ss p), cr_state = CONNECTING, cr_start = now\<rparr>"
  show ?case
  proof (cases "50 \<le> length (t_peers t) \<or> peer_key p \<in> set (t_pending t)")
    case False
    with 2(3) have "enqueue_peers now ss h ps (t\<lparr>t_pending := peer_key p # t_pending t\<rparr>, q @ [?r]) = (t', q')" by simp
    note ih = 2(2) [OF _ _ this]
    then have "set (q @ [?r]) \<subseteq> set q'" using False by simp
    then have "peer_key p \<in> requested_keys h q'" by (force simp: requested_keys_def)
    then show ?thesis using ih False by auto
  qed (use 2 in \<open>auto split: if_splits\<close>)
qed auto

lemma peer_round_ok:
  assumes m: "manager_ok m" and r: "peer_round now ss h m = Some m'"
  shows "manager_ok m'"
proof (cases "map_of (mg_torrents m) h")
  case (Some t)
  then have t: "torrent_ok h t" using m by (rule manager_okD [rotated])
  obtain t1 q where e: "enqueue_peers now ss h (t_discovered t) (t, mg_queue m) = (t1, q)" by force
  note ef = enqueue_peers_fields [OF e]
  from r Some e consider "m' = m" | t2 where "download_step (drop_disconnected t1) = Some t2"
    "m' = (put_torrent h t2 m)\<lparr>mg_queue := q\<rparr>"
    by (auto simp: peer_round_def split: if_splits)
  then show ?thesis
  proof cases
    case 2
    have f: "t_meta t2 = t_meta t" "pm_shape (t_pm t2) = pm_shape (t_pm t)" "t_discovered t2 = t_discovered t"
      "t_pending t2 = t_pending t1"
      using download_step_fields [OF 2(1)] ef by (simp_all add: drop_disconnected_def)
    have "torrent_ok h t2" using t f by (simp add: torrent_ok_def)
    then have "index_ok (put_torrent h t2 m)" using m Some f(1) by (intro put_index_ok) (auto simp: manager_ok_def)
    have sub: "requested_keys g (mg_active m @ mg_queue m) \<subseteq> requested_keys g (mg_active m @ q)" for g
      using ef by (intro requested_keys_mono) auto
    have p: "set (t_pending s) \<subseteq> requested_keys g (mg_active m @ q)" if "map_of (mg_torrents m) g = Some s" for g s
      using m that sub [of g] unfolding manager_ok_def pending_covered_def by blast
    have "requested_keys h q \<subseteq> requested_keys h (mg_active m @ q)" by (intro requested_keys_mono) simp
    then have "set (t_pending t2) \<subseteq> requested_keys h (mg_active m @ q)"
      using ef p [OF Some] unfolding f(4) by blast
    moreover have "pending_covered (mg_active m @ q) m" using p by (simp add: pending_covered_def)
    ultimately have "pending_covered (mg_active m @ q) (put_torrent h t2 m)" by (intro put_pending_covered)
    with \<open>index_ok (put_torrent h t2 m)\<close> show ?thesis by (simp add: manager_ok_def 2(2))
  qed (use m in simp)
qed (use m r in \<open>simp add: peer_round_def\<close>)

lemma put_fields_ok:
  assumes "manager_ok m" "map_of (mg_torrents m) h = Some t" "t_meta t' = t_meta t"
    "pm_shape (t_pm t') = pm_shape (t_pm t)" "t_discovered t' = t_discovered t" "t_pending t' = t_pending t"
  shows "manager_ok (put_torrent h t' m)"
  using manager_okD [OF assms(1,2)] assms by (intro put_same_pending [OF assms(1,2)]) (simp_all add: torrent_ok_def)

lemma piece_callback_ok:
  assumes m: "manager_ok m"
  shows "manager_ok (piece_callback h i b d m)"
proof (cases "map_of (mg_torrents m) h")
  case (Some t)
  then have t: "torrent_ok h t" using m by (rule manager_okD [rotated])
  obtain got pm where r: "receive_block (t_pm t) i b d = (got, pm)" by force
  obtain good pm' where v: "verify_piece pm i = (good, pm')" by force
  have "pm_shape pm = pm_shape (t_pm t)" using r by (auto simp: receive_block_def pm_shape_def Let_def split: if_splits)
  moreover have "pm_shape pm' = pm_shape pm" using v by (auto simp: verify_piece_def pm_shape_def Let_def split: if_splits)
  ultimately show ?thesis
    using Some r v m by (simp add: piece_callback_def Let_def announce_piece_def put_fields_ok [OF m Some])
qed (use m in \<open>simp add: piece_callback_def\<close>)

lemma fold_callbacks_ok: "manager_ok m \<Longrightarrow> manager_ok (fold (\<lambda>(i, b, d). piece_callback h i b d) calls m)"
  by (induction calls arbitrary: m) (auto intro: piece_callback_ok)

lemma deliver_message_ok: "manager_ok m \<Longrightarrow> deliver_message h k msg m = Some m' \<Longrightarrow> manager_ok m'"
  by (auto simp: deliver_message_def split: option.splits if_splits intro!: fold_callbacks_ok elim!: put_fields_ok)

lemma disk_step_meta: "disk_step pm fs = Some (pm', fs') \<Longrightarrow> pm_shape pm' = pm_shape pm"
  by (auto simp: disk_step_def pm_shape_def Let_def split: list.splits disk_request.splits)

lemma disk_round_ok:
  assumes m: "manager_ok m" and d: "disk_round h m = Some m'"
  shows "manager_ok m'"
proof (cases "map_of (mg_torrents m) h")
  case (Some t)
  then obtain pm fs where s: "disk_step (t_pm t) (mg_fs m) = Some (pm, fs)" "m' = (put_torrent h (t\<lparr>t_pm := pm\<rparr>) m)\<lparr>mg_fs := fs\<rparr>"
    using d by (auto simp: disk_round_def)
  then have "manager_ok (put_torrent h (t\<lparr>t_pm := pm\<rparr>) m)"
    using disk_step_meta [OF s(1)] by (intro put_fields_ok [OF m Some]) simp_all
  then show ?thesis by (rule manager_ok_frame) (simp_all add: s(2))
qed (use m d in \<open>simp add: disk_round_def\<close>)

subsection \<open>Connections\<close>

text \<open>A request leaves the lists: its key is no longer pending.\<close>

lemma requested_keys_Cons:
  "requested_keys h (r # rs) = (if cr_torrent r = h then {peer_key (cr_peer r)} else {}) \<union> requested_keys h rs"
  by (auto simp: requested_keys_def)

lemma requested_keys_append: "requested_keys h (rs @ rs') = requested_keys h rs \<union> requested_keys h rs'"
  by (auto simp: requested_keys_def)

lemma coveredD: "pending_covered rs m \<Longrightarrow> map_of (mg_torrents m) h = Some t \<Longrightarrow> set (t_pending t) \<subseteq> requested_keys h rs"
  by (simp add: pending_covered_def)

lemma put_leaves_request:
  assumes "index_ok m" "pending_covered (r # rs) m" "map_of (mg_torrents m) (cr_torrent r) = Some t"
    and "t_meta t' = t_meta t" "pm_shape (t_pm t') = pm_shape (t_pm t)" "t_discovered t' = t_discovered t"
    and "t_pending t' = removeAll (peer_key (cr_peer r)) (t_pending t)"
  shows "index_ok (put_torrent (cr_torrent r) t' m)" "pending_covered rs (put_torrent (cr_torrent r) t' m)"
proof -
  have "torrent_ok (cr_torrent r) t" using assms(1,3) by (simp add: index_ok_def)
  then show "index_ok (put_torrent (cr_torrent r) t' m)"
    using assms by (intro put_index_ok [OF assms(1,3)]) (simp_all add: torrent_ok_def)
  show "pending_covered rs (put_torrent (cr_torrent r) t' m)"
    unfolding pending_covered_def
  proof (intro allI impI)
    fix h s assume s: "map_of (mg_torrents (put_torrent (cr_torrent r) t' m)) h = Some s"
    note c = coveredD [OF assms(2), unfolded requested_keys_Cons]
    show "set (t_pending s) \<subseteq> requested_keys h rs"
      using s c [of h s] c [OF assms(3)] assms(7) by (cases "h = cr_torrent r") auto
  qed
qed

lemma leave_absent:
  assumes "pending_covered (r # rs) m" "map_of (mg_torrents m) (cr_torrent r) = None"
  shows "pending_covered rs m"
  unfolding pending_covered_def
proof (intro allI impI)
  fix h s assume s: "map_of (mg_torrents m) h = Some s"
  then have "h \<noteq> cr_torrent r" using assms(2) by auto
  then show "set (t_pending s) \<subseteq> requested_keys h rs"
    using coveredD [OF assms(1) s] by (auto simp: requested_keys_Cons)
qed

lemma forget_pending_ok:
  assumes "index_ok m" "pending_covered (r # rs) m"
  shows "index_ok (forget_pending r m)" "pending_covered rs (forget_pending r m)"
  using assms put_leaves_request [OF assms] leave_absent [OF assms(2)]
  by (auto simp: forget_pending_def split: option.splits)

lemma attach_finished_ok:
  assumes "index_ok m" "pending_covered (r # rs) m"
  shows "index_ok (attach_finished r m)" "pending_covered rs (attach_finished r m)"
  using assms put_leaves_request [OF assms] leave_absent [OF assms(2)]
  by (auto simp: attach_finished_def split: option.splits)

lemma request_moves:
  "pending_covered (r # rs) m \<Longrightarrow> cr_torrent r' = cr_torrent r \<Longrightarrow> cr_peer r' = cr_peer r \<Longrightarrow>
     set rs \<union> {r'} \<subseteq> set rs' \<Longrightarrow> pending_covered rs' m"
proof -
  assume a: "pending_covered (r # rs) m" "cr_torrent r' = cr_torrent r" "cr_peer r' = cr_peer r" "set rs \<union> {r'} \<subseteq> set rs'"
  then have "requested_keys h (r # rs) \<subseteq> requested_keys h (r' # rs)" for h by (simp add: requested_keys_Cons)
  moreover have "requested_keys h (r' # rs) \<subseteq> requested_keys h rs'" for h using a(4) by (intro requested_keys_mono) simp
  ultimately show ?thesis using a(1) unfolding pending_covered_def by (meson order_trans)
qed

lemma covered_cong: "pending_covered rs m \<Longrightarrow> set rs \<subseteq> set rs' \<Longrightarrow> pending_covered rs' m"
  using requested_keys_mono unfolding pending_covered_def by (meson order_trans)

lemma prepare_request_same:
  "prepare_request now res m r = Some r' \<Longrightarrow> cr_torrent r' = cr_torrent r \<and> cr_peer r' = cr_peer r"
  by (auto simp: prepare_request_def Let_def split: if_splits connection_state.splits prod.splits)

lemma forget_queues [simp]:
  "mg_active (forget_pending r m) = mg_active m" "mg_queue (forget_pending r m) = mg_queue m"
  "mg_active (attach_finished r m) = mg_active m" "mg_queue (attach_finished r m) = mg_queue m"
  by (simp_all add: forget_pending_def attach_finished_def split: option.splits)

lemma prepare_all_ok:
  "index_ok m \<Longrightarrow> pending_covered (rs @ mg_active m @ mg_queue m) m \<Longrightarrow> manager_ok (prepare_all now res rs m)"
proof (induction now res rs m rule: prepare_all.induct)
  case (2 now res r rs m)
  show ?case
  proof (cases "prepare_request now (res r) m r")
    case None
    then show ?thesis using 2 forget_pending_ok [of m r] by simp
  next
    case (Some r')
    have "pending_covered (rs @ (mg_active m @ [r']) @ mg_queue m) m"
      using prepare_request_same [OF Some]
      by (intro request_moves [OF 2(4) [unfolded append_Cons], of r']) auto
    then show ?thesis using 2(2,3) Some by simp
  qed
qed (simp add: manager_ok_def)

lemma advance_request_same:
  "(case advance_request io r of Waiting r' \<Rightarrow> r' | Failed r' \<Rightarrow> r' | Finished r' \<Rightarrow> r') = r' \<Longrightarrow>
     cr_torrent r' = cr_torrent r \<and> cr_peer r' = cr_peer r"
  by (auto simp: advance_request_def split: if_splits connection_state.splits prod.splits)

lemma advance_all_ok:
  "index_ok m \<Longrightarrow> pending_covered (rs @ mg_active m @ mg_queue m) m \<Longrightarrow> manager_ok (advance_all io rs m)"
proof (induction io rs m rule: advance_all.induct)
  case (2 io r rs m)
  have same: "cr_torrent r' = cr_torrent r \<and> cr_peer r' = cr_peer r"
    if "advance_request (io r) r \<in> {Waiting r', Failed r', Finished r'}" for r'
    using that advance_request_same [of "io r" r r'] by (auto split: progress.splits)
  have moved: "pending_covered (r' # rs @ mg_active m @ mg_queue m) m"
    if "cr_torrent r' = cr_torrent r \<and> cr_peer r' = cr_peer r" for r'
    using that by (intro request_moves [OF 2(5) [unfolded append_Cons], of r']) auto
  show ?case
  proof (cases "advance_request (io r) r")
    case (Waiting r')
    then have "pending_covered (rs @ (mg_active m @ [r']) @ mg_queue m) m"
      using moved [OF same] by (intro covered_cong [OF moved [OF same]]) auto
    then show ?thesis using 2(1,4) Waiting by simp
  next
    case (Failed r')
    then show ?thesis using 2(2,4) moved [OF same] forget_pending_ok [of m r'] by simp
  next
    case (Finished r')
    then show ?thesis using 2(3,4) moved [OF same] attach_finished_ok [of m r'] by simp
  qed
qed (simp add: manager_ok_def)

lemma connection_round_ok:
  assumes m: "manager_ok m"
  shows "manager_ok (connection_round now res sel m)"
proof -
  let ?m1 = "drain_queue m"
  have "index_ok ?m1" "pending_covered (mg_active ?m1 @ mg_queue ?m1) ?m1"
    using m by (simp_all add: manager_ok_def drain_queue_def)
  then have m2: "manager_ok (prepare_all now res (mg_active ?m1) (?m1\<lparr>mg_active := []\<rparr>))"
    by (intro prepare_all_ok) simp_all
  then have "manager_ok (advance_all io (mg_active m2) (m2\<lparr>mg_active := []\<rparr>))"
    if "m2 = prepare_all now res (mg_active ?m1) (?m1\<lparr>mg_active := []\<rparr>)" for io m2
    using that by (intro advance_all_ok) (simp_all add: manager_ok_def)
  with m2 show ?thesis by (simp add: connection_round_def Let_def split: option.splits)
qed

subsection \<open>The other steps\<close>

lemma accept_peer_ok: "manager_ok m \<Longrightarrow> accept_peer buf p n ss m = Some m' \<Longrightarrow> manager_ok m'"
  by (auto simp: accept_peer_def split: if_splits option.splits prod.splits elim!: put_fields_ok)

lemma put_discovered_ok:
  assumes "manager_ok m" "map_of (mg_torrents m) h = Some t"
  shows "manager_ok (put_torrent h (t\<lparr>t_discovered := add_discovered ps (t_discovered t)\<rparr>) m)"
  using manager_okD [OF assms]
  by (intro put_same_pending [OF assms]) (simp_all add: torrent_ok_def add_discovered_distinct)

lemma ask_tracker_cases:
  "ask_tracker fetch first t u = Some s \<Longrightarrow> s = t \<or> (\<exists>ps. s = t\<lparr>t_discovered := add_discovered ps (t_discovered t)\<rparr>)"
  unfolding ask_tracker_def map_option_eq_Some
proof (elim exE conjE)
  fix x assume "(case x of Inl e \<Rightarrow> t | Inr ps \<Rightarrow> t\<lparr>t_discovered := add_discovered ps (t_discovered t)\<rparr>) = s"
  then show ?thesis by (cases x) auto
qed

lemma ask_trackers_fields:
  "ask_trackers fetch first us t = Some t' \<Longrightarrow> distinct (map pi_endpoint (t_discovered t)) \<Longrightarrow>
     t_meta t' = t_meta t \<and> t_pm t' = t_pm t \<and> t_pending t' = t_pending t \<and> distinct (map pi_endpoint (t_discovered t'))"
proof (induction fetch first us t rule: ask_trackers.induct)
  case (2 fetch first u us t)
  show ?case
  proof (cases "t_stopping t")
    case False
    then obtain s where s: "ask_tracker fetch first t u = Some s" "ask_trackers fetch first us s = Some t'"
      using 2(2) by (auto simp: bind_eq_Some_conv)
    then have "t_meta s = t_meta t \<and> t_pm s = t_pm t \<and> t_pending s = t_pending t \<and> distinct (map pi_endpoint (t_discovered s))"
      using ask_tracker_cases [OF s(1)] 2(3) by (auto simp: add_discovered_distinct)
    then show ?thesis using 2(1) [OF False s(1) s(2)] by simp
  qed (use 2 in simp)
qed simp

lemma tracker_round_ok:
  assumes m: "manager_ok m" and r: "tracker_round fetch first h m = Some m'"
  shows "manager_ok m'"
proof (cases "map_of (mg_torrents m) h")
  case (Some t)
  note t = manager_okD [OF m Some]
  from r Some consider "m' = m" | t' where "ask_trackers fetch first (announce_list (t_meta t)) t = Some t'"
    "m' = put_torrent h t' m"
    by (auto simp: tracker_round_def split: if_splits)
  then show ?thesis
  proof cases
    case 2
    show ?thesis using ask_trackers_fields [OF 2(1)] t unfolding 2(2)
      by (intro put_same_pending [OF m Some]) (simp_all add: torrent_ok_def)
  qed (use m in simp)
qed (use m r in \<open>simp add: tracker_round_def\<close>)

lemma update_torrent_speed_fields [simp]:
  "t_meta (update_torrent_speed now t) = t_meta t" "t_pm (update_torrent_speed now t) = t_pm t"
  "t_discovered (update_torrent_speed now t) = t_discovered t" "t_pending (update_torrent_speed now t) = t_pending t"
  by (simp_all add: update_torrent_speed_def Let_def)

lemma map_of_map_prod: "map_of (map (map_prod id f) ps) k = map_option f (map_of ps k)"
  by (induction ps) auto

lemma update_speeds_ok: "manager_ok m \<Longrightarrow> manager_ok (update_speeds now m)"
  by (auto simp: manager_ok_def index_ok_def pending_covered_def update_speeds_def um_ok_def map_of_map_prod torrent_ok_def) blast

lemma manager_step_ok: "manager_step E m m' \<Longrightarrow> manager_ok m \<Longrightarrow> manager_ok m'"
proof (induction rule: manager_step.induct)
  case (add env data prio m r m')
  then show ?case by (auto simp: add_torrent_data_def split: option.splits sum.splits intro: add_impl_ok)
next
  case (magnet running uri m r m')
  then show ?case
    by (auto simp: add_magnet_link_def Let_def split: if_splits option.splits sum.splits elim!: manager_ok_frame)
next
  case (found m h ps)
  then show ?case by (auto simp: dht_peers_found_def split: option.splits intro: put_discovered_ok)
next
  case (pause p h m r m')
  then show ?case by (auto simp: set_paused_def split: option.splits intro!: put_fields_ok)
qed (auto intro: remove_ok update_speeds_ok peer_round_ok connection_round_ok accept_peer_ok tracker_round_ok
    deliver_message_ok disk_round_ok)

section \<open>A session with a torrent\<close>

definition session_info :: "(string \<times> bval) list" where
  "session_info = [(''length'', BInt 1), (''name'', BStr ''n''), (''piece length'', BInt 1),
     (''pieces'', BStr ''abcdefghijklmnopqrst'')]"

definition session_data :: string where
  "session_data = encode (BDict [(''announce'', BStr ''t''), (''info'', BDict session_info)])"

definition session_meta :: torrent_metadata where
  "session_meta = \<lparr>announce = ''t'', announce_list = [''t''],
     info_hash = sha1_hash (bytes_of_string (encode (BDict session_info))), tname = ''n'', piece_length = 1,
     piece_hashes = [bytes_of_string ''abcdefghijklmnopqrst''], total_length = 1,
     files = [\<lparr>tf_path = ''n'', tf_length = 1, tf_offset = Some 0\<rparr>]\<rparr>"

definition session_env :: environment where
  "session_env = \<lparr>can_write = \<lambda>_. True, can_save = True, wall_clock = 0, steady_clock = 0, random_bytes = [],
     junk_counters = (0, 0)\<rparr>"

lemma session_parsed: "parse_torrent session_data = Some (Inr session_meta)"
proof -
  let ?root = "[(''announce'', BStr ''t''), (''info'', BDict session_info)]"
  have "parse_data (encode (BDict ?root) @ []) = Some (Inr (canon (BDict ?root), length (encode (BDict ?root))))"
    by (rule parse_data_encode) (simp_all add: session_info_def encode_string_def show_int_def show_nat.simps)
  moreover have "canon (BDict ?root) = BDict ?root" by (simp add: session_info_def)
  ultimately have "parse session_data = Some (Inr (BDict ?root))" by (simp add: parse_def session_data_def)
  then show ?thesis
    by (simp add: parse_torrent_def parse_from_bencode_def parse_info_def session_info_def session_meta_def
        parse_pieces_def file_table_def collect_announce_def sum_lengths_def u64_of_int_def del: encode.simps)
qed

lemma session_add:
  "\<exists>m. add_torrent_data session_env session_data [] (new_session ''d'' [] Map.empty) =
      Some (Inr (info_hash_to_hex (info_hash session_meta)), m) \<and>
    (\<exists>t. map_of (mg_torrents m) (info_hash_to_hex (info_hash session_meta)) = Some t \<and> t_meta t = session_meta)"
proof -
  have "construct_manager (\<lambda>_. True) session_meta ''d'' [] Map.empty =
      Inr (new_manager session_meta ''d'' [], [''d/n'' \<mapsto> [0]])"
    by (simp add: construct_manager_def session_meta_def file_path_def)
  moreover have "State_Manager.load_state (0, 0) 0 h [] = Some None" for h by (simp add: State_Manager.load_state_def)
  ultimately show ?thesis
    by (simp add: add_torrent_data_def session_parsed add_torrent_impl_def Let_def new_session_def session_env_def)
qed

section \<open>Properties\<close>

text \<open>C8: Whatever the session does (adding, removing and pausing torrents, tracker answers, DHT peers,
  connection attempts and their failures, incoming peers, messages, disk rounds), in every state
  it reaches from a new session: torrents are kept under the hexadecimal form of their info
  hash; the index used for incoming handshakes maps exactly the info hashes of the present
  torrents to them; no endpoint is listed twice among the discovered peers; and an endpoint is
  marked as pending only while a connection request for it is under way, so that none is locked
  out for good.\<close>

theorem manager_reachable_ok:
  assumes "(manager_step E)\<^sup>*\<^sup>* (new_session dir states fs) m"
  shows "um_ok (mg_torrents m) \<and>
    (\<forall>h t. map_of (mg_torrents m) h = Some t \<longrightarrow>
       h = info_hash_to_hex (info_hash (t_meta t)) \<and> metadata (t_pm t) = t_meta t \<and>
       distinct (map pi_endpoint (t_discovered t)) \<and>
       (\<forall>k \<in> set (t_pending t). \<exists>r \<in> set (mg_active m @ mg_queue m). cr_torrent r = h \<and> peer_key (cr_peer r) = k)) \<and>
    (\<forall>k h. map_of (mg_ids m) k = Some h \<longleftrightarrow>
       (\<exists>t. map_of (mg_torrents m) h = Some t \<and> k = string_of_bytes (info_hash (t_meta t))))"
proof -
  have ok: "manager_ok m"
    using assms by (induction rule: rtranclp_induct) (auto intro: new_session_ok manager_step_ok)
  have "\<exists>r \<in> set (mg_active m @ mg_queue m). cr_torrent r = h \<and> peer_key (cr_peer r) = k"
    if "map_of (mg_torrents m) h = Some t" "k \<in> set (t_pending t)" for h t k
    using ok that coveredD [of "mg_active m @ mg_queue m" m h t] by (auto simp: manager_ok_def requested_keys_def)
  then show ?thesis using ok by (simp add: manager_ok_def index_ok_def torrent_ok_def pm_shape_def)
qed

theorem manager_reachable_ok_witness:
  "\<exists>m h t. (manager_step (\<lambda>_. True))\<^sup>*\<^sup>* (new_session ''d'' [] Map.empty) m \<and>
     map_of (mg_torrents m) h = Some t \<and> h = info_hash_to_hex (info_hash session_meta) \<and>
     map_of (mg_ids m) (string_of_bytes (info_hash session_meta)) = Some h \<and> t_pending t = []"
proof -
  let ?h = "info_hash_to_hex (info_hash session_meta)"
  from session_add obtain m t where a: "add_torrent_data session_env session_data [] (new_session ''d'' [] Map.empty) =
      Some (Inr ?h, m)" "map_of (mg_torrents m) ?h = Some t" "t_meta t = session_meta" by blast
  then have "manager_step (\<lambda>_. True) (new_session ''d'' [] Map.empty) m" by (intro manager_step.add) simp_all
  then have r: "(manager_step (\<lambda>_. True))\<^sup>*\<^sup>* (new_session ''d'' [] Map.empty) m" by simp
  have q: "mg_active m @ mg_queue m = []"
    using a(1) by (auto simp: add_torrent_data_def session_parsed add_torrent_impl_def Let_def new_session_def
        split: option.splits sum.splits if_splits)
  from manager_reachable_ok [OF r] a(2,3) q have "t_pending t = []"
    "map_of (mg_ids m) (string_of_bytes (info_hash session_meta)) = Some ?h" by (auto simp: all_not_in_conv)
  with r a(2) show ?thesis by blast
qed

end
