(* ===== verification/Transmission_Rpc.thy ===== *)
theory Transmission_Rpc
  imports Http_Server Manager_Workers
begin

text \<open>
  \<open>src/api/transmission_rpc.cpp\<close>: the remote procedure calls of Transmission on the session.  A call
  is a JSON object with a method, arguments and a tag; the answer carries a result text, arguments
  and the tag.  An exception becomes an answer, except where the outer option is \<open>None\<close>: the
  bencode parser runs away, the constructor of a piece manager terminates the process, or a
  torrent has fewer saved priorities than files.
\<close>

section \<open>Values\<close>

text \<open>What the calls find in their environment: that of the manager, the printed percentage of a
  torrent, and the text of a printed number divided by a whole number (\<open>strtod\<close>, division of
  \<open>double\<close>, \<open>format_number\<close>).\<close>

record rpc_env =
  re_env :: environment
  re_percentage :: "piece_manager \<Rightarrow> string"
  re_quotient :: "string \<Rightarrow> nat \<Rightarrow> string"

text \<open>A \<open>const char *\<close> passed to a constructor of \<open>JSON\<close> selects the one for \<open>bool\<close>.\<close>

definition json_of_cstr :: "string \<Rightarrow> json" where
  "json_of_cstr s = JBool True"

definition pretty_options :: stringify_options where
  "pretty_options = \<lparr>pretty = True, indent = 2, escape_solidus = False\<rparr>"

definition create_response :: "string \<Rightarrow> json \<Rightarrow> json \<Rightarrow> http_response" where
  "create_response result arguments tag =
     (new_response 200 ''OK'')
       \<lparr>hp_headers := [(''Content-Type'', ''application/json''), (''Access-Control-Allow-Origin'', ''*'')],
        hp_body := stringify pretty_options (JObject [(''result'', JString result), (''arguments'', arguments), (''tag'', tag)])\<rparr>"

section \<open>The calls\<close>

definition find_or :: "json \<Rightarrow> string \<Rightarrow> json \<Rightarrow> json" where
  "find_or fallback k v = (case json_find k v of Some x \<Rightarrow> x | None \<Rightarrow> fallback)"

definition rpc_rate :: "rpc_env \<Rightarrow> string \<Rightarrow> json \<Rightarrow> json" where
  "rpc_rate env k status =
     (case json_find k status of Some (JNumber r) \<Rightarrow> JNumber (re_quotient env r 1) | _ \<Rightarrow> JNumber ''0'')"

definition rpc_entry :: "rpc_env \<Rightarrow> string \<Rightarrow> json \<Rightarrow> json res" where
  "rpc_entry env h status =
     ebind (case json_find ''completion'' status of
              None \<Rightarrow> Inr (JNumber ''0'')
            | Some v \<Rightarrow> ebind (as_number v) (\<lambda>r. Inr (JNumber (re_quotient env r 100))))
       (\<lambda>done. Inr (JObject
          [(''id'', JString h), (''name'', find_or (json_of_cstr ''Unknown'') ''name'' status),
           (''totalSize'', find_or (JNumber ''0'') ''total_size'' status), (''percentDone'', done),
           (''rateDownload'', rpc_rate env ''download_speed'' status), (''rateUpload'', rpc_rate env ''upload_speed'' status),
           (''status'', if as_bool False (find_or JNull ''paused'' status) then JNumber ''0'' else JNumber ''4''),
           (''peersGettingFromUs'', find_or (JNumber ''0'') ''peers'' status),
           (''peersSendingToUs'', find_or (JNumber ''0'') ''peers'' status)]))"

fun rpc_entries :: "rpc_env \<Rightarrow> manager \<Rightarrow> string list \<Rightarrow> json list res option" where
  "rpc_entries env m [] = Some (Inr [])"
| "rpc_entries env m (h # hs) =
     (case get_torrent_status (re_percentage env) h m of
        None \<Rightarrow> None
      | Some None \<Rightarrow> rpc_entries env m hs
      | Some (Some status) \<Rightarrow>
          obind (Some (rpc_entry env h status)) (\<lambda>e. obind (rpc_entries env m hs) (\<lambda>es. Some (Inr (e # es)))))"

definition torrent_get :: "rpc_env \<Rightarrow> json \<Rightarrow> manager \<Rightarrow> http_response res option" where
  "torrent_get env tag m =
     obind (rpc_entries env m (list_torrents m))
       (\<lambda>ts. Some (Inr (create_response ''success'' (JObject [(''torrents'', JArray ts)]) tag)))"

definition rpc_decode_base64 :: "string \<Rightarrow> string" where
  "rpc_decode_base64 encoded = decode_loop 0 (- 8) encoded"

definition rpc_added :: "json \<Rightarrow> string res \<times> manager \<Rightarrow> http_response \<times> manager" where
  "rpc_added tag r =
     (case fst r of
        Inl e \<Rightarrow> create_response e (JObject []) tag
      | Inr h \<Rightarrow> create_response ''success''
          (JObject [(''torrent-added'', JObject [(''id'', JString h), (''name'', JString h)])]) tag,
      snd r)"

definition torrent_add :: "rpc_env \<Rightarrow> json \<Rightarrow> json \<Rightarrow> manager \<Rightarrow> (http_response \<times> manager) option" where
  "torrent_add env args tag m =
     (case json_find ''metainfo'' args of
        Some (JString s) \<Rightarrow> map_option (rpc_added tag) (add_torrent_data (re_env env) (rpc_decode_base64 s) [] m)
      | _ \<Rightarrow>
          (case json_find ''filename'' args of
             Some (JString f) \<Rightarrow> map_option (rpc_added tag) (add_torrent (re_env env) f [] m)
           | _ \<Rightarrow> Some (create_response ''missing filename or metainfo'' (JObject []) tag, m)))"

definition for_ids :: "(string \<Rightarrow> manager \<Rightarrow> bool \<times> manager) \<Rightarrow> json list \<Rightarrow> manager \<Rightarrow> manager" where
  "for_ids act vs m = foldl (\<lambda>m v. case v of JString h \<Rightarrow> snd (act h m) | _ \<Rightarrow> m) m vs"

definition rpc_ids :: "(string \<Rightarrow> manager \<Rightarrow> bool \<times> manager) \<Rightarrow> json \<Rightarrow> json \<Rightarrow> manager \<Rightarrow> http_response \<times> manager" where
  "rpc_ids act args tag m =
     (case json_find ''ids'' args of
        Some (JArray vs) \<Rightarrow> (create_response ''success'' (JObject []) tag, for_ids act vs m)
      | _ \<Rightarrow> (create_response ''invalid ids'' (JObject []) tag, m))"

definition torrent_remove :: "rpc_env \<Rightarrow> json \<Rightarrow> json \<Rightarrow> manager \<Rightarrow> http_response \<times> manager" where
  "torrent_remove env args tag m = rpc_ids (remove_torrent (re_env env)) args tag m"

definition torrent_start :: "json \<Rightarrow> json \<Rightarrow> manager \<Rightarrow> http_response \<times> manager" where
  "torrent_start args tag m = rpc_ids resume_torrent args tag m"

definition torrent_stop :: "json \<Rightarrow> json \<Rightarrow> manager \<Rightarrow> http_response \<times> manager" where
  "torrent_stop args tag m = rpc_ids pause_torrent args tag m"

definition session_get :: "string \<Rightarrow> json \<Rightarrow> http_response" where
  "session_get dir tag =
     create_response ''success''
       (JObject [(''version'', json_of_cstr ''4.0.0''), (''rpc-version'', JNumber ''17''), (''download-dir'', JString dir)]) tag"

section \<open>Dispatch\<close>

definition rpc_dispatch ::
    "rpc_env \<Rightarrow> string \<Rightarrow> json option \<Rightarrow> json \<Rightarrow> json \<Rightarrow> manager \<Rightarrow> (http_response res \<times> manager) option" where
  "rpc_dispatch env dir method_it args tag m =
     (case method_it of
        Some (JString method) \<Rightarrow>
          if method = ''torrent-get'' then map_option (\<lambda>r. (r, m)) (torrent_get env tag m)
          else if method = ''torrent-add'' then map_option (map_prod Inr id) (torrent_add env args tag m)
          else if method = ''torrent-remove'' then Some (map_prod Inr id (torrent_remove env args tag m))
          else if method = ''torrent-start'' then Some (map_prod Inr id (torrent_start args tag m))
          else if method = ''torrent-stop'' then Some (map_prod Inr id (torrent_stop args tag m))
          else if method = ''session-get'' then Some (Inr (session_get dir tag), m)
          else Some (Inr (create_response ''method not implemented'' (JObject []) tag), m)
      | _ \<Rightarrow> Some (Inr (create_response ''invalid method'' (JObject []) tag), m))"

definition rpc_handle_request :: "rpc_env \<Rightarrow> string \<Rightarrow> http_request \<Rightarrow> manager \<Rightarrow> (http_response \<times> manager) option" where
  "rpc_handle_request env dir req m =
     (case parse_or_throw (hq_body req) of
        None \<Rightarrow> None
      | Some (Inl e) \<Rightarrow> Some (create_response e (JObject []) (JNumber ''0''), m)
      | Some (Inr j) \<Rightarrow>
          map_option
            (\<lambda>(r, m'). (case r of Inr response \<Rightarrow> response | Inl e \<Rightarrow> create_response e (JObject []) (JNumber ''0''), m'))
            (rpc_dispatch env dir (json_find ''method'' j) (find_or (JObject []) ''arguments'' j) (find_or (JNumber ''0'') ''tag'' j) m))"

section \<open>Every call is answered\<close>

text \<open>An answer: a JSON object that parses to the result, the arguments and the tag.\<close>

definition answers :: "http_response \<Rightarrow> string \<Rightarrow> json \<Rightarrow> json \<Rightarrow> bool" where
  "answers response result arguments tag \<longleftrightarrow>
     hp_status response = 200 \<and>
     json_parse (hp_body response) = Some (Inr (JObject [(''result'', JString result), (''arguments'', arguments), (''tag'', tag)]))"

lemma create_response_answers: "json_ok arguments \<Longrightarrow> json_ok tag \<Longrightarrow> answers (create_response result arguments tag) result arguments tag"
  by (simp add: answers_def create_response_def new_response_def stringify_parses)

lemma create_response_ok: "reply_ok (create_response result arguments tag)"
  by (simp add: reply_ok_def create_response_def new_response_def field_ok_def one_line_def trimmed_def c_isspace_def)

lemma json_ok_empty: "json_ok (JObject [])"
  by simp

lemma json_ok_find: "json_ok v \<Longrightarrow> json_find k v = Some x \<Longrightarrow> json_ok x"
  by (cases v) (auto simp: json_find_def list_all_iff dest!: map_of_SomeD)

lemma json_ok_find_or: "json_ok v \<Longrightarrow> json_ok d \<Longrightarrow> json_ok (find_or d k v)"
  using json_ok_find by (auto simp: find_or_def split: option.split)

lemma zero_ok [simp]: "json_ok (JNumber ''0'')" "json_ok (JNumber ''4'')" "json_ok (JNumber ''17'')"
  by code_simp+

text \<open>What the standard library prints are JSON numbers.\<close>

definition prints_numbers :: "rpc_env \<Rightarrow> bool" where
  "prints_numbers env \<longleftrightarrow>
     (\<forall>pm. json_ok (JNumber (re_percentage env pm))) \<and> (\<forall>r n. json_ok (JNumber (re_quotient env r n)))"

lemma status_ok:
  assumes "prints_numbers env" "get_torrent_status (re_percentage env) h m = Some (Some s)"
  shows "json_ok s" "\<exists>r. json_find ''completion'' s = Some (JNumber r)"
  using assms
  by (auto simp: get_torrent_status_def prints_numbers_def size_number_ok file_json_def list_all_iff json_find_def Let_def
      simp del: json_ok.simps(1) split: option.splits if_splits)

lemma rpc_entry_ok:
  assumes "prints_numbers env" "json_ok s" "json_find ''completion'' s = Some (JNumber r)"
  shows "\<exists>e. rpc_entry env h s = Inr e \<and> json_ok e"
proof -
  have n: "json_ok (JNumber (re_quotient env r n))" for r n using assms(1) by (simp add: prints_numbers_def del: json_ok.simps(1))
  then have "json_ok (rpc_rate env k s)" for k by (simp add: rpc_rate_def del: json_ok.simps(1) split: option.split json.split)
  with n show ?thesis
    using assms(2,3) by (simp add: rpc_entry_def as_number_def json_ok_find_or json_of_cstr_def del: json_ok.simps(1))
qed

text \<open>Every torrent has a priority for each of its files.\<close>

definition priorities_ok :: "manager \<Rightarrow> bool" where
  "priorities_ok m \<longleftrightarrow> (\<forall>h t. map_of (mg_torrents m) h = Some t \<longrightarrow> length (files (t_meta t)) \<le> length (t_priorities t))"

lemma status_defined: "priorities_ok m \<Longrightarrow> get_torrent_status p h m \<noteq> None"
  by (cases "map_of (mg_torrents m) h") (fastforce simp: priorities_ok_def get_torrent_status_def Let_def)+

lemma rpc_entries_ok:
  assumes "prints_numbers env" "priorities_ok m"
  shows "\<exists>es. rpc_entries env m hs = Some (Inr es) \<and> list_all json_ok es"
proof (induction hs)
  case (Cons h hs)
  then obtain es where es: "rpc_entries env m hs = Some (Inr es)" "list_all json_ok es" by blast
  from status_defined [OF assms(2)] obtain s where s: "get_torrent_status (re_percentage env) h m = Some s" by blast
  show ?case
  proof (cases s)
    case (Some v)
    from status_ok [OF assms(1)] s Some obtain r where v: "json_ok v" "json_find ''completion'' v = Some (JNumber r)" by blast
    from rpc_entry_ok [OF assms(1) v] obtain e where "rpc_entry env h v = Inr e" "json_ok e" by blast
    then show ?thesis using es s Some by simp
  qed (use es s in simp)
qed simp

lemma rpc_added_answers:
  assumes "json_ok tag"
  shows "\<exists>result arguments. answers (fst (rpc_added tag r)) result arguments tag"
proof (cases "fst r")
  case (Inl e)
  then show ?thesis using create_response_answers [of "JObject []" tag e] assms by (auto simp: rpc_added_def)
next
  case (Inr h)
  then show ?thesis
    using create_response_answers [of "JObject [(''torrent-added'', JObject [(''id'', JString h), (''name'', JString h)])]" tag "''success''"] assms
    by (auto simp: rpc_added_def)
qed

lemma torrent_add_answers:
  assumes "json_ok tag" "torrent_add env args tag m = Some (response, m')"
  shows "\<exists>result arguments. answers response result arguments tag"
proof -
  from assms(2) consider r where "response = fst (rpc_added tag r)"
    | "response = create_response ''missing filename or metainfo'' (JObject []) tag"
    by (auto simp: torrent_add_def split: option.splits json.splits) (metis fst_conv)+
  then show ?thesis
    using rpc_added_answers [OF assms(1)] create_response_answers [OF json_ok_empty assms(1)] by cases blast+
qed

lemma rpc_ids_answers: "json_ok tag \<Longrightarrow> \<exists>result. answers (fst (rpc_ids act args tag m)) result (JObject []) tag"
proof -
  have "\<exists>result. fst (rpc_ids act args tag m) = create_response result (JObject []) tag"
    by (auto simp: rpc_ids_def split: option.split json.split)
  then show "json_ok tag \<Longrightarrow> ?thesis" using create_response_answers [OF json_ok_empty] by fastforce
qed

lemma dispatch_answers:
  assumes "prints_numbers env" "priorities_ok m" "json_ok tag" "torrent_add env args tag m \<noteq> None"
  shows "\<exists>response m' result arguments. rpc_dispatch env dir method_it args tag m = Some (Inr response, m') \<and>
    answers response result arguments tag"
proof (cases "\<exists>s. method_it = Some (JString s)")
  case False
  then have "rpc_dispatch env dir method_it args tag m = Some (Inr (create_response ''invalid method'' (JObject []) tag), m)"
    by (simp add: rpc_dispatch_def split: option.split json.split)
  then show ?thesis using create_response_answers [OF json_ok_empty assms(3)] by blast
next
  case True
  then obtain s where s: "method_it = Some (JString s)" by blast
  have dispatched: "\<exists>response m' result arguments. x = Some (Inr response, m') \<and> answers response result arguments tag"
    if "x = Some (map_prod Inr id (rpc_ids act args tag m))" for x and act :: "string \<Rightarrow> manager \<Rightarrow> bool \<times> manager"
    using that rpc_ids_answers [OF assms(3), of act args m] by (cases "rpc_ids act args tag m") auto
  consider "s = ''torrent-get''" | "s = ''torrent-add''" | "s = ''torrent-remove''" | "s = ''torrent-start''" | "s = ''torrent-stop''"
    | "s = ''session-get''" | "s \<noteq> ''torrent-get'' \<and> s \<noteq> ''torrent-add'' \<and> s \<noteq> ''torrent-remove'' \<and> s \<noteq> ''torrent-start'' \<and>
        s \<noteq> ''torrent-stop'' \<and> s \<noteq> ''session-get''"
    by metis
  then show ?thesis
  proof cases
    case 1
    from rpc_entries_ok [OF assms(1,2)] obtain es where "rpc_entries env m (list_torrents m) = Some (Inr es)" "list_all json_ok es" by blast
    then have "rpc_dispatch env dir method_it args tag m = Some (Inr (create_response ''success'' (JObject [(''torrents'', JArray es)]) tag), m)"
      "json_ok (JObject [(''torrents'', JArray es)])" using s 1 by (simp_all add: rpc_dispatch_def torrent_get_def)
    then show ?thesis using create_response_answers [OF _ assms(3)] by blast
  next
    case 2
    from assms(4) obtain r m' where "torrent_add env args tag m = Some (r, m')" by fastforce
    moreover from this have "rpc_dispatch env dir method_it args tag m = Some (Inr r, m')" using s 2 by (simp add: rpc_dispatch_def)
    ultimately show ?thesis using torrent_add_answers [OF assms(3)] by blast
  next
    case 6
    let ?a = "JObject [(''version'', json_of_cstr ''4.0.0''), (''rpc-version'', JNumber ''17''), (''download-dir'', JString dir)]"
    from 6 s have "rpc_dispatch env dir method_it args tag m = Some (Inr (create_response ''success'' ?a tag), m)"
      by (simp add: rpc_dispatch_def session_get_def)
    moreover have "json_ok ?a" using zero_ok(3) by (simp add: json_of_cstr_def del: json_ok.simps(1))
    ultimately show ?thesis using create_response_answers [OF _ assms(3)] by blast
  next
    case 7
    then have "rpc_dispatch env dir method_it args tag m = Some (Inr (create_response ''method not implemented'' (JObject []) tag), m)"
      using s by (simp add: rpc_dispatch_def)
    then show ?thesis using create_response_answers [OF json_ok_empty assms(3)] by blast
  next
    case 3
    then have "rpc_dispatch env dir method_it args tag m = Some (map_prod Inr id (rpc_ids (remove_torrent (re_env env)) args tag m))"
      using s by (simp add: rpc_dispatch_def torrent_remove_def)
    then show ?thesis using dispatched by blast
  next
    case 4
    then have "rpc_dispatch env dir method_it args tag m = Some (map_prod Inr id (rpc_ids resume_torrent args tag m))"
      using s by (simp add: rpc_dispatch_def torrent_start_def)
    then show ?thesis using dispatched by blast
  next
    case 5
    then have "rpc_dispatch env dir method_it args tag m = Some (map_prod Inr id (rpc_ids pause_torrent args tag m))"
      using s by (simp add: rpc_dispatch_def torrent_stop_def)
    then show ?thesis using dispatched by blast
  qed
qed

section \<open>The selected torrents\<close>

text \<open>\<open>f\<close> is applied to the listed torrents, the others stay.\<close>

definition selected :: "string list \<Rightarrow> (torrent \<Rightarrow> torrent option) \<Rightarrow> manager \<Rightarrow> manager \<Rightarrow> bool" where
  "selected hs f m m' \<longleftrightarrow>
     (\<forall>h. map_of (mg_torrents m') h =
        (if h \<in> set hs then Option.bind (map_of (mg_torrents m) h) f else map_of (mg_torrents m) h))"

definition ids_call :: "stringify_options \<Rightarrow> string \<Rightarrow> string list \<Rightarrow> json \<Rightarrow> string" where
  "ids_call opt method hs tag = stringify opt
     (JObject [(''method'', JString method), (''arguments'', JObject [(''ids'', JArray (map JString hs))]), (''tag'', tag)])"

definition call_selects ::
    "rpc_env \<Rightarrow> string \<Rightarrow> http_request \<Rightarrow> string \<Rightarrow> json \<Rightarrow> string list \<Rightarrow> (torrent \<Rightarrow> torrent option) \<Rightarrow> manager \<Rightarrow> bool" where
  "call_selects env dir req body tag hs f m \<longleftrightarrow>
     (\<exists>r m'. rpc_handle_request env dir (req\<lparr>hq_body := body\<rparr>) m = Some (r, m') \<and>
        answers r ''success'' (JObject []) tag \<and> selected hs f m m')"

lemma set_paused_select: "selected [h] (\<lambda>t. Some (t\<lparr>t_paused := p\<rparr>)) m (snd (set_paused p h m))"
  by (auto simp: selected_def set_paused_def put_torrent_def AList.update_conv' split: option.split)

lemma remove_select: "selected [h] (\<lambda>t. None) m (snd (remove_torrent env h m))"
  by (auto simp: selected_def remove_torrent_def AList.delete_conv' split: option.split)

lemma for_ids_select:
  assumes "\<And>h m. selected [h] f m (snd (act h m))" "\<And>t t'. f t = Some t' \<Longrightarrow> f t' = Some t'"
  shows "selected hs f m (for_ids act (map JString hs) m)"
proof (induction hs arbitrary: m)
  case Nil
  show ?case by (simp add: selected_def for_ids_def)
next
  case (Cons h hs)
  from Cons.IH [of "snd (act h m)"] assms(1) [of h m] show ?case
    using assms(2) by (auto simp: selected_def for_ids_def split: bind_splits)
qed

lemma ids_call_parses:
  assumes "json_ok tag"
  shows "parse_or_throw (ids_call opt method hs tag) =
    Some (Inr (JObject [(''method'', JString method), (''arguments'', JObject [(''ids'', JArray (map JString hs))]), (''tag'', tag)]))"
proof -
  let ?v = "JObject [(''method'', JString method), (''arguments'', JObject [(''ids'', JArray (map JString hs))]), (''tag'', tag)]"
  have "json_ok ?v" using assms by (simp add: list_all_iff)
  from stringify_parses [OF this, of opt] show ?thesis by (simp add: parse_or_throw_def ids_call_def)
qed

section \<open>Properties\<close>


text \<open>C34: The calls that stop, start and remove torrents act on exactly the torrents whose ids they list,
  repeated and unknown ids included, leave every other torrent as it is and answer success.\<close>

theorem rpc_selects:
  assumes "json_ok tag"
  shows "call_selects env dir req (ids_call opt ''torrent-stop'' hs tag) tag hs (\<lambda>t. Some (t\<lparr>t_paused := True\<rparr>)) m \<and>
    call_selects env dir req (ids_call opt ''torrent-start'' hs tag) tag hs (\<lambda>t. Some (t\<lparr>t_paused := False\<rparr>)) m \<and>
    call_selects env dir req (ids_call opt ''torrent-remove'' hs tag) tag hs (\<lambda>t. None) m"
proof -
  have "selected [h] (\<lambda>t. Some (t\<lparr>t_paused := True\<rparr>)) m (snd (pause_torrent h m))"
    "selected [h] (\<lambda>t. Some (t\<lparr>t_paused := False\<rparr>)) m (snd (resume_torrent h m))" for h m
    unfolding pause_torrent_def resume_torrent_def by (rule set_paused_select)+
  then have s: "selected hs (\<lambda>t. Some (t\<lparr>t_paused := True\<rparr>)) m (for_ids pause_torrent (map JString hs) m)"
    "selected hs (\<lambda>t. Some (t\<lparr>t_paused := False\<rparr>)) m (for_ids resume_torrent (map JString hs) m)"
    "selected hs (\<lambda>t. None) m (for_ids (remove_torrent (re_env env)) (map JString hs) m)"
    using remove_select by (auto intro!: for_ids_select)
  then show ?thesis
    using create_response_answers [OF json_ok_empty assms, of "''success''"]
    by (simp add: call_selects_def rpc_handle_request_def ids_call_parses [OF assms] json_find_def find_or_def rpc_dispatch_def
        torrent_stop_def torrent_start_def torrent_remove_def rpc_ids_def)
qed

definition sample_env :: rpc_env where
  "sample_env = \<lparr>re_env = session_env, re_percentage = (\<lambda>_. ''0''), re_quotient = (\<lambda>_ _. ''0'')\<rparr>"

lemma sample_prints: "prints_numbers sample_env"
  by (simp only: prints_numbers_def sample_env_def rpc_env.simps zero_ok) simp


theorem rpc_selects_witness:
  "\<exists>m h t. map_of (mg_torrents m) h = Some t \<and>
     call_selects sample_env ''d'' \<lparr>hq_method = [], hq_path = [], hq_body = [], hq_headers = [], hq_query = []\<rparr>
       (ids_call pretty_options ''torrent-stop'' [h] (JNumber ''4'')) (JNumber ''4'') [h] (\<lambda>t. Some (t\<lparr>t_paused := True\<rparr>)) m"
  using session_add rpc_selects [OF zero_ok(2)] by blast

end
