(* ===== verification/Web_Socket.thy ===== *)
theory Web_Socket
  imports Http_Server Base64 Sha1
begin

text \<open>
  \<open>src/api/websocket_server.cpp\<close>: frames, connections, the upgrade of an HTTP request and the
  broadcast to all connections.  The pieces a socket delivers are an argument, \<open>alloc n\<close> says whether
  a payload of \<open>n\<close> bytes can be allocated, and the result of each \<open>send\<close> is given by the socket.
  \<open>None\<close> is an exception that leaves a connection's thread, which terminates the program.
\<close>

section \<open>Frames\<close>

text \<open>\<open>RESERVED\<close> stands for the values of the nibble that have no enumerator.\<close>

datatype opcode = CONTINUATION | TEXT | BINARY | CLOSE | PING | PONG | RESERVED byte

definition opcode_code :: "opcode \<Rightarrow> byte" where
  "opcode_code c =
     (case c of CONTINUATION \<Rightarrow> 0 | TEXT \<Rightarrow> 1 | BINARY \<Rightarrow> 2 | CLOSE \<Rightarrow> 8 | PING \<Rightarrow> 9 | PONG \<Rightarrow> 10 | RESERVED b \<Rightarrow> b)"

definition opcode_of :: "byte \<Rightarrow> opcode" where
  "opcode_of b =
     (if b = 0 then CONTINUATION else if b = 1 then TEXT else if b = 2 then BINARY else if b = 8 then CLOSE
      else if b = 9 then PING else if b = 10 then PONG else RESERVED b)"

record ws_frame =
  wf_fin :: bool
  wf_opcode :: opcode
  wf_payload :: "byte list"

record ws_connection =
  wc_socket :: "int option"
  wc_connected :: bool

definition connection_new :: "int \<Rightarrow> ws_connection" where
  "connection_new fd = \<lparr>wc_socket = Some fd, wc_connected = True\<rparr>"

definition first_byte :: "ws_frame \<Rightarrow> byte" where
  "first_byte f = (if wf_fin f then 0x80 else 0) OR opcode_code (wf_opcode f)"

definition length_bytes :: "nat \<Rightarrow> byte list" where
  "length_bytes n =
     (if n \<le> 125 then [word_of_nat n]
      else if n \<le> 65535 then 126 # be_bytes 2 n
      else 127 # be_bytes 8 n)"

definition frame_bytes :: "ws_frame \<Rightarrow> byte list" where
  "frame_bytes f = first_byte f # length_bytes (length (wf_payload f)) @ wf_payload f"

text \<open>The bytes that are passed to \<open>send\<close> come with the result; \<open>sent\<close> is what \<open>send\<close> returns for them.\<close>

definition send_frame :: "(byte list \<Rightarrow> int) \<Rightarrow> ws_frame \<Rightarrow> ws_connection \<Rightarrow> bool \<times> byte list" where
  "send_frame sent f c =
     (if \<not> wc_connected c then (False, [])
      else (sent (frame_bytes f) = int (length (frame_bytes f)), frame_bytes f))"

section \<open>Receiving\<close>

text \<open>One \<open>recv\<close> that must bring all bytes that are asked for.\<close>

definition recv_exact :: "nat \<Rightarrow> byte list list \<Rightarrow> byte list option \<times> byte list list" where
  "recv_exact n cs = (case recv n cs of (d, r) \<Rightarrow> (if length d = n then Some d else None, r))"

definition payload_length :: "byte \<Rightarrow> byte list list \<Rightarrow> nat option \<times> byte list list" where
  "payload_length second_byte cs =
     (let n = unat (second_byte AND 0x7F) in
      if n = 126 then map_prod (map_option be_val) id (recv_exact 2 cs)
      else if n = 127 then map_prod (map_option be_val) id (recv_exact 8 cs)
      else (Some n, cs))"

definition unmask :: "byte list \<Rightarrow> byte list \<Rightarrow> byte list" where
  "unmask masking_key payload = map (\<lambda>(i, b). b XOR masking_key ! (i mod 4)) (zip [0..<length payload] payload)"

definition receive_payload ::
    "(nat \<Rightarrow> bool) \<Rightarrow> byte list option \<Rightarrow> nat \<Rightarrow> byte list list \<Rightarrow> (byte list option \<times> byte list list) option" where
  "receive_payload alloc masking_key n cs =
     (if \<not> alloc n then None
      else Some (map_prod (map_option (\<lambda>p. case masking_key of Some k \<Rightarrow> unmask k p | None \<Rightarrow> p)) id (recv_exact n cs)))"

definition receive_parts :: "(nat \<Rightarrow> bool) \<Rightarrow> byte list list \<Rightarrow> (ws_frame option \<times> byte list list) option" where
  "receive_parts alloc cs =
     (case recv_exact 1 cs of
        (None, r) \<Rightarrow> Some (None, r)
      | (Some b1, r) \<Rightarrow>
          (case recv_exact 1 r of
             (None, r) \<Rightarrow> Some (None, r)
           | (Some b2, r) \<Rightarrow>
               (case payload_length (hd b2) r of
                  (None, r) \<Rightarrow> Some (None, r)
                | (Some n, r) \<Rightarrow>
                    (case (if hd b2 AND 0x80 \<noteq> 0 then map_prod (map_option Some) id (recv_exact 4 r) else (Some None, r)) of
                       (None, r) \<Rightarrow> Some (None, r)
                     | (Some masking_key, r) \<Rightarrow>
                         map_option
                           (map_prod (map_option (\<lambda>p.
                              \<lparr>wf_fin = (hd b1 AND 0x80 \<noteq> 0), wf_opcode = opcode_of (hd b1 AND 0x0F), wf_payload = p\<rparr>)) id)
                           (receive_payload alloc masking_key n r)))))"

definition receive_frame ::
    "(nat \<Rightarrow> bool) \<Rightarrow> byte list list \<Rightarrow> ws_connection \<Rightarrow> (ws_frame option \<times> byte list list \<times> ws_connection) option" where
  "receive_frame alloc cs c =
     (if \<not> wc_connected c then Some (None, cs, c)
      else map_option
        (\<lambda>(f, r). (f, r, case f of Some _ \<Rightarrow> c | None \<Rightarrow> c\<lparr>wc_connected := False\<rparr>))
        (receive_parts alloc cs))"

text \<open>The descriptor that is closed comes with the result.\<close>

definition close_connection :: "ws_connection \<Rightarrow> int list \<times> ws_connection" where
  "close_connection c =
     (if \<not> wc_connected c then ([], c)
      else case wc_socket c of
          None \<Rightarrow> ([], c\<lparr>wc_connected := False\<rparr>)
        | Some fd \<Rightarrow> (if 0 \<le> fd then ([fd], \<lparr>wc_socket = None, wc_connected = False\<rparr>) else ([], c\<lparr>wc_connected := False\<rparr>)))"

section \<open>The server\<close>

text \<open>A connection is known by its number (the address of the shared object).\<close>

record ws_server =
  ws_running :: bool
  ws_thread :: bool
  ws_handler :: bool
  ws_connections :: "(nat \<times> ws_connection) list"

definition ws_server_new :: ws_server where
  "ws_server_new = \<lparr>ws_running = False, ws_thread = False, ws_handler = False, ws_connections = []\<rparr>"

definition ws_start :: "ws_server \<Rightarrow> ws_server" where
  "ws_start s = (if ws_running s then s else s\<lparr>ws_running := True, ws_thread := True\<rparr>)"

definition ws_stop :: "ws_server \<Rightarrow> ws_server" where
  "ws_stop s = s\<lparr>ws_running := False, ws_thread := False, ws_connections := []\<rparr>"

definition set_message_handler :: "ws_server \<Rightarrow> ws_server" where
  "set_message_handler s = s\<lparr>ws_handler := True\<rparr>"

text \<open>Sending to every connection; those whose \<open>send\<close> fails or is short are removed.  The second
  component lists what was passed to \<open>send\<close>.\<close>

fun send_all ::
    "(nat \<Rightarrow> byte list \<Rightarrow> int) \<Rightarrow> ws_frame \<Rightarrow> (nat \<times> ws_connection) list \<Rightarrow>
     (nat \<times> ws_connection) list \<times> (nat \<times> byte list) list" where
  "send_all sent f [] = ([], [])"
| "send_all sent f ((i, c) # cs) =
     (case (send_frame (sent i) f c, send_all sent f cs) of
        ((ok, out), (rest, outs)) \<Rightarrow> (if ok then (i, c) # rest else rest, (i, out) # outs))"

definition broadcast_text :: "(nat \<Rightarrow> byte list \<Rightarrow> int) \<Rightarrow> string \<Rightarrow> ws_server \<Rightarrow> ws_server \<times> (nat \<times> byte list) list" where
  "broadcast_text sent msg s =
     (case send_all sent \<lparr>wf_fin = True, wf_opcode = TEXT, wf_payload = bytes_of_string msg\<rparr> (ws_connections s) of
        (cs, outs) \<Rightarrow> (s\<lparr>ws_connections := cs\<rparr>, outs))"

definition broadcast_binary :: "(nat \<Rightarrow> byte list \<Rightarrow> int) \<Rightarrow> byte list \<Rightarrow> ws_server \<Rightarrow> ws_server \<times> (nat \<times> byte list) list" where
  "broadcast_binary sent data s =
     (case send_all sent \<lparr>wf_fin = True, wf_opcode = BINARY, wf_payload = data\<rparr> (ws_connections s) of
        (cs, outs) \<Rightarrow> (s\<lparr>ws_connections := cs\<rparr>, outs))"

text \<open>The loop of a connection's thread; the list holds what each round reads from \<open>running_\<close> (at its
  end the thread still waits).  The frames that reach the message handler come with the result,
  the flag says that the loop has ended.\<close>

fun connection_loop ::
    "(nat \<Rightarrow> bool) \<Rightarrow> bool list \<Rightarrow> byte list list \<Rightarrow> ws_connection \<Rightarrow> (ws_frame list \<times> bool \<times> ws_connection) option" where
  "connection_loop alloc [] cs c = Some ([], False, c)"
| "connection_loop alloc (running # rs) cs c =
     (if \<not> (running \<and> wc_connected c) then Some ([], True, c)
      else case receive_frame alloc cs c of
          None \<Rightarrow> None
        | Some (None, r, c') \<Rightarrow> Some ([], True, c')
        | Some (Some f, r, c') \<Rightarrow>
            if wf_opcode f = CLOSE then Some ([f], True, c')
            else map_option (map_prod ((#) f) id) (connection_loop alloc rs r c'))"

text \<open>The thread of connection \<open>i\<close>.  Its object is destroyed at the end: the descriptors this closes come
  with the result.\<close>

definition handle_websocket_connection ::
    "(nat \<Rightarrow> bool) \<Rightarrow> bool list \<Rightarrow> byte list list \<Rightarrow> nat \<Rightarrow> ws_connection \<Rightarrow> ws_server \<Rightarrow>
     (ws_frame list \<times> int list \<times> ws_server) option" where
  "handle_websocket_connection alloc rs cs i c s =
     map_option
       (\<lambda>(fs, ended, c').
          (if ws_handler s then fs else [], if ended then fst (close_connection c') else [],
           s\<lparr>ws_connections := (if ended then AList.delete i (ws_connections s) else AList.update i c' (ws_connections s))\<rparr>))
       (connection_loop alloc rs cs c)"

section \<open>The upgrade\<close>

definition ws_magic :: string where
  "ws_magic = ''258EAFA5-E914-47DA-95CA-C5AB0DC85B11''"

definition ws_base64_encode :: "byte list \<Rightarrow> string" where
  "ws_base64_encode data = encode_bytes data"

definition generate_accept_key :: "string \<Rightarrow> string" where
  "generate_accept_key key = ws_base64_encode (sha1_hash (bytes_of_string (key @ ws_magic)))"

text \<open>The answer and the new connection; \<open>None\<close> closes the socket.\<close>

definition handle_websocket_upgrade :: "http_request \<Rightarrow> int \<Rightarrow> (string \<times> ws_connection) option" where
  "handle_websocket_upgrade req client_socket =
     map_option
       (\<lambda>key. (''HTTP/1.1 101 Switching Protocols'' @ crlf @ ''Upgrade: websocket'' @ crlf @ ''Connection: Upgrade'' @ crlf @
          ''Sec-WebSocket-Accept: '' @ generate_accept_key key @ crlf @ crlf, connection_new client_socket))
       (map_of (hq_headers req) ''Sec-WebSocket-Key'')"

fun ws_headers :: "string list \<Rightarrow> (string \<times> string) list \<Rightarrow> (string \<times> string) list" where
  "ws_headers [] hs = hs"
| "ws_headers (l # ls) hs =
     (let line = strip_cr l in
      case find_char CHR '':'' line 0 of
        None \<Rightarrow> ws_headers ls hs
      | Some i \<Rightarrow>
          ws_headers ls (AList.update (take i line) (dropWhile (\<lambda>c. c = CHR '' '' \<or> c = CHR 0x09) (drop (i + 1) line)) hs))"

text \<open>The request is a C string: it ends at the first null character.  When an empty line follows the
  request line at once, the length of the header section wraps around.\<close>

definition ws_request :: "string \<Rightarrow> http_request" where
  "ws_request received =
     (let s = takeWhile (\<lambda>c. c \<noteq> CHR 0x00) received;
          empty_request = \<lparr>hq_method = [], hq_path = [], hq_body = [], hq_headers = [], hq_query = []\<rparr>
      in case find_str crlf s of
           None \<Rightarrow> empty_request
         | Some line_end \<Rightarrow>
             (let (m, rest) = next_word (take line_end s);
                  header_start = line_end + 2;
                  headers = (case find_str blank_line s of
                      None \<Rightarrow> []
                    | Some header_end \<Rightarrow>
                        ws_headers (get_lines CHR 0x0A [] (substr s header_start (u64_sub header_end header_start))) [])
              in empty_request\<lparr>hq_method := m, hq_path := fst (next_word rest), hq_headers := headers\<rparr>))"

text \<open>What the server thread does with a new client: one \<open>recv\<close>, and the socket is closed when that
  brings nothing.\<close>

definition accept_client :: "string list \<Rightarrow> int \<Rightarrow> (string \<times> ws_connection) option" where
  "accept_client cs client_socket =
     (case recv 4095 cs of (received, r) \<Rightarrow>
        if received = [] then None else handle_websocket_upgrade (ws_request received) client_socket)"

fun ws_run :: "(bool \<times> (string list \<times> int) option) list \<Rightarrow> (string \<times> ws_connection) list" where
  "ws_run [] = []"
| "ws_run ((running, client) # rounds) =
     (if \<not> running then []
      else case client of
          None \<Rightarrow> ws_run rounds
        | Some (cs, fd) \<Rightarrow>
            if fd < 0 then ws_run rounds
            else (case accept_client cs fd of None \<Rightarrow> [] | Some x \<Rightarrow> [x]) @ ws_run rounds)"

section \<open>Frames that are read back\<close>

text \<open>A frame as a client sends it, with or without a mask.\<close>

definition client_frame :: "byte list option \<Rightarrow> ws_frame \<Rightarrow> byte list" where
  "client_frame key f =
     (case key of
        None \<Rightarrow> frame_bytes f
      | Some k \<Rightarrow> (case length_bytes (length (wf_payload f)) of l # ls \<Rightarrow>
          first_byte f # (0x80 OR l) # ls @ k @ unmask k (wf_payload f)))"

definition frame_ok :: "byte list option \<Rightarrow> ws_frame \<Rightarrow> bool" where
  "frame_ok key f \<longleftrightarrow>
     length (wf_payload f) < 2 ^ 64 \<and> (\<forall>k. key = Some k \<longrightarrow> length k = 4) \<and>
     (case wf_opcode f of RESERVED b \<Rightarrow> b \<in> {3, 4, 5, 6, 7, 11, 12, 13, 14, 15} | _ \<Rightarrow> True)"

lemma opcode_bits:
  assumes "case c of RESERVED b \<Rightarrow> b \<in> {3, 4, 5, 6, 7, 11, 12, 13, 14, 15} | _ \<Rightarrow> True"
  shows "(0x80 OR opcode_code c) AND 0x80 \<noteq> 0" "(0 OR opcode_code c) AND 0x80 = 0"
    "opcode_of ((0x80 OR opcode_code c) AND 0x0F) = c" "opcode_of ((0 OR opcode_code c) AND 0x0F) = c"
  using assms by (cases c; auto simp: opcode_code_def opcode_of_def)+

lemma first_byte_read:
  assumes "frame_ok key f"
  shows "(first_byte f AND 0x80 \<noteq> 0) = wf_fin f" "opcode_of (first_byte f AND 0x0F) = wf_opcode f"
  using assms opcode_bits [of "wf_opcode f"] by (simp_all add: frame_ok_def first_byte_def)

lemma small_byte:
  assumes "unat (l :: byte) < 128"
  shows "(0x80 OR l) AND 0x7F = l" "l AND 0x7F = l" "(0x80 OR l) AND 0x80 \<noteq> 0" "l AND 0x80 = 0"
proof -
  have t: "take_bit 7 l = l" using assms by (simp add: word_unat_eq_iff unsigned_take_bit_eq take_bit_nat_eq_self)
  then have b: "bit l n \<Longrightarrow> n < 7" for n by (metis bit_take_bit_iff)
  have m: "(0x7F :: byte) = mask 7" "(0x80 :: byte) = push_bit 7 1" by (simp_all add: mask_eq_exp_minus_1)
  have h: "take_bit 7 (0x80 :: byte) = 0" "take_bit 7 (0x80 OR l) = l"  by (simp_all add: t take_bit_or)
  show "(0x80 OR l) AND 0x7F = l" "l AND 0x7F = l" unfolding m(1) take_bit_eq_mask [symmetric] using t h by simp_all
  have "l AND 0x80 = take_bit 7 l AND 0x80" using t by simp
  also have "\<dots> = take_bit 7 (l AND 0x80)" by (simp add: take_bit_eq_mask ac_simps)
  also have "\<dots> = l AND take_bit 7 0x80" by (simp add: take_bit_eq_mask ac_simps)
  finally show z: "l AND 0x80 = 0" using h(1) by simp
  have "(0x80 OR l) AND 0x80 = 0x80 OR (l AND 0x80)" by (simp add: bit.conj_disj_distrib2)
  then show "(0x80 OR l) AND 0x80 \<noteq> 0" by (simp add: z)
qed

definition pieces :: "'a list \<Rightarrow> 'a list list" where
  "pieces b = (if b = [] then [] else [b])"

lemma recv_exact_pieces: "length a = n \<Longrightarrow> recv_exact n (pieces (a @ b)) = (Some a, pieces b)"
  by (cases "a = []"; cases "b = []") (simp_all add: recv_exact_def pieces_def)

lemma recv_exact_one: "recv_exact (Suc 0) (pieces (x # b)) = (Some [x], pieces b)"
  using recv_exact_pieces [of "[x]" 1 b] by simp

lemma length_bytes_read:
  assumes "n < 2 ^ 64" "length_bytes n = l # ls" "m AND 0x7F = l"
  shows "unat l < 128" "payload_length m (pieces (ls @ b)) = (Some n, pieces b)"
proof -
  consider "n \<le> 125" | "125 < n" "n \<le> 65535" | "65535 < n" by linarith
  then have "unat l < 128 \<and> payload_length m (pieces (ls @ b)) = (Some n, pieces b)"
  proof cases
    case 1
    then have l: "l = word_of_nat n" "ls = []" using assms(2) by (simp_all add: length_bytes_def)
    have "unat (word_of_nat n :: byte) = n" using 1 by (simp add: unat_of_nat)
    then show ?thesis using 1 l assms(3) by (simp add: payload_length_def Let_def)
  next
    case 2
    then have l: "l = 126" "ls = be_bytes 2 n" using assms(2) by (simp_all add: length_bytes_def)
    have "n mod 256 ^ 2 = n" using 2 by simp
    then show ?thesis using l assms(3) recv_exact_pieces [of ls 2 b] by (simp add: payload_length_def)
  next
    case 3
    then have l: "l = 127" "ls = be_bytes 8 n" using assms(2) by (simp_all add: length_bytes_def)
    have "n mod 256 ^ 8 = n" using assms(1) by simp
    then show ?thesis using l assms(3) recv_exact_pieces [of ls 8 b] by (simp add: payload_length_def)
  qed
  then show "unat l < 128" "payload_length m (pieces (ls @ b)) = (Some n, pieces b)" by blast+
qed

lemma unmask_unmask: "unmask k (unmask k p) = p"
  by (rule nth_equalityI) (simp_all add: unmask_def xor.assoc)

lemma length_unmask [simp]: "length (unmask k p) = length p"
  by (simp add: unmask_def)

lemma receive_client_frame:
  assumes "frame_ok key f" "alloc (length (wf_payload f))"
  shows "receive_parts alloc (pieces (client_frame key f @ b)) = Some (Some f, pieces b)"
proof -
  obtain l ls where l: "length_bytes (length (wf_payload f)) = l # ls"
    by (cases "length_bytes (length (wf_payload f))") (simp_all add: length_bytes_def split: if_splits)
  have n: "length (wf_payload f) < 2 ^ 64" using assms(1) by (simp add: frame_ok_def)
  have "l AND 0x7F = l"
    using l by (auto simp: length_bytes_def unat_of_nat split: if_splits intro!: small_byte(2))
  note small = small_byte [OF length_bytes_read(1) [OF n l this]]
  note first = first_byte_read [OF assms(1)]
  show ?thesis
  proof (cases key)
    case None
    have "client_frame key f @ b = first_byte f # l # ls @ wf_payload f @ b" by (simp add: None client_frame_def frame_bytes_def l)
    then show ?thesis
      using None assms(2) length_bytes_read(2) [OF n l small(2), of "wf_payload f @ b"] recv_exact_pieces [OF refl, of "wf_payload f" b]
      by (simp add: receive_parts_def recv_exact_one small first receive_payload_def)
  next
    case (Some k)
    have k: "length k = 4" using assms(1) Some by (simp add: frame_ok_def)
    have "client_frame key f @ b = first_byte f # (0x80 OR l) # ls @ k @ unmask k (wf_payload f) @ b"
      by (simp add: Some client_frame_def l)
    then show ?thesis
      using Some assms(2) length_bytes_read(2) [OF n l small(1), of "k @ unmask k (wf_payload f) @ b"]
        recv_exact_pieces [OF k, of "unmask k (wf_payload f) @ b"] recv_exact_pieces [OF length_unmask, of "wf_payload f" k b]
      by (simp add: receive_parts_def recv_exact_one small first receive_payload_def unmask_unmask)
  qed
qed

interpretation frames: stream_codec frame_bytes
    "\<lambda>bs. case receive_parts (\<lambda>_. True) (pieces bs) of Some (Some f, r) \<Rightarrow> Some (f, concat r) | _ \<Rightarrow> None" "frame_ok None"
proof unfold_locales
  fix f b
  assume "frame_ok None f"
  from receive_client_frame [OF this, of "\<lambda>_. True" b] show
    "(case receive_parts (\<lambda>_. True) (pieces (frame_bytes f @ b)) of Some (Some f, r) \<Rightarrow> Some (f, concat r) | _ \<Rightarrow> None) = Some (f, b)"
    by (simp add: client_frame_def pieces_def)
qed

text \<open>The frames of a connection up to the first close frame.\<close>

fun upto_close :: "ws_frame list \<Rightarrow> ws_frame list" where
  "upto_close [] = []"
| "upto_close (f # fs) = (if wf_opcode f = CLOSE then [f] else f # upto_close fs)"

definition closes :: "ws_frame list \<Rightarrow> bool" where
  "closes fs \<longleftrightarrow> list_ex (\<lambda>f. wf_opcode f = CLOSE) fs"

lemma loop_frames:
  assumes "list_all (\<lambda>(k, f). frame_ok k f \<and> alloc (length (wf_payload f))) kfs" "length kfs < length rs" "list_all id rs" "wc_connected c"
  shows "connection_loop alloc rs (pieces (concat (map (\<lambda>(k, f). client_frame k f) kfs))) c =
    Some (upto_close (map snd kfs), True, if closes (map snd kfs) then c else c\<lparr>wc_connected := False\<rparr>)"
  using assms
proof (induction kfs arbitrary: rs)
  case Nil
  then show ?case
    by (cases rs) (simp_all add: receive_frame_def receive_parts_def recv_exact_def pieces_def closes_def)
next
  case (Cons kf kfs)
  obtain k f where kf: "kf = (k, f)" by force
  from Cons.prems(2) obtain r0 rs' where rs: "rs = r0 # rs'" by (cases rs) auto
  from Cons.prems kf receive_client_frame [of k f alloc "concat (map (\<lambda>(k, f). client_frame k f) kfs)"]
  have "receive_frame alloc (pieces (concat (map (\<lambda>(k, f). client_frame k f) (kf # kfs)))) c =
      Some (Some f, pieces (concat (map (\<lambda>(k, f). client_frame k f) kfs)), c)"
    by (simp add: receive_frame_def)
  then show ?case using Cons.IH [of rs'] Cons.prems kf rs by (simp add: closes_def)
qed

lemma send_all_ok:
  "fst (send_all sent f cs) = filter (\<lambda>(i, c). wc_connected c \<and> sent i (frame_bytes f) = int (length (frame_bytes f))) cs"
  "snd (send_all sent f cs) = map (\<lambda>(i, c). (i, if wc_connected c then frame_bytes f else [])) cs"
  by (induction cs rule: send_all.induct) (auto simp: send_frame_def split: prod.splits)

section \<open>The upgrade of a request\<close>

lemma ws_field:
  assumes "field_ok h"
  shows "ws_headers (field_text h # ls) hs = ws_headers ls (AList.update (fst h) (snd h) hs)"
proof -
  have ns: "CHR 0x0D \<notin> set (field_text h)" using assms by (auto simp: field_text_def field_ok_def one_line_def)
  have "find_char CHR '':'' (field_text h) 0 = Some (length (fst h))"
    using assms find_char_0 [of "CHR '':''" "fst h" "CHR '' '' # snd h"] by (simp add: field_text_def field_ok_def)
  moreover have "dropWhile (\<lambda>c. c = CHR '' '' \<or> c = CHR 0x09) (snd h) = snd h"
  proof (cases "snd h")
    case (Cons c t)
    have "c_isspace (CHR '' '')" "c_isspace (CHR 0x09)" by (simp_all add: c_isspace_def)
    moreover have "\<not> c_isspace c" using assms Cons by (simp add: field_ok_def trimmed_def)
    ultimately show ?thesis using Cons by auto
  qed simp
  ultimately show ?thesis by (simp add: strip_cr_id [OF ns]) (simp add: field_text_def)
qed

lemma ws_fields:
  assumes "list_all field_ok hs" "distinct (map fst hs)"
  shows "ws_headers (map field_text hs) [] = hs"
proof -
  have "ws_headers (map field_text hs) ms = foldl (\<lambda>m (k, v). AList.update k v m) ms hs" for ms
    using assms(1) by (induction hs arbitrary: ms) (simp_all add: ws_field case_prod_unfold del: ws_headers.simps(2))
  then show ?thesis by (simp add: foldl_update_distinct [OF assms(2)])
qed

lemma ws_headers_strip:
  "list_all (\<lambda>l. CHR 0x0D \<notin> set (strip_cr l)) ls \<Longrightarrow> ws_headers ls hs = ws_headers (map strip_cr ls) hs"
  by (induction ls arbitrary: hs) (simp_all add: Let_def strip_cr_id split: option.split)

lemma substr_block: "2 \<le> length h \<Longrightarrow> substr (l @ crlf @ h @ t) (length l + 2) (length h - 2) = take (length h - 2) h"
  by (simp add: substr_def crlf_def)

lemma ws_request_text:
  assumes "token m" "token path" "list_all field_ok hs" "distinct (map fst hs)" "hs \<noteq> []"
    and "CHR 0x00 \<notin> set (request_text m path ps hs [])" "length (request_text m path ps hs []) < 2 ^ 64"
  shows "ws_request (request_text m path ps hs []) =
    \<lparr>hq_method = m, hq_path = target_text path ps, hq_body = [], hq_headers = hs, hq_query = []\<rparr>"
proof -
  let ?l = "m @ '' '' @ target_text path ps @ '' HTTP/1.1''" and ?hb = "header_block (map field_text hs)"
  let ?s = "request_text m path ps hs []"
  have s: "?s = ?l @ crlf @ ?hb @ crlf" by (simp add: request_text_def request_lines_def)
  have l: "one_line ?l" by (rule request_line_one_line [OF assms(1,2)])
  then have "CHR 0x0D \<notin> set ?l" by (simp only: one_line_def) simp
  from find_str_skip [OF this, of "[CHR 0x0A]" "crlf @ ?hb @ crlf"] have line_end: "find_str crlf ?s = Some (length ?l)"
    unfolding s by (simp add: crlf_def)
  have ok: "list_all (\<lambda>l. one_line l \<and> l \<noteq> []) (map field_text hs)"
    using assms(3) field_text_one_line by (auto simp: list_all_iff)
  have two: "2 \<le> length ?hb" using assms(5) by (cases hs) (simp_all add: crlf_def)
  have "list_all header_line (?l # map field_text hs)"
    using ok l by (simp add: list_all_iff header_line_def one_line_def)
  from find_blank_line [OF this, of "[]"] two have header_end: "find_str blank_line ?s = Some (length ?l + length ?hb)"
    unfolding s by (simp add: crlf_def)
  have "u64_sub (length ?l + length ?hb) (length ?l + 2) = length ?hb - 2"
    using two assms(7) unfolding s by (subst u64_sub_id) (simp_all add: crlf_def)
  note u = this
  have part: "substr ?s (length ?l + 2) (u64_sub (length ?l + length ?hb) (length ?l + 2)) = take (length ?hb - 2) ?hb"
    using substr_block [OF two, of ?l crlf] by (simp only: s u)
  define rs where rs: "rs = get_lines CHR 0x0A [] (take (length ?hb - 2) ?hb)"
  have st: "map strip_cr rs = map field_text hs"
    unfolding rs using assms(5) by (intro header_lines [OF ok]) simp
  have "list_all (\<lambda>l. CHR 0x0D \<notin> set l) (map field_text hs)" using ok by (simp add: list_all_iff one_line_def)
  then have "list_all (\<lambda>l. CHR 0x0D \<notin> set (strip_cr l)) rs"
    unfolding st [symmetric] by (simp add: list_all_iff)
  from ws_headers_strip [OF this, of "[]"] st ws_fields [OF assms(3,4)]
  have h: "ws_headers (get_lines CHR 0x0A [] (take (length ?hb - 2) ?hb)) [] = hs" by (simp add: rs)
  from request_line_words [OF assms(1,2), of ps] obtain w where w: "next_word ?l = (m, w)" "fst (next_word w) = target_text path ps" by blast
  have "\<forall>c \<in> set ?s. c \<noteq> CHR 0x00" using assms(6) by auto
  then have nul: "takeWhile (\<lambda>c. c \<noteq> CHR 0x00) ?s = ?s" by (simp only: takeWhile_eq_all_conv)
  have "take (length l) (l @ z) = l" for l z :: string by simp
  then have tk: "take (length ?l) ?s = ?l" unfolding s by blast
  show ?thesis
    by (simp only: ws_request_def nul line_end header_end Let_def option.case w tk part h prod.case) simp
qed

lemma encode_bytes_chars: "set (encode_bytes bs) \<subseteq> set base64_chars \<union> {CHR ''=''}"
proof -
  have d: "set (digits64 ss) \<subseteq> set base64_chars" if "list_all sextet ss" for ss
  proof -
    have "length base64_chars = 64" by code_simp
    then show ?thesis using that sextet_less by (auto simp: digits64_def list_all_iff)
  qed
  have "list_all sextet (take n (sextets a b c))" for n a b c
    using sextets_ok [of a b c] by (auto simp: list_all_iff dest: in_set_takeD)
  with d sextets_ok show ?thesis by (induction bs rule: encode_bytes.induct) fastforce+
qed

lemma accept_field_ok: "field_ok (''Sec-WebSocket-Accept'', generate_accept_key k)"
proof -
  have "\<forall>c \<in> set (base64_chars @ ''=''). \<not> c_isspace c" by code_simp
  with encode_bytes_chars have c: "list_all (\<lambda>c. \<not> c_isspace c) (generate_accept_key k)"
    unfolding generate_accept_key_def ws_base64_encode_def list_all_iff by fastforce
  moreover have "trimmed s" if "list_all (\<lambda>c. \<not> c_isspace c) s" for s
    using that by (cases "s = []") (simp_all add: trimmed_def list_all_iff)
  ultimately show ?thesis using no_space_one_line by (simp add: field_ok_def trimmed_def one_line_def c_isspace_def)
qed

section \<open>Properties\<close>



text \<open>The upgrade: a request that arrives in one piece and carries a key is answered with status 101
  and an accept field that is the base64 form of the SHA-1 of the key followed by the protocol's
  constant, and the client's socket becomes a connection; without a key the socket is closed.\<close>

theorem websocket_upgrade:
  assumes "token m" "token path" "list_all field_ok hs" "distinct (map fst hs)" "hs \<noteq> []"
    and "CHR 0x00 \<notin> set (request_text m path ps hs [])" "length (request_text m path ps hs []) \<le> 4095"
  shows "case map_of hs ''Sec-WebSocket-Key'' of
      None \<Rightarrow> accept_client [request_text m path ps hs []] fd = None
    | Some key \<Rightarrow> \<exists>answer accept. accept_client [request_text m path ps hs []] fd = Some (answer, connection_new fd) \<and>
        read_reply answer = Some (''HTTP/1.1 101 Switching Protocols'',
          [(''Upgrade'', ''websocket''), (''Connection'', ''Upgrade''), (''Sec-WebSocket-Accept'', accept)], []) \<and>
        base64_decode accept = string_of_bytes (fips_sha1 (bytes_of_string (key @ ''258EAFA5-E914-47DA-95CA-C5AB0DC85B11'')))"
proof -
  let ?s = "request_text m path ps hs []"
  have "length ?s < 2 ^ 64" using assms(7) by simp
  from ws_request_text [OF assms(1-6) this]
  have w: "ws_request ?s = \<lparr>hq_method = m, hq_path = target_text path ps, hq_body = [], hq_headers = hs, hq_query = []\<rparr>" .
  have "?s \<noteq> []" by (simp add: request_text_def crlf_def)
  then have a: "accept_client [?s] fd = handle_websocket_upgrade
      \<lparr>hq_method = m, hq_path = target_text path ps, hq_body = [], hq_headers = hs, hq_query = []\<rparr> fd"
    using assms(7) w by (simp add: accept_client_def)
  show ?thesis
  proof (cases "map_of hs ''Sec-WebSocket-Key''")
    case None
    then show ?thesis by (simp add: a handle_websocket_upgrade_def)
  next
    case (Some key)
    let ?fs = "[(''Upgrade'', ''websocket''), (''Connection'', ''Upgrade''), (''Sec-WebSocket-Accept'', generate_accept_key key)]"
    have "field_ok (''Upgrade'', ''websocket'')" "field_ok (''Connection'', ''Upgrade'')"
      by (simp_all add: field_ok_def one_line_def trimmed_def c_isspace_def)
    then have fs: "list_all field_ok ?fs" "distinct (map fst ?fs)" using accept_field_ok by simp_all
    have "one_line ''HTTP/1.1 101 Switching Protocols''" by (simp add: one_line_def)
    from read_reply_text [OF this _ fs, of "[]"] have
      "read_reply (header_block (''HTTP/1.1 101 Switching Protocols'' # map field_text ?fs) @ crlf) =
        Some (''HTTP/1.1 101 Switching Protocols'', ?fs, [])" by simp
    moreover have "base64_decode (generate_accept_key key) =
        string_of_bytes (fips_sha1 (bytes_of_string (key @ ''258EAFA5-E914-47DA-95CA-C5AB0DC85B11'')))"
      by (simp add: generate_accept_key_def ws_base64_encode_def base64_decode_def decode_encode_bytes sha1_hash_fips ws_magic_def del: map_append)
    ultimately show ?thesis
      using Some by (simp add: a handle_websocket_upgrade_def field_text_def)
  qed
qed

theorem websocket_upgrade_witness:
  "\<exists>answer accept. accept_client [''GET /ws HTTP/1.1'' @ crlf @ ''Sec-WebSocket-Key: x'' @ crlf @ crlf] 4 =
      Some (answer, connection_new 4) \<and>
    read_reply answer = Some (''HTTP/1.1 101 Switching Protocols'',
      [(''Upgrade'', ''websocket''), (''Connection'', ''Upgrade''), (''Sec-WebSocket-Accept'', accept)], [])"
proof -
  let ?hs = "[(''Sec-WebSocket-Key'', ''x'')]"
  have t: "request_text ''GET'' ''/ws'' [] ?hs [] = ''GET /ws HTTP/1.1'' @ crlf @ ''Sec-WebSocket-Key: x'' @ crlf @ crlf"
    by (simp add: request_text_def request_lines_def target_text_def field_text_def)
  have "token ''GET''" "token ''/ws''" "list_all field_ok ?hs"
    by (simp_all add: token_def c_isspace_def field_ok_def one_line_def trimmed_def)
  then show ?thesis
    using websocket_upgrade [of "''GET''" "''/ws''" ?hs "[]" 4] unfolding t by (simp add: crlf_def) blast
qed

end
