(* ===== verification/Web_Api.thy ===== *)
theory Web_Api
  imports Transmission_Rpc Web_Socket
begin

text \<open>
  \<open>src/main.cpp\<close>: the routes of the HTTP server on the session, the comparison of JSON values and the
  main loop, which sends the state of the session to the WebSocket clients when it has changed.
  The state of the handlers is the manager.
\<close>

section \<open>Comparing values\<close>

text \<open>The indexed loops run over lists of equal length.\<close>

fun json_equals :: "json \<Rightarrow> json \<Rightarrow> bool"
  and elements_equal :: "json list \<Rightarrow> json list \<Rightarrow> bool"
  and members_equal :: "(string \<times> json) list \<Rightarrow> (string \<times> json) list \<Rightarrow> bool" where
  "json_equals JNull JNull = True"
| "json_equals (JBool a) (JBool b) = (a = b)"
| "json_equals (JNumber a) (JNumber b) = (a = b)"
| "json_equals (JString a) (JString b) = (a = b)"
| "json_equals (JArray as) (JArray bs) = (length as = length bs \<and> elements_equal as bs)"
| "json_equals (JObject as) (JObject bs) = (length as = length bs \<and> members_equal as bs)"
| "json_equals _ _ = False"
| "elements_equal (a # as) (b # bs) = (json_equals a b \<and> elements_equal as bs)"
| "elements_equal _ _ = True"
| "members_equal ((k, a) # as) ((l, b) # bs) = (k = l \<and> json_equals a b \<and> members_equal as bs)"
| "members_equal _ _ = True"

section \<open>The routes\<close>

text \<open>\<open>ae_dht\<close> is what the DHT client reports, \<open>ae_dht_running\<close> whether it runs.\<close>

record api_env =
  ae_rpc :: rpc_env
  ae_dht :: "(bool \<times> nat \<times> nat) option"
  ae_dht_running :: bool

definition api_json :: "json \<Rightarrow> http_response" where
  "api_json v =
     (new_response 200 ''OK'')
       \<lparr>hp_headers := [(''Content-Type'', ''application/json''), (''Access-Control-Allow-Origin'', ''*'')],
        hp_body := stringify pretty_options v\<rparr>"

definition get_index :: "manager handler" where
  "get_index req m =
     Some (Inr (case mg_fs m ''frontend/index.html'' of
         Some c \<Rightarrow> (new_response 200 ''OK'')\<lparr>hp_headers := [(''Content-Type'', ''text/html'')], hp_body := string_of_bytes c\<rparr>
       | None \<Rightarrow> (new_response 500 ''Internal Server Error'')
           \<lparr>hp_headers := [(''Content-Type'', ''text/html'')], hp_body := ''Failed to load index.html''\<rparr>), m)"

definition post_rpc :: "api_env \<Rightarrow> string \<Rightarrow> manager handler" where
  "post_rpc env dir req m = map_option (map_prod Inr id) (rpc_handle_request (ae_rpc env) dir req m)"

fun statuses :: "(piece_manager \<Rightarrow> string) \<Rightarrow> manager \<Rightarrow> string list \<Rightarrow> json list option" where
  "statuses percentage m [] = Some []"
| "statuses percentage m (h # hs) =
     Option.bind (get_torrent_status percentage h m) (\<lambda>s.
       map_option (\<lambda>ss. case s of Some v \<Rightarrow> v # ss | None \<Rightarrow> ss) (statuses percentage m hs))"

definition all_statuses :: "api_env \<Rightarrow> manager \<Rightarrow> json option" where
  "all_statuses env m = map_option JArray (statuses (re_percentage (ae_rpc env)) m (list_torrents m))"

definition get_torrents :: "api_env \<Rightarrow> manager handler" where
  "get_torrents env req m = map_option (\<lambda>v. (Inr (api_json v), m)) (all_statuses env m)"

definition posted_priorities :: "json \<Rightarrow> nat list" where
  "posted_priorities j =
     (case json_find ''file_priorities'' j of
        Some (JArray vs) \<Rightarrow> concat (map (\<lambda>v. case v of JNumber r \<Rightarrow> [u64_of_int (to_int64 0 r)] | _ \<Rightarrow> []) vs)
      | _ \<Rightarrow> [])"

definition post_decode_base64 :: "string \<Rightarrow> string" where
  "post_decode_base64 s = decode_loop 0 (- 8) s"

definition post_add :: "api_env \<Rightarrow> json \<Rightarrow> manager \<Rightarrow> (string res \<times> manager) option" where
  "post_add env j m =
     (case json_find ''metainfo'' j of
        Some (JString s) \<Rightarrow> add_torrent_data (re_env (ae_rpc env)) (post_decode_base64 s) (posted_priorities j) m
      | _ \<Rightarrow>
          (case json_find ''path'' j of
             Some (JString p) \<Rightarrow> add_torrent (re_env (ae_rpc env)) p (posted_priorities j) m
           | _ \<Rightarrow>
               (case json_find ''magnet'' j of
                  Some (JString u) \<Rightarrow> Some (add_magnet_link (ae_dht_running env) u m)
                | _ \<Rightarrow> Some (Inl ''Missing torrent path, metainfo, or magnet'', m))))"

definition api_added :: "string res \<Rightarrow> http_response" where
  "api_added r =
     (case r of
        Inr h \<Rightarrow> api_json (JObject [(''success'', JBool True), (''torrent_id'', JString h)])
      | Inl e \<Rightarrow> (api_json (JObject [(''success'', JBool False), (''error'', json_of_cstr e)]))\<lparr>hp_status := 400\<rparr>)"

definition post_torrents :: "api_env \<Rightarrow> manager handler" where
  "post_torrents env req m =
     (case parse_or_throw (hq_body req) of
        None \<Rightarrow> None
      | Some (Inl e) \<Rightarrow> Some (Inr (api_added (Inl e)), m)
      | Some (Inr j) \<Rightarrow>
          (case j of
             JObject ps \<Rightarrow> map_option (map_prod (\<lambda>r. Inr (api_added r)) id) (post_add env j m)
           | _ \<Rightarrow> Some (Inr (api_added (Inl ''Invalid JSON'')), m)))"

definition api_prefix :: string where
  "api_prefix = ''/api/torrents/''"

definition delete_torrent :: "api_env \<Rightarrow> manager handler" where
  "delete_torrent env req m =
     (if length api_prefix < length (hq_path req) \<and> take (length api_prefix) (hq_path req) = api_prefix then
        (case remove_torrent (re_env (ae_rpc env)) (drop (length api_prefix) (hq_path req)) m of
           (success, m') \<Rightarrow>
             Some (Inr ((api_json (JObject [(''success'', JBool success)]))\<lparr>hp_status := (if success then 200 else 404)\<rparr>), m'))
      else Some (Inr ((api_json JNull)\<lparr>hp_status := 400, hp_body := []\<rparr>), m))"

definition get_stats :: "api_env \<Rightarrow> manager handler" where
  "get_stats env req m = Some (Inr (api_json (get_global_stats (ae_dht env) m)), m)"

definition api_routes :: "api_env \<Rightarrow> string \<Rightarrow> (string \<times> manager handler) list" where
  "api_routes env dir =
     add_route ''GET'' ''/api/stats'' (get_stats env)
       (add_route ''DELETE'' ''/api/torrents/{id}'' (delete_torrent env)
         (add_route ''POST'' ''/api/torrents'' (post_torrents env)
           (add_route ''GET'' ''/api/torrents'' (get_torrents env)
             (add_route ''POST'' ''/transmission/rpc'' (post_rpc env dir)
               (add_route ''GET'' ''/'' get_index [])))))"

section \<open>The main loop\<close>

record session =
  se_manager :: manager
  se_ws :: ws_server
  se_last :: json
  se_first :: bool

definition session_new :: "manager \<Rightarrow> session" where
  "session_new m = \<lparr>se_manager = m, se_ws = ws_start ws_server_new, se_last = JObject [], se_first = True\<rparr>"

definition compact_options :: stringify_options where
  "compact_options = \<lparr>pretty = False, indent = 2, escape_solidus = False\<rparr>"

definition status_update :: "api_env \<Rightarrow> manager \<Rightarrow> json option" where
  "status_update env m =
     map_option (\<lambda>ts. JObject [(''stats'', get_global_stats (ae_dht env) m), (''torrents'', ts)]) (all_statuses env m)"

text \<open>One round; the second component lists what was passed to \<open>send\<close> on each connection.\<close>

definition main_round ::
    "api_env \<Rightarrow> (nat \<Rightarrow> byte list \<Rightarrow> int) \<Rightarrow> session \<Rightarrow> (session \<times> (nat \<times> byte list) list) option" where
  "main_round env result s =
     (let m = update_speeds (steady_clock (re_env (ae_rpc env))) (se_manager s) in
      map_option
        (\<lambda>update.
           if se_first s \<or> \<not> json_equals update (se_last s) then
             (case broadcast_text result (stringify compact_options update) (se_ws s) of
                (ws, outs) \<Rightarrow> (\<lparr>se_manager = m, se_ws = ws, se_last = update, se_first = False\<rparr>, outs))
           else (s\<lparr>se_manager := m\<rparr>, []))
        (status_update env m))"

section \<open>Equality\<close>

lemma json_equals_eq:
  "json_equals a b \<longleftrightarrow> a = b"
  "length as = length bs \<Longrightarrow> elements_equal as bs \<longleftrightarrow> as = bs"
  "length ps = length qs \<Longrightarrow> members_equal ps qs \<longleftrightarrow> ps = qs"
  by (induction a b and as bs and ps qs rule: json_equals_elements_equal_members_equal.induct) auto

section \<open>Every request is a sequence of the manager's operations\<close>

lemma for_ids_steps:
  assumes "\<And>h m. (manager_step E)\<^sup>*\<^sup>* m (snd (act h m))"
  shows "(manager_step E)\<^sup>*\<^sup>* m (for_ids act vs m)"
proof (induction vs arbitrary: m)
  case (Cons v vs)
  have "(manager_step E)\<^sup>*\<^sup>* m (case v of JString h \<Rightarrow> snd (act h m) | _ \<Rightarrow> m)" using assms by (simp split: json.split)
  from rtranclp_trans [OF this Cons] show ?case by (simp add: for_ids_def)
qed (simp add: for_ids_def)

lemma add_data_steps: "E env \<Longrightarrow> add_torrent_data env data prio m = Some (r, m') \<Longrightarrow> (manager_step E)\<^sup>*\<^sup>* m m'"
  by (rule r_into_rtranclp) (rule manager_step.add)

lemma add_path_steps: "E env \<Longrightarrow> add_torrent env path prio m = Some (r, m') \<Longrightarrow> (manager_step E)\<^sup>*\<^sup>* m m'"
  unfolding add_torrent_def by (rule add_data_steps)

lemma remove_steps: "E env \<Longrightarrow> (manager_step E)\<^sup>*\<^sup>* m (snd (remove_torrent env h m))"
  using manager_step.remove [of E env h m] by (metis prod.collapse r_into_rtranclp)

lemma set_paused_steps: "(manager_step E)\<^sup>*\<^sup>* m (snd (set_paused p h m))"
  using manager_step.pause [of p h m] by (metis prod.collapse r_into_rtranclp)

lemma torrent_add_steps:
  assumes "E (re_env env)" "torrent_add env args tag m = Some (r, m')"
  shows "(manager_step E)\<^sup>*\<^sup>* m m'"
  using assms add_data_steps [where E = E, OF assms(1)] add_path_steps [where E = E, OF assms(1)]
  by (auto simp: torrent_add_def rpc_added_def split: option.splits json.splits)

lemma rpc_ids_steps: "(\<And>h m. (manager_step E)\<^sup>*\<^sup>* m (snd (act h m))) \<Longrightarrow> (manager_step E)\<^sup>*\<^sup>* m (snd (rpc_ids act args tag m))"
  using for_ids_steps [of E act] by (simp add: rpc_ids_def split: option.split json.split)
lemma rpc_dispatch_steps:
  assumes "E (re_env env)" "rpc_dispatch env dir method_it args tag m = Some (r, m')"
  shows "(manager_step E)\<^sup>*\<^sup>* m m'"
proof -
  have ids: "(manager_step E)\<^sup>*\<^sup>* m (snd (torrent_remove env args tag m))" "(manager_step E)\<^sup>*\<^sup>* m (snd (torrent_start args tag m))"
    "(manager_step E)\<^sup>*\<^sup>* m (snd (torrent_stop args tag m))"
    using remove_steps [where E = E, OF assms(1)] set_paused_steps
    by (simp_all add: torrent_remove_def torrent_start_def torrent_stop_def rpc_ids_steps pause_torrent_def resume_torrent_def)
  from assms(2) consider "m' = m" | response where "torrent_add env args tag m = Some (response, m')"
    | "m' = snd (torrent_remove env args tag m)" | "m' = snd (torrent_start args tag m)" | "m' = snd (torrent_stop args tag m)"
    by (auto simp: rpc_dispatch_def prod_eq_iff split: option.splits json.splits if_splits)
  then show ?thesis using ids torrent_add_steps [where E = E, OF assms(1)] by cases auto
qed

lemma post_rpc_steps:
  assumes "E (re_env (ae_rpc env))" "post_rpc env dir req m = Some (r, m')"
  shows "(manager_step E)\<^sup>*\<^sup>* m m'"
proof -
  from assms(2) obtain p where p: "parse_or_throw (hq_body req) = Some p"
    by (cases "parse_or_throw (hq_body req)") (simp_all add: post_rpc_def rpc_handle_request_def)
  show ?thesis
  proof (cases p)
    case (Inl e)
    then show ?thesis using assms(2) p by (simp add: post_rpc_def rpc_handle_request_def)
  next
    case (Inr j)
    then obtain x where "rpc_dispatch (ae_rpc env) dir (json_find ''method'' j) (find_or (JObject []) ''arguments'' j)
        (find_or (JNumber ''0'') ''tag'' j) m = Some (x, m')"
      using assms(2) p by (auto simp: post_rpc_def rpc_handle_request_def)
    then show ?thesis using rpc_dispatch_steps [where E = E, OF assms(1)] by blast
  qed
qed

lemma post_torrents_steps:
  assumes "E (re_env (ae_rpc env))" "post_torrents env req m = Some (r, m')"
  shows "(manager_step E)\<^sup>*\<^sup>* m m'"
proof -
  have "(manager_step E)\<^sup>*\<^sup>* m m'" if "post_add env j m = Some (x, m')" for j x
  proof -
    from that consider data prio where "add_torrent_data (re_env (ae_rpc env)) data prio m = Some (x, m')"
      | path prio where "add_torrent (re_env (ae_rpc env)) path prio m = Some (x, m')"
      | u where "add_magnet_link (ae_dht_running env) u m = (x, m')" | "m' = m"
      by (auto simp: post_add_def split: option.splits json.splits)
    then show ?thesis
      using add_data_steps [where E = E, OF assms(1)] add_path_steps [where E = E, OF assms(1)] manager_step.magnet [of _ _ m x m'] by cases blast+
  qed
  then show ?thesis using assms(2) by (auto simp: post_torrents_def split: option.splits sum.splits json.splits)
qed

lemma delete_steps:
  assumes "E (re_env (ae_rpc env))" "delete_torrent env req m = Some (r, m')"
  shows "(manager_step E)\<^sup>*\<^sup>* m m'"
  using assms(2) remove_steps [where E = E, OF assms(1), of m "drop (length api_prefix) (hq_path req)"]
  by (auto simp: delete_torrent_def split: if_splits prod.splits)

lemma api_route_steps:
  assumes "E (re_env (ae_rpc env))" "map_of (api_routes env dir) k = Some handler" "handler req m = Some (r, m')"
  shows "(manager_step E)\<^sup>*\<^sup>* m m'"
proof -
  from assms(2) consider "handler = get_stats env" | "handler = delete_torrent env" | "handler = post_torrents env"
    | "handler = get_torrents env" | "handler = post_rpc env dir" | "handler = get_index"
    unfolding api_routes_def add_route_def AList.update_conv' by (auto split: if_splits)
  then show ?thesis
    using assms(3) delete_steps [where E = E, OF assms(1)] post_torrents_steps [where E = E, OF assms(1)] post_rpc_steps [where E = E, OF assms(1)]
    by cases (auto simp: get_stats_def get_torrents_def get_index_def)
qed

text \<open>No path of a torrent is the path of the route for deletion.\<close>

lemma delete_unreachable:
  assumes "h \<noteq> ''{id}''"
  shows "map_of (api_routes env dir) (''DELETE '' @ api_prefix @ h) = None"
  using assms unfolding api_routes_def add_route_def AList.update_conv' by (simp add: api_prefix_def)

section \<open>The update\<close>

lemma statuses_ok:
  assumes "prints_numbers env" "priorities_ok m"
  shows "\<exists>ss. statuses (re_percentage env) m hs = Some ss \<and> list_all json_ok ss"
proof (induction hs)
  case (Cons h hs)
  then obtain ss where ss: "statuses (re_percentage env) m hs = Some ss" "list_all json_ok ss" by blast
  from status_defined [OF assms(2)] obtain s where s: "get_torrent_status (re_percentage env) h m = Some s" by blast
  show ?case
  proof (cases s)
    case (Some v)
    then have "json_ok v" using status_ok(1) [OF assms(1)] s by blast
    then show ?thesis using ss s Some by simp
  qed (use ss s in simp)
qed simp

lemma global_stats_ok: "json_ok (get_global_stats dht m)"
  by (simp add: get_global_stats_def Let_def size_number_ok split: option.split prod.split)

lemma update_speeds_priorities: "priorities_ok m \<Longrightarrow> priorities_ok (update_speeds now m)"
  by (auto simp: priorities_ok_def update_speeds_def map_of_map_prod update_torrent_speed_def Let_def)

lemma status_update_ok:
  assumes "prints_numbers (ae_rpc env)" "priorities_ok m"
  shows "\<exists>update. status_update env m = Some update \<and> json_ok update"
proof -
  from statuses_ok [OF assms] obtain ss where
    "statuses (re_percentage (ae_rpc env)) m (list_torrents m) = Some ss" "list_all json_ok ss" by blast
  then show ?thesis by (simp add: status_update_def all_statuses_def global_stats_ok)
qed

section \<open>Properties\<close>



text \<open>C11: The main loop sends its update exactly when it is the first or differs from the last one sent:
  then every connected client gets a text frame that it reads back to the very values of the
  update, the connections that are closed or whose \<open>send\<close> took less are dropped and the update is
  remembered; otherwise nothing is sent and only the speeds change.\<close>

theorem status_broadcast:
  assumes "prints_numbers (ae_rpc env)" "priorities_ok (se_manager s)"
    and "\<And>update. status_update env (update_speeds (steady_clock (re_env (ae_rpc env))) (se_manager s)) = Some update \<Longrightarrow>
      length (stringify compact_options update) < 2 ^ 64"
  shows "\<exists>s' outs update. main_round env result s = Some (s', outs) \<and>
    se_manager s' = update_speeds (steady_clock (re_env (ae_rpc env))) (se_manager s) \<and>
    status_update env (se_manager s') = Some update \<and>
    (if se_first s \<or> update \<noteq> se_last s then
       se_last s' = update \<and> \<not> se_first s' \<and>
       (\<exists>f. wf_opcode f = TEXT \<and> json_parse (string_of_bytes (wf_payload f)) = Some (Inr update) \<and>
          receive_parts (\<lambda>_. True) (pieces (frame_bytes f)) = Some (Some f, []) \<and>
          outs = map (\<lambda>(i, c). (i, if wc_connected c then frame_bytes f else [])) (ws_connections (se_ws s)) \<and>
          ws_connections (se_ws s') =
            filter (\<lambda>(i, c). wc_connected c \<and> result i (frame_bytes f) = int (length (frame_bytes f))) (ws_connections (se_ws s)))
     else outs = [] \<and> s' = s\<lparr>se_manager := se_manager s'\<rparr>)"
proof -
  let ?m = "update_speeds (steady_clock (re_env (ae_rpc env))) (se_manager s)"
  from status_update_ok [OF assms(1) update_speeds_priorities [OF assms(2)]] obtain update where
    u: "status_update env ?m = Some update" "json_ok update" by blast
  let ?t = "stringify compact_options update"
  let ?f = "\<lparr>wf_fin = True, wf_opcode = TEXT, wf_payload = bytes_of_string ?t\<rparr>"
  have "frame_ok None ?f" using assms(3) [OF u(1)] by (simp add: frame_ok_def)
  from receive_client_frame [OF this, of "\<lambda>_. True" "[]"] have r: "receive_parts (\<lambda>_. True) (pieces (frame_bytes ?f)) = Some (Some ?f, [])"
    by (simp add: client_frame_def pieces_def)
  have p: "json_parse (string_of_bytes (wf_payload ?f)) = Some (Inr update)"
    using stringify_parses [OF u(2), of compact_options] by (simp del: map_map)
  show ?thesis
  proof (cases "se_first s \<or> update \<noteq> se_last s")
    case True
    let ?s' = "\<lparr>se_manager = ?m, se_ws = fst (broadcast_text result ?t (se_ws s)), se_last = update, se_first = False\<rparr>"
    have "main_round env result s = Some (?s', snd (broadcast_text result ?t (se_ws s)))"
      using True u(1) by (simp add: main_round_def Let_def json_equals_eq split: prod.split)
    moreover have "snd (broadcast_text result ?t (se_ws s)) =
        map (\<lambda>(i, c). (i, if wc_connected c then frame_bytes ?f else [])) (ws_connections (se_ws s))"
      "ws_connections (fst (broadcast_text result ?t (se_ws s))) =
        filter (\<lambda>(i, c). wc_connected c \<and> result i (frame_bytes ?f) = int (length (frame_bytes ?f))) (ws_connections (se_ws s))"
      using send_all_ok [of result ?f "ws_connections (se_ws s)"] by (simp_all add: broadcast_text_def case_prod_beta)
    ultimately show ?thesis using True u(1) r p
      by (intro exI [of _ ?s'] exI [of _ "snd (broadcast_text result ?t (se_ws s))"] exI [of _ update] conjI)
        (simp_all del: map_map, intro exI [of _ ?f], simp del: map_map)
  next
    case False
    then have "main_round env result s = Some (s\<lparr>se_manager := ?m\<rparr>, [])"
      using u(1) by (simp add: main_round_def Let_def json_equals_eq)
    then show ?thesis using False u(1) by simp
  qed
qed

definition sample_api :: api_env where
  "sample_api = \<lparr>ae_rpc = sample_env, ae_dht = None, ae_dht_running = False\<rparr>"

theorem status_broadcast_witness:
  "\<exists>s' outs. main_round sample_api (\<lambda>i bs. int (length bs)) (session_new (new_session ''d'' [] Map.empty)) = Some (s', outs) \<and>
     se_first s' = False"
proof -
  have z: "size_number 0 = JNumber ''0''" by (simp add: size_number_def double_of_size_exact format_number_def)
  have m: "update_speeds now (new_session ''d'' [] Map.empty) = new_session ''d'' [] Map.empty" for now
    by (simp add: update_speeds_def new_session_def)
  have u: "status_update sample_api (new_session ''d'' [] Map.empty) =
      Some (JObject [(''stats'', JObject [(''total_torrents'', JNumber ''0''), (''total_downloaded'', JNumber ''0''),
        (''total_uploaded'', JNumber ''0''), (''active_peers'', JNumber ''0''), (''download_speed'', JNumber ''0''),
        (''upload_speed'', JNumber ''0'')]), (''torrents'', JArray [])])"
    by (simp add: status_update_def get_global_stats_def sample_api_def all_statuses_def list_torrents_def new_session_def u64_sum_def z)
  have "length (stringify compact_options (JObject [(''stats'', JObject [(''total_torrents'', JNumber ''0''), (''total_downloaded'', JNumber ''0''),
        (''total_uploaded'', JNumber ''0''), (''active_peers'', JNumber ''0''), (''download_speed'', JNumber ''0''),
        (''upload_speed'', JNumber ''0'')]), (''torrents'', JArray [])])) < 2 ^ 64"
    by (simp add: stringify_def compact_options_def quoted_def escape_string_def escape_char_def newline_def pad_def)
  moreover have "prints_numbers (ae_rpc sample_api)" "priorities_ok (new_session ''d'' [] Map.empty)"
    using sample_prints by (simp_all add: sample_api_def priorities_ok_def new_session_def)
  ultimately show ?thesis
    using status_broadcast [of sample_api "session_new (new_session ''d'' [] Map.empty)" "\<lambda>i bs. int (length bs)"] u
    by (auto simp: session_new_def m)
qed

text \<open>A posted torrent: its file in base64 and the priorities of its files.\<close>

definition posted_torrent :: "stringify_options \<Rightarrow> string \<Rightarrow> nat list \<Rightarrow> string" where
  "posted_torrent opt data prios = stringify opt
     (JObject [(''metainfo'', JString (base64_encode data)), (''file_priorities'', JArray (map (\<lambda>p. JNumber (show_nat p)) prios))])"

lemma posted_priorities_read:
  "list_all (\<lambda>p. p < 2 ^ 63) prios \<Longrightarrow> posted_priorities (JObject [(''metainfo'', v), (''file_priorities'', JArray (map (\<lambda>p. JNumber (show_nat p)) prios))]) = prios"
  by (simp add: posted_priorities_def json_find_def)
    (induction prios; simp add: to_int64_show_nat u64_of_int_id)

lemma post_torrents_reads:
  assumes "list_all (\<lambda>p. p < 2 ^ 63) prios"
  shows "post_torrents env (req\<lparr>hq_body := posted_torrent opt data prios\<rparr>) m =
    map_option (map_prod (\<lambda>r. Inr (api_added r)) id) (add_torrent_data (re_env (ae_rpc env)) data prios m)"
proof -
  let ?v = "JObject [(''metainfo'', JString (base64_encode data)), (''file_priorities'', JArray (map (\<lambda>p. JNumber (show_nat p)) prios))]"
  have "json_ok ?v" by (simp add: list_all_iff scan_show_nat)
  from stringify_parses [OF this, of opt] have "parse_or_throw (posted_torrent opt data prios) = Some (Inr ?v)"
    by (simp add: parse_or_throw_def posted_torrent_def)
  moreover have "post_decode_base64 (base64_encode data) = data"
    using base64_decode_encode [of data] by (simp add: post_decode_base64_def base64_decode_def)
  ultimately show ?thesis
    using posted_priorities_read [OF assms, of "JString (base64_encode data)"] by (simp add: post_torrents_def post_add_def json_find_def)
qed

lemma api_added_ok: "reply_ok (api_added r)" "hp_headers (api_added r) = hp_headers (api_json JNull)"
  "status_line (api_added (Inr h)) = ''HTTP/1.1 200 OK''" "status_line (api_added (Inl e)) = ''HTTP/1.1 400 OK''"
  "json_parse (hp_body (api_added r)) = Some (Inr (case r of
      Inr h \<Rightarrow> JObject [(''success'', JBool True), (''torrent_id'', JString h)]
    | Inl e \<Rightarrow> JObject [(''success'', JBool False), (''error'', JBool True)]))"
proof -
  have "show_int 400 = ''400''" by code_simp
  then show "status_line (api_added (Inr h)) = ''HTTP/1.1 200 OK''" "status_line (api_added (Inl e)) = ''HTTP/1.1 400 OK''"
    by (simp_all add: status_line_def api_added_def api_json_def new_response_def shown)
  show "reply_ok (api_added r)"
    by (simp add: reply_ok_def api_added_def api_json_def new_response_def field_ok_def one_line_def trimmed_def c_isspace_def split: sum.split)
qed (simp_all add: api_added_def api_json_def json_of_cstr_def stringify_parses split: sum.split)

text \<open>C9: Adding a torrent over the network: however the socket cuts the posted request, the manager gets
  exactly the bytes of the torrent file and the priorities; when it accepts them the client reads
  back a status 200 with the id of the torrent, when it refuses them a status 400 (whose error
  field is \<open>true\<close>, not the message).\<close>

theorem web_add_torrent:
  assumes "live cs" "concat cs = request_text ''POST'' ''/api/torrents'' ps hs (posted_torrent opt data prios) @ rest"
    and "request_ok ''POST'' ''/api/torrents'' ps hs (posted_torrent opt data prios)"
    and "\<And>n. n \<le> length (posted_torrent opt data prios) \<Longrightarrow> alloc n" "list_all (\<lambda>p. p < 2 ^ 63) prios"
  shows "case add_torrent_data (re_env (ae_rpc env)) data prios m of
      None \<Rightarrow> handle_client alloc (api_routes env dir) cs m = None
    | Some (r, m') \<Rightarrow> \<exists>answer status fields body. handle_client alloc (api_routes env dir) cs m = Some (answer, m') \<and>
        read_reply answer = Some (status, fields, body) \<and>
        (case r of
           Inr h \<Rightarrow> status = ''HTTP/1.1 200 OK'' \<and>
             json_parse body = Some (Inr (JObject [(''success'', JBool True), (''torrent_id'', JString h)]))
         | Inl e \<Rightarrow> status = ''HTTP/1.1 400 OK'' \<and>
             json_parse body = Some (Inr (JObject [(''success'', JBool False), (''error'', JBool True)])))"
proof -
  let ?req = "\<lparr>hq_method = ''POST'', hq_path = ''/api/torrents'', hq_body = [], hq_headers = hs, hq_query = ps\<rparr>
    \<lparr>hq_body := posted_torrent opt data prios\<rparr>"
  have p: "parse_request alloc cs = Inr ?req" using parse_request_text [OF assms(1-4)] by simp
  have "map_of (api_routes env dir) ''POST /api/torrents'' = Some (post_torrents env)"
    by (simp add: api_routes_def add_route_def AList.update_conv')
  then have h: "handle_client alloc (api_routes env dir) cs m =
      map_option (map_prod (\<lambda>r. send_response (api_added r)) id) (add_torrent_data (re_env (ae_rpc env)) data prios m)"
    using post_torrents_reads [OF assms(5), of env opt data ?req m]
    by (cases "add_torrent_data (re_env (ae_rpc env)) data prios m") (auto simp: handle_client_def p map_prod_def split: prod.split)
  show ?thesis
  proof (cases "add_torrent_data (re_env (ae_rpc env)) data prios m")
    case (Some x)
    obtain r m' where x: "x = (r, m')" by force
    then show ?thesis
      using h Some read_reply_response [OF api_added_ok(1), of r] api_added_ok(3,4,5) by (cases r) simp_all
  qed (use h in simp)
qed

lemma length_escape: "length (escape_string sol s) \<le> 6 * length s"
proof (induction s)
  case (Cons c s)
  have "length (escape_char sol c) \<le> 6" by (simp add: escape_char_def)
  then show ?case using Cons by (simp add: escape_string_def)
qed (simp add: escape_string_def)

theorem web_add_torrent_witness:
  "\<exists>cs answer m fields body h. handle_client (\<lambda>_. True) (api_routes sample_api ''d'') cs (new_session ''d'' [] Map.empty) = Some (answer, m) \<and>
     read_reply answer = Some (''HTTP/1.1 200 OK'', fields, body) \<and>
     json_parse body = Some (Inr (JObject [(''success'', JBool True), (''torrent_id'', JString h)]))"
proof -
  let ?b = "posted_torrent compact_options session_data []"
  let ?hs = "[(''Content-Length'', show_nat (length ?b))]"
  let ?cs = "[request_text ''POST'' ''/api/torrents'' [] ?hs ?b]"
  have "length session_data < 110" by (simp add: session_data_def session_info_def encode_string_def show_int_def show_nat.simps)
  then have "length (escape_string False (base64_encode session_data)) < 1000"
    using length_escape [of False "base64_encode session_data"] by (simp add: base64_encode_def length_encode_bytes)
  then have "length ?b < 2 ^ 64"
    by (simp add: posted_torrent_def stringify_def compact_options_def quoted_def newline_def pad_def)
       (simp add: escape_string_def escape_char_def)
  then have ok: "request_ok ''POST'' ''/api/torrents'' [] ?hs ?b"
    using digits_one_line [OF show_nat_digits] by (simp add: request_ok_def token_def c_isspace_def field_ok_def one_line_def trimmed_def)
  have live: "live ?cs" by (simp add: request_text_def crlf_def)
  from session_add obtain m where "add_torrent_data (re_env (ae_rpc sample_api)) session_data [] (new_session ''d'' [] Map.empty) =
      Some (Inr (info_hash_to_hex (info_hash session_meta)), m)" by (auto simp: sample_api_def sample_env_def)
  with web_add_torrent [OF live _ ok, of "[]" "\<lambda>_. True" sample_api "''d''" "new_session ''d'' [] Map.empty"]
  show ?thesis by auto blast
qed

end
