(* ===== verification/Session_Restart.thy ===== *)
theory Session_Restart
  imports Manager_Workers
begin

text \<open>
  The life of a client across restarts: sessions started on the state directory that the one before
  left.  A record of the directory is described by the state it was printed from; the invariant
  \<open>recorded\<close> relates the records to the torrents of the session.
\<close>

section \<open>Records\<close>

definition good_env :: "environment \<Rightarrow> bool" where
  "good_env env \<longleftrightarrow> can_save env \<and> 0 \<le> wall_clock env \<and> wall_clock env < 253402300800 * 1000000000"

definition saved_as :: "state_dir \<Rightarrow> string \<Rightarrow> torrent_state \<Rightarrow> bool" where
  "saved_as dir h s \<longleftrightarrow>
     map_of dir (get_state_file_path h) = Some (stringify pretty_print (state_json h s)) \<and>
     0 \<le> ts_last_updated s \<and> ts_last_updated s < 253402300800 * 1000000000"

definition full_record :: "state_dir \<Rightarrow> string \<Rightarrow> torrent_metadata \<Rightarrow> bool" where
  "full_record dir h meta \<longleftrightarrow>
     (\<exists>s. saved_as dir h s \<and> ts_torrent_data s \<noteq> [] \<and> parse_torrent (ts_torrent_data s) = Some (Inr meta))"

definition blank_record :: "state_dir \<Rightarrow> string \<Rightarrow> bool" where
  "blank_record dir h \<longleftrightarrow>
     map_of dir (get_state_file_path h) = None \<or> (\<exists>s. saved_as dir h s \<and> ts_torrent_data s = [])"

definition record_of :: "state_dir \<Rightarrow> string \<Rightarrow> torrent_metadata option \<Rightarrow> bool" where
  "record_of dir h x \<longleftrightarrow> (case x of None \<Rightarrow> blank_record dir h | Some meta \<Rightarrow> full_record dir h meta)"

definition metas :: "manager \<Rightarrow> string \<Rightarrow> torrent_metadata option" where
  "metas m h = map_option t_meta (map_of (mg_torrents m) h)"

definition recorded :: "manager \<Rightarrow> bool" where
  "recorded m \<longleftrightarrow> (\<forall>h. record_of (mg_state m) h (metas m h))"

lemma path_inj [simp]: "get_state_file_path h = get_state_file_path h' \<longleftrightarrow> h = h'"
  by (simp add: get_state_file_path_def)

lemma load_saved: "saved_as dir h s \<Longrightarrow> State_Manager.load_state junk now h dir = Some (Some (kept_state h s))"
  by (auto simp: saved_as_def load_saved_state)

lemma saved_as_save [simp]:
  "saved_as (snd (save_state True h s dir)) h s \<longleftrightarrow> 0 \<le> ts_last_updated s \<and> ts_last_updated s < 253402300800 * 1000000000"
  by (simp add: saved_as_def save_state_def um.look_put)

lemma file_save_other [simp]:
  "h' \<noteq> h \<Longrightarrow> map_of (snd (save_state ok h s dir)) (get_state_file_path h') = map_of dir (get_state_file_path h')"
  by (simp add: save_state_def um.look_put)

lemma record_of_cong:
  "map_of dir' (get_state_file_path h) = map_of dir (get_state_file_path h) \<Longrightarrow> record_of dir' h x = record_of dir h x"
  by (simp add: record_of_def blank_record_def full_record_def saved_as_def split: option.split)

lemma record_of_save_other [simp]: "h' \<noteq> h \<Longrightarrow> record_of (snd (save_state ok h s dir)) h' x = record_of dir h' x"
  by (rule record_of_cong) simp

lemma kept_state_data [simp]:
  "ts_torrent_data (kept_state h s) = ts_torrent_data s" "ts_bitfield (kept_state h s) = ts_bitfield s"
  "ts_uploaded_bytes (kept_state h s) = kept_size (ts_uploaded_bytes s)"
  "ts_downloaded_bytes (kept_state h s) = kept_size (ts_downloaded_bytes s)"
  "ts_file_priorities (kept_state h s) = map kept_size (ts_file_priorities s)"
  by (simp_all add: kept_state_def)

lemma kept_time:
  "0 \<le> ts_last_updated s \<Longrightarrow> ts_last_updated s < 253402300800 * 1000000000 \<Longrightarrow>
     0 \<le> ts_last_updated (kept_state h s) \<and> ts_last_updated (kept_state h s) < 253402300800 * 1000000000"
  using minus_mod_eq_div_mult [of "ts_last_updated s" "1000000000"] pos_mod_sign [of "1000000000" "ts_last_updated s"]
  by (simp add: kept_state_def pos_imp_zdiv_nonneg_iff)

lemma metas_put [simp]: "metas (put_torrent h t m) = (metas m)(h \<mapsto> t_meta t)"
  by (auto simp: metas_def)

lemma metas_fields [simp]:
  "metas (m\<lparr>mg_queue := q\<rparr>) = metas m" "metas (m\<lparr>mg_active := q\<rparr>) = metas m" "metas (m\<lparr>mg_fs := f\<rparr>) = metas m"
  "metas (m\<lparr>mg_ids := i\<rparr>) = metas m" "metas (m\<lparr>mg_state := d\<rparr>) = metas m" "metas (m\<lparr>mg_searches := x\<rparr>) = metas m"
  by (simp_all add: metas_def fun_eq_iff)

section \<open>Steps that touch neither the records nor the metadata\<close>

definition same_records :: "manager \<Rightarrow> manager \<Rightarrow> bool" where
  "same_records m m' \<longleftrightarrow> mg_state m' = mg_state m \<and> metas m' = metas m"

lemma same_records_refl [simp]: "same_records m m"
  by (simp add: same_records_def)

lemma same_records_trans: "same_records a b \<Longrightarrow> same_records b c \<Longrightarrow> same_records a c"
  by (simp add: same_records_def)

lemma same_records_put:
  "map_of (mg_torrents m) h = Some t \<Longrightarrow> t_meta t' = t_meta t \<Longrightarrow> same_records m (put_torrent h t' m)"
  by (auto simp: same_records_def metas_def)

lemma same_records_fields [simp]:
  "same_records m (m'\<lparr>mg_queue := q\<rparr>) = same_records m m'" "same_records m (m'\<lparr>mg_active := q\<rparr>) = same_records m m'"
  "same_records m (m'\<lparr>mg_fs := f\<rparr>) = same_records m m'" "same_records m (m'\<lparr>mg_searches := x\<rparr>) = same_records m m'"
  by (simp_all add: same_records_def)

lemma recorded_same: "same_records m m' \<Longrightarrow> recorded m' = recorded m"
  by (simp add: same_records_def recorded_def)

lemma same_peer_round: "peer_round now ss h m = Some m' \<Longrightarrow> same_records m m'"
proof -
  assume r: "peer_round now ss h m = Some m'"
  show ?thesis
  proof (cases "map_of (mg_torrents m) h")
    case (Some t)
    obtain t1 q where e: "enqueue_peers now ss h (t_discovered t) (t, mg_queue m) = (t1, q)" by force
    from r Some e consider "m' = m" | t2 where "download_step (drop_disconnected t1) = Some t2"
      "m' = (put_torrent h t2 m)\<lparr>mg_queue := q\<rparr>"
      by (auto simp: peer_round_def split: if_splits)
    then show ?thesis
    proof cases
      case 2
      then show ?thesis using download_step_fields [OF 2(1)] enqueue_peers_fields [OF e] Some
        by (simp add: drop_disconnected_def same_records_put)
    qed simp
  qed (use r in \<open>simp add: peer_round_def\<close>)
qed

lemma same_forget: "same_records m (forget_pending r m)"
  by (auto simp: forget_pending_def intro: same_records_put split: option.split)

lemma same_attach: "same_records m (attach_finished r m)"
  by (auto simp: attach_finished_def intro: same_records_put split: option.split)

lemma same_prepare_all: "same_records m (prepare_all now res rs m)"
proof (induction now res rs m rule: prepare_all.induct)
  case (2 now res r rs m)
  then show ?case using same_forget [of m r] by (auto intro: same_records_trans split: option.split) (simp add: same_records_def)
qed simp

lemma same_advance_all: "same_records m (advance_all io rs m)"
proof (induction io rs m rule: advance_all.induct)
  case (2 io r rs m)
  show ?case
  proof (cases "advance_request (io r) r")
    case (Waiting r')
    then show ?thesis using 2(1) [OF Waiting] by (simp add: same_records_def)
  next
    case (Failed r')
    then show ?thesis using 2(2) [OF Failed] same_forget [of m r'] by (auto intro: same_records_trans)
  next
    case (Finished r')
    then show ?thesis using 2(3) [OF Finished] same_attach [of m r'] by (auto intro: same_records_trans)
  qed
qed simp

lemma same_connection_round: "same_records m (connection_round now res sel m)"
proof -
  let ?m1 = "drain_queue m" and ?m2 = "prepare_all now res (mg_active (drain_queue m)) ((drain_queue m)\<lparr>mg_active := []\<rparr>)"
  have "same_records m (?m1\<lparr>mg_active := []\<rparr>)" by (simp add: drain_queue_def)
  then have m2: "same_records m ?m2" using same_prepare_all by (rule same_records_trans)
  then have "same_records m (advance_all io (mg_active ?m2) (?m2\<lparr>mg_active := []\<rparr>))" for io
    by (intro same_records_trans [OF _ same_advance_all]) simp
  with m2 show ?thesis by (simp add: connection_round_def Let_def split: option.split)
qed

lemma same_piece_callback: "same_records m (piece_callback h i b d m)"
  by (auto simp: piece_callback_def Let_def announce_piece_def intro: same_records_put
      split: option.split prod.split)

lemma same_callbacks: "same_records m (fold (\<lambda>(i, b, d). piece_callback h i b d) calls m)"
proof (induction calls arbitrary: m)
  case (Cons c calls)
  obtain i b d where "c = (i, b, d)" using prod_cases3 by blast
  then show ?case using same_records_trans [OF same_piece_callback Cons.IH] by simp
qed simp

lemma same_deliver: "deliver_message h k msg m = Some m' \<Longrightarrow> same_records m m'"
  by (auto simp: deliver_message_def split: option.splits if_splits
      intro!: same_records_trans [OF same_records_put same_callbacks])

lemma same_tracker_round: "tracker_round fetch first h m = Some m' \<Longrightarrow> same_records m m'"
proof -
  have "ask_tracker fetch first t u = Some s \<Longrightarrow> t_meta s = t_meta t" for t u s
    using ask_tracker_cases [of fetch first t u s] by auto
  then have "ask_trackers fetch first us t = Some t' \<Longrightarrow> t_meta t' = t_meta t" for us t t'
    by (induction fetch first us t rule: ask_trackers.induct) (auto simp: bind_eq_Some_conv split: if_splits)
  then show "tracker_round fetch first h m = Some m' \<Longrightarrow> ?thesis"
    by (auto simp: tracker_round_def intro: same_records_put split: option.splits if_splits)
qed

lemma same_update_speeds: "same_records m (update_speeds now m)"
  by (auto simp: same_records_def metas_def update_speeds_def map_of_map_prod fun_eq_iff option.map_comp comp_def)

section \<open>Steps that write records\<close>

lemma parse_torrent_nonempty: "parse_torrent data = Some (Inr meta) \<Longrightarrow> data \<noteq> []"
proof -
  have "parse_data [] = Some (Inl ''Unexpected end of data'')"
    by (rule parse_data_Some [of "Suc 0"]) (simp add: parse_value.simps)
  then show "parse_torrent data = Some (Inr meta) \<Longrightarrow> ?thesis" by (auto simp: parse_torrent_def parse_def)
qed

lemma load_blank:
  "blank_record dir h \<Longrightarrow> State_Manager.load_state junk now h dir = Some saved \<Longrightarrow>
     saved = None \<or> (\<exists>s. saved_as dir h s \<and> ts_torrent_data s = [] \<and> saved = Some (kept_state h s))"
  unfolding blank_record_def
proof (elim disjE exE conjE)
  assume "map_of dir (get_state_file_path h) = None" "State_Manager.load_state junk now h dir = Some saved"
  then show ?thesis by (simp add: State_Manager.load_state_def)
qed (auto simp: load_saved)

lemma save_added_full:
  assumes "good_env env" "blank_record dir h" "State_Manager.load_state junk now h dir = Some saved"
    "parse_torrent raw = Some (Inr meta)"
  shows "full_record (save_added env h raw saved t dir) h meta"
    and "h' \<noteq> h \<Longrightarrow> record_of (save_added env h raw saved t dir) h' x = record_of dir h' x"
proof -
  note raw = parse_torrent_nonempty [OF assms(4)]
  have full: "full_record (snd (save_state True h s dir)) h meta"
    if "ts_torrent_data s = raw" "0 \<le> ts_last_updated s" "ts_last_updated s < 253402300800 * 1000000000" for s
    using that raw assms(4) unfolding full_record_def by (intro exI [of _ s]) simp
  from load_blank [OF assms(2,3)] show "full_record (save_added env h raw saved t dir) h meta"
  proof (elim disjE exE conjE)
    fix s assume "saved_as dir h s" "ts_torrent_data s = []" "saved = Some (kept_state h s)"
    then show ?thesis using kept_time [of s h] assms(1) raw full by (simp add: save_added_def good_env_def saved_as_def)
  qed (use assms(1) raw full in \<open>simp add: save_added_def good_env_def\<close>)
  show "h' \<noteq> h \<Longrightarrow> record_of (save_added env h raw saved t dir) h' x = record_of dir h' x"
    by (simp add: save_added_def split: option.split)
qed

lemma recorded_add:
  assumes m: "recorded m" and e: "good_env env" and p: "parse_torrent raw = Some (Inr meta)"
    and a: "add_torrent_impl env meta prio raw m = Some (r, m')"
  shows "recorded m'"
proof -
  let ?h = "info_hash_to_hex (info_hash meta)"
  from a consider "m' = m" | pm fs saved where "map_of (mg_torrents m) ?h = None"
    "State_Manager.load_state (junk_counters env) (wall_clock env) ?h (mg_state m) = Some saved"
    "m' = (put_torrent ?h (apply_saved saved (fresh_torrent env meta pm prio)) m)
       \<lparr>mg_ids := AList.update (string_of_bytes (info_hash meta)) ?h (mg_ids m), mg_fs := fs,
        mg_state := save_added env ?h raw saved (apply_saved saved (fresh_torrent env meta pm prio)) (mg_state m)\<rparr>"
    by (auto simp: add_torrent_impl_def Let_def split: if_splits sum.splits option.splits)
  then show ?thesis
  proof cases
    case 2
    have "record_of (mg_state m) ?h (metas m ?h)" using m by (simp add: recorded_def)
    then have b: "blank_record (mg_state m) ?h" using 2(1) by (simp add: metas_def record_of_def)
    note s = save_added_full [OF e b 2(2) p]
    show ?thesis
      unfolding recorded_def
    proof
      fix h show "record_of (mg_state m') h (metas m' h)"
        using s m by (cases "h = ?h") (simp_all add: 2(3) recorded_def record_of_def [of _ ?h])
    qed
  qed (use m in simp)
qed

lemma recorded_remove:
  assumes m: "recorded m" and e: "good_env env" and r: "remove_torrent env h m = (b, m')"
  shows "recorded m'"
proof (cases "map_of (mg_torrents m) h")
  case (Some t)
  let ?s = "torrent_state_of env h [] t"
  have m': "mg_state m' = snd (save_state (can_save env) h ?s (mg_state m))" "metas m' = (metas m)(h := None)"
    using r Some by (auto simp: remove_torrent_def metas_def AList.delete_conv')
  have "saved_as (mg_state m') h ?s" using e by (simp add: m' good_env_def torrent_state_of_def)
  then have b: "blank_record (mg_state m') h" by (auto simp: blank_record_def torrent_state_of_def)
  show ?thesis
    unfolding recorded_def
  proof
    fix k show "record_of (mg_state m') k (metas m' k)"
      using m b by (cases "k = h") (simp_all add: m'(2) record_of_def [of _ h], simp add: m' recorded_def)
  qed
qed (use m r in \<open>simp add: remove_torrent_def\<close>)

lemma recorded_step: "manager_step good_env m m' \<Longrightarrow> recorded m \<Longrightarrow> recorded m'"
proof (induction rule: manager_step.induct)
  case (add env data prio m r m')
  then show ?case by (auto simp: add_torrent_data_def split: option.splits sum.splits intro: recorded_add)
next
  case (magnet running uri m r m')
  then have "same_records m m'"
    by (auto simp: add_magnet_link_def Let_def split: if_splits option.splits sum.splits)
  then show ?case using magnet by (simp add: recorded_same)
next
  case (found m h ps)
  have "same_records m (dht_peers_found h ps m)"
    by (auto simp: dht_peers_found_def split: option.split intro: same_records_put)
  then show ?case using found by (simp add: recorded_same)
next
  case (pause p h m r m')
  then have "same_records m m'" by (auto simp: set_paused_def split: option.splits intro: same_records_put)
  then show ?case using pause by (simp add: recorded_same)
next
  case (accept buf p n ss m m')
  then have "same_records m m'"
    by (auto simp: accept_peer_def split: if_splits option.splits prod.splits intro: same_records_put)
  then show ?case using accept by (simp add: recorded_same)
next
  case (disk h m m')
  then have "same_records m m'"
    by (auto simp: disk_round_def split: option.splits) (erule same_records_put, simp)
  then show ?case using disk by (simp add: recorded_same)
qed (auto simp: recorded_same dest: same_peer_round same_deliver same_tracker_round recorded_remove
    intro: recorded_same [OF same_connection_round, THEN iffD2] recorded_same [OF same_update_speeds, THEN iffD2])

section \<open>Shutting down\<close>

lemma shutdown_torrent_saves:
  assumes "good_env env" "saved_as dir h s"
  shows "\<exists>dir'. shutdown_torrent env h t dir = Some dir' \<and> saved_as dir' h (torrent_state_of env h (ts_torrent_data s) t) \<and>
    (\<forall>h'. h' \<noteq> h \<longrightarrow> map_of dir' (get_state_file_path h') = map_of dir (get_state_file_path h'))"
  using assms by (simp add: shutdown_torrent_def load_saved good_env_def torrent_state_of_def)

lemma shutdown_torrents_saves:
  assumes "good_env env" "distinct (map fst ts)" "\<forall>(h, t) \<in> set ts. full_record dir h (t_meta t)"
  shows "\<exists>dir'. shutdown_torrents env ts dir = Some dir' \<and>
    (\<forall>(h, t) \<in> set ts. \<exists>data. data \<noteq> [] \<and> parse_torrent data = Some (Inr (t_meta t)) \<and>
       saved_as dir' h (torrent_state_of env h data t)) \<and>
    (\<forall>h. h \<notin> fst ` set ts \<longrightarrow> map_of dir' (get_state_file_path h) = map_of dir (get_state_file_path h))"
  using assms(2,3)
proof (induction ts arbitrary: dir)
  case (Cons p ts)
  obtain h t where p: "p = (h, t)" by force
  from Cons.prems p obtain s where s: "saved_as dir h s" "ts_torrent_data s \<noteq> []"
    "parse_torrent (ts_torrent_data s) = Some (Inr (t_meta t))" by (auto simp: full_record_def)
  obtain dir1 where d1: "shutdown_torrent env h t dir = Some dir1"
    "saved_as dir1 h (torrent_state_of env h (ts_torrent_data s) t)"
    "\<And>h'. h' \<noteq> h \<Longrightarrow> map_of dir1 (get_state_file_path h') = map_of dir (get_state_file_path h')"
    using shutdown_torrent_saves [OF assms(1) s(1)] by blast
  have h: "h \<notin> fst ` set ts" using Cons.prems(1) p by simp
  have same: "full_record dir1 h' meta = full_record dir h' meta" if "h' \<noteq> h" for h' meta
    using d1(3) [OF that] by (simp add: full_record_def saved_as_def)
  have "\<forall>(h', t') \<in> set ts. full_record dir1 h' (t_meta t')"
  proof clarify
    fix h' t' assume "(h', t') \<in> set ts"
    then show "full_record dir1 h' (t_meta t')" using Cons.prems(2) h same [of h'] by force
  qed
  with Cons.IH [of dir1] Cons.prems(1) obtain dir2 where d2: "shutdown_torrents env ts dir1 = Some dir2"
    "\<forall>(h, t) \<in> set ts. \<exists>data. data \<noteq> [] \<and> parse_torrent data = Some (Inr (t_meta t)) \<and>
       saved_as dir2 h (torrent_state_of env h data t)"
    "\<And>h. h \<notin> fst ` set ts \<Longrightarrow> map_of dir2 (get_state_file_path h) = map_of dir1 (get_state_file_path h)" by auto
  have "saved_as dir2 h (torrent_state_of env h (ts_torrent_data s) t)"
    using d1(2) d2(3) [OF h] by (simp add: saved_as_def)
  with s(2,3) have "\<exists>data. data \<noteq> [] \<and> parse_torrent data = Some (Inr (t_meta t)) \<and>
      saved_as dir2 h (torrent_state_of env h data t)" by blast
  then show ?case using d1(1,3) d2 p by auto
qed simp

definition saved_session :: "environment \<Rightarrow> manager \<Rightarrow> state_dir \<Rightarrow> bool" where
  "saved_session env m dir \<longleftrightarrow>
     (\<forall>h. case map_of (mg_torrents m) h of
        None \<Rightarrow> blank_record dir h
      | Some t \<Rightarrow> \<exists>data. data \<noteq> [] \<and> parse_torrent data = Some (Inr (t_meta t)) \<and>
          saved_as dir h (torrent_state_of env h data t))"

lemma saved_sessionD:
  assumes "saved_session env m dir"
  shows "map_of (mg_torrents m) h = None \<Longrightarrow> blank_record dir h"
    and "map_of (mg_torrents m) h = Some t \<Longrightarrow> \<exists>data. data \<noteq> [] \<and> parse_torrent data = Some (Inr (t_meta t)) \<and>
      saved_as dir h (torrent_state_of env h data t)"
  using assms [unfolded saved_session_def, THEN spec, of h] by simp_all

lemma shutdown_saves:
  assumes "good_env env" "recorded m" "manager_ok m"
  shows "\<exists>dir. shutdown env m = Some (dir, mg_fs m) \<and> saved_session env m dir"
proof -
  have d: "distinct (map fst (mg_torrents m))" using assms(3) by (simp add: manager_ok_def index_ok_def um_ok_def)
  have r: "record_of (mg_state m) h (map_option t_meta (map_of (mg_torrents m) h))" for h
    using assms(2) by (simp add: recorded_def metas_def)
  have full: "\<forall>(h, t) \<in> set (mg_torrents m). full_record (mg_state m) h (t_meta t)"
  proof clarify
    fix h t assume "(h, t) \<in> set (mg_torrents m)"
    with d have "map_of (mg_torrents m) h = Some t" by simp
    with r [of h] show "full_record (mg_state m) h (t_meta t)" by (simp add: record_of_def)
  qed
  obtain dir where dir: "shutdown_torrents env (mg_torrents m) (mg_state m) = Some dir"
    "\<forall>(h, t) \<in> set (mg_torrents m). \<exists>data. data \<noteq> [] \<and> parse_torrent data = Some (Inr (t_meta t)) \<and>
       saved_as dir h (torrent_state_of env h data t)"
    "\<And>h. h \<notin> fst ` set (mg_torrents m) \<Longrightarrow>
       map_of dir (get_state_file_path h) = map_of (mg_state m) (get_state_file_path h)"
    using shutdown_torrents_saves [OF assms(1) d full] by blast
  have "saved_session env m dir"
    unfolding saved_session_def
  proof
    fix h
    show "case map_of (mg_torrents m) h of None \<Rightarrow> blank_record dir h
      | Some t \<Rightarrow> \<exists>data. data \<noteq> [] \<and> parse_torrent data = Some (Inr (t_meta t)) \<and> saved_as dir h (torrent_state_of env h data t)"
    proof (cases "map_of (mg_torrents m) h")
      case None
      then have "h \<notin> fst ` set (mg_torrents m)" by (rule map_of_eq_None_iff [THEN iffD1])
      from dir(3) [OF this] r [of h] None show ?thesis by (simp add: record_of_def blank_record_def saved_as_def)
    next
      case (Some t)
      then show ?thesis using dir(2) map_of_SomeD [OF Some] by auto
    qed
  qed
  with dir(1) show ?thesis by (simp add: shutdown_def)
qed

section \<open>Starting again\<close>

text \<open>What of a torrent a restart keeps.\<close>

definition restored :: "torrent \<Rightarrow> torrent \<Rightarrow> bool" where
  "restored t t' \<longleftrightarrow> t_meta t' = t_meta t \<and> have_pieces (t_pm t') = have_pieces (t_pm t) \<and>
     t_uploaded t' = kept_size (t_uploaded t) \<and> t_downloaded t' = kept_size (t_downloaded t) \<and>
     t_priorities t' = (if t_priorities t = [] then init_priorities (t_meta t) [] else map kept_size (t_priorities t))"

definition restored_part :: "manager \<Rightarrow> manager \<Rightarrow> string set \<Rightarrow> bool" where
  "restored_part m m' H \<longleftrightarrow>
     (\<forall>h. case map_of (mg_torrents m') h of
        None \<Rightarrow> h \<notin> H \<or> map_of (mg_torrents m) h = None
      | Some t' \<Rightarrow> \<exists>t. map_of (mg_torrents m) h = Some t \<and> restored t t')"

lemma restored_part_insert:
  assumes "restored_part m m1 H" "map_of (mg_torrents m) h = None \<or> map_of (mg_torrents m1) h \<noteq> None"
  shows "restored_part m m1 (insert h H)"
  unfolding restored_part_def
proof
  fix k show "case map_of (mg_torrents m1) k of None \<Rightarrow> k \<notin> insert h H \<or> map_of (mg_torrents m) k = None
    | Some t' \<Rightarrow> \<exists>t. map_of (mg_torrents m) k = Some t \<and> restored t t'"
    using assms(1) [unfolded restored_part_def, THEN spec, of k] assms(2) by (cases "map_of (mg_torrents m1) k") auto
qed

lemma restored_part_put:
  assumes "restored_part m m1 H" "map_of (mg_torrents m) h = Some t" "restored t t'"
    "map_of (mg_torrents m2) = (map_of (mg_torrents m1))(h \<mapsto> t')"
  shows "restored_part m m2 (insert h H)"
  unfolding restored_part_def
proof
  fix k show "case map_of (mg_torrents m2) k of None \<Rightarrow> k \<notin> insert h H \<or> map_of (mg_torrents m) k = None
    | Some t' \<Rightarrow> \<exists>t. map_of (mg_torrents m) k = Some t \<and> restored t t'"
    using assms(1) [unfolded restored_part_def, THEN spec, of k] assms(2-)
    by (cases "k = h"; cases "map_of (mg_torrents m1) k") auto
qed

lemma create_files_total:
  "list_all (\<lambda>f. tf_length f \<le> 2 ^ 63) fs \<Longrightarrow> \<exists>f'. create_files (\<lambda>_. True) d fs f = Inr f'"
  by (induction fs arbitrary: f) (auto simp: Let_def)

lemma restored_fresh:
  assumes "torrent_ok h t"
  shows "restored t (apply_saved (Some (kept_state h (torrent_state_of env h data t)))
    (fresh_torrent env' (t_meta t) (new_manager (t_meta t) dir prio)
       (ts_file_priorities (kept_state h (torrent_state_of env h data t)))))"
  using assms by (simp add: restored_def apply_saved_def fresh_torrent_def torrent_state_of_def get_bitfield_def
      Piece_Manager.load_state_def new_manager_def torrent_ok_def pm_shape_def)

lemma add_impl_fresh:
  assumes "info_hash_to_hex (info_hash meta) = h" "map_of (mg_torrents m) h = None"
    "construct_manager (can_write env) meta (mg_dir m) prio (mg_fs m) = Inr (pm, fs)"
    "State_Manager.load_state (junk_counters env) (wall_clock env) h (mg_state m) = Some saved"
  shows "add_torrent_impl env meta prio raw m =
    Some (Inr h, (put_torrent h (apply_saved saved (fresh_torrent env meta pm prio)) m)
      \<lparr>mg_ids := AList.update (string_of_bytes (info_hash meta)) h (mg_ids m), mg_fs := fs,
        mg_state := save_added env h raw saved (apply_saved saved (fresh_torrent env meta pm prio)) (mg_state m)\<rparr>)"
  using assms by (simp add: add_torrent_impl_def Let_def)

lemma restore_one_step:
  assumes m: "manager_ok m" and s: "saved_session env m dir" and w: "can_write env' = (\<lambda>_. True)"
    and m1: "mg_state m1 = dir" "restored_part m m1 H"
  shows "\<exists>m2. restore_one env' h m1 = Some m2 \<and> mg_state m2 = dir \<and> restored_part m m2 (insert h H)"
proof (cases "map_of (mg_torrents m) h")
  case None
  then have b: "blank_record dir h" using saved_sessionD(1) [OF s] by simp
  obtain saved where l: "State_Manager.load_state (junk_counters env') (wall_clock env') h dir = Some saved"
    using load_state_returns by (metis not_None_eq)
  have "restore_one env' h m1 = Some m1"
    using load_blank [OF b l] l m1(1) by (auto simp: restore_one_def)
  moreover have "restored_part m m1 (insert h H)"
    using m1(2) None by (simp add: restored_part_insert)
  ultimately show ?thesis using m1(1) by auto
next
  case (Some t)
  have t: "torrent_ok h t" using m Some by (rule manager_okD)
  from saved_sessionD(2) [OF s Some] obtain data where d: "data \<noteq> []" "parse_torrent data = Some (Inr (t_meta t))"
    "saved_as dir h (torrent_state_of env h data t)" by blast
  let ?s = "kept_state h (torrent_state_of env h data t)"
  have data: "ts_torrent_data ?s = data" by (simp add: torrent_state_of_def)
  have h: "info_hash_to_hex (info_hash (t_meta t)) = h" using t by (simp add: torrent_ok_def)
  have one: "restore_one env' h m1 = map_option snd (add_torrent_impl env' (t_meta t) (ts_file_priorities ?s) data m1)"
    using load_saved [OF d(3)] d(1,2) data m1(1) by (simp add: restore_one_def del: kept_state_data)
  show ?thesis
  proof (cases "map_of (mg_torrents m1) h")
    case None
    obtain fs where "create_files (\<lambda>_. True) (mg_dir m1) (files (t_meta t)) (mg_fs m1) = Inr fs"
      using create_files_total [of "files (t_meta t)" "mg_dir m1" "mg_fs m1"] t by (auto simp: torrent_ok_def)
    then have c: "construct_manager (can_write env') (t_meta t) (mg_dir m1) (ts_file_priorities ?s) (mg_fs m1) =
        Inr (new_manager (t_meta t) (mg_dir m1) (ts_file_priorities ?s), fs)"
      by (simp add: construct_manager_def w)
    let ?t = "apply_saved (Some ?s) (fresh_torrent env' (t_meta t)
        (new_manager (t_meta t) (mg_dir m1) (ts_file_priorities ?s)) (ts_file_priorities ?s))"
    let ?m2 = "(put_torrent h ?t m1)\<lparr>mg_ids := AList.update (string_of_bytes (info_hash (t_meta t))) h (mg_ids m1),
        mg_fs := fs, mg_state := save_added env' h data (Some ?s) ?t (mg_state m1)\<rparr>"
    have l: "State_Manager.load_state (junk_counters env') (wall_clock env') h (mg_state m1) = Some (Some ?s)"
      unfolding m1(1) by (rule load_saved [OF d(3)])
    have "restore_one env' h m1 = Some ?m2" unfolding one add_impl_fresh [OF h None c l] by simp
    moreover have "mg_state ?m2 = dir" using m1(1) d(1) data by (simp add: save_added_def del: kept_state_data)
    moreover have "restored_part m ?m2 (insert h H)"
      by (rule restored_part_put [OF m1(2) Some restored_fresh [OF t]]) simp
    ultimately show ?thesis by blast
  next
    case t': (Some t')
    then have "add_torrent_impl env' (t_meta t) (ts_file_priorities ?s) data m1 = Some (Inl ''Torrent already exists'', m1)"
      by (simp add: add_torrent_impl_def h Let_def)
    moreover have "restored_part m m1 (insert h H)"
      using m1(2) t' by (simp add: restored_part_insert)
    ultimately show ?thesis using one m1(1) by auto
  qed
qed

lemma restore_all_steps:
  assumes "manager_ok m" "saved_session env m dir" "can_write env' = (\<lambda>_. True)"
  shows "mg_state m1 = dir \<Longrightarrow> restored_part m m1 H \<Longrightarrow>
    \<exists>m2. restore_all env' hs m1 = Some m2 \<and> mg_state m2 = dir \<and> restored_part m m2 (set hs \<union> H)"
proof (induction hs arbitrary: m1 H)
  case (Cons h hs)
  from restore_one_step [OF assms Cons.prems, of h] obtain m2 where
    m2: "restore_one env' h m1 = Some m2" "mg_state m2 = dir" "restored_part m m2 (insert h H)" by blast
  from Cons.IH [OF m2(2,3)] m2(1) show ?case by simp
qed simp

lemma restore_one_ok: "restore_one env h m = Some m' \<Longrightarrow> manager_ok m \<Longrightarrow> manager_ok m'"
  by (auto simp: restore_one_def split: option.splits if_splits sum.splits dest: add_impl_ok)

lemma restore_all_ok: "restore_all env hs m = Some m' \<Longrightarrow> manager_ok m \<Longrightarrow> manager_ok m'"
  by (induction env hs m rule: restore_all.induct) (auto simp: bind_eq_Some_conv dest: restore_one_ok)

lemma parse_torrent_hash: "parse_torrent data = Some (Inr meta) \<Longrightarrow> length (info_hash meta) = 20"
proof -
  assume "parse_torrent data = Some (Inr meta)"
  then obtain v where "(case v of BDict d \<Rightarrow> parse_from_bencode d
      | _ \<Rightarrow> Inl ''Invalid torrent data: root must be a dictionary'') = Inr meta"
    by (auto simp: parse_torrent_def ebind_Inr_iff)
  then show ?thesis by (cases v) (auto dest!: parse_from_bencode_table)
qed

lemma saved_listed:
  assumes "manager_ok m" "saved_session env m dir" "map_of (mg_torrents m) h = Some t"
  shows "h \<in> set (list_saved_torrents dir)"
proof -
  from saved_sessionD(2) [OF assms(2,3)] obtain data where
    d: "parse_torrent data = Some (Inr (t_meta t))" "saved_as dir h (torrent_state_of env h data t)" by blast
  have "h = info_hash_to_hex (info_hash (t_meta t))" using manager_okD [OF assms(1,3)] by (simp add: torrent_ok_def)
  moreover have "get_state_file_path h \<in> fst ` set dir"
    using d(2) by (force simp: saved_as_def dest: map_of_SomeD)
  ultimately show ?thesis using saved_torrent_listed [OF parse_torrent_hash [OF d(1)]] by simp
qed

lemma start_restores:
  assumes m: "manager_ok m" and s: "saved_session env m states" and w: "can_write env' = (\<lambda>_. True)"
  shows "\<exists>m'. start_session env' dir states fs = Some m' \<and> manager_ok m' \<and> recorded m' \<and>
    (\<forall>h. rel_option restored (map_of (mg_torrents m) h) (map_of (mg_torrents m') h))"
proof -
  let ?hs = "list_saved_torrents states"
  have "mg_state (new_session dir states fs) = states" "restored_part m (new_session dir states fs) {}"
    by (simp_all add: new_session_def restored_part_def)
  from restore_all_steps [OF m s w this, of ?hs] obtain m' where
    m': "restore_all env' ?hs (new_session dir states fs) = Some m'" "mg_state m' = states" "restored_part m m' (set ?hs)"
    by auto
  have rel: "rel_option restored (map_of (mg_torrents m) h) (map_of (mg_torrents m') h)" for h
    using m'(3) [unfolded restored_part_def, THEN spec, of h] saved_listed [OF m s, of h]
    by (cases "map_of (mg_torrents m) h"; cases "map_of (mg_torrents m') h") auto
  have "recorded m'"
    unfolding recorded_def
  proof
    fix h
    show "record_of (mg_state m') h (metas m' h)"
      using rel [of h] saved_sessionD [OF s, of h] m'(2)
      by (cases "map_of (mg_torrents m) h"; cases "map_of (mg_torrents m') h")
        (auto simp: record_of_def metas_def full_record_def restored_def torrent_state_of_def)
  qed
  moreover have "manager_ok m'" using restore_all_ok [OF m'(1) new_session_ok] .
  moreover have "start_session env' dir states fs = Some m'"
    using m'(1) by (simp add: start_session_def restore_torrents_def) (simp add: new_session_def)
  ultimately show ?thesis using rel by blast
qed

section \<open>The life of a client\<close>

text \<open>From the first start on an empty state directory, through steps and restarts.\<close>

inductive client_run :: "manager \<Rightarrow> bool" where
  install: "client_run (new_session dir [] fs)"
| work: "client_run m \<Longrightarrow> manager_step good_env m m' \<Longrightarrow> client_run m'"
| restart: "client_run m \<Longrightarrow> good_env env \<Longrightarrow> shutdown env m = Some (states, fs) \<Longrightarrow>
    can_write env' = (\<lambda>_. True) \<Longrightarrow> start_session env' dir states fs = Some m' \<Longrightarrow> client_run m'"

lemma client_run_ok: "client_run m \<Longrightarrow> manager_ok m \<and> recorded m"
proof (induction rule: client_run.induct)
  case (install dir fs)
  then show ?case
    using new_session_ok by (simp add: recorded_def record_of_def metas_def blank_record_def new_session_def)
next
  case (work m m')
  then show ?case using manager_step_ok recorded_step by blast
next
  case (restart m env states fs env' dir m')
  from restart.IH shutdown_saves [OF restart(2)] restart(3) have "saved_session env m states" by force
  from start_restores [OF _ this restart(4), of dir fs] restart.IH restart(5) show ?case by auto
qed

section \<open>Properties\<close>



end
