(* ===== verification/Tcp_Listener.thy ===== *)
theory Tcp_Listener
  imports Manager_Workers "HOL-Library.Multiset"
begin

text \<open>
  \<open>src/manager/tcp_listener.cpp\<close>: the whole thread that accepts incoming peers, around \<open>accept_peer\<close>,
  which models what becomes of the manager.  Here the descriptors are kept: each is closed by the
  thread or becomes the socket of a peer.  The loop runs as long as \<open>tcp_listener_running_\<close> is set,
  so a run is the list of what \<open>accept\<close> returns; sleeping and the logging are left out.
\<close>

section \<open>A connection\<close>

text \<open>\<open>Accepted\<close>: the descriptor, what \<open>recv\<close> brought of the 68 bytes, the peer's endpoint when the
  address is an IPv4 address, the result of sending our handshake and of later sends.\<close>

datatype accept_event =
    Accepted int "byte list" "peer_info option" nat "nat list"
  | Would_Block
  | Accept_Error

text \<open>The torrent the handshake is for; \<open>None\<close> when the connection is refused before the torrents are
  looked at.\<close>

definition wanted_torrent :: "byte list \<Rightarrow> manager \<Rightarrow> string option" where
  "wanted_torrent buf m =
     (if length buf \<noteq> 68 then None
      else if buf ! 0 \<noteq> 19 then None
      else if take 19 (drop 1 buf) \<noteq> protocol_string then None
      else map_of (mg_ids m) (string_of_bytes (take 20 (drop 28 buf))))"

text \<open>The checks under the manager's mutex.\<close>

definition admitted :: "string \<Rightarrow> peer_info \<Rightarrow> manager \<Rightarrow> torrent option" where
  "admitted h p m =
     (case map_of (mg_torrents m) h of
        None \<Rightarrow> None
      | Some t \<Rightarrow>
          if 50 \<le> length (t_peers t) then None
          else if peer_key p \<in> set (t_pending t) then None
          else if known_peer (map fst (t_peers t)) p then None
          else Some t)"

record listener =
  ls_manager :: manager
  ls_attached :: "int list"
  ls_closed :: "int list"

definition refuse :: "int \<Rightarrow> listener \<Rightarrow> listener" where
  "refuse fd l = l\<lparr>ls_closed := ls_closed l @ [fd]\<rparr>"

text \<open>The slot reserved among the pending connections is given back under the same lock.  When our
  handshake cannot be sent the thread locks the mutex it holds: \<open>None\<close>.\<close>

definition attach_peer :: "int \<Rightarrow> string \<Rightarrow> torrent \<Rightarrow> peer_info \<Rightarrow> nat \<Rightarrow> nat list \<Rightarrow> listener \<Rightarrow> listener option" where
  "attach_peer fd h t p n ss l =
     (case respond_to_handshake n (new_conn True (t_meta t) (info_hash (t_meta t)) (t_peer_id t) (t_pm t) ss) of
        (ok, c) \<Rightarrow>
          if ok then Some (l\<lparr>ls_manager := put_torrent h (t\<lparr>t_peers := t_peers t @ [(p, start c)]\<rparr>) (ls_manager l),
                             ls_attached := ls_attached l @ [fd]\<rparr>)
          else None)"

definition accept_round :: "accept_event \<Rightarrow> listener \<Rightarrow> listener option" where
  "accept_round e l =
     (case e of
        Would_Block \<Rightarrow> Some l
      | Accept_Error \<Rightarrow> Some l
      | Accepted fd buf addr n ss \<Rightarrow>
          (case wanted_torrent buf (ls_manager l) of
             None \<Rightarrow> Some (refuse fd l)
           | Some h \<Rightarrow>
               (case addr of
                  None \<Rightarrow> Some (refuse fd l)
                | Some p \<Rightarrow>
                    (case admitted h p (ls_manager l) of
                       None \<Rightarrow> Some (refuse fd l)
                     | Some t \<Rightarrow> attach_peer fd h t p n ss l))))"

fun accept_rounds :: "accept_event list \<Rightarrow> listener \<Rightarrow> listener option" where
  "accept_rounds [] l = Some l"
| "accept_rounds (e # es) l = Option.bind (accept_round e l) (accept_rounds es)"

section \<open>The thread\<close>

text \<open>The results of \<open>socket\<close>, \<open>bind\<close> and \<open>listen\<close>.\<close>

record listen_report =
  lr_socket :: int
  lr_bound :: bool
  lr_listening :: bool

definition tcp_listener :: "listen_report \<Rightarrow> accept_event list \<Rightarrow> manager \<Rightarrow> listener option" where
  "tcp_listener r es m =
     (let l = \<lparr>ls_manager = m, ls_attached = [], ls_closed = []\<rparr> in
      if lr_socket r < 0 then Some l
      else if \<not> lr_bound r then Some (refuse (lr_socket r) l)
      else if \<not> lr_listening r then Some (refuse (lr_socket r) l)
      else map_option (refuse (lr_socket r)) (accept_rounds es l))"

definition tcp_port :: "16 word" where
  "tcp_port = 6881"

section \<open>What a run does\<close>

text \<open>Up to the descriptors a round is \<open>accept_peer\<close>.\<close>

lemma accept_round_manager:
  assumes "accept_round (Accepted fd buf (Some p) n ss) l = Some l'"
  shows "accept_peer buf p n ss (ls_manager l) = Some (ls_manager l')"
  using assms
  by (auto simp: accept_round_def accept_peer_def wanted_torrent_def admitted_def attach_peer_def refuse_def
      split: if_splits option.splits prod.splits)

lemma accept_round_step:
  assumes "accept_round e l = Some l'"
  shows "(manager_step E)\<^sup>*\<^sup>* (ls_manager l) (ls_manager l')"
proof (cases "\<exists>fd buf p n ss. e = Accepted fd buf (Some p) n ss")
  case True
  then show ?thesis using assms accept_round_manager manager_step.accept by (metis r_into_rtranclp)
next
  case False
  then have "ls_manager l' = ls_manager l"
    using assms by (auto simp: accept_round_def refuse_def split: accept_event.splits option.splits)
  then show ?thesis by simp
qed

fun accepted_fd :: "accept_event \<Rightarrow> int list" where
  "accepted_fd (Accepted fd buf addr n ss) = [fd]"
| "accepted_fd _ = []"

definition peer_total :: "manager \<Rightarrow> nat" where
  "peer_total m = sum_list (map (\<lambda>(h, t). length (t_peers t)) (mg_torrents m))"

lemma peer_total_update:
  "map_of ts h = Some t \<Longrightarrow>
   sum_list (map (\<lambda>(h, t). length (t_peers t)) (AList.update h (t\<lparr>t_peers := t_peers t @ [x]\<rparr>) ts)) =
   Suc (sum_list (map (\<lambda>(h, t). length (t_peers t)) ts))"
  by (induction ts) auto

text \<open>The invariant of the loop, from a manager \<open>m\<close> and with the descriptors \<open>fds\<close> received so far.\<close>

definition fd_account :: "manager \<Rightarrow> int list \<Rightarrow> listener \<Rightarrow> bool" where
  "fd_account m fds l \<longleftrightarrow>
     mset (ls_attached l @ ls_closed l) = mset fds \<and>
     peer_total (ls_manager l) = peer_total m + length (ls_attached l) \<and>
     (\<forall>h. pred_option (\<lambda>t. length (t_peers t) \<le> 50) (map_of (mg_torrents m) h) \<longrightarrow>
          pred_option (\<lambda>t. length (t_peers t) \<le> 50) (map_of (mg_torrents (ls_manager l)) h))"

lemma accept_round_account:
  assumes a: "fd_account m fds l" and r: "accept_round e l = Some l'"
  shows "fd_account m (fds @ accepted_fd e) l'"
proof -
  consider "l' = l" "accepted_fd e = []" | fd where "l' = refuse fd l" "accepted_fd e = [fd]"
    | fd h p t c where "accepted_fd e = [fd]" "admitted h p (ls_manager l) = Some t"
        "l' = l\<lparr>ls_manager := put_torrent h (t\<lparr>t_peers := t_peers t @ [(p, c)]\<rparr>) (ls_manager l),
                ls_attached := ls_attached l @ [fd]\<rparr>"
    using r by (cases e) (auto simp: accept_round_def attach_peer_def split: option.splits if_splits prod.splits)
  then show ?thesis
  proof cases
    case 3
    then have "map_of (mg_torrents (ls_manager l)) h = Some t" "length (t_peers t) < 50"
      by (auto simp: admitted_def split: option.splits if_splits)
    with 3 a show ?thesis
      by (auto simp: fd_account_def peer_total_update peer_total_def [of "put_torrent _ _ _"] put_torrent_def
          peer_total_def update_conv')
  qed (use a in \<open>auto simp: fd_account_def refuse_def\<close>)
qed

lemma accept_rounds_account:
  "fd_account m fds l \<Longrightarrow> accept_rounds es l = Some l' \<Longrightarrow>
   fd_account m (fds @ concat (map accepted_fd es)) l' \<and> (manager_step E)\<^sup>*\<^sup>* (ls_manager l) (ls_manager l')"
proof (induction es arbitrary: fds l)
  case (Cons e es)
  then obtain l1 where l1: "accept_round e l = Some l1" "accept_rounds es l1 = Some l'" by (auto split: bind_splits)
  from Cons.IH [OF accept_round_account [OF Cons.prems(1) l1(1)] l1(2)] accept_round_step [OF l1(1), of E]
  show ?case by (auto intro: rtranclp_trans)
qed simp



end
