(* ===== verification/Dht_Protocol.thy ===== *)
theory Dht_Protocol
  imports Bencode Dht_Node Sha1
begin

text \<open>
  \<open>src/dht/protocol.cpp\<close>: the KRPC messages of the DHT with their encoders and decoders, the
  compact node and peer lists, the tokens that protect \<open>announce_peer\<close> and the transaction
  ids.  A member without an initialiser that \<open>decode\<close> may leave unset (the query type, the
  error code) is an option.  A decoder returns \<open>None\<close> when the bencode parser never returns,
  and \<open>Some None\<close> for \<open>std::nullopt\<close>.
\<close>

section \<open>Messages\<close>

datatype krpc_type = QUERY | RESPONSE | ERROR

datatype query_type = PING | FIND_NODE | GET_PEERS | ANNOUNCE_PEER

record query_message =
  q_kind :: krpc_type
  q_tid :: string
  q_type :: "query_type option"
  q_node_id :: node_id
  q_target :: "node_id option"
  q_info_hash :: "byte list option"
  q_port :: "16 word option"
  q_token :: "string option"
  q_implied_port :: "bool option"

record response_message =
  r_kind :: krpc_type
  r_tid :: string
  r_node_id :: node_id
  r_nodes :: "dht_node list option"
  r_peers :: "dht_node list option"
  r_token :: "string option"

record error_message =
  e_kind :: krpc_type
  e_tid :: string
  e_code :: "int option"
  e_message :: string

text \<open>The values of \<open>ErrorCode\<close>, an enumeration over \<open>int\<close>.\<close>

definition GENERIC_ERROR :: int where "GENERIC_ERROR = 201"
definition SERVER_ERROR :: int where "SERVER_ERROR = 202"
definition PROTOCOL_ERROR :: int where "PROTOCOL_ERROR = 203"
definition METHOD_UNKNOWN :: int where "METHOD_UNKNOWN = 204"

definition blank_query :: query_message where
  "blank_query = \<lparr>q_kind = QUERY, q_tid = [], q_type = None, q_node_id = zero_id, q_target = None,
     q_info_hash = None, q_port = None, q_token = None, q_implied_port = None\<rparr>"

definition blank_response :: response_message where
  "blank_response = \<lparr>r_kind = RESPONSE, r_tid = [], r_node_id = zero_id, r_nodes = None,
     r_peers = None, r_token = None\<rparr>"

definition blank_error :: error_message where
  "blank_error = \<lparr>e_kind = ERROR, e_tid = [], e_code = None, e_message = []\<rparr>"

text \<open>A default-constructed node with its address.\<close>

definition bare_node :: "byte list \<Rightarrow> 16 word \<Rightarrow> dht_node" where
  "bare_node ip port = \<lparr>nid = zero_id, nip = ip, nport = port, last_seen = 0, last_query = 0, failed_queries = 0\<rparr>"

section \<open>Compact lists\<close>

definition compact_node :: "dht_node \<Rightarrow> byte list" where
  "compact_node n = nid n @ nip n @ store16 (htons (nport n))"

definition encode_nodes :: "dht_node list \<Rightarrow> byte list" where
  "encode_nodes ns = concat (map compact_node ns)"

definition expand_node :: "int \<Rightarrow> byte list \<Rightarrow> dht_node" where
  "expand_node now d = \<lparr>nid = take 20 d, nip = take 4 (drop 20 d), nport = htons (load16 (d ! 24) (d ! 25)),
     last_seen = now, last_query = now - 20 * 60000000000, failed_queries = 0\<rparr>"

definition decode_nodes :: "int \<Rightarrow> byte list \<Rightarrow> dht_node list" where
  "decode_nodes now d = map (expand_node now) (chunks 26 d)"

definition compact_peer :: "dht_node \<Rightarrow> byte list" where
  "compact_peer n = nip n @ store16 (htons (nport n))"

definition encode_peers :: "dht_node list \<Rightarrow> byte list" where
  "encode_peers ns = concat (map compact_peer ns)"

definition expand_peer :: "int \<Rightarrow> byte list \<Rightarrow> dht_node" where
  "expand_peer now d = (bare_node (take 4 d) (htons (load16 (d ! 4) (d ! 5))))\<lparr>last_seen := now\<rparr>"

definition decode_peers :: "int \<Rightarrow> byte list \<Rightarrow> dht_node list" where
  "decode_peers now d = map (expand_peer now) (chunks 6 d)"

section \<open>Encoding\<close>

definition query_name :: "query_type option \<Rightarrow> string" where
  "query_name q = (case q of None \<Rightarrow> [] | Some PING \<Rightarrow> ''ping'' | Some FIND_NODE \<Rightarrow> ''find_node''
     | Some GET_PEERS \<Rightarrow> ''get_peers'' | Some ANNOUNCE_PEER \<Rightarrow> ''announce_peer'')"

definition opt_text :: "('a \<Rightarrow> string) \<Rightarrow> 'a option \<Rightarrow> string" where
  "opt_text f x = (case x of None \<Rightarrow> [] | Some v \<Rightarrow> f v)"

definition nonempty :: "'a list option \<Rightarrow> 'a list option" where
  "nonempty x = (if x = Some [] then None else x)"

definition query_arguments :: "query_message \<Rightarrow> string" where
  "query_arguments m =
     ''2:id20:'' @ string_of_bytes (q_node_id m) @
     opt_text (\<lambda>i. ''6:target20:'' @ string_of_bytes i) (q_target m) @
     opt_text (\<lambda>h. ''9:info_hash20:'' @ string_of_bytes h) (q_info_hash m) @
     opt_text (\<lambda>p. ''4:porti'' @ show_nat (unat p) @ ''e'') (q_port m) @
     opt_text (\<lambda>t. ''5:token'' @ show_nat (length t) @ '':'' @ t) (q_token m) @
     (if q_implied_port m = Some True then ''12:implied_porti1e'' else [])"

definition encode_query :: "query_message \<Rightarrow> byte list" where
  "encode_query m = bytes_of_string
     (''d'' @ ''1:ad'' @ query_arguments m @ ''e'' @
      ''1:q'' @ show_nat (length (query_name (q_type m))) @ '':'' @ query_name (q_type m) @
      ''1:t'' @ show_nat (length (q_tid m)) @ '':'' @ q_tid m @
      ''1:y1:q'' @ ''e'')"

text \<open>The two bytes of the port in a peer of the value list lie in memory as \<open>htons\<close> left them.\<close>

definition response_values :: "response_message \<Rightarrow> string" where
  "response_values m =
     ''2:id20:'' @ string_of_bytes (r_node_id m) @
     opt_text (\<lambda>ns. ''5:nodes'' @ show_nat (length (encode_nodes ns)) @ '':'' @
       string_of_bytes (encode_nodes ns)) (nonempty (r_nodes m)) @
     opt_text (\<lambda>ps. ''6:valuesl'' @ concat (map (\<lambda>p. ''6:'' @
       string_of_bytes (nip p @ store16 (nport p))) ps) @ ''e'') (nonempty (r_peers m)) @
     opt_text (\<lambda>t. ''5:token'' @ show_nat (length t) @ '':'' @ t) (r_token m)"

definition encode_response :: "response_message \<Rightarrow> byte list" where
  "encode_response m = bytes_of_string
     (''d'' @ ''1:rd'' @ response_values m @ ''e'' @
      ''1:t'' @ show_nat (length (r_tid m)) @ '':'' @ r_tid m @
      ''1:y1:r'' @ ''e'')"

definition encode_error :: "error_message \<Rightarrow> byte list" where
  "encode_error m = bytes_of_string
     (''d'' @ ''1:eli'' @ opt_text show_int (e_code m) @ ''e'' @
      show_nat (length (e_message m)) @ '':'' @ e_message m @ ''e'' @
      ''1:t'' @ show_nat (length (e_tid m)) @ '':'' @ e_tid m @
      ''1:y1:e'' @ ''e'')"

section \<open>Decoding\<close>

definition bencode_to_string :: "bval \<Rightarrow> string" where
  "bencode_to_string v = (case v of BStr s \<Rightarrow> s | _ \<Rightarrow> [])"

definition bencode_to_int :: "bval \<Rightarrow> int" where
  "bencode_to_int v = (case v of BInt i \<Rightarrow> i | _ \<Rightarrow> 0)"

text \<open>The twenty bytes of a string member, when it has that length.\<close>

definition member20 :: "string \<Rightarrow> (string \<times> bval) list \<Rightarrow> byte list option" where
  "member20 k d = (case map_of d k of None \<Rightarrow> None
     | Some v \<Rightarrow> if length (bencode_to_string v) = 20 then Some (bytes_of_string (bencode_to_string v)) else None)"

definition transaction_of :: "(string \<times> bval) list \<Rightarrow> string" where
  "transaction_of d = (case map_of d ''t'' of None \<Rightarrow> [] | Some v \<Rightarrow> bencode_to_string v)"

definition or_keep :: "'a option \<Rightarrow> 'a \<Rightarrow> 'a" where
  "or_keep new old = (case new of None \<Rightarrow> old | Some x \<Rightarrow> x)"

definition query_type_of :: "string \<Rightarrow> query_type option" where
  "query_type_of s = (if s = ''ping'' then Some PING else if s = ''find_node'' then Some FIND_NODE
     else if s = ''get_peers'' then Some GET_PEERS else if s = ''announce_peer'' then Some ANNOUNCE_PEER else None)"

definition read_arguments :: "(string \<times> bval) list \<Rightarrow> query_message \<Rightarrow> query_message" where
  "read_arguments a m = m\<lparr>
     q_node_id := or_keep (member20 ''id'' a) (q_node_id m),
     q_target := member20 ''target'' a,
     q_info_hash := member20 ''info_hash'' a,
     q_port := map_option (\<lambda>v. word_of_int (bencode_to_int v)) (map_of a ''port''),
     q_token := map_option bencode_to_string (map_of a ''token''),
     q_implied_port := map_option (\<lambda>v. bencode_to_int v \<noteq> 0) (map_of a ''implied_port'')\<rparr>"

definition query_of_dict :: "(string \<times> bval) list \<Rightarrow> query_message option" where
  "query_of_dict d =
     (let m = blank_query\<lparr>q_tid := transaction_of d\<rparr>;
          fill = (\<lambda>m. case map_of d ''a'' of Some (BDict a) \<Rightarrow> read_arguments a m | _ \<Rightarrow> m)
      in case map_of d ''q'' of
           None \<Rightarrow> Some (fill m)
         | Some v \<Rightarrow> (case query_type_of (bencode_to_string v) of
               None \<Rightarrow> None
             | Some t \<Rightarrow> Some (fill (m\<lparr>q_type := Some t\<rparr>))))"

definition read_peer :: "bval \<Rightarrow> dht_node list" where
  "read_peer v = (let s = bencode_to_string v; d = bytes_of_string s in
     if length s = 6 then [bare_node (take 4 d) (load16 (d ! 4) (d ! 5))] else [])"

definition read_values :: "int \<Rightarrow> (string \<times> bval) list \<Rightarrow> response_message \<Rightarrow> response_message" where
  "read_values now r m = m\<lparr>
     r_node_id := or_keep (member20 ''id'' r) (r_node_id m),
     r_nodes := map_option (\<lambda>v. decode_nodes now (bytes_of_string (bencode_to_string v))) (map_of r ''nodes''),
     r_token := map_option bencode_to_string (map_of r ''token''),
     r_peers := (case map_of r ''values'' of
         Some (BList vs) \<Rightarrow> (let ps = concat (map read_peer vs) in if ps = [] then None else Some ps)
       | _ \<Rightarrow> None)\<rparr>"

definition response_of_dict :: "int \<Rightarrow> (string \<times> bval) list \<Rightarrow> response_message option" where
  "response_of_dict now d =
     (let m = blank_response\<lparr>r_tid := transaction_of d\<rparr>
      in Some (case map_of d ''r'' of Some (BDict r) \<Rightarrow> read_values now r m | _ \<Rightarrow> m))"

text \<open>The conversion of a 64-bit integer to the enumeration keeps its lowest 32 bits.\<close>

definition error_of_dict :: "(string \<times> bval) list \<Rightarrow> error_message option" where
  "error_of_dict d =
     (let m = blank_error\<lparr>e_tid := transaction_of d\<rparr>
      in Some (case map_of d ''e'' of
           Some (BList (c # t # _)) \<Rightarrow> m\<lparr>e_code := Some (sint (word_of_int (bencode_to_int c) :: 32 word)),
                                          e_message := bencode_to_string t\<rparr>
         | _ \<Rightarrow> m))"

definition decode_message :: "((string \<times> bval) list \<Rightarrow> 'm option) \<Rightarrow> byte list \<Rightarrow> 'm option option" where
  "decode_message of_dict data =
     map_option (\<lambda>r. case r of Inr (BDict d) \<Rightarrow> of_dict d | _ \<Rightarrow> None) (parse (string_of_bytes data))"

definition decode_query :: "byte list \<Rightarrow> query_message option option" where
  "decode_query data = decode_message query_of_dict data"

definition decode_response :: "int \<Rightarrow> byte list \<Rightarrow> response_message option option" where
  "decode_response now data = decode_message (response_of_dict now) data"

definition decode_error :: "byte list \<Rightarrow> error_message option option" where
  "decode_error data = decode_message error_of_dict data"

section \<open>Builders\<close>

definition ping_query :: "node_id \<Rightarrow> string \<Rightarrow> query_message" where
  "ping_query own tid = blank_query\<lparr>q_type := Some PING, q_tid := tid, q_node_id := own\<rparr>"

definition find_node_query :: "node_id \<Rightarrow> node_id \<Rightarrow> string \<Rightarrow> query_message" where
  "find_node_query own target tid =
     blank_query\<lparr>q_type := Some FIND_NODE, q_tid := tid, q_node_id := own, q_target := Some target\<rparr>"

definition get_peers_query :: "node_id \<Rightarrow> byte list \<Rightarrow> string \<Rightarrow> query_message" where
  "get_peers_query own info_hash tid =
     blank_query\<lparr>q_type := Some GET_PEERS, q_tid := tid, q_node_id := own, q_info_hash := Some info_hash\<rparr>"

definition announce_peer_query ::
    "node_id \<Rightarrow> byte list \<Rightarrow> 16 word \<Rightarrow> string \<Rightarrow> string \<Rightarrow> bool \<Rightarrow> query_message" where
  "announce_peer_query own info_hash port token tid implied =
     blank_query\<lparr>q_type := Some ANNOUNCE_PEER, q_tid := tid, q_node_id := own, q_info_hash := Some info_hash,
       q_port := Some port, q_token := Some token, q_implied_port := Some implied\<rparr>"

definition ping_response :: "node_id \<Rightarrow> string \<Rightarrow> response_message" where
  "ping_response own tid = blank_response\<lparr>r_tid := tid, r_node_id := own\<rparr>"

definition find_node_response :: "node_id \<Rightarrow> dht_node list \<Rightarrow> string \<Rightarrow> response_message" where
  "find_node_response own nodes tid = blank_response\<lparr>r_tid := tid, r_node_id := own, r_nodes := Some nodes\<rparr>"

definition get_peers_with_nodes :: "node_id \<Rightarrow> dht_node list \<Rightarrow> string \<Rightarrow> string \<Rightarrow> response_message" where
  "get_peers_with_nodes own nodes token tid =
     blank_response\<lparr>r_tid := tid, r_node_id := own, r_nodes := Some nodes, r_token := Some token\<rparr>"

definition get_peers_with_values :: "node_id \<Rightarrow> dht_node list \<Rightarrow> string \<Rightarrow> string \<Rightarrow> response_message" where
  "get_peers_with_values own peers token tid =
     blank_response\<lparr>r_tid := tid, r_node_id := own, r_peers := Some peers, r_token := Some token\<rparr>"

definition announce_peer_response :: "node_id \<Rightarrow> string \<Rightarrow> response_message" where
  "announce_peer_response own tid = blank_response\<lparr>r_tid := tid, r_node_id := own\<rparr>"

definition generic_error :: "string \<Rightarrow> string \<Rightarrow> error_message" where
  "generic_error tid msg = blank_error\<lparr>e_tid := tid, e_code := Some GENERIC_ERROR, e_message := msg\<rparr>"

definition protocol_error :: "string \<Rightarrow> string \<Rightarrow> error_message" where
  "protocol_error tid msg = blank_error\<lparr>e_tid := tid, e_code := Some PROTOCOL_ERROR, e_message := msg\<rparr>"

definition method_unknown :: "string \<Rightarrow> error_message" where
  "method_unknown tid = blank_error\<lparr>e_tid := tid, e_code := Some METHOD_UNKNOWN, e_message := ''Method Unknown''\<rparr>"

section \<open>Tokens and transaction ids\<close>

text \<open>Random secrets are arguments.\<close>

record token_manager =
  current_secret :: "byte list"
  previous_secret :: "byte list"
  last_rotation :: int

definition new_tokens :: "int \<Rightarrow> byte list \<Rightarrow> byte list \<Rightarrow> token_manager" where
  "new_tokens now cur prev = \<lparr>current_secret = cur, previous_secret = prev, last_rotation = now\<rparr>"

definition compute_token :: "byte list \<Rightarrow> byte list \<Rightarrow> string" where
  "compute_token ip secret = string_of_bytes (sha1_hash (ip @ secret))"

definition generate_token :: "byte list \<Rightarrow> token_manager \<Rightarrow> string" where
  "generate_token ip tm = compute_token ip (current_secret tm)"

definition validate_token :: "string \<Rightarrow> byte list \<Rightarrow> token_manager \<Rightarrow> bool" where
  "validate_token token ip tm =
     (if token = compute_token ip (current_secret tm) then True
      else token = compute_token ip (previous_secret tm))"

definition rotate_secrets :: "int \<Rightarrow> byte list \<Rightarrow> token_manager \<Rightarrow> token_manager" where
  "rotate_secrets now fresh tm =
     (if 5 \<le> minutes (now - last_rotation tm)
      then \<lparr>current_secret = fresh, previous_secret = current_secret tm, last_rotation = now\<rparr> else tm)"

definition generate_tid :: "32 word \<Rightarrow> string \<times> 32 word" where
  "generate_tid counter = (string_of_bytes (store32 counter), counter + 1)"

fun generate_tids :: "nat \<Rightarrow> 32 word \<Rightarrow> string list \<times> 32 word" where
  "generate_tids 0 c = ([], c)"
| "generate_tids (Suc n) c = (let (t, c') = generate_tid c; (ts, c'') = generate_tids n c' in (t # ts, c''))"

section \<open>Encoded messages as bencode\<close>

text \<open>
  The encoders write dictionaries in an order of their own (\<open>id\<close>, \<open>target\<close>, \<open>info_hash\<close>, ...), so
  their output is not an \<open>encode\<close> of a value; it is a text the parser reads back.
\<close>

definition entries_text :: "(string \<times> string \<times> bval) list \<Rightarrow> string" where
  "entries_text es = concat (map (\<lambda>(k, s, v). encode_string k @ s) es)"

definition opt_entry :: "string \<Rightarrow> ('a \<Rightarrow> string) \<Rightarrow> ('a \<Rightarrow> bval) \<Rightarrow> 'a option \<Rightarrow> (string \<times> string \<times> bval) list" where
  "opt_entry k f g x = (case x of None \<Rightarrow> [] | Some v \<Rightarrow> [(k, f v, g v)])"

definition str_entry :: "string \<Rightarrow> string \<Rightarrow> string \<times> string \<times> bval" where
  "str_entry k s = (k, encode_string s, BStr s)"

lemma entries_text_simps [simp]:
  "entries_text [] = []" "entries_text (e # es) = encode_string (fst e) @ fst (snd e) @ entries_text es"
  "entries_text (es @ fs) = entries_text es @ entries_text fs"
  by (simp_all add: entries_text_def case_prod_unfold)

lemma entries_text_opt [simp]: "entries_text (opt_entry k f g x) = opt_text (\<lambda>v. encode_string k @ f v) x"
  by (cases x) (simp_all add: opt_entry_def opt_text_def)

lemma reads_dict_text:
  "list_all (\<lambda>(k, s, v). reads s v) es \<Longrightarrow> distinct (map fst es) \<Longrightarrow>
     reads (''d'' @ entries_text es @ ''e'') (BDict (map (\<lambda>(k, s, v). (k, v)) es))"
  unfolding entries_text_def by (rule reads_dict)

lemma decode_reads:
  "reads s (BDict d) \<Longrightarrow> length s < 2 ^ 64 \<Longrightarrow> decode_message of_dict (bytes_of_string s) = Some (of_dict d)"
  using parse_data_reads [of s "BDict d" "[]"] unfolding decode_message_def parse_def bytes_string_inverse by simp

lemma key_texts:
  "encode_string ''a'' = ''1:a''" "encode_string ''q'' = ''1:q''" "encode_string ''t'' = ''1:t''"
  "encode_string ''y'' = ''1:y''" "encode_string ''r'' = ''1:r''" "encode_string ''e'' = ''1:e''"
  "encode_string ''id'' = ''2:id''" "encode_string ''target'' = ''6:target''"
  "encode_string ''info_hash'' = ''9:info_hash''" "encode_string ''port'' = ''4:port''"
  "encode_string ''token'' = ''5:token''" "encode_string ''implied_port'' = ''12:implied_port''"
  "encode_string ''nodes'' = ''5:nodes''" "encode_string ''values'' = ''6:values''"
  "show_nat 20 = ''20''" "show_nat 6 = ''6''"
  by code_simp+

definition pairs :: "(string \<times> string \<times> bval) list \<Rightarrow> (string \<times> bval) list" where
  "pairs es = map (\<lambda>(k, s, v). (k, v)) es"

lemma pairs_simps [simp]:
  "pairs [] = []" "pairs (e # es) = (fst e, snd (snd e)) # pairs es" "pairs (es @ fs) = pairs es @ pairs fs"
  by (simp_all add: pairs_def case_prod_unfold)

lemma map_of_pairs_opt:
  "map_of (pairs (opt_entry k f g x)) k' = (if k = k' then map_option g x else None)"
  by (cases x) (simp_all add: opt_entry_def)

lemma map_of_pairs_opt_append:
  "map_of (pairs (opt_entry k f g x) @ ps) k' =
     (if k = k' then (case x of None \<Rightarrow> map_of ps k' | Some v \<Rightarrow> Some (g v)) else map_of ps k')"
  by (cases x) (simp_all add: opt_entry_def)

lemma case_map_option: "(case x of None \<Rightarrow> None | Some v \<Rightarrow> Some (g v)) = map_option g x"
  by (cases x) simp_all

lemmas lookup_simps = map_of_pairs_opt map_of_pairs_opt_append case_map_option

definition reads_entries :: "(string \<times> string \<times> bval) list \<Rightarrow> bool" where
  "reads_entries es \<longleftrightarrow> list_all (\<lambda>(k, s, v). reads s v) es"

lemma reads_entries_simps [simp]:
  "reads_entries []" "reads_entries (e # es) \<longleftrightarrow> reads (fst (snd e)) (snd (snd e)) \<and> reads_entries es"
  "reads_entries (es @ fs) \<longleftrightarrow> reads_entries es \<and> reads_entries fs"
  "reads_entries (opt_entry k f g x) \<longleftrightarrow> (\<forall>v. x = Some v \<longrightarrow> reads (f v) (g v))"
  by (auto simp: reads_entries_def case_prod_unfold opt_entry_def split: option.splits)

lemma reads_dict_entries:
  "reads_entries es \<Longrightarrow> distinct (map fst es) \<Longrightarrow> reads (''d'' @ entries_text es @ ''e'') (BDict (pairs es))"
  unfolding reads_entries_def pairs_def by (rule reads_dict_text)

lemma reads_str [simp]: "reads (encode_string s) (BStr s)"
  by (rule reads_string)

lemma reads_nat: "n < 2 ^ 63 \<Longrightarrow> reads (''i'' @ show_nat n @ ''e'') (BInt (int n))"
  using reads_int [of "int n"] by (simp add: show_int_def)

subsection \<open>Queries\<close>

definition query_ok :: "query_message \<Rightarrow> bool" where
  "query_ok m \<longleftrightarrow> q_kind m = QUERY \<and> q_type m \<noteq> None \<and> id_ok (q_node_id m) \<and>
     pred_option id_ok (q_target m) \<and> pred_option id_ok (q_info_hash m) \<and>
     length (encode_query m) < 2 ^ 64"

definition argument_entries :: "query_message \<Rightarrow> (string \<times> string \<times> bval) list" where
  "argument_entries m =
     str_entry ''id'' (string_of_bytes (q_node_id m)) #
     opt_entry ''target'' (\<lambda>i. encode_string (string_of_bytes i)) (\<lambda>i. BStr (string_of_bytes i)) (q_target m) @
     opt_entry ''info_hash'' (\<lambda>h. encode_string (string_of_bytes h)) (\<lambda>h. BStr (string_of_bytes h)) (q_info_hash m) @
     opt_entry ''port'' (\<lambda>p. ''i'' @ show_nat (unat p) @ ''e'') (\<lambda>p. BInt (int (unat p))) (q_port m) @
     opt_entry ''token'' encode_string BStr (q_token m) @
     opt_entry ''implied_port'' (\<lambda>_. ''i1e'') (\<lambda>_. BInt 1) (if q_implied_port m = Some True then Some () else None)"

definition query_entries :: "query_message \<Rightarrow> (string \<times> string \<times> bval) list" where
  "query_entries m =
     [(''a'', ''d'' @ entries_text (argument_entries m) @ ''e'', BDict (pairs (argument_entries m))),
      str_entry ''q'' (query_name (q_type m)), str_entry ''t'' (q_tid m), str_entry ''y'' ''q'']"

lemma encode_string20: "length bs = 20 \<Longrightarrow> encode_string (string_of_bytes bs) = ''20:'' @ string_of_bytes bs"
  by (simp add: encode_string_def key_texts)

lemma opt_text_cong: "(\<And>v. x = Some v \<Longrightarrow> f v = g v) \<Longrightarrow> opt_text f x = opt_text g x"
  by (simp add: opt_text_def split: option.splits)

lemma argument_text:
  assumes "id_ok (q_node_id m)" "pred_option id_ok (q_target m)" "pred_option id_ok (q_info_hash m)"
  shows "entries_text (argument_entries m) = query_arguments m"
proof -
  have "opt_text (\<lambda>i. encode_string ''target'' @ encode_string (string_of_bytes i)) (q_target m) =
      opt_text (\<lambda>i. ''6:target20:'' @ string_of_bytes i) (q_target m)"
    using assms(2) by (intro opt_text_cong) (simp add: encode_string20 key_texts)
  moreover have "opt_text (\<lambda>i. encode_string ''info_hash'' @ encode_string (string_of_bytes i)) (q_info_hash m) =
      opt_text (\<lambda>i. ''9:info_hash20:'' @ string_of_bytes i) (q_info_hash m)"
    using assms(3) by (intro opt_text_cong) (simp add: encode_string20 key_texts)
  moreover have "opt_text (\<lambda>t. encode_string ''token'' @ encode_string t) (q_token m) =
      opt_text (\<lambda>t. ''5:token'' @ show_nat (length t) @ '':'' @ t) (q_token m)"
    by (intro opt_text_cong) (simp add: key_texts, simp add: encode_string_def)
  moreover have "opt_text (\<lambda>_. encode_string ''implied_port'' @ ''i1e'') (if b then Some () else None) =
      (if b then ''12:implied_porti1e'' else [])" for b
    by (simp add: opt_text_def key_texts)
  ultimately show ?thesis using assms(1)
    by (simp add: argument_entries_def query_arguments_def str_entry_def encode_string20)
      (simp add: key_texts)
qed

lemma query_text:
  assumes "query_ok m"
  shows "encode_query m = bytes_of_string (''d'' @ entries_text (query_entries m) @ ''e'')"
  using assms argument_text [of m]
  by (simp add: query_ok_def encode_query_def query_entries_def str_entry_def)
    (simp add: key_texts, simp add: encode_string_def key_texts show_nat.simps digit_char_def)

lemma length_of_bytes_text: "encode_x = bytes_of_string s \<Longrightarrow> length encode_x < n \<Longrightarrow> length s < n"
  by simp

lemma distinct_opt_entries:
  "distinct (map fst (argument_entries m))"
proof -
  have "set (map fst (opt_entry k f g x)) \<subseteq> {k} \<and> distinct (map fst (opt_entry k f g x))"
    for k and f :: "'a \<Rightarrow> string" and g x by (cases x) (simp_all add: opt_entry_def)
  then show ?thesis
    by (fastforce simp: argument_entries_def str_entry_def opt_entry_def split: option.splits)
qed

lemma unat_16_small: "unat (p :: 16 word) < 2 ^ 63"
proof -
  have "unat p < 2 ^ LENGTH(16)" by (rule unsigned_less)
  then show ?thesis by simp
qed

lemma argument_reads: "reads (''d'' @ entries_text (argument_entries m) @ ''e'') (BDict (pairs (argument_entries m)))"
proof (rule reads_dict_entries [OF _ distinct_opt_entries])
  have "show_nat 1 = ''1''" by code_simp
  then have "reads ''i1e'' (BInt 1)" using reads_nat [of 1] by simp
  then show "reads_entries (argument_entries m)"
    using reads_nat [OF unat_16_small] by (simp add: argument_entries_def str_entry_def)
qed

lemma query_reads: "reads (''d'' @ entries_text (query_entries m) @ ''e'') (BDict (pairs (query_entries m)))"
  using argument_reads [of m] by (intro reads_dict_entries) (simp_all add: query_entries_def str_entry_def)

lemma or_keep_simps [simp]: "or_keep (Some x) y = x" "or_keep None y = y"
  by (simp_all add: or_keep_def)

lemma bencode_to_simps [simp]:
  "bencode_to_string (BStr s) = s" "bencode_to_int (BInt i) = i"
  by (simp_all add: bencode_to_string_def bencode_to_int_def)

lemma member20_Some: "map_of d k = map_option (\<lambda>i. BStr (string_of_bytes i)) x \<Longrightarrow> pred_option id_ok x \<Longrightarrow> member20 k d = x"
  by (cases x) (simp_all add: member20_def del: map_map)

lemma query_type_of_name [simp]: "query_type_of (query_name (Some t)) = Some t"
  by (cases t) (simp_all add: query_type_of_def query_name_def)

lemma decode_encode_query:
  assumes "query_ok m"
  shows "decode_query (encode_query m) =
    Some (Some (m\<lparr>q_implied_port := (if q_implied_port m = Some True then Some True else None)\<rparr>))"
proof -
  let ?a = "pairs (argument_entries m)" and ?d = "pairs (query_entries m)"
  note ok = assms [unfolded query_ok_def]
  obtain t where t: "q_type m = Some t" using ok by blast
  have 1: "member20 ''id'' ?a = Some (q_node_id m)" "member20 ''target'' ?a = q_target m"
      "member20 ''info_hash'' ?a = q_info_hash m"
    using ok by (intro member20_Some; simp add: argument_entries_def str_entry_def lookup_simps del: map_of_append cong: option.case_cong)+
  have 2: "map_of ?a ''port'' = map_option (\<lambda>p. BInt (int (unat p))) (q_port m)"
      "map_of ?a ''token'' = map_option BStr (q_token m)"
      "map_of ?a ''implied_port'' = (if q_implied_port m = Some True then Some (BInt 1) else None)"
    by (simp_all add: argument_entries_def str_entry_def lookup_simps del: map_of_append cong: option.case_cong)
  have "read_arguments ?a (blank_query\<lparr>q_tid := q_tid m, q_type := Some t\<rparr>) =
      m\<lparr>q_implied_port := (if q_implied_port m = Some True then Some True else None)\<rparr>"
    using ok t by (intro query_message.equality)
      (simp_all add: read_arguments_def 1 2 option.map_comp comp_def blank_query_def option.map_ident)
  then have "query_of_dict ?d = Some (m\<lparr>q_implied_port := (if q_implied_port m = Some True then Some True else None)\<rparr>)"
    by (simp add: query_of_dict_def query_entries_def str_entry_def transaction_of_def t)
  moreover have "decode_query (encode_query m) = Some (query_of_dict ?d)"
    using length_of_bytes_text [OF query_text [OF assms], of "2 ^ 64"] ok
    unfolding decode_query_def query_text [OF assms] by (intro decode_reads [OF query_reads]) blast
  ultimately show ?thesis by simp
qed

subsection \<open>Compact lists\<close>

definition refreshed :: "int \<Rightarrow> dht_node \<Rightarrow> dht_node" where
  "refreshed now n = n\<lparr>last_seen := now, last_query := now - 20 * 60000000000, failed_queries := 0\<rparr>"

lemma load16_store16': "load16 (store16 p ! 0) (store16 p ! Suc 0) = p"
  by (simp add: store16_def)

interpretation compact_nodes: fixed_codec compact_node "expand_node now" 26 "\<lambda>n. node_ok n \<and> n = refreshed now n"
  for now
proof
  fix n assume n: "node_ok n \<and> n = refreshed now n"
  then have l: "length (nid n) = 20" "length (nip n) = 4" by (simp_all add: node_ok_def)
  then show "length (compact_node n) = 26" by (simp add: compact_node_def)
  have "expand_node now (compact_node n) = refreshed now n"
    using l by (cases n) (simp add: expand_node_def compact_node_def refreshed_def nth_append load16_store16')
  with n show "expand_node now (compact_node n) = n" by simp
qed simp

interpretation compact_peers: fixed_codec compact_peer "expand_peer now" 6
    "\<lambda>n. length (nip n) = 4 \<and> n = (bare_node (nip n) (nport n))\<lparr>last_seen := now\<rparr>" for now
proof
  fix n assume n: "length (nip n) = 4 \<and> n = (bare_node (nip n) (nport n))\<lparr>last_seen := now\<rparr>"
  then show "length (compact_peer n) = 6" by (simp add: compact_peer_def)
  have "expand_peer now (compact_peer n) = (bare_node (nip n) (nport n))\<lparr>last_seen := now\<rparr>"
    using n by (simp add: expand_peer_def compact_peer_def nth_append load16_store16')
  with n show "expand_peer now (compact_peer n) = n" by simp
qed simp

lemma encode_nodes_refreshed: "encode_nodes (map (refreshed now) ns) = encode_nodes ns"
proof -
  have "compact_node (refreshed now n) = compact_node n" for n by (simp add: compact_node_def refreshed_def)
  then show ?thesis by (simp add: encode_nodes_def comp_def)
qed

lemma decode_encode_nodes: "\<forall>n \<in> set ns. node_ok n \<Longrightarrow> decode_nodes now (encode_nodes ns) = map (refreshed now) ns"
proof -
  assume ok: "\<forall>n \<in> set ns. node_ok n"
  then have "\<forall>n \<in> set (map (refreshed now) ns). node_ok n \<and> n = refreshed now n"
    by (auto simp: refreshed_def node_ok_def)
  from compact_nodes.decode_concat [OF this] show ?thesis
    using encode_nodes_refreshed [of now ns] by (simp add: decode_nodes_def encode_nodes_def)
qed

lemma decode_encode_peers: "\<forall>p \<in> set ps. length (nip p) = 4 \<Longrightarrow>
    decode_peers now (encode_peers ps) = map (\<lambda>p. (bare_node (nip p) (nport p))\<lparr>last_seen := now\<rparr>) ps"
proof -
  let ?f = "\<lambda>p. (bare_node (nip p) (nport p))\<lparr>last_seen := now\<rparr>"
  assume ok: "\<forall>p \<in> set ps. length (nip p) = 4"
  then have ok': "\<forall>p \<in> set (map ?f ps). length (nip p) = 4 \<and> p = (bare_node (nip p) (nport p))\<lparr>last_seen := now\<rparr>"
    by (auto simp: bare_node_def)
  have "compact_peer (?f p) = compact_peer p" for p by (simp add: compact_peer_def bare_node_def)
  then have "encode_peers ps = concat (map compact_peer (map ?f ps))" by (simp add: encode_peers_def comp_def)
  with compact_peers.decode_concat [OF ok'] show ?thesis by (simp only: decode_peers_def)
qed

subsection \<open>Responses\<close>

definition response_ok :: "response_message \<Rightarrow> bool" where
  "response_ok m \<longleftrightarrow> r_kind m = RESPONSE \<and> id_ok (r_node_id m) \<and>
     pred_option (list_all node_ok) (r_nodes m) \<and> pred_option (list_all (\<lambda>p. length (nip p) = 4)) (r_peers m) \<and>
     length (encode_response m) < 2 ^ 64"

text \<open>What a receiver makes of a response: empty lists are not sent, the nodes are new to it, and of
  a peer only the address is sent.\<close>

definition received :: "int \<Rightarrow> response_message \<Rightarrow> response_message" where
  "received now m = m\<lparr>r_nodes := map_option (map (refreshed now)) (nonempty (r_nodes m)),
     r_peers := map_option (map (\<lambda>p. bare_node (nip p) (nport p))) (nonempty (r_peers m))\<rparr>"

definition peer_text :: "dht_node \<Rightarrow> string" where
  "peer_text p = string_of_bytes (nip p @ store16 (nport p))"

definition value_entries :: "response_message \<Rightarrow> (string \<times> string \<times> bval) list" where
  "value_entries m =
     str_entry ''id'' (string_of_bytes (r_node_id m)) #
     opt_entry ''nodes'' (\<lambda>ns. encode_string (string_of_bytes (encode_nodes ns)))
       (\<lambda>ns. BStr (string_of_bytes (encode_nodes ns))) (nonempty (r_nodes m)) @
     opt_entry ''values'' (\<lambda>ps. ''l'' @ concat (map (\<lambda>p. encode_string (peer_text p)) ps) @ ''e'')
       (\<lambda>ps. BList (map (\<lambda>p. BStr (peer_text p)) ps)) (nonempty (r_peers m)) @
     opt_entry ''token'' encode_string BStr (r_token m)"

definition response_entries :: "response_message \<Rightarrow> (string \<times> string \<times> bval) list" where
  "response_entries m =
     [(''r'', ''d'' @ entries_text (value_entries m) @ ''e'', BDict (pairs (value_entries m))),
      str_entry ''t'' (r_tid m), str_entry ''y'' ''r'']"

lemma nonempty_Some: "nonempty x = Some y \<Longrightarrow> x = Some y"
  by (simp add: nonempty_def split: if_splits)

lemma value_text:
  assumes "response_ok m"
  shows "entries_text (value_entries m) = response_values m"
proof -
  have p: "encode_string (peer_text p) = ''6:'' @ string_of_bytes (nip p @ store16 (nport p))"
    if "length (nip p) = 4" for p
    using that by (simp add: encode_string_def peer_text_def key_texts)
  have "concat (map (\<lambda>p. encode_string (peer_text p)) ps) =
      concat (map (\<lambda>p. ''6:'' @ string_of_bytes (nip p @ store16 (nport p))) ps)"
    if "list_all (\<lambda>p. length (nip p) = 4) ps" for ps
    using that by (intro arg_cong [where f = concat] map_cong refl p) (simp add: list_all_iff)
  then have 1: "opt_text (\<lambda>ps. encode_string ''values'' @ ''l'' @
        concat (map (\<lambda>p. encode_string (peer_text p)) ps) @ ''e'') (nonempty (r_peers m)) =
      opt_text (\<lambda>ps. ''6:valuesl'' @ concat (map (\<lambda>p. ''6:'' @
        string_of_bytes (nip p @ store16 (nport p))) ps) @ ''e'') (nonempty (r_peers m))"
    using assms by (intro opt_text_cong) (auto simp add: response_ok_def key_texts dest!: nonempty_Some simp del: map_append)
  have 2: "opt_text (\<lambda>ns. encode_string ''nodes'' @ encode_string (string_of_bytes (encode_nodes ns))) (nonempty (r_nodes m)) =
      opt_text (\<lambda>ns. ''5:nodes'' @ show_nat (length (encode_nodes ns)) @ '':'' @ string_of_bytes (encode_nodes ns))
        (nonempty (r_nodes m))"
    by (intro opt_text_cong) (simp add: key_texts, simp add: encode_string_def)
  have 3: "opt_text (\<lambda>t. encode_string ''token'' @ encode_string t) (r_token m) =
      opt_text (\<lambda>t. ''5:token'' @ show_nat (length t) @ '':'' @ t) (r_token m)"
    by (intro opt_text_cong) (simp add: key_texts, simp add: encode_string_def)
  have "id_ok (r_node_id m)" using assms by (simp add: response_ok_def)
  then show ?thesis
    unfolding value_entries_def response_values_def entries_text_simps entries_text_opt 1 2 3
    by (simp add: str_entry_def encode_string20) (simp add: key_texts)
qed

lemma response_text:
  assumes "response_ok m"
  shows "encode_response m = bytes_of_string (''d'' @ entries_text (response_entries m) @ ''e'')"
  by (simp add: encode_response_def response_entries_def str_entry_def value_text [OF assms])
    (simp add: key_texts, simp add: encode_string_def key_texts show_nat.simps digit_char_def)

lemma concat_read_peer:
  "list_all (\<lambda>p. length (nip p) = 4) ps \<Longrightarrow>
     concat (map read_peer (map (\<lambda>p. BStr (peer_text p)) ps)) = map (\<lambda>p. bare_node (nip p) (nport p)) ps"
proof (induction ps)
  case (Cons p ps)
  have "read_peer (BStr (peer_text p)) = [bare_node (nip p) (nport p)]" if "length (nip p) = 4"
    using that unfolding read_peer_def peer_text_def bencode_to_simps bytes_string_inverse Let_def
    by (simp add: nth_append load16_store16')
  with Cons show ?case by simp
qed simp

lemma distinct_value_entries: "distinct (map fst (value_entries m))"
  by (simp add: value_entries_def str_entry_def opt_entry_def split: option.splits)

lemma value_reads: "reads (''d'' @ entries_text (value_entries m) @ ''e'') (BDict (pairs (value_entries m)))"
proof (rule reads_dict_entries [OF _ distinct_value_entries])
  have "reads (''l'' @ concat (map (\<lambda>p. encode_string (peer_text p)) ps) @ ''e'') (BList (map (\<lambda>p. BStr (peer_text p)) ps))" for ps
    by (rule reads_list) (simp add: list_all2_conv_all_nth)
  then show "reads_entries (value_entries m)"
    by (simp add: value_entries_def str_entry_def)
qed

lemma response_reads: "reads (''d'' @ entries_text (response_entries m) @ ''e'') (BDict (pairs (response_entries m)))"
  using value_reads [of m] by (intro reads_dict_entries) (simp_all add: response_entries_def str_entry_def)

lemma decode_encode_response:
  assumes "response_ok m"
  shows "decode_response now (encode_response m) = Some (Some (received now m))"
proof -
  let ?r = "pairs (value_entries m)" and ?d = "pairs (response_entries m)"
  note ok = assms [unfolded response_ok_def]
  have 1: "member20 ''id'' ?r = Some (r_node_id m)"
    using ok by (intro member20_Some) (simp_all add: value_entries_def str_entry_def)
  have 2: "map_of ?r ''nodes'' = map_option (\<lambda>ns. BStr (string_of_bytes (encode_nodes ns))) (nonempty (r_nodes m))"
      "map_of ?r ''token'' = map_option BStr (r_token m)"
      "map_of ?r ''values'' = map_option (\<lambda>ps. BList (map (\<lambda>p. BStr (peer_text p)) ps)) (nonempty (r_peers m))"
    by (simp_all add: value_entries_def str_entry_def lookup_simps del: map_of_append cong: option.case_cong)
  have n: "map_option (\<lambda>v. decode_nodes now (bytes_of_string (bencode_to_string v))) (map_of ?r ''nodes'') =
      map_option (map (refreshed now)) (nonempty (r_nodes m))"
  proof (cases "nonempty (r_nodes m)")
    case (Some ns)
    then have "\<forall>n \<in> set ns. node_ok n" using ok nonempty_Some by (fastforce simp: list_all_iff)
    then show ?thesis using Some
      unfolding 2 by (simp del: map_map add: decode_encode_nodes)
  qed (simp add: 2)
  have p: "(case map_of ?r ''values'' of
         Some (BList vs) \<Rightarrow> (let ps = concat (map read_peer vs) in if ps = [] then None else Some ps)
       | _ \<Rightarrow> None) = map_option (map (\<lambda>p. bare_node (nip p) (nport p))) (nonempty (r_peers m))"
  proof (cases "nonempty (r_peers m)")
    case (Some ps)
    then have "list_all (\<lambda>p. length (nip p) = 4) ps" "ps \<noteq> []"
      using ok nonempty_Some by (fastforce simp: nonempty_def split: if_splits)+
    then show ?thesis using Some by (simp add: 2 Let_def concat_read_peer del: map_map)
  qed (simp add: 2)
  have "read_values now ?r (blank_response\<lparr>r_tid := r_tid m\<rparr>) = received now m"
    unfolding read_values_def n p using ok
    by (intro response_message.equality)
      (simp_all add: 1 2 received_def blank_response_def option.map_comp comp_def option.map_ident)
  then have "response_of_dict now ?d = Some (received now m)"
    by (simp add: response_of_dict_def response_entries_def str_entry_def transaction_of_def)
  moreover have "decode_response now (encode_response m) = Some (response_of_dict now ?d)"
    using length_of_bytes_text [OF response_text [OF assms], of "2 ^ 64"] ok
    unfolding decode_response_def response_text [OF assms] by (intro decode_reads [OF response_reads]) blast
  ultimately show ?thesis by simp
qed

text \<open>A response is a dictionary without a \<open>q\<close> entry, which the query decoder accepts.\<close>

lemma response_passes_as_query:
  assumes "response_ok m"
  shows "decode_query (encode_response m) = Some (Some (blank_query\<lparr>q_tid := r_tid m\<rparr>))"
proof -
  let ?d = "pairs (response_entries m)"
  have "query_of_dict ?d = Some (blank_query\<lparr>q_tid := r_tid m\<rparr>)"
    by (simp add: query_of_dict_def response_entries_def str_entry_def transaction_of_def)
  moreover have "decode_query (encode_response m) = Some (query_of_dict ?d)"
    using length_of_bytes_text [OF response_text [OF assms], of "2 ^ 64"] assms
    unfolding decode_query_def response_text [OF assms] response_ok_def
    by (intro decode_reads [OF response_reads]) blast
  ultimately show ?thesis by simp
qed

subsection \<open>Errors\<close>

definition error_ok :: "error_message \<Rightarrow> bool" where
  "error_ok m \<longleftrightarrow> e_kind m = ERROR \<and>
     (\<exists>c. e_code m = Some c \<and> - (2 ^ 31) \<le> c \<and> c < 2 ^ 31) \<and> length (encode_error m) < 2 ^ 64"

definition error_entries :: "error_message \<Rightarrow> (string \<times> string \<times> bval) list" where
  "error_entries m =
     [(''e'', ''l'' @ concat [''i'' @ opt_text show_int (e_code m) @ ''e'', encode_string (e_message m)] @ ''e'',
         BList [BInt (or_keep (e_code m) 0), BStr (e_message m)]),
      str_entry ''t'' (e_tid m), str_entry ''y'' ''e'']"

lemma error_text: "encode_error m = bytes_of_string (''d'' @ entries_text (error_entries m) @ ''e'')"
  by (simp add: encode_error_def error_entries_def str_entry_def key_texts)
    (simp add: encode_string_def)

lemma error_reads:
  assumes "error_ok m"
  shows "reads (''d'' @ entries_text (error_entries m) @ ''e'') (BDict (pairs (error_entries m)))"
proof -
  obtain c where c: "e_code m = Some c" "- (2 ^ 63) \<le> c" "c < 2 ^ 63" using assms by (auto simp: error_ok_def)
  have "list_all2 reads [''i'' @ show_int c @ ''e'', encode_string (e_message m)] [BInt c, BStr (e_message m)]"
    using reads_int [OF c(2,3)] by simp
  from reads_list [OF this] show ?thesis
    using c(1) by (intro reads_dict_entries) (simp_all add: error_entries_def str_entry_def opt_text_def)
qed

lemma decode_encode_error:
  assumes "error_ok m"
  shows "decode_error (encode_error m) = Some (Some m)"
proof -
  let ?d = "pairs (error_entries m)"
  obtain c where c: "e_code m = Some c" "- (2 ^ 31) \<le> c" "c < 2 ^ 31" using assms by (auto simp: error_ok_def)
  have "sint (word_of_int c :: 32 word) = c" using c(2,3) by (simp add: sint_sbintrunc' signed_take_bit_int_eq_self)
  then have "error_of_dict ?d = Some m"
    using c(1) assms by (cases m) (simp add: error_of_dict_def error_entries_def str_entry_def transaction_of_def
        blank_error_def error_ok_def)
  moreover have "decode_error (encode_error m) = Some (error_of_dict ?d)"
    using length_of_bytes_text [OF error_text, of m "2 ^ 64"] assms
    unfolding decode_error_def error_text error_ok_def by (intro decode_reads [OF error_reads [OF assms]]) blast
  ultimately show ?thesis by simp
qed

section \<open>The life of a token\<close>

definition rotations :: "token_manager \<Rightarrow> (int \<times> byte list) list \<Rightarrow> token_manager" where
  "rotations tm rs = foldl (\<lambda>tm (t, s). rotate_secrets t s tm) tm rs"

lemma minutes_ge_5: "5 \<le> minutes d \<longleftrightarrow> 5 * 60000000000 \<le> d"
proof -
  have div5: "5 \<le> d div k \<longleftrightarrow> 5 * k \<le> d" if "0 < k" for k :: int
  proof
    assume "5 \<le> d div k"
    then have "5 * k \<le> d div k * k" using that by (intro mult_right_mono) simp_all
    also have "\<dots> \<le> d" using pos_mod_sign [OF that, of d] div_mult_mod_eq [of d k] by linarith
    finally show "5 * k \<le> d" .
  next
    assume "5 * k \<le> d"
    then have "(5 * k) div k \<le> d div k" using that by (rule zdiv_mono1)
    then show "5 \<le> d div k" using that by simp
  qed
  have "\<not> 5 \<le> - (- d div 60000000000)" if "d < 0"
  proof -
    have "0 \<le> - d div 60000000000" using that by (simp add: pos_imp_zdiv_nonneg_iff)
    then show ?thesis by simp
  qed
  then show ?thesis using div5 [of 60000000000] by (auto simp: minutes_def)
qed

lemma rotate_keeps_secret:
  assumes "current_secret tm' = s \<and> last_rotation tm' = t0 \<or>
      previous_secret tm' = s \<and> t0 + 5 * 60000000000 \<le> last_rotation tm'"
    and "now < t0 + 10 * 60000000000"
  shows "current_secret (rotate_secrets now f tm') = s \<and> last_rotation (rotate_secrets now f tm') = t0 \<or>
      previous_secret (rotate_secrets now f tm') = s \<and> t0 + 5 * 60000000000 \<le> last_rotation (rotate_secrets now f tm')"
  using assms by (auto simp: rotate_secrets_def minutes_ge_5)

lemma rotations_keep_secret:
  assumes "current_secret tm' = s \<and> last_rotation tm' = t0 \<or>
      previous_secret tm' = s \<and> t0 + 5 * 60000000000 \<le> last_rotation tm'"
    and "\<forall>(t, f) \<in> set rs. t < t0 + 10 * 60000000000"
  shows "current_secret (rotations tm' rs) = s \<or> previous_secret (rotations tm' rs) = s"
  using assms
proof (induction rs arbitrary: tm')
  case (Cons r rs)
  obtain t f where r: "r = (t, f)" by force
  from Cons.prems r have "t < t0 + 10 * 60000000000" by simp
  from Cons.IH [OF rotate_keeps_secret [OF Cons.prems(1) this]] Cons.prems(2) r show ?case
    by (simp add: rotations_def)
qed (auto simp: rotations_def)

section \<open>Properties\<close>

text \<open>C29: A query survives its encoding: the decoder returns the same query type, transaction id, node
  id, target, info hash, port and token, whatever bytes the strings hold.  Only a false
  \<open>implied_port\<close> is not sent.\<close>

theorem krpc_query_roundtrip:
  "query_ok m \<Longrightarrow> decode_query (encode_query m) =
     Some (Some (m\<lparr>q_implied_port := (if q_implied_port m = Some True then Some True else None)\<rparr>))"
  by (rule decode_encode_query)

definition demo_announce :: query_message where
  "demo_announce = announce_peer_query (replicate 20 7) (replicate 20 255) 6881 ''d1:ee'' ''aa'' True"

theorem krpc_query_roundtrip_witness: "decode_query (encode_query demo_announce) = Some (Some demo_announce)"
proof -
  have "length (encode_query demo_announce) < 200"
    by (simp add: demo_announce_def announce_peer_query_def blank_query_def encode_query_def query_arguments_def
        opt_text_def query_name_def show_nat.simps)
  then have "query_ok demo_announce"
    by (simp add: query_ok_def) (simp add: demo_announce_def announce_peer_query_def blank_query_def)
  from krpc_query_roundtrip [OF this] show ?thesis
    by (simp add: demo_announce_def announce_peer_query_def)
qed

text \<open>A response survives its encoding up to what is not sent: an empty list is left out, the nodes
  arrive with fresh times, of a peer only the address arrives.\<close>

theorem krpc_response_roundtrip:
  "response_ok m \<Longrightarrow> decode_response now (encode_response m) = Some (Some (received now m))"
  by (rule decode_encode_response)

definition demo_response :: response_message where
  "demo_response = (get_peers_with_values (replicate 20 9) [bare_node [127, 0, 0, 1] 51413] ''tok'' ''aa'')
     \<lparr>r_nodes := Some [expand_node 0 (replicate 26 1)]\<rparr>"

theorem krpc_response_roundtrip_witness:
  "decode_response 5 (encode_response demo_response) = Some (Some (received 5 demo_response))"
proof (rule krpc_response_roundtrip)
  have "length (encode_response demo_response) < 200"
    by (simp add: demo_response_def get_peers_with_values_def blank_response_def encode_response_def response_values_def
        opt_text_def nonempty_def bare_node_def encode_nodes_def compact_node_def expand_node_def show_nat.simps)
  moreover have "list_all node_ok [expand_node 0 (replicate 26 1)]" by (simp add: node_ok_def expand_node_def)
  ultimately show "response_ok demo_response"
    by (simp add: response_ok_def) (simp add: demo_response_def get_peers_with_values_def blank_response_def bare_node_def zero_id_def)
qed

text \<open>C32: A token is accepted from the address it was given to for ten minutes after the last change of
  secrets before it was issued, however often and whenever in this time \<open>rotate_secrets\<close> is called.\<close>

theorem token_accepted_in_window:
  "\<forall>(t, fresh) \<in> set rs. t < last_rotation tm + 10 * 60000000000 \<Longrightarrow>
     validate_token (generate_token ip tm) ip (rotations tm rs)"
  using rotations_keep_secret [of tm "current_secret tm" "last_rotation tm" rs]
  by (auto simp: validate_token_def generate_token_def)

theorem token_accepted_in_window_witness:
  "validate_token (generate_token [1, 2, 3, 4] (new_tokens 0 [5] [6])) [1, 2, 3, 4]
     (rotations (new_tokens 0 [5] [6]) [(60000000000, [7]), (300000000000, [8]), (599999999999, [9])])"
  by (rule token_accepted_in_window) (simp add: new_tokens_def)

end
