(* ===== verification/Dht_Client.thy ===== *)
theory Dht_Client
  imports Dht_Protocol
begin

text \<open>
  \<open>src/dht/client.cpp\<close>: the DHT client.  The state holds what the methods share; datagrams sent
  are an output, the calls of the owner's callbacks are a log, the bytes of the routing table
  file are a member.  A \<open>shared_ptr<LookupState>\<close> is an index into the lookups made so far, since
  the active lookups and the pending queries share the object.  A method that may lock a mutex
  its thread already holds, or call the bencode parser, returns an option: \<open>None\<close> is the thread
  that hangs.  The clock is read once per method.
\<close>

section \<open>State\<close>

record torrent_peer =
  tp_ip :: "byte list"
  tp_port :: "16 word"

record stored_peer =
  sp_ip :: "byte list"
  sp_port :: "16 word"
  last_announced :: int

record lookup_state =
  lk_id :: string
  lk_target :: node_id
  lk_type :: query_type
  lk_tokens :: "(string \<times> string) list"
  lk_info_hash :: "byte list option"
  lk_shortlist :: "dht_node list"
  lk_queried :: "string list"
  lk_responding :: "string list"
  lk_in_flight :: nat
  lk_nodes_callback :: "nat option"
  lk_peers_callback :: "nat option"
  lk_announce :: "(byte list \<times> 16 word) option"
  lk_started :: int

text \<open>The callback of a query is the closure \<open>announce\<close> passes: the node, info hash and port to
  announce to once the response brings a token.\<close>

record pending_query =
  pq_tid :: string
  pq_type :: query_type
  pq_sent :: int
  pq_ip :: "byte list"
  pq_port :: "16 word"
  pq_lookup :: "nat option"
  pq_callback :: "(dht_node \<times> byte list \<times> 16 word) option"

datatype client_event =
    Peers_Found nat "byte list" "torrent_peer list"
  | Nodes_Found nat "dht_node list"

record dht_client =
  cl_id :: node_id
  cl_table :: routing_table
  cl_tokens :: token_manager
  cl_counter :: "32 word"
  cl_pending :: "(string \<times> pending_query) list"
  cl_callbacks :: "(string \<times> nat) list"
  cl_stored :: "(string \<times> stored_peer list) list"
  cl_lookups :: "lookup_state list"
  cl_active :: "(string \<times> nat) list"
  cl_rates :: "(string \<times> nat \<times> int) list"
  cl_sent :: "(byte list \<times> byte list \<times> 16 word) list"
  cl_events :: "client_event list"
  cl_dir :: string
  cl_file :: "byte list option"

definition LOOKUP_K :: nat where "LOOKUP_K = 8"
definition LOOKUP_ALPHA :: nat where "LOOKUP_ALPHA = 3"
definition QUERY_TIMEOUT_SECONDS :: int where "QUERY_TIMEOUT_SECONDS = 10"
definition MAX_QUERIES_PER_SECOND :: nat where "MAX_QUERIES_PER_SECOND = 100"

definition bootstrap_nodes :: "(string \<times> 16 word) list" where
  "bootstrap_nodes = [(''router.bittorrent.com'', 6881), (''dht.transmissionbt.com'', 6881),
     (''router.utorrent.com'', 6881), (''dht.aelitis.com'', 6881), (''dht.libtorrent.org'', 25401)]"

definition new_client :: "node_id \<Rightarrow> token_manager \<Rightarrow> dht_client" where
  "new_client i tm = \<lparr>cl_id = i, cl_table = new_table i, cl_tokens = tm, cl_counter = 0, cl_pending = [],
     cl_callbacks = [], cl_stored = [], cl_lookups = [], cl_active = [], cl_rates = [], cl_sent = [],
     cl_events = [], cl_dir = [], cl_file = None\<rparr>"

text \<open>\<open>duration_cast\<close> rounds towards zero.\<close>

definition seconds :: "int \<Rightarrow> int" where
  "seconds d = (if 0 \<le> d then d div 1000000000 else - ((- d) div 1000000000))"

definition node_key_from_endpoint :: "byte list \<Rightarrow> 16 word \<Rightarrow> string" where
  "node_key_from_endpoint ip port = string_of_bytes (ip @ [ucast (drop_bit 8 port), ucast port])"

definition node_key :: "dht_node \<Rightarrow> string" where
  "node_key n = node_key_from_endpoint (nip n) (nport n)"

section \<open>Sending queries\<close>

definition send_message :: "byte list \<Rightarrow> byte list \<Rightarrow> 16 word \<Rightarrow> dht_client \<Rightarrow> dht_client" where
  "send_message data ip port c = c\<lparr>cl_sent := cl_sent c @ [(data, ip, port)]\<rparr>"

definition track_query :: "string \<Rightarrow> pending_query \<Rightarrow> dht_client \<Rightarrow> dht_client" where
  "track_query tid q c = c\<lparr>cl_pending := AList.update tid q (cl_pending c)\<rparr>"

definition get_pending_query :: "string \<Rightarrow> dht_client \<Rightarrow> pending_query option" where
  "get_pending_query tid c = map_of (cl_pending c) tid"

definition remove_pending_query :: "string \<Rightarrow> dht_client \<Rightarrow> dht_client" where
  "remove_pending_query tid c = c\<lparr>cl_pending := AList.delete tid (cl_pending c)\<rparr>"

definition next_tid :: "dht_client \<Rightarrow> string \<times> dht_client" where
  "next_tid c = (fst (generate_tid (cl_counter c)), c\<lparr>cl_counter := snd (generate_tid (cl_counter c))\<rparr>)"

definition mark_sent :: "int \<Rightarrow> node_id \<Rightarrow> dht_client \<Rightarrow> dht_client" where
  "mark_sent now i c = c\<lparr>cl_table := rt_mark_query_sent now i (cl_table c)\<rparr>"

definition send_ping :: "int \<Rightarrow> dht_node \<Rightarrow> dht_client \<Rightarrow> dht_client" where
  "send_ping now node c =
     (let (tid, c1) = next_tid c;
          c2 = track_query tid \<lparr>pq_tid = tid, pq_type = PING, pq_sent = now, pq_ip = nip node, pq_port = nport node,
                 pq_lookup = None, pq_callback = None\<rparr> c1;
          c3 = send_message (encode_query (ping_query (cl_id c) tid)) (nip node) (nport node) c2
      in mark_sent now (nid node) c3)"

definition send_find_node :: "int \<Rightarrow> dht_node \<Rightarrow> node_id \<Rightarrow> nat option \<Rightarrow> dht_client \<Rightarrow> dht_client" where
  "send_find_node now node target lookup c =
     (let (tid, c1) = next_tid c;
          c2 = track_query tid \<lparr>pq_tid = tid, pq_type = FIND_NODE, pq_sent = now, pq_ip = nip node,
                 pq_port = nport node, pq_lookup = lookup, pq_callback = None\<rparr> c1;
          c3 = send_message (encode_query (find_node_query (cl_id c) target tid)) (nip node) (nport node) c2
      in mark_sent now (nid node) c3)"

definition send_get_peers ::
    "int \<Rightarrow> dht_node \<Rightarrow> byte list \<Rightarrow> (dht_node \<times> byte list \<times> 16 word) option \<Rightarrow> nat option \<Rightarrow> dht_client \<Rightarrow> dht_client" where
  "send_get_peers now node info_hash callback lookup c =
     (let (tid, c1) = next_tid c;
          c2 = track_query tid \<lparr>pq_tid = tid, pq_type = GET_PEERS, pq_sent = now, pq_ip = nip node,
                 pq_port = nport node, pq_lookup = lookup, pq_callback = callback\<rparr> c1;
          c3 = send_message (encode_query (get_peers_query (cl_id c) info_hash tid)) (nip node) (nport node) c2
      in mark_sent now (nid node) c3)"

definition send_announce_peer :: "int \<Rightarrow> dht_node \<Rightarrow> byte list \<Rightarrow> 16 word \<Rightarrow> string \<Rightarrow> dht_client \<Rightarrow> dht_client" where
  "send_announce_peer now node info_hash port token c =
     (let (tid, c1) = next_tid c;
          c2 = track_query tid \<lparr>pq_tid = tid, pq_type = ANNOUNCE_PEER, pq_sent = now, pq_ip = nip node,
                 pq_port = nport node, pq_lookup = None, pq_callback = None\<rparr> c1
      in send_message (encode_query (announce_peer_query (cl_id c) info_hash port token tid False))
           (nip node) (nport node) c2)"

section \<open>Iterative lookups\<close>

text \<open>The order and the cuts of \<open>continue_lookup\<close>; \<open>std::sort\<close> may order nodes with the same id as it
  likes, the model keeps their order.  \<open>std::unique\<close> keeps the first of a run.\<close>

function unique_ids :: "dht_node list \<Rightarrow> dht_node list" where
  "unique_ids [] = []"
| "unique_ids (n # ns) = n # unique_ids (dropWhile (\<lambda>m. nid m = nid n) ns)"
  by pat_completeness auto
termination
  by (relation "measure length") (auto simp: le_imp_less_Suc length_dropWhile_le)

definition trim_shortlist :: "lookup_state \<Rightarrow> dht_node list" where
  "trim_shortlist l =
     (let s = unique_ids (sort_key (\<lambda>n. distance (nid n) (lk_target l)) (lk_shortlist l))
      in if LOOKUP_K * 4 < length s then take (LOOKUP_K * 4) s else s)"

definition active_count :: "lookup_state \<Rightarrow> nat" where
  "active_count l = length (filter (\<lambda>n. node_key n \<in> set (lk_queried l)) (take LOOKUP_K (lk_shortlist l)))"

fun pick_nodes :: "dht_node list \<Rightarrow> lookup_state \<Rightarrow> dht_node list \<times> lookup_state" where
  "pick_nodes [] l = ([], l)"
| "pick_nodes (n # ns) l =
     (if LOOKUP_ALPHA \<le> lk_in_flight l then ([], l)
      else if node_key n \<in> set (lk_queried l) then pick_nodes ns l
      else let (q, l') = pick_nodes ns (l\<lparr>lk_queried := node_key n # lk_queried l, lk_in_flight := lk_in_flight l + 1\<rparr>)
           in (n # q, l'))"

definition query_one :: "int \<Rightarrow> nat \<Rightarrow> lookup_state \<Rightarrow> dht_node \<Rightarrow> dht_client \<Rightarrow> dht_client" where
  "query_one now a l node c =
     (if lk_type l = FIND_NODE then send_find_node now node (lk_target l) (Some a) c
      else case lk_info_hash l of
          Some h \<Rightarrow> if lk_type l = GET_PEERS then send_get_peers now node h None (Some a) c else c
        | None \<Rightarrow> c)"

text \<open>The completion callback that \<open>announce\<close> installs.\<close>

definition announce_to :: "int \<Rightarrow> lookup_state \<Rightarrow> byte list \<times> 16 word \<Rightarrow> dht_node \<Rightarrow> dht_client \<Rightarrow> dht_client" where
  "announce_to now l a node c =
     (case map_of (lk_tokens l) (node_key node) of
        Some token \<Rightarrow> send_announce_peer now node (fst a) (snd a) token c
      | None \<Rightarrow> send_get_peers now node (fst a) (Some (node, fst a, snd a)) None c)"

definition finish_lookup :: "int \<Rightarrow> lookup_state \<Rightarrow> dht_client \<Rightarrow> dht_client" where
  "finish_lookup now l c0 =
     (let c = c0\<lparr>cl_active := AList.delete (lk_id l) (cl_active c0)\<rparr> in
      if lk_type l = FIND_NODE \<and> lk_nodes_callback l \<noteq> None
      then c\<lparr>cl_events := cl_events c @ [Nodes_Found (the (lk_nodes_callback l)) (lk_shortlist l)]\<rparr>
      else if lk_type l = GET_PEERS \<and> lk_info_hash l \<noteq> None
      then (case lk_announce l of Some a \<Rightarrow> fold (announce_to now l a) (lk_shortlist l) c | None \<Rightarrow> c)
      else c)"

text \<open>\<open>held\<close>: the calling thread holds \<open>lookups_mutex_\<close>.\<close>

definition continue_lookup :: "int \<Rightarrow> bool \<Rightarrow> nat \<Rightarrow> dht_client \<Rightarrow> dht_client option" where
  "continue_lookup now held a c =
     (let l0 = cl_lookups c ! a;
          l1 = l0\<lparr>lk_shortlist := trim_shortlist l0\<rparr>;
          active = active_count l1;
          (to_query, l2) = pick_nodes (lk_shortlist l1) l1;
          c1 = fold (query_one now a l2) to_query (c\<lparr>cl_lookups := (cl_lookups c)[a := l2]\<rparr>)
      in if lk_in_flight l2 = 0 \<and> active = card (set (lk_queried l2))
         then if held then None else Some (finish_lookup now l2 c1)
         else Some c1)"

definition start_lookup :: "int \<Rightarrow> lookup_state \<Rightarrow> dht_client \<Rightarrow> dht_client option" where
  "start_lookup now l c =
     (let a = length (cl_lookups c)
      in continue_lookup now True a
           (c\<lparr>cl_lookups := cl_lookups c @ [l], cl_active := AList.update (lk_id l) a (cl_active c)\<rparr>))"

definition new_lookup :: "int \<Rightarrow> string \<Rightarrow> node_id \<Rightarrow> query_type \<Rightarrow> routing_table \<Rightarrow> lookup_state" where
  "new_lookup now tid target ty rt =
     \<lparr>lk_id = tid, lk_target = target, lk_type = ty, lk_tokens = [], lk_info_hash = None,
       lk_shortlist = find_closest_nodes now target LOOKUP_K rt, lk_queried = [], lk_responding = [],
       lk_in_flight = 0, lk_nodes_callback = None, lk_peers_callback = None, lk_announce = None, lk_started = now\<rparr>"

definition iterative_find_node :: "int \<Rightarrow> node_id \<Rightarrow> dht_client \<Rightarrow> dht_client option" where
  "iterative_find_node now target c =
     (let (tid, c1) = next_tid c in start_lookup now (new_lookup now tid target FIND_NODE (cl_table c)) c1)"

definition iterative_get_peers :: "int \<Rightarrow> byte list \<Rightarrow> nat \<Rightarrow> dht_client \<Rightarrow> dht_client option" where
  "iterative_get_peers now info_hash callback c =
     (let (tid, c1) = next_tid c
      in start_lookup now ((new_lookup now tid info_hash GET_PEERS (cl_table c))
           \<lparr>lk_info_hash := Some info_hash, lk_peers_callback := Some callback\<rparr>) c1)"

definition announce :: "int \<Rightarrow> byte list \<Rightarrow> 16 word \<Rightarrow> dht_client \<Rightarrow> dht_client option" where
  "announce now info_hash port c =
     (let (tid, c1) = next_tid c
      in start_lookup now ((new_lookup now tid info_hash GET_PEERS (cl_table c))
           \<lparr>lk_info_hash := Some info_hash, lk_announce := Some (info_hash, port)\<rparr>) c1)"

definition find_peers :: "int \<Rightarrow> byte list \<Rightarrow> nat \<Rightarrow> dht_client \<Rightarrow> dht_client option" where
  "find_peers now info_hash callback c =
     iterative_get_peers now info_hash callback
       (c\<lparr>cl_callbacks := AList.update (string_of_bytes info_hash) callback (cl_callbacks c)\<rparr>)"

fun extend_shortlist :: "string set \<Rightarrow> dht_node list \<Rightarrow> dht_node list \<Rightarrow> dht_node list" where
  "extend_shortlist seen short [] = short"
| "extend_shortlist seen short (n # ns) =
     (if node_key n \<in> seen then extend_shortlist seen short ns
      else extend_shortlist (insert (node_key n) seen) (short @ [n]) ns)"

definition note_response :: "string \<Rightarrow> response_message \<Rightarrow> lookup_state \<Rightarrow> lookup_state" where
  "note_response key r l =
     (let l1 = l\<lparr>lk_responding := List.insert key (lk_responding l)\<rparr>;
          l2 = (case r_token r of Some t \<Rightarrow> l1\<lparr>lk_tokens := AList.update key t (lk_tokens l1)\<rparr> | None \<Rightarrow> l1);
          l3 = (if 0 < lk_in_flight l2 then l2\<lparr>lk_in_flight := lk_in_flight l2 - 1\<rparr> else l2)
      in case r_nodes r of
           Some ns \<Rightarrow> l3\<lparr>lk_shortlist := extend_shortlist (node_key ` set (lk_shortlist l3)) (lk_shortlist l3) ns\<rparr>
         | None \<Rightarrow> l3)"

definition handle_lookup_response :: "int \<Rightarrow> string \<Rightarrow> response_message \<Rightarrow> dht_client \<Rightarrow> dht_client option" where
  "handle_lookup_response now tid r c =
     (case get_pending_query tid c of
        None \<Rightarrow> Some c
      | Some q \<Rightarrow> (case pq_lookup q of
            None \<Rightarrow> Some c
          | Some a \<Rightarrow> continue_lookup now False a
              (c\<lparr>cl_lookups := (cl_lookups c)[a := note_response (node_key_from_endpoint (pq_ip q) (pq_port q)) r
                   (cl_lookups c ! a)]\<rparr>)))"

section \<open>Stored peers\<close>

fun touch_peer :: "int \<Rightarrow> byte list \<Rightarrow> 16 word \<Rightarrow> stored_peer list \<Rightarrow> stored_peer list option" where
  "touch_peer now ip port [] = None"
| "touch_peer now ip port (p # ps) =
     (if sp_ip p = ip \<and> sp_port p = port then Some (p\<lparr>last_announced := now\<rparr> # ps)
      else map_option ((#) p) (touch_peer now ip port ps))"

definition add_stored :: "int \<Rightarrow> byte list \<Rightarrow> 16 word \<Rightarrow> stored_peer list \<Rightarrow> stored_peer list" where
  "add_stored now ip port ps =
     (case touch_peer now ip port ps of
        Some qs \<Rightarrow> qs
      | None \<Rightarrow> (if 100 \<le> length ps then tl ps else ps) @ [\<lparr>sp_ip = ip, sp_port = port, last_announced = now\<rparr>])"

definition or_nil :: "'a list option \<Rightarrow> 'a list" where
  "or_nil x = (case x of None \<Rightarrow> [] | Some ys \<Rightarrow> ys)"

definition store_peer :: "int \<Rightarrow> byte list \<Rightarrow> byte list \<Rightarrow> 16 word \<Rightarrow> dht_client \<Rightarrow> dht_client" where
  "store_peer now info_hash ip port c =
     (let key = string_of_bytes info_hash in
      c\<lparr>cl_stored := AList.update key (add_stored now ip port (or_nil (map_of (cl_stored c) key))) (cl_stored c)\<rparr>)"

definition expire_peers :: "int \<Rightarrow> dht_client \<Rightarrow> dht_client" where
  "expire_peers now c =
     c\<lparr>cl_stored := filter (\<lambda>(k, ps). ps \<noteq> [])
        (map (\<lambda>(k, ps). (k, filter (\<lambda>p. \<not> 30 * 60000000000 < now - last_announced p) ps)) (cl_stored c))\<rparr>"

section \<open>Incoming messages\<close>

text \<open>What reading an uninitialised query type yields is the argument \<open>junk\<close>; \<open>None\<close> is a value outside
  the enumeration, for which the switch does nothing.\<close>

definition handle_query :: "int \<Rightarrow> query_type option \<Rightarrow> query_message \<Rightarrow> byte list \<Rightarrow> 16 word \<Rightarrow> dht_client \<Rightarrow> dht_client" where
  "handle_query now junk q ip port c0 =
     (let c = c0\<lparr>cl_table := rt_add_node now ((bare_node ip port)\<lparr>nid := q_node_id q, last_seen := now\<rparr>) (cl_table c0)\<rparr>;
          ty = (case q_type q of Some t \<Rightarrow> Some t | None \<Rightarrow> junk)
      in case ty of
           None \<Rightarrow> c
         | Some PING \<Rightarrow> send_message (encode_response (ping_response (cl_id c) (q_tid q))) ip port c
         | Some FIND_NODE \<Rightarrow>
             (case q_target q of None \<Rightarrow> c
              | Some t \<Rightarrow> send_message (encode_response
                    (find_node_response (cl_id c) (find_closest_nodes now t 8 (cl_table c)) (q_tid q))) ip port c)
         | Some GET_PEERS \<Rightarrow>
             (case q_info_hash q of None \<Rightarrow> c
              | Some h \<Rightarrow>
                  (let peers = or_nil (map_of (cl_stored c) (string_of_bytes h));
                       token = generate_token ip (cl_tokens c)
                   in if peers \<noteq> []
                      then send_message (encode_response (get_peers_with_values (cl_id c)
                             (map (\<lambda>p. bare_node (sp_ip p) (sp_port p)) peers) token (q_tid q))) ip port c
                      else send_message (encode_response (get_peers_with_nodes (cl_id c)
                             (find_closest_nodes now h 8 (cl_table c)) token (q_tid q))) ip port c))
         | Some ANNOUNCE_PEER \<Rightarrow>
             (case (q_info_hash q, q_token q) of
                (Some h, Some token) \<Rightarrow>
                  if validate_token token ip (cl_tokens c)
                  then send_message (encode_response (announce_peer_response (cl_id c) (q_tid q))) ip port
                         (store_peer now h ip (case q_port q of Some p \<Rightarrow> p | None \<Rightarrow> port) c)
                  else send_message (encode_error (protocol_error (q_tid q) ''Invalid token'')) ip port c
              | _ \<Rightarrow> c))"

definition run_callback :: "int \<Rightarrow> response_message \<Rightarrow> pending_query \<Rightarrow> dht_client \<Rightarrow> dht_client" where
  "run_callback now r q c =
     (case (pq_callback q, r_token r) of
        (Some (node, h, port), Some token) \<Rightarrow> send_announce_peer now node h port token c
      | _ \<Rightarrow> c)"

definition report_peers :: "response_message \<Rightarrow> pending_query \<Rightarrow> dht_client \<Rightarrow> dht_client" where
  "report_peers r q c =
     (case pq_lookup q of
        None \<Rightarrow> c
      | Some a \<Rightarrow>
          (case (r_peers r, lk_info_hash (cl_lookups c ! a)) of
             (Some ps, Some h) \<Rightarrow>
               (let tps = map (\<lambda>p. \<lparr>tp_ip = nip p, tp_port = nport p\<rparr>) ps;
                    first = (case map_of (cl_callbacks c) (string_of_bytes h) of Some k \<Rightarrow> [Peers_Found k h tps] | None \<Rightarrow> []);
                    second = (case lk_peers_callback (cl_lookups c ! a) of Some k \<Rightarrow> [Peers_Found k h tps] | None \<Rightarrow> [])
                in c\<lparr>cl_events := cl_events c @ first @ second\<rparr>)
           | _ \<Rightarrow> c))"

definition handle_response :: "int \<Rightarrow> response_message \<Rightarrow> dht_client \<Rightarrow> dht_client option" where
  "handle_response now r c =
     (case get_pending_query (r_tid r) c of
        None \<Rightarrow> Some c
      | Some q \<Rightarrow>
          (let node = (bare_node (pq_ip q) (pq_port q))\<lparr>nid := r_node_id r, last_seen := now\<rparr>;
               c1 = c\<lparr>cl_table := rt_update_last_seen now (nid node) (rt_add_node now node (cl_table c))\<rparr>;
               c2 = run_callback now r q c1
           in map_option
                (\<lambda>c3. let c4 = c3\<lparr>cl_table := foldl (\<lambda>t n. rt_add_node now n t) (cl_table c3) (or_nil (r_nodes r))\<rparr>
                      in remove_pending_query (r_tid r) (report_peers r q c4))
                (if pq_lookup q \<noteq> None then handle_lookup_response now (r_tid r) r c2 else Some c2)))"

definition handle_error :: "error_message \<Rightarrow> dht_client \<Rightarrow> dht_client" where
  "handle_error e c = (if get_pending_query (e_tid e) c \<noteq> None then remove_pending_query (e_tid e) c else c)"

definition check_rate_limit :: "int \<Rightarrow> byte list \<Rightarrow> dht_client \<Rightarrow> bool \<times> dht_client" where
  "check_rate_limit now ip c =
     (let key = string_of_bytes ip;
          fresh = (True, c\<lparr>cl_rates := AList.update key (1, now) (cl_rates c)\<rparr>)
      in case map_of (cl_rates c) key of
           None \<Rightarrow> fresh
         | Some (n, t) \<Rightarrow>
             if 1 \<le> seconds (now - t) then fresh
             else if MAX_QUERIES_PER_SECOND \<le> n then (False, c)
             else (True, c\<lparr>cl_rates := AList.update key (n + 1, t) (cl_rates c)\<rparr>))"

text \<open>The body of \<open>run\<close> for a datagram.\<close>

definition receive_datagram ::
    "int \<Rightarrow> query_type option \<Rightarrow> byte list \<Rightarrow> byte list \<Rightarrow> 16 word \<Rightarrow> dht_client \<Rightarrow> dht_client option" where
  "receive_datagram now junk data ip port c0 =
     (let (ok, c) = check_rate_limit now ip c0 in
      if \<not> ok then Some c
      else case decode_query data of
          None \<Rightarrow> None
        | Some (Some q) \<Rightarrow> Some (handle_query now junk q ip port c)
        | Some None \<Rightarrow>
            (case decode_response now data of
               None \<Rightarrow> None
             | Some (Some r) \<Rightarrow> handle_response now r c
             | Some None \<Rightarrow>
                 (case decode_error data of
                    None \<Rightarrow> None
                  | Some (Some e) \<Rightarrow> Some (handle_error e c)
                  | Some None \<Rightarrow> Some c)))"

section \<open>Maintenance and start\<close>

definition cleanup_expired_queries :: "int \<Rightarrow> dht_client \<Rightarrow> dht_client" where
  "cleanup_expired_queries now c =
     c\<lparr>cl_pending := filter (\<lambda>(t, q). \<not> QUERY_TIMEOUT_SECONDS < seconds (now - pq_sent q)) (cl_pending c)\<rparr>"

definition refresh_routing_table :: "int \<Rightarrow> dht_client \<Rightarrow> dht_client" where
  "refresh_routing_table now c = fold (send_ping now) (get_nodes_needing_refresh now (cl_table c)) c"

definition check_node_health :: "int \<Rightarrow> dht_client \<Rightarrow> dht_client" where
  "check_node_health now c =
     c\<lparr>cl_table := fold (\<lambda>n t. if get_state now n = Bad then rt_remove_node (nid n) t else t)
        (get_all_nodes (cl_table c)) (cl_table c)\<rparr>"

text \<open>\<open>ok\<close>: the file can be opened for writing.\<close>

definition save_routing_table :: "int \<Rightarrow> bool \<Rightarrow> dht_client \<Rightarrow> dht_client" where
  "save_routing_table now ok c =
     (if cl_dir c = [] \<or> \<not> ok then c else c\<lparr>cl_file := Some (rt_serialize now (cl_table c))\<rparr>)"

definition load_routing_table :: "int \<Rightarrow> dht_client \<Rightarrow> bool \<times> dht_client" where
  "load_routing_table now c =
     (case cl_file c of None \<Rightarrow> (False, c)
      | Some data \<Rightarrow> (let (ok, t) = rt_deserialize now data (cl_table c) in (ok, c\<lparr>cl_table := t\<rparr>)))"

definition maintenance_round :: "int \<Rightarrow> byte list \<Rightarrow> bool \<Rightarrow> dht_client \<Rightarrow> dht_client" where
  "maintenance_round now fresh ok c0 =
     (let c1 = cleanup_expired_queries now c0;
          c2 = c1\<lparr>cl_tokens := rotate_secrets now fresh (cl_tokens c1)\<rparr>
      in save_routing_table now ok (expire_peers now (check_node_health now (refresh_routing_table now c2))))"

text \<open>\<open>bootstrap\<close> before and after it sleeps; the addresses of the routers and the random ids given to
  them are arguments.\<close>

definition bootstrap_send :: "int \<Rightarrow> (string \<Rightarrow> byte list list) \<Rightarrow> (string \<Rightarrow> byte list \<Rightarrow> node_id) \<Rightarrow> dht_client \<Rightarrow> dht_client" where
  "bootstrap_send now resolve random_id c =
     (let nodes = get_all_nodes (cl_table c) in
      if nodes \<noteq> [] then fold (send_ping now) nodes c
      else fold (\<lambda>(host, port). fold (\<lambda>ip. send_find_node now
             ((bare_node ip port)\<lparr>nid := random_id host ip, last_seen := now\<rparr>) (cl_id c) None) (resolve host))
             bootstrap_nodes c)"

definition bootstrap_finish :: "int \<Rightarrow> dht_client \<Rightarrow> dht_client option" where
  "bootstrap_finish now c = iterative_find_node now (cl_id c) c"

section \<open>Starting a lookup\<close>

lemma unique_ids_nonempty: "ns \<noteq> [] \<Longrightarrow> unique_ids ns \<noteq> []"
  by (cases ns) simp_all

lemma trim_nonempty: "trim_shortlist l \<noteq> [] \<longleftrightarrow> lk_shortlist l \<noteq> []"
proof
  assume "lk_shortlist l \<noteq> []"
  then have "sort_key (\<lambda>n. distance (nid n) (lk_target l)) (lk_shortlist l) \<noteq> []"
    by (metis length_sort length_0_conv)
  then show "trim_shortlist l \<noteq> []"
    using unique_ids_nonempty by (simp add: trim_shortlist_def Let_def LOOKUP_K_def)
qed (auto simp: trim_shortlist_def LOOKUP_K_def)

lemma pick_nodes_flight: "lk_in_flight l \<le> lk_in_flight (snd (pick_nodes ns l))"
  by (induction ns l rule: pick_nodes.induct) (auto simp: split_beta)

lemma pick_nodes_first:
  "ns \<noteq> [] \<Longrightarrow> lk_in_flight l = 0 \<Longrightarrow> lk_queried l = [] \<Longrightarrow> 0 < lk_in_flight (snd (pick_nodes ns l))"
  using pick_nodes_flight [of "l\<lparr>lk_queried := [node_key (hd ns)], lk_in_flight := 1\<rparr>" "tl ns"]
  by (cases ns) (auto simp: LOOKUP_ALPHA_def split_beta)

lemma start_lookup_iff:
  assumes "lk_in_flight l = 0" "lk_queried l = []"
  shows "start_lookup now l c \<noteq> None \<longleftrightarrow> lk_shortlist l \<noteq> []"
proof -
  let ?a = "length (cl_lookups c)" and ?c = "c\<lparr>cl_lookups := cl_lookups c @ [l],
    cl_active := AList.update (lk_id l) (length (cl_lookups c)) (cl_active c)\<rparr>"
  let ?l1 = "l\<lparr>lk_shortlist := trim_shortlist l\<rparr>"
  have l: "cl_lookups ?c ! ?a = l" by simp
  have s: "start_lookup now l c = continue_lookup now True ?a ?c" by (simp add: start_lookup_def Let_def)
  show ?thesis
  proof (cases "lk_shortlist l = []")
    case True
    then have "trim_shortlist l = []" using trim_nonempty [of l] by simp
    then show ?thesis using assms True
      unfolding s continue_lookup_def l by (simp add: Let_def active_count_def)
  next
    case False
    then have "0 < lk_in_flight (snd (pick_nodes (lk_shortlist ?l1) ?l1))"
      using assms trim_nonempty [of l] by (intro pick_nodes_first) simp_all
    then show ?thesis using False unfolding s continue_lookup_def l by (simp add: Let_def split_beta)
  qed
qed

text \<open>A lookup that starts with no good node in the routing table never returns: \<open>start_lookup\<close> holds
  \<open>lookups_mutex_\<close> when \<open>continue_lookup\<close>, finding nothing to ask, locks it again.  With a good
  node it returns.  The same holds for \<open>find_peers\<close> and \<open>announce\<close>.\<close>

theorem lookup_starts_iff_good_node:
  "(iterative_find_node now target c \<noteq> None \<longleftrightarrow> find_closest_nodes now target LOOKUP_K (cl_table c) \<noteq> []) \<and>
   (find_peers now info_hash k c \<noteq> None \<longleftrightarrow> find_closest_nodes now info_hash LOOKUP_K (cl_table c) \<noteq> []) \<and>
   (announce now info_hash port c \<noteq> None \<longleftrightarrow> find_closest_nodes now info_hash LOOKUP_K (cl_table c) \<noteq> [])"
proof -
  have n: "lk_in_flight (new_lookup now tid t ty rt) = 0" "lk_queried (new_lookup now tid t ty rt) = []"
    "lk_shortlist (new_lookup now tid t ty rt) = find_closest_nodes now t LOOKUP_K rt" for tid t ty rt
    by (simp_all add: new_lookup_def)
  show ?thesis
    unfolding iterative_find_node_def find_peers_def iterative_get_peers_def announce_def next_tid_def prod.case Let_def
    using n by (intro conjI start_lookup_iff [THEN trans]) simp_all
qed

section \<open>Responses\<close>

text \<open>The receiving loop never handles a response: whatever the uninitialised query type reads as,
  a well-formed response from an address within its rate is taken for a query of the zero id,
  the pending queries and the lookups stay as they are and no callback is called.\<close>

theorem responses_taken_for_queries:
  "response_ok r \<Longrightarrow> \<exists>c'. receive_datagram now junk (encode_response r) ip port c = Some c' \<and>
     cl_pending c' = cl_pending c \<and> cl_lookups c' = cl_lookups c \<and> cl_active c' = cl_active c \<and>
     cl_events c' = cl_events c \<and>
     cl_table c' = (if fst (check_rate_limit now ip c)
       then rt_add_node now ((bare_node ip port)\<lparr>last_seen := now\<rparr>) (cl_table c) else cl_table c)"
proof -
  assume r: "response_ok r"
  obtain ok d where d: "check_rate_limit now ip c = (ok, d)" by force
  then have same: "cl_pending d = cl_pending c" "cl_lookups d = cl_lookups c" "cl_active d = cl_active c"
      "cl_events d = cl_events c" "cl_table d = cl_table c"
    by (auto simp: check_rate_limit_def Let_def split: option.splits prod.splits if_splits)
  let ?q = "blank_query\<lparr>q_tid := r_tid r\<rparr>" and ?n = "(bare_node ip port)\<lparr>last_seen := now\<rparr>"
  have n: "?n\<lparr>nid := zero_id\<rparr> = ?n" by (simp add: bare_node_def)
  have "handle_query now junk ?q ip port d = d\<lparr>cl_table := rt_add_node now ?n (cl_table d)\<rparr> \<or>
      (\<exists>m. handle_query now junk ?q ip port d = send_message m ip port (d\<lparr>cl_table := rt_add_node now ?n (cl_table d)\<rparr>))"
    by (cases junk; cases "the junk") (auto simp: handle_query_def blank_query_def Let_def bare_node_def)
  then have "cl_pending (handle_query now junk ?q ip port d) = cl_pending d"
    "cl_lookups (handle_query now junk ?q ip port d) = cl_lookups d"
    "cl_active (handle_query now junk ?q ip port d) = cl_active d"
    "cl_events (handle_query now junk ?q ip port d) = cl_events d"
    "cl_table (handle_query now junk ?q ip port d) = rt_add_node now ?n (cl_table d)"
    by (auto simp: send_message_def)
  then show ?thesis using same
    by (simp add: receive_datagram_def d response_passes_as_query [OF r])
qed

theorem responses_taken_for_queries_witness:
  "\<exists>c'. receive_datagram 7 None (encode_response (ping_response (replicate 20 9) ''aa'')) [1, 2, 3, 4] 80
       (new_client (replicate 20 1) (new_tokens 0 [] [])) = Some c' \<and>
     cl_pending c' = cl_pending (new_client (replicate 20 1) (new_tokens 0 [] [])) \<and>
     cl_lookups c' = cl_lookups (new_client (replicate 20 1) (new_tokens 0 [] [])) \<and>
     cl_active c' = cl_active (new_client (replicate 20 1) (new_tokens 0 [] [])) \<and>
     cl_events c' = cl_events (new_client (replicate 20 1) (new_tokens 0 [] [])) \<and>
     cl_table c' = (if fst (check_rate_limit 7 [1, 2, 3, 4] (new_client (replicate 20 1) (new_tokens 0 [] [])))
       then rt_add_node 7 ((bare_node [1, 2, 3, 4] 80)\<lparr>last_seen := 7\<rparr>) (cl_table (new_client (replicate 20 1) (new_tokens 0 [] [])))
       else cl_table (new_client (replicate 20 1) (new_tokens 0 [] [])))"
proof (rule responses_taken_for_queries)
  have "length (encode_response (ping_response (replicate 20 9) ''aa'')) < 100"
    by (simp add: ping_response_def blank_response_def encode_response_def response_values_def
        opt_text_def nonempty_def show_nat.simps)
  then show "response_ok (ping_response (replicate 20 9) ''aa'')"
    by (simp add: response_ok_def) (simp add: ping_response_def blank_response_def)
qed

section \<open>Rate limiting\<close>

fun accepted :: "byte list \<Rightarrow> (int \<times> byte list) list \<Rightarrow> dht_client \<Rightarrow> nat" where
  "accepted ip [] c = 0"
| "accepted ip ((t, i) # calls) c =
     (let (ok, c') = check_rate_limit t i c in (if i = ip \<and> ok then 1 else 0) + accepted ip calls c')"

lemma string_of_bytes_inj [simp]: "string_of_bytes a = string_of_bytes b \<longleftrightarrow> a = b"
  by (metis bytes_string_inverse(1))

lemma check_rate_other:
  "i \<noteq> ip \<Longrightarrow> map_of (cl_rates (snd (check_rate_limit t i c))) (string_of_bytes ip) = map_of (cl_rates c) (string_of_bytes ip)"
  by (simp add: check_rate_limit_def Let_def AList.update_conv' split: option.splits prod.splits)

lemma seconds_small: "- 1000000000 < d \<Longrightarrow> d < 1000000000 \<Longrightarrow> seconds d = 0"
  by (simp add: seconds_def)

lemma accepted_counting:
  assumes "\<forall>(t, i) \<in> set calls. t0 \<le> t \<and> t < t0 + 1000000000"
    and "map_of (cl_rates c) (string_of_bytes ip) = Some (n, t1)" "t0 \<le> t1" "t1 < t0 + 1000000000"
    and "n \<le> MAX_QUERIES_PER_SECOND"
  shows "accepted ip calls c = min (MAX_QUERIES_PER_SECOND - n) (length (filter (\<lambda>(t, i). i = ip) calls))"
  using assms
proof (induction calls arbitrary: c n)
  case (Cons call calls)
  obtain t i where call: "call = (t, i)" by force
  obtain ok c' where ch: "check_rate_limit t i c = (ok, c')" by force
  show ?case
  proof (cases "i = ip")
    case False
    then have "map_of (cl_rates c') (string_of_bytes ip) = Some (n, t1)"
      using check_rate_other [of i ip t c] ch Cons.prems(2) by simp
    then have "accepted ip calls c' = min (MAX_QUERIES_PER_SECOND - n) (length (filter (\<lambda>(t, i). i = ip) calls))"
      using Cons by (intro Cons.IH) auto
    with False ch call show ?thesis by simp
  next
    case True
    have s: "seconds (t - t1) = 0" using Cons.prems call by (intro seconds_small) auto
    show ?thesis
    proof (cases "MAX_QUERIES_PER_SECOND \<le> n")
      case full: True
      then have "ok = False" "c' = c" using ch Cons.prems(2) s True by (simp_all add: check_rate_limit_def)
      moreover have "accepted ip calls c = min (MAX_QUERIES_PER_SECOND - n) (length (filter (\<lambda>(t, i). i = ip) calls))"
        using Cons by (intro Cons.IH) auto
      ultimately show ?thesis using True ch call full by simp
    next
      case room: False
      then have c': "ok" "map_of (cl_rates c') (string_of_bytes ip) = Some (n + 1, t1)"
        using ch Cons.prems(2) s True by (auto simp: check_rate_limit_def AList.update_conv')
      have "accepted ip calls c' = min (MAX_QUERIES_PER_SECOND - (n + 1)) (length (filter (\<lambda>(t, i). i = ip) calls))"
        using Cons c'(2) room by (intro Cons.IH) auto
      with True ch call c' room show ?thesis by simp
    qed
  qed
qed simp

lemma accepted_from_fresh:
  assumes "\<forall>(t, i) \<in> set calls. t0 \<le> t \<and> t < t0 + 1000000000"
    and "\<forall>n t1. map_of (cl_rates c) (string_of_bytes ip) = Some (n, t1) \<longrightarrow> t1 + 1000000000 \<le> t0"
  shows "accepted ip calls c = min MAX_QUERIES_PER_SECOND (length (filter (\<lambda>(t, i). i = ip) calls))"
  using assms
proof (induction calls arbitrary: c)
  case (Cons call calls)
  obtain t i where call: "call = (t, i)" by force
  obtain ok c' where ch: "check_rate_limit t i c = (ok, c')" by force
  show ?case
  proof (cases "i = ip")
    case False
    then have "map_of (cl_rates c') (string_of_bytes ip) = map_of (cl_rates c) (string_of_bytes ip)"
      using check_rate_other [of i ip t c] ch by simp
    then have "accepted ip calls c' = min MAX_QUERIES_PER_SECOND (length (filter (\<lambda>(t, i). i = ip) calls))"
      using Cons by (intro Cons.IH) auto
    with False ch call show ?thesis by simp
  next
    case True
    have "1 \<le> seconds (t - t1)" if "map_of (cl_rates c) (string_of_bytes ip) = Some (n, t1)" for n t1
    proof -
      have "1000000000 \<le> t - t1" using Cons.prems that call by fastforce
      then have "1000000000 div 1000000000 \<le> (t - t1) div 1000000000" by (rule zdiv_mono1) simp
      with \<open>1000000000 \<le> t - t1\<close> show ?thesis by (simp add: seconds_def)
    qed
    then have c': "ok" "map_of (cl_rates c') (string_of_bytes ip) = Some (1, t)"
      using ch True by (auto simp: check_rate_limit_def Let_def AList.update_conv' split: option.splits prod.splits if_splits)
    have "accepted ip calls c' = min (MAX_QUERIES_PER_SECOND - 1) (length (filter (\<lambda>(t, i). i = ip) calls))"
      using Cons.prems call c'(2) by (intro accepted_counting [of calls t0 _ _ 1 t]) (auto simp: MAX_QUERIES_PER_SECOND_def)
    with True ch call c'(1) show ?thesis by (simp add: MAX_QUERIES_PER_SECOND_def)
  qed
qed simp

text \<open>C38: Of the datagrams an address sends within a second, from the moment its last count is a second
  old (or there is none), exactly the first hundred are let through, whatever other addresses
  send in between.\<close>

theorem rate_limit_counts:
  "(\<forall>(t, i) \<in> set calls. t0 \<le> t \<and> t < t0 + 1000000000) \<Longrightarrow>
   (\<forall>n t1. map_of (cl_rates c) (string_of_bytes ip) = Some (n, t1) \<longrightarrow> t1 + 1000000000 \<le> t0) \<Longrightarrow>
   accepted ip calls c = min 100 (length (filter (\<lambda>(t, i). i = ip) calls))"
  using accepted_from_fresh [of calls t0 c ip] by (simp only: MAX_QUERIES_PER_SECOND_def)

theorem rate_limit_counts_witness:
  "accepted [1, 2, 3, 4] (replicate 150 (5, [1, 2, 3, 4]) @ [(6, [9, 9, 9, 9])])
     (new_client (replicate 20 1) (new_tokens 0 [] [])) = 100"
proof -
  have "accepted [1, 2, 3, 4] (replicate 150 (5, [1, 2, 3, 4]) @ [(6, [9, 9, 9, 9])])
      (new_client (replicate 20 1) (new_tokens 0 [] [])) =
    min 100 (length (filter (\<lambda>(t, i). i = [1, 2, 3, 4]) (replicate 150 (5 :: int, [1, 2, 3, 4 :: byte]) @ [(6, [9, 9, 9, 9])])))"
    by (rule rate_limit_counts [where ?t0.0 = 5]) (simp_all add: new_client_def)
  then show ?thesis by simp
qed

section \<open>The invariant\<close>

definition endpoint :: "stored_peer \<Rightarrow> byte list \<times> 16 word" where
  "endpoint p = (sp_ip p, sp_port p)"

definition peers_ok :: "stored_peer list \<Rightarrow> bool" where
  "peers_ok ps \<longleftrightarrow> length ps \<le> 100 \<and> distinct (map endpoint ps) \<and> (\<forall>p \<in> set ps. length (sp_ip p) = 4)"

definition lookup_ok :: "lookup_state \<Rightarrow> bool" where
  "lookup_ok l \<longleftrightarrow> lk_in_flight l \<le> LOOKUP_ALPHA \<and> distinct (lk_queried l) \<and> list_all node_ok (lk_shortlist l)"

text \<open>The lookups a pending query may refer to are those made so far, so that \<open>!\<close> stays in range.\<close>

definition pending_ok :: "nat \<Rightarrow> pending_query \<Rightarrow> bool" where
  "pending_ok n q \<longleftrightarrow> length (pq_ip q) = 4 \<and> pred_option (\<lambda>a. a < n) (pq_lookup q) \<and>
     pred_option (\<lambda>(node, _, _). length (nip node) = 4) (pq_callback q)"

definition client_ok :: "dht_client \<Rightarrow> bool" where
  "client_ok c \<longleftrightarrow> id_ok (cl_id c) \<and> table_ok (cl_table c) \<and>
     um_ok (cl_stored c) \<and> (\<forall>ps \<in> snd ` set (cl_stored c). peers_ok ps) \<and>
     list_all lookup_ok (cl_lookups c) \<and> um_ok (cl_pending c) \<and>
     (\<forall>q \<in> snd ` set (cl_pending c). pending_ok (length (cl_lookups c)) q)"

named_theorems client_intros \<open>operations that keep the client's invariant\<close>

lemma set_update_snd: "x \<in> snd ` set (AList.update k v m) \<Longrightarrow> x = v \<or> x \<in> snd ` set m"
  by (induction m) (auto split: if_splits)

lemma client_ok_frame:
  "client_ok c \<Longrightarrow> cl_id c' = cl_id c \<Longrightarrow> cl_table c' = cl_table c \<Longrightarrow> cl_stored c' = cl_stored c \<Longrightarrow>
   cl_lookups c' = cl_lookups c \<Longrightarrow> cl_pending c' = cl_pending c \<Longrightarrow> client_ok c'"
  by (simp add: client_ok_def)

lemma client_ok_table [client_intros]:
  "client_ok c \<Longrightarrow> table_ok t \<Longrightarrow> client_ok (c\<lparr>cl_table := t\<rparr>)"
  by (simp add: client_ok_def)

lemma client_okD:
  assumes "client_ok c"
  shows "table_ok (cl_table c)" "id_ok (cl_id c)"
    "map_of (cl_pending c) tid = Some q \<Longrightarrow> pending_ok (length (cl_lookups c)) q"
    "map_of (cl_stored c) k = Some ps \<Longrightarrow> peers_ok ps"
  using assms by (fastforce simp: client_ok_def dest: map_of_SomeD)+

lemma track_query_ok [client_intros]:
  assumes "client_ok c" "pending_ok (length (cl_lookups c)) q"
  shows "client_ok (track_query tid q c)"
proof -
  have "\<forall>p \<in> snd ` set (AList.update tid q (cl_pending c)). pending_ok (length (cl_lookups c)) p"
    using assms set_update_snd unfolding client_ok_def by metis
  then show ?thesis using assms(1) unfolding client_ok_def track_query_def by (simp add: um.inv_put)
qed

lemma remove_pending_ok [client_intros]: "client_ok c \<Longrightarrow> client_ok (remove_pending_query tid c)"
proof -
  assume c: "client_ok c"
  have "set (AList.delete tid (cl_pending c)) \<subseteq> set (cl_pending c)" by (simp add: AList.delete_eq)
  with c show ?thesis by (fastforce simp: client_ok_def remove_pending_query_def um.inv_del)
qed

lemma send_message_ok [client_intros]: "client_ok c \<Longrightarrow> client_ok (send_message d ip port c)"
  by (rule client_ok_frame) (simp_all add: send_message_def)

lemma mark_sent_ok [client_intros]: "client_ok c \<Longrightarrow> client_ok (mark_sent now i c)"
  unfolding mark_sent_def by (intro client_ok_table mark_ok client_okD(1))

lemma counter_ok [client_intros]: "client_ok c \<Longrightarrow> client_ok (c\<lparr>cl_counter := n\<rparr>)"
  by (rule client_ok_frame) simp_all

lemmas send_defs = send_ping_def send_find_node_def send_get_peers_def send_announce_peer_def next_tid_def

lemma sends_ok:
  assumes "client_ok c" "length (nip n) = 4"
  shows "client_ok (send_ping now n c)"
    and "pred_option (\<lambda>a. a < length (cl_lookups c)) lk \<Longrightarrow> client_ok (send_find_node now n t lk c)"
    and "pred_option (\<lambda>a. a < length (cl_lookups c)) lk \<Longrightarrow>
      pred_option (\<lambda>(node, _, _). length (nip node) = 4) cb \<Longrightarrow> client_ok (send_get_peers now n h cb lk c)"
    and "client_ok (send_announce_peer now n h p tok c)"
  using assms unfolding send_defs Let_def prod.case
  by (intro mark_sent_ok send_message_ok track_query_ok counter_ok; simp add: pending_ok_def)+

lemma sends_frame [simp]:
  "cl_lookups (send_ping now n c) = cl_lookups c" "cl_lookups (send_find_node now n t lk c) = cl_lookups c"
  "cl_lookups (send_get_peers now n h cb lk c) = cl_lookups c" "cl_lookups (send_announce_peer now n h p tok c) = cl_lookups c"
  by (simp_all add: send_defs mark_sent_def send_message_def track_query_def)

lemma fold_ok:
  assumes "client_ok c" "\<And>x c. x \<in> set xs \<Longrightarrow> client_ok c \<Longrightarrow> P c \<Longrightarrow> client_ok (f x c) \<and> P (f x c)" "P c"
  shows "client_ok (fold f xs c) \<and> P (fold f xs c)"
  using assms by (induction xs arbitrary: c) auto

lemma pick_nodes_ok:
  "lookup_ok l \<Longrightarrow> lookup_ok (snd (pick_nodes ns l)) \<and> set (fst (pick_nodes ns l)) \<subseteq> set ns"
  by (induction ns l rule: pick_nodes.induct) (auto simp: lookup_ok_def split_beta)

lemma set_unique_ids: "set (unique_ids ns) \<subseteq> set ns"
  by (induction ns rule: unique_ids.induct) (auto dest: set_dropWhileD)

lemma set_trim: "set (trim_shortlist l) \<subseteq> set (lk_shortlist l)"
  using set_unique_ids [of "sort_key (\<lambda>n. distance (nid n) (lk_target l)) (lk_shortlist l)"]
  by (auto simp: trim_shortlist_def Let_def dest!: in_set_takeD)

lemma list_all_update: "list_all P xs \<Longrightarrow> P x \<Longrightarrow> list_all P (xs[a := x])"
  by (auto simp: list_all_iff dest: set_update_subset_insert [THEN subsetD])

lemma lookups_ok [client_intros]:
  "client_ok c \<Longrightarrow> lookup_ok l \<Longrightarrow> client_ok (c\<lparr>cl_lookups := (cl_lookups c)[a := l]\<rparr>)"
  by (simp add: client_ok_def list_all_update)

lemma query_one_ok:
  "client_ok c \<Longrightarrow> a < length (cl_lookups c) \<Longrightarrow> length (nip n) = 4 \<Longrightarrow>
     client_ok (query_one now a l n c) \<and> a < length (cl_lookups (query_one now a l n c))"
  by (auto simp: query_one_def sends_ok split: option.splits)

lemma announce_to_ok: "client_ok c \<Longrightarrow> length (nip n) = 4 \<Longrightarrow> client_ok (announce_to now l x n c)"
  by (auto simp: announce_to_def sends_ok split: option.splits)

lemma finish_lookup_ok:
  assumes "client_ok c" "lookup_ok l"
  shows "client_ok (finish_lookup now l c)"
proof -
  have "client_ok (c\<lparr>cl_active := x\<rparr>)" for x using assms(1) by (rule client_ok_frame) simp_all
  moreover from this have "client_ok (c\<lparr>cl_active := x, cl_events := y\<rparr>)" for x y
    by (rule client_ok_frame) simp_all
  moreover have "client_ok (fold (announce_to now l a) (lk_shortlist l) d)" if "client_ok d" for a d
    using fold_ok [of d "lk_shortlist l" "\<lambda>_. True" "announce_to now l a"] that announce_to_ok assms(2)
    by (auto simp: lookup_ok_def list_all_iff node_ok_def)
  ultimately show ?thesis by (auto simp: finish_lookup_def Let_def split: option.splits)
qed

lemma continue_lookup_ok:
  assumes "client_ok c" "a < length (cl_lookups c)" "continue_lookup now held a c = Some c'"
  shows "client_ok c'"
proof -
  let ?l0 = "cl_lookups c ! a" and ?l1 = "(cl_lookups c ! a)\<lparr>lk_shortlist := trim_shortlist (cl_lookups c ! a)\<rparr>"
  let ?p = "pick_nodes (lk_shortlist ?l1) ?l1"
  let ?c1 = "fold (query_one now a (snd ?p)) (fst ?p) (c\<lparr>cl_lookups := (cl_lookups c)[a := snd ?p]\<rparr>)"
  have "lookup_ok ?l0" using assms(1,2) by (simp add: client_ok_def list_all_length)
  then have l1: "lookup_ok ?l1" using set_trim [of ?l0] by (auto simp: lookup_ok_def list_all_iff)
  then have l2: "lookup_ok (snd ?p)" and "set (fst ?p) \<subseteq> set (lk_shortlist ?l1)" using pick_nodes_ok by blast+
  with l1 have ips: "\<forall>n \<in> set (fst ?p). length (nip n) = 4" by (auto simp: lookup_ok_def list_all_iff node_ok_def)
  from assms(1) l2 have c0: "client_ok (c\<lparr>cl_lookups := (cl_lookups c)[a := snd ?p]\<rparr>)" by (rule lookups_ok)
  have "client_ok ?c1 \<and> a < length (cl_lookups ?c1)"
    using assms(2) ips by (intro fold_ok [OF c0] query_one_ok) simp_all
  then have "client_ok ?c1" by blast
  moreover have "c' = ?c1 \<or> c' = finish_lookup now (snd ?p) ?c1"
    using assms(3) by (auto simp: continue_lookup_def Let_def split_beta split: if_splits)
  ultimately show ?thesis using finish_lookup_ok [OF _ l2] by auto
qed

lemma start_lookup_ok:
  assumes "client_ok c" "lookup_ok l" "start_lookup now l c = Some c'"
  shows "client_ok c'"
proof (rule continue_lookup_ok)
  show "client_ok (c\<lparr>cl_lookups := cl_lookups c @ [l], cl_active := AList.update (lk_id l) (length (cl_lookups c)) (cl_active c)\<rparr>)"
    using assms(1,2) by (fastforce simp: client_ok_def pending_ok_def less_SucI elim: option.pred_mono_strong)
  show "continue_lookup now True (length (cl_lookups c)) (c\<lparr>cl_lookups := cl_lookups c @ [l],
      cl_active := AList.update (lk_id l) (length (cl_lookups c)) (cl_active c)\<rparr>) = Some c'"
    using assms(3) by (simp add: start_lookup_def Let_def)
qed simp

lemma find_closest_ok: "table_ok t \<Longrightarrow> list_all node_ok (find_closest_nodes now i k t)"
  using table_nodes(1) [of t]
  by (fastforce simp: find_closest_nodes_def list_all_iff get_good_nodes_def dest: in_set_takeD)

lemma find_lookups_ok:
  assumes "client_ok c"
  shows "iterative_find_node now t c = Some c' \<Longrightarrow> client_ok c'"
    and "find_peers now h k c = Some c' \<Longrightarrow> client_ok c'"
    and "announce now h p c = Some c' \<Longrightarrow> client_ok c'"
proof -
  have l: "lookup_ok (new_lookup now tid t ty (cl_table c))" for tid t ty
    using find_closest_ok [OF client_okD(1) [OF assms]] by (simp add: lookup_ok_def new_lookup_def)
  then have l': "lookup_ok ((new_lookup now tid t ty (cl_table c))\<lparr>lk_info_hash := x, lk_peers_callback := y\<rparr>)"
      "lookup_ok ((new_lookup now tid t ty (cl_table c))\<lparr>lk_info_hash := x, lk_announce := z\<rparr>)" for tid t ty x y z
    by (simp_all add: lookup_ok_def)
  have c: "client_ok (c\<lparr>cl_counter := n\<rparr>)" "client_ok (c\<lparr>cl_callbacks := m, cl_counter := n\<rparr>)" for m n
    using assms by (auto intro: client_ok_frame)
  show "iterative_find_node now t c = Some c' \<Longrightarrow> client_ok c'"
    using start_lookup_ok [OF c(1) l] by (simp add: iterative_find_node_def next_tid_def Let_def)
  show "find_peers now h k c = Some c' \<Longrightarrow> client_ok c'"
    using start_lookup_ok [OF c(2) l'(1)] by (simp add: find_peers_def iterative_get_peers_def next_tid_def Let_def)
  show "announce now h p c = Some c' \<Longrightarrow> client_ok c'"
    using start_lookup_ok [OF c(1) l'(2)] by (simp add: announce_def next_tid_def Let_def)
qed

lemma touch_peer_Some:
  "touch_peer now ip port ps = Some qs \<Longrightarrow> map endpoint qs = map endpoint ps \<and>
     (\<exists>q \<in> set qs. endpoint q = (ip, port) \<and> last_announced q = now)"
  by (induction ps arbitrary: qs) (auto simp: endpoint_def split: if_splits)

lemma touch_peer_None: "touch_peer now ip port ps = None \<Longrightarrow> (ip, port) \<notin> endpoint ` set ps"
  by (induction ps) (auto simp: endpoint_def split: if_splits)

lemma endpoint_eq_lengths:
  "map endpoint qs = map endpoint ps \<Longrightarrow> (\<forall>p \<in> set ps. length (sp_ip p) = 4) \<Longrightarrow> (\<forall>p \<in> set qs. length (sp_ip p) = 4)"
proof (induction qs arbitrary: ps)
  case (Cons q qs)
  then show ?case by (cases ps) (auto simp: endpoint_def)
qed simp

lemma add_stored_ok:
  assumes "peers_ok ps" "length ip = 4"
  shows "peers_ok (add_stored now ip port ps)"
    "\<exists>q \<in> set (add_stored now ip port ps). endpoint q = (ip, port) \<and> last_announced q = now"
proof -
  show "peers_ok (add_stored now ip port ps)"
  proof (cases "touch_peer now ip port ps")
    case (Some qs)
    then have m: "map endpoint qs = map endpoint ps" using touch_peer_Some by blast
    then have "length qs = length ps" by (metis length_map)
    with Some m assms(1) endpoint_eq_lengths [OF m] show ?thesis by (simp add: add_stored_def peers_ok_def)
  next
    case None
    let ?ps = "if 100 \<le> length ps then tl ps else ps"
    have "set ?ps \<subseteq> set ps" by (cases ps) auto
    moreover have "distinct (map endpoint ?ps)" "length ?ps < 100"
      using assms(1) by (auto simp: peers_ok_def map_tl distinct_tl)
    ultimately show ?thesis using touch_peer_None [OF None] assms
      by (auto simp: add_stored_def None peers_ok_def endpoint_def)
  qed
  show "\<exists>q \<in> set (add_stored now ip port ps). endpoint q = (ip, port) \<and> last_announced q = now"
    using touch_peer_Some [of now ip port ps]
    by (cases "touch_peer now ip port ps") (auto simp: add_stored_def endpoint_def)
qed

lemma store_peer_ok:
  assumes "client_ok c" "length ip = 4"
  shows "client_ok (store_peer now h ip port c)"
proof -
  let ?k = "string_of_bytes h"
  let ?v = "add_stored now ip port (or_nil (map_of (cl_stored c) ?k))"
  have "peers_ok (or_nil (map_of (cl_stored c) ?k))"
    using client_okD(4) [OF assms(1)] by (auto simp: or_nil_def peers_ok_def split: option.splits)
  then have "peers_ok ?v" using assms(2) by (rule add_stored_ok)
  then have "\<forall>ps \<in> snd ` set (AList.update ?k ?v (cl_stored c)). peers_ok ps"
    using assms(1) set_update_snd unfolding client_ok_def by metis
  then show ?thesis using assms(1) by (simp add: store_peer_def client_ok_def Let_def um.inv_put)
qed

lemma expire_peers_ok: "client_ok c \<Longrightarrow> client_ok (expire_peers now c)"
proof -
  assume c: "client_ok c"
  let ?f = "\<lambda>(k, ps). (k, filter (\<lambda>p. \<not> 30 * 60000000000 < now - last_announced p) ps)"
  have "map fst (map ?f (cl_stored c)) = map fst (cl_stored c)" by (simp add: comp_def case_prod_unfold)
  then have "um_ok (map ?f (cl_stored c))" using c unfolding um_ok_def client_ok_def by metis
  then have "um_ok (filter (\<lambda>(k, ps). ps \<noteq> []) (map ?f (cl_stored c)))"
    by (simp only: um_ok_def distinct_map_filter)
  moreover have "peers_ok (filter P ps)" if "peers_ok ps" for P ps
    using that by (auto simp: peers_ok_def distinct_map_filter intro: le_trans [OF length_filter_le])
  ultimately show ?thesis using c unfolding client_ok_def expire_peers_def by fastforce
qed

lemma cleanup_ok: "client_ok c \<Longrightarrow> client_ok (cleanup_expired_queries now c)"
  by (auto simp: client_ok_def cleanup_expired_queries_def um_ok_def distinct_map_filter)

lemma fold_send_ping_ok: "client_ok c \<Longrightarrow> list_all node_ok ns \<Longrightarrow> client_ok (fold (send_ping now) ns c)"
  using fold_ok [of c ns "\<lambda>_. True" "send_ping now"] sends_ok(1) by (simp add: list_all_iff node_ok_def)

lemma check_node_health_ok: "client_ok c \<Longrightarrow> client_ok (check_node_health now c)"
proof -
  have "table_ok (fold (\<lambda>n t. if get_state now n = Bad then rt_remove_node (nid n) t else t) ns t)" if "table_ok t" for ns t
    using that by (induction ns arbitrary: t) (auto intro: remove_node_ok)
  then show "client_ok c \<Longrightarrow> ?thesis" by (simp add: check_node_health_def client_ok_table client_okD(1))
qed

lemma maintenance_ok: "client_ok c \<Longrightarrow> client_ok (maintenance_round now fresh ok c)"
proof -
  assume c: "client_ok c"
  have t: "client_ok (d\<lparr>cl_tokens := tm\<rparr>)" "client_ok (save_routing_table now ok d)" if "client_ok d" for d tm
    using that by (auto intro: client_ok_frame simp: save_routing_table_def)
  have r: "client_ok (refresh_routing_table now d)" if "client_ok d" for d
    using fold_send_ping_ok [OF that] table_nodes(1) [OF client_okD(1) [OF that]]
    by (auto simp: refresh_routing_table_def get_nodes_needing_refresh_def list_all_iff)
  from c show ?thesis unfolding maintenance_round_def Let_def
    by (intro t r expire_peers_ok check_node_health_ok cleanup_ok)
qed

lemma bootstrap_send_ok:
  assumes "client_ok c" "\<And>host ip. ip \<in> set (resolve host) \<Longrightarrow> length ip = 4"
  shows "client_ok (bootstrap_send now resolve rid c)"
proof -
  have "client_ok (fold (\<lambda>ip. send_find_node now ((bare_node ip port)\<lparr>nid := rid host ip, last_seen := now\<rparr>) t None) (resolve host) d)"
    if "client_ok d" for port host t d
    using fold_ok [of d "resolve host" "\<lambda>_. True"] that assms(2) sends_ok(2) by (simp add: bare_node_def)
  then have "client_ok (fold (\<lambda>(host, port). fold (\<lambda>ip. send_find_node now
      ((bare_node ip port)\<lparr>nid := rid host ip, last_seen := now\<rparr>) t None) (resolve host)) bs c)" for bs t
    using fold_ok [of c bs "\<lambda>_. True"] assms(1) by (simp add: split_beta)
  moreover have "list_all node_ok (get_all_nodes (cl_table c))"
    using table_nodes(1) [OF client_okD(1) [OF assms(1)]] by (auto simp: get_all_nodes_def list_all_iff)
  ultimately show ?thesis using assms(1) by (simp add: bootstrap_send_def Let_def fold_send_ping_ok)
qed

subsection \<open>Incoming messages\<close>

lemma member20_length: "member20 k d = Some i \<Longrightarrow> id_ok i"
  by (auto simp: member20_def split: option.splits if_splits)

lemma zero_id_ok [simp]: "id_ok zero_id"
  by (simp add: zero_id_def)

lemma or_keep_id: "id_ok i \<Longrightarrow> id_ok (or_keep (member20 k d) i)"
  by (cases "member20 k d") (auto dest: member20_length)

lemma decode_message_Some: "decode_message f data = Some (Some m) \<Longrightarrow> \<exists>d. f d = Some m"
proof -
  assume d: "decode_message f data = Some (Some m)"
  then obtain r where "parse (string_of_bytes data) = Some r" by (auto simp: decode_message_def)
  with d have "(case r of Inr (BDict d) \<Rightarrow> f d | _ \<Rightarrow> None) = Some m" by (simp add: decode_message_def)
  then show ?thesis by (cases r; cases "projr r") auto
qed

lemma decode_query_id: "decode_query data = Some (Some q) \<Longrightarrow> id_ok (q_node_id q)"
  unfolding decode_query_def
  by (auto simp: query_of_dict_def read_arguments_def blank_query_def Let_def or_keep_id
      split: bval.splits option.splits dest!: decode_message_Some)

lemma expand_node_ok: "length d = 26 \<Longrightarrow> node_ok (expand_node now d)"
  by (simp add: node_ok_def expand_node_def)

lemma decode_nodes_ok: "list_all node_ok (decode_nodes now d)"
  using chunks_elem_length [of _ 26 d] by (auto simp: decode_nodes_def list_all_iff expand_node_ok)

lemma read_values_ok:
  "id_ok (r_node_id m) \<Longrightarrow> id_ok (r_node_id (read_values now d m)) \<and> list_all node_ok (or_nil (r_nodes (read_values now d m)))"
  by (auto simp: read_values_def or_keep_id or_nil_def decode_nodes_ok split: option.splits)

lemma decode_response_ok:
  assumes "decode_response now data = Some (Some r)"
  shows "id_ok (r_node_id r) \<and> list_all node_ok (or_nil (r_nodes r))"
proof -
  obtain d where d: "response_of_dict now d = Some r"
    using decode_message_Some [OF assms [unfolded decode_response_def]] ..
  let ?m = "blank_response\<lparr>r_tid := transaction_of d\<rparr>"
  have "r = ?m \<or> (\<exists>a. r = read_values now a ?m)"
    using d by (cases "map_of d ''r''"; cases "the (map_of d ''r'')") (auto simp: response_of_dict_def)
  moreover have m: "id_ok (r_node_id ?m)" "list_all node_ok (or_nil (r_nodes ?m))"
    by (simp_all add: blank_response_def or_nil_def)
  ultimately show ?thesis using read_values_ok [OF m(1)] by blast
qed

lemma check_rate_ok: "client_ok c \<Longrightarrow> client_ok (snd (check_rate_limit now ip c))"
  by (auto simp: check_rate_limit_def Let_def split: option.splits intro: client_ok_frame)

lemma handle_query_ok:
  assumes "client_ok c" "id_ok (q_node_id q)" "length ip = 4"
  shows "client_ok (handle_query now junk q ip port c)"
proof -
  let ?n = "(bare_node ip port)\<lparr>nid := q_node_id q, last_seen := now\<rparr>"
  have "node_ok ?n" using assms(2,3) by (simp add: node_ok_def bare_node_def)
  then have "client_ok (c\<lparr>cl_table := rt_add_node now ?n (cl_table c)\<rparr>)"
    using assms(1) by (intro client_ok_table add_node_ok client_okD(1))
  then show ?thesis using assms(3) unfolding handle_query_def Let_def
    by (auto intro!: send_message_ok store_peer_ok split: option.splits query_type.splits)
qed

lemma run_callback_ok: "client_ok c \<Longrightarrow> pending_ok n q \<Longrightarrow> client_ok (run_callback now r q c)"
  by (auto simp: run_callback_def pending_ok_def sends_ok split: option.splits)

lemma extend_shortlist_ok:
  "list_all node_ok short \<Longrightarrow> list_all node_ok ns \<Longrightarrow> list_all node_ok (extend_shortlist seen short ns)"
  by (induction seen short ns rule: extend_shortlist.induct) auto

lemma note_response_ok:
  assumes "lookup_ok l" "list_all node_ok (or_nil (r_nodes r))"
  shows "lookup_ok (note_response k r l)"
proof -
  let ?l1 = "l\<lparr>lk_responding := List.insert k (lk_responding l)\<rparr>"
  define l2 where "l2 = (case r_token r of Some t \<Rightarrow> ?l1\<lparr>lk_tokens := AList.update k t (lk_tokens ?l1)\<rparr> | None \<Rightarrow> ?l1)"
  define l3 where "l3 = (if 0 < lk_in_flight l2 then l2\<lparr>lk_in_flight := lk_in_flight l2 - 1\<rparr> else l2)"
  have "lookup_ok l2" using assms(1) by (simp add: l2_def lookup_ok_def split: option.splits)
  then have "lookup_ok l3" by (auto simp: l3_def lookup_ok_def)
  moreover have "note_response k r l = (case r_nodes r of
       Some ns \<Rightarrow> l3\<lparr>lk_shortlist := extend_shortlist (node_key ` set (lk_shortlist l3)) (lk_shortlist l3) ns\<rparr>
     | None \<Rightarrow> l3)" unfolding note_response_def Let_def l2_def l3_def by (rule refl)
  ultimately show ?thesis using assms(2) extend_shortlist_ok
    by (auto simp: lookup_ok_def or_nil_def split: option.splits)
qed

lemma handle_lookup_response_ok:
  assumes "client_ok c" "handle_lookup_response now tid r c = Some c'" "list_all node_ok (or_nil (r_nodes r))"
  shows "client_ok c'"
proof (cases "\<exists>q a. get_pending_query tid c = Some q \<and> pq_lookup q = Some a")
  case True
  then obtain q a where qa: "get_pending_query tid c = Some q" "pq_lookup q = Some a" by blast
  then have a: "a < length (cl_lookups c)"
    using client_okD(3) [OF assms(1)] by (fastforce simp: get_pending_query_def pending_ok_def)
  then have "lookup_ok (cl_lookups c ! a)" using assms(1) by (simp add: client_ok_def list_all_length)
  then have "client_ok (c\<lparr>cl_lookups := (cl_lookups c)[a := note_response
      (node_key_from_endpoint (pq_ip q) (pq_port q)) r (cl_lookups c ! a)]\<rparr>)"
    using assms(1,3) by (intro lookups_ok note_response_ok)
  then show ?thesis using assms(2) a qa by (auto simp: handle_lookup_response_def intro: continue_lookup_ok)
qed (use assms in \<open>auto simp: handle_lookup_response_def split: option.splits\<close>)

lemma report_peers_ok: "client_ok c \<Longrightarrow> client_ok (report_peers r q c)"
  by (auto simp: report_peers_def Let_def split: option.splits intro: client_ok_frame)

lemma handle_response_ok:
  assumes "client_ok c" "id_ok (r_node_id r)" "list_all node_ok (or_nil (r_nodes r))" "handle_response now r c = Some c'"
  shows "client_ok c'"
proof (cases "get_pending_query (r_tid r) c")
  case (Some q)
  let ?n = "(bare_node (pq_ip q) (pq_port q))\<lparr>nid := r_node_id r, last_seen := now\<rparr>"
  let ?c1 = "c\<lparr>cl_table := rt_update_last_seen now (nid ?n) (rt_add_node now ?n (cl_table c))\<rparr>"
  let ?c2 = "run_callback now r q ?c1"
  have q: "pending_ok (length (cl_lookups c)) q"
    using Some client_okD(3) [OF assms(1)] by (simp add: get_pending_query_def)
  then have "node_ok ?n" using assms(2) by (simp add: node_ok_def bare_node_def pending_ok_def)
  then have "client_ok ?c1" using assms(1) by (intro client_ok_table mark_ok add_node_ok client_okD(1))
  then have c2: "client_ok ?c2" using q by (rule run_callback_ok)
  obtain c3 where c3: "(if pq_lookup q \<noteq> None then handle_lookup_response now (r_tid r) r ?c2 else Some ?c2) = Some c3"
    and c': "c' = remove_pending_query (r_tid r) (report_peers r q
      (c3\<lparr>cl_table := foldl (\<lambda>t n. rt_add_node now n t) (cl_table c3) (or_nil (r_nodes r))\<rparr>))"
    using assms(4) Some by (auto simp: handle_response_def Let_def)
  have c3_ok: "client_ok c3" using c3 c2 assms(3) handle_lookup_response_ok by (auto split: if_splits)
  have "table_ok (foldl (\<lambda>t n. rt_add_node now n t) t ns)" if "table_ok t" "list_all node_ok ns" for t ns
    using that by (induction ns arbitrary: t) (auto intro: add_node_ok)
  then show ?thesis unfolding c'
    using c3_ok assms(3) by (intro remove_pending_ok report_peers_ok client_ok_table) (auto dest: client_okD(1))
qed (use assms in \<open>simp add: handle_response_def\<close>)

section \<open>Steps of the client\<close>

inductive client_step :: "dht_client \<Rightarrow> dht_client \<Rightarrow> bool" where
  datagram: "length ip = 4 \<Longrightarrow> receive_datagram now junk data ip port c = Some c' \<Longrightarrow> client_step c c'"
| maintenance: "client_step c (maintenance_round now fresh ok c)"
| lookup: "find_peers now h k c = Some c' \<Longrightarrow> client_step c c'"
| announcing: "announce now h p c = Some c' \<Longrightarrow> client_step c c'"
| boot: "(\<And>host ip. ip \<in> set (resolve host) \<Longrightarrow> length ip = 4) \<Longrightarrow> client_step c (bootstrap_send now resolve rid c)"
| boot_end: "bootstrap_finish now c = Some c' \<Longrightarrow> client_step c c'"

lemma receive_datagram_ok:
  assumes "client_ok c" "length ip = 4" "receive_datagram now junk data ip port c = Some c'"
  shows "client_ok c'"
proof -
  obtain ok d where d: "check_rate_limit now ip c = (ok, d)" by force
  have d_ok: "client_ok d" using check_rate_ok [OF assms(1), of now ip] d by simp
  from assms(3) d consider "c' = d" | q where "decode_query data = Some (Some q)" "c' = handle_query now junk q ip port d"
    | r where "decode_response now data = Some (Some r)" "handle_response now r d = Some c'"
    | e where "c' = handle_error e d"
    by (auto simp: receive_datagram_def split: if_splits option.splits)
  then show ?thesis
  proof cases
    case 2
    then show ?thesis using d_ok assms(2) by (auto intro: handle_query_ok decode_query_id)
  next
    case 3
    then show ?thesis using d_ok decode_response_ok by (auto intro: handle_response_ok)
  next
    case 4
    then show ?thesis using d_ok by (simp add: handle_error_def remove_pending_ok)
  qed (simp add: d_ok)
qed

lemma client_step_ok: "client_step c c' \<Longrightarrow> client_ok c \<Longrightarrow> client_ok c'"
proof (induction rule: client_step.induct)
  case (boot_end now c c')
  then show ?case using find_lookups_ok(1) by (simp add: bootstrap_finish_def)
qed (auto intro: receive_datagram_ok maintenance_ok find_lookups_ok bootstrap_send_ok)

lemma new_client_ok: "id_ok i \<Longrightarrow> client_ok (new_client i tm)"
  by (simp add: client_ok_def new_client_def new_table_ok um_ok_def)



section \<open>Announce, then ask\<close>

lemma length_show_nat: "length (show_nat n) \<le> Suc n"
proof (induction n rule: show_nat.induct)
  case (1 n)
  show ?case
  proof (cases "n < 10")
    case False
    then have "length (show_nat (n div 10)) \<le> Suc (n div 10)" by (rule 1)
    moreover have "Suc (n div 10) < Suc n" using False by simp
    ultimately show ?thesis using False by (subst show_nat.simps) simp
  qed (subst show_nat.simps, simp)
qed

lemma values_response_ok:
  assumes "id_ok own" "list_all (\<lambda>p. length (nip p) = 4) peers" "length peers \<le> 100" "length tid < 2 ^ 32" "length token = 20"
  shows "response_ok (get_peers_with_values own peers token tid)"
proof -
  let ?m = "get_peers_with_values own peers token tid"
  have "length (concat (map (\<lambda>p. ''6:'' @ string_of_bytes (nip p @ store16 (nport p))) ps)) = 8 * length ps"
    if "list_all (\<lambda>p. length (nip p) = 4) ps" for ps :: "dht_node list"
    using that by (induction ps) simp_all
  with assms(2,3) have "length (concat (map (\<lambda>p. ''6:'' @ string_of_bytes (nip p @ store16 (nport p))) peers)) \<le> 800"
    by simp
  then have "length (response_values ?m) \<le> 2000"
    using assms(1,5) length_show_nat [of 20]
    by (simp add: response_values_def get_peers_with_values_def blank_response_def opt_text_def nonempty_def)
  moreover have "length (show_nat (length tid)) \<le> 2 ^ 33" using length_show_nat [of "length tid"] assms(4) by simp
  ultimately have "length (encode_response ?m) < 2 ^ 64"
    using assms(4) by (simp add: encode_response_def get_peers_with_values_def)
  then show ?thesis using assms(1,2)
    by (simp add: response_ok_def) (simp add: get_peers_with_values_def blank_response_def)
qed

lemma stored_after_announce:
  assumes "q_type q = Some ANNOUNCE_PEER" "q_info_hash q = Some h" "q_token q = Some token"
    "validate_token token ip (cl_tokens c)"
  shows "map_of (cl_stored (handle_query now junk q ip port c)) (string_of_bytes h) =
    Some (add_stored now ip (or_keep (q_port q) port) (or_nil (map_of (cl_stored c) (string_of_bytes h))))"
  using assms by (simp add: handle_query_def Let_def store_peer_def send_message_def AList.update_conv' or_keep_def)

text \<open>C16: A peer that announces itself with a valid token is found: to the next \<open>get_peers\<close> query for this
  info hash, from any address, the client answers with a response whose decoding lists the peer.\<close>

theorem announced_peer_is_served:
  assumes "client_ok c" "length ip = 4" "id_ok (q_node_id q)"
    and "q_type q = Some ANNOUNCE_PEER" "q_info_hash q = Some h" "q_token q = Some token"
    and "validate_token token ip (cl_tokens c)"
    and "q_type q' = Some GET_PEERS" "q_info_hash q' = Some h" "length (q_tid q') < 2 ^ 32"
  shows "\<exists>resp peers.
    last (cl_sent (handle_query later junk' q' ip' port' (handle_query now junk q ip port c))) = (encode_response resp, ip', port') \<and>
    decode_response arrival (encode_response resp) = Some (Some resp) \<and> r_tid resp = q_tid q' \<and>
    r_peers resp = Some peers \<and> bare_node ip (or_keep (q_port q) port) \<in> set peers"
proof -
  let ?c1 = "handle_query now junk q ip port c"
  let ?old = "or_nil (map_of (cl_stored c) (string_of_bytes h))"
  let ?st = "add_stored now ip (or_keep (q_port q) port) ?old"
  let ?ps = "map (\<lambda>p. bare_node (sp_ip p) (sp_port p)) ?st"
  let ?r = "get_peers_with_values (cl_id ?c1) ?ps (generate_token ip' (cl_tokens ?c1)) (q_tid q')"
  have m: "map_of (cl_stored ?c1) (string_of_bytes h) = Some ?st" using assms by (intro stored_after_announce)
  have "peers_ok ?old" using client_okD(4) [OF assms(1)] by (auto simp: or_nil_def peers_ok_def split: option.splits)
  note st = add_stored_ok [OF this assms(2), of now "or_keep (q_port q) port"]
  have c1: "client_ok ?c1" using assms by (intro handle_query_ok)
  have "list_all (\<lambda>p. length (nip p) = 4) ?ps" "length ?ps \<le> 100"
    using st(1) by (auto simp: peers_ok_def list_all_iff bare_node_def)
  then have "response_ok ?r" using client_okD(2) [OF c1] assms(10)
    by (intro values_response_ok) (simp_all add: generate_token_def compute_token_def)
  then have d: "decode_response arrival (encode_response ?r) = Some (Some (received arrival ?r))"
    by (rule decode_encode_response)
  have ne: "?st \<noteq> []" using st(2) by auto
  then have "received arrival ?r = ?r"
    by (simp add: received_def get_peers_with_values_def blank_response_def nonempty_def comp_def bare_node_def)
  moreover have "last (cl_sent (handle_query later junk' q' ip' port' ?c1)) = (encode_response ?r, ip', port')"
    using assms(8,9) m ne by (simp add: handle_query_def Let_def send_message_def or_nil_def)
  moreover have "bare_node ip (or_keep (q_port q) port) \<in> set ?ps"
    using st(2) by (force simp: endpoint_def)
  moreover have "r_peers ?r = Some ?ps" "r_tid ?r = q_tid q'"
    by (simp_all add: get_peers_with_values_def blank_response_def)
  ultimately show ?thesis using d by (intro exI [of _ ?r] exI [of _ ?ps]) simp
qed

theorem announced_peer_is_served_witness:
  "let c = new_client (replicate 20 1) (new_tokens 0 [5] [6]);
       q = announce_peer_query (replicate 20 2) (replicate 20 7) 6881 (generate_token [10, 0, 0, 1] (new_tokens 0 [5] [6])) ''a'' False;
       q' = get_peers_query (replicate 20 3) (replicate 20 7) ''b''
   in \<exists>resp peers.
    last (cl_sent (handle_query 9 None q' [10, 0, 0, 2] 81 (handle_query 8 None q [10, 0, 0, 1] 80 c))) = (encode_response resp, [10, 0, 0, 2], 81) \<and>
    decode_response 10 (encode_response resp) = Some (Some resp) \<and> r_tid resp = q_tid q' \<and>
    r_peers resp = Some peers \<and> bare_node [10, 0, 0, 1] (or_keep (q_port q) 80) \<in> set peers"
  unfolding Let_def
proof (rule announced_peer_is_served [where h = "replicate 20 7" and token = "generate_token [10, 0, 0, 1] (new_tokens 0 [5] [6])"])
  show "client_ok (new_client (replicate 20 1) (new_tokens 0 [5] [6]))" by (rule new_client_ok) simp
  have "cl_tokens (new_client i tm) = tm" for i tm by (simp add: new_client_def)
  then show "validate_token (generate_token [10, 0, 0, 1] (new_tokens 0 [5] [6])) [10, 0, 0, 1]
      (cl_tokens (new_client (replicate 20 1) (new_tokens 0 [5] [6])))"
    by (simp add: validate_token_def generate_token_def)
qed (simp_all add: announce_peer_query_def get_peers_query_def blank_query_def)

end
