(* ===== verification/Dht_Service.thy ===== *)
theory Dht_Service
  imports Dht_Client
begin

text \<open>
  \<open>src/dht/client.cpp\<close>: the life of a DHT client, from \<open>start\<close> to \<open>stop\<close>, with the receiving
  thread, the resolver and the bootstrap.  What the operating system answers is a record; while
  \<open>bootstrap\<close> sleeps the receiving thread handles the datagrams that arrive, listed there.  \<open>None\<close> is
  a start that does not return: \<open>bootstrap\<close> runs in the caller's thread.
\<close>

section \<open>The resolver\<close>

text \<open>The answers of \<open>getaddrinfo\<close>: an address with the test for \<open>AF_INET\<close>; \<open>Try_Again\<close> is
  \<open>EAI_AGAIN\<close>.\<close>

datatype lookup_answer = Addresses "(bool \<times> byte list) list" | Try_Again | Lookup_Error

fun resolve_tries :: "nat \<Rightarrow> (nat \<Rightarrow> lookup_answer) \<Rightarrow> (bool \<times> byte list) list" where
  "resolve_tries 0 answer = []"
| "resolve_tries (Suc k) answer =
     (case answer 0 of
        Addresses as \<Rightarrow> as
      | Try_Again \<Rightarrow> resolve_tries k (\<lambda>i. answer (Suc i))
      | Lookup_Error \<Rightarrow> [])"

definition resolve_hostname :: "(byte list list \<Rightarrow> byte list list) \<Rightarrow> (nat \<Rightarrow> lookup_answer) \<Rightarrow> byte list list" where
  "resolve_hostname shuffle answer =
     (let ips = map snd (filter fst (resolve_tries 3 answer)) in if ips = [] then ips else shuffle ips)"

section \<open>The receiving thread\<close>

datatype socket_event =
    Datagram int "query_type option" "byte list" "byte list" "16 word"
  | No_Datagram
  | Receive_Error

definition network_round :: "socket_event \<Rightarrow> dht_client \<Rightarrow> dht_client option" where
  "network_round e c =
     (case e of
        Datagram now junk data ip port \<Rightarrow>
          if data = [] then Some c else receive_datagram now junk (take 65536 data) ip port c
      | No_Datagram \<Rightarrow> Some c
      | Receive_Error \<Rightarrow> Some c)"

fun network_rounds :: "socket_event list \<Rightarrow> dht_client \<Rightarrow> dht_client option" where
  "network_rounds [] c = Some c"
| "network_rounds (e # es) c = Option.bind (network_round e c) (network_rounds es)"

section \<open>The service\<close>

record dht_service =
  sv_port :: "16 word"
  sv_socket :: int
  sv_running :: bool
  sv_bootstrapped :: bool
  sv_client :: dht_client

definition new_service :: "16 word \<Rightarrow> node_id \<Rightarrow> token_manager \<Rightarrow> dht_service" where
  "new_service port i tm =
     \<lparr>sv_port = port, sv_socket = - 1, sv_running = False, sv_bootstrapped = False, sv_client = new_client i tm\<rparr>"

text \<open>What a start finds: the descriptor, whether \<open>bind\<close> succeeds, the content of the routing table
  file, the resolver's answers and permutation, the random ids for routers, what arrives while
  \<open>bootstrap\<close> sleeps, and the times of loading, sending and of the lookup after the sleep.\<close>

record start_report =
  sr_socket :: int
  sr_bound :: bool
  sr_file :: "byte list option"
  sr_answers :: "string \<Rightarrow> nat \<Rightarrow> lookup_answer"
  sr_shuffle :: "byte list list \<Rightarrow> byte list list"
  sr_random :: "string \<Rightarrow> byte list \<Rightarrow> node_id"
  sr_arrivals :: "socket_event list"
  sr_load_time :: int
  sr_send_time :: int
  sr_end_time :: int

definition bootstrap :: "start_report \<Rightarrow> dht_client \<Rightarrow> dht_client option" where
  "bootstrap r c =
     Option.bind
       (network_rounds (sr_arrivals r)
          (bootstrap_send (sr_send_time r) (\<lambda>host. resolve_hostname (sr_shuffle r) (sr_answers r host)) (sr_random r) c))
       (bootstrap_finish (sr_end_time r))"

definition start_service :: "start_report \<Rightarrow> string \<Rightarrow> dht_service \<Rightarrow> (bool \<times> dht_service) option" where
  "start_service r dir s =
     (if sv_running s then Some (True, s)
      else
        let c = (sv_client s)\<lparr>cl_dir := dir, cl_file := sr_file r\<rparr>;
            s1 = s\<lparr>sv_client := c, sv_socket := sr_socket r\<rparr>
        in if sr_socket r < 0 then Some (False, s1)
           else if \<not> sr_bound r then Some (False, s1\<lparr>sv_socket := - 1\<rparr>)
           else map_option
             (\<lambda>c'. (True, s1\<lparr>sv_client := c', sv_running := True, sv_bootstrapped := True\<rparr>))
             (bootstrap r (snd (load_routing_table (sr_load_time r) c))))"

definition stop_service :: "int \<Rightarrow> bool \<Rightarrow> dht_service \<Rightarrow> dht_service" where
  "stop_service now ok s =
     (if \<not> sv_running s then s
      else s\<lparr>sv_running := False, sv_socket := - 1, sv_client := save_routing_table now ok (sv_client s)\<rparr>)"

definition node_count :: "dht_service \<Rightarrow> nat" where
  "node_count s = table_size (cl_table (sv_client s))"

definition active_queries :: "dht_service \<Rightarrow> nat" where
  "active_queries s = length (cl_pending (sv_client s))"

text \<open>A name is resolved by the first of at most three tries that does not ask to try again: its IPv4
  addresses in some order.\<close>

lemma resolve_tries_first:
  "i < k \<Longrightarrow> \<forall>j < i. answer j = Try_Again \<Longrightarrow> answer i = Addresses as \<Longrightarrow> resolve_tries k answer = as"
proof (induction k answer arbitrary: i rule: resolve_tries.induct)
  case (2 k answer)
  show ?case
  proof (cases i)
    case (Suc n)
    with 2(3) have "answer 0 = Try_Again" "\<forall>j < n. answer (Suc j) = Try_Again" by auto
    with 2(1) [OF this(1), of n] 2(2,4) Suc show ?thesis by simp
  qed (use 2(4) in simp)
qed simp

theorem resolve_hostname_addresses:
  assumes "\<And>xs. set (shuffle xs) = set xs" "i < 3" "\<forall>j < i. answer j = Try_Again" "answer i = Addresses as"
  shows "set (resolve_hostname shuffle answer) = {ip. (True, ip) \<in> set as}"
  using resolve_tries_first [OF assms(2,3,4)] assms(1)
  by (auto simp: resolve_hostname_def Let_def filter_empty_conv image_iff)

section \<open>What a query leaves of the table\<close>

text \<open>Everything of a node but the time of the last query.\<close>

definition core_of :: "dht_node \<Rightarrow> (node_id \<times> byte list \<times> 16 word) \<times> int \<times> int" where
  "core_of n = (entry_of n, last_seen n, failed_queries n)"

definition table_core :: "routing_table \<Rightarrow> node_id \<times> ((node_id \<times> byte list \<times> 16 word) \<times> int \<times> int) list list" where
  "table_core t = (own_id t, map (map core_of) (buckets t))"

lemma mark_sent_core: "table_core (rt_mark_query_sent now i t) = table_core t"
proof -
  have "map core_of (bucket_query_sent now i b) = map core_of b" for b
    unfolding bucket_query_sent_def by (rule update_first_map) (simp add: core_of_def entry_of_def)
  then have "map (map core_of) ((buckets t)[k := bucket_query_sent now i (buckets t ! k)]) = map (map core_of) (buckets t)"
    for k by (cases "k < length (buckets t)") (simp_all add: map_update list_update_beyond, metis list_update_id nth_map)
  then show ?thesis by (simp add: table_core_def rt_mark_query_sent_def on_bucket_def Let_def)
qed

lemma core_entries:
  assumes "table_core t = table_core t'"
  shows "map entry_of (get_all_nodes t) = map entry_of (get_all_nodes t')"
proof -
  have "map entry_of (get_all_nodes u) = map fst (concat (snd (table_core u)))" for u
    by (simp add: table_core_def get_all_nodes_def map_concat comp_def core_of_def)
  then show ?thesis using assms by simp
qed

lemma core_good:
  "find_closest_nodes now target LOOKUP_K t \<noteq> [] \<longleftrightarrow>
   (\<exists>(e, seen, failed) \<in> set (concat (snd (table_core t))).
      is_good now \<lparr>nid = [], nip = [], nport = 0, last_seen = seen, last_query = 0, failed_queries = failed\<rparr>)"
proof -
  let ?good = "filter (is_good now) (concat (buckets t))"
  have "sort_key f xs = [] \<longleftrightarrow> xs = []" for f :: "dht_node \<Rightarrow> node_id" and xs by (metis length_0_conv length_sort)
  then have "find_closest_nodes now target LOOKUP_K t \<noteq> [] \<longleftrightarrow> ?good \<noteq> []"
    unfolding find_closest_parts(1) find_closest_parts(2) by (simp add: LOOKUP_K_def)
  also have "\<dots> \<longleftrightarrow> (\<exists>n \<in> set (concat (buckets t)). is_good now n)" by (simp add: filter_empty_conv)
  also have "\<dots> \<longleftrightarrow> (\<exists>(e, seen, failed) \<in> set (map core_of (concat (buckets t))).
      is_good now \<lparr>nid = [], nip = [], nport = 0, last_seen = seen, last_query = 0, failed_queries = failed\<rparr>)"
    by (simp add: core_of_def is_good_def get_state_def)
  finally show ?thesis by (simp only: table_core_def snd_conv map_concat)
qed

text \<open>A thread that sends queries adds to what was sent and keeps id and core of the table.\<close>

definition sends_more :: "dht_client \<Rightarrow> dht_client \<Rightarrow> bool" where
  "sends_more c c' \<longleftrightarrow> cl_id c' = cl_id c \<and> table_core (cl_table c') = table_core (cl_table c) \<and>
     set (cl_sent c) \<subseteq> set (cl_sent c')"

lemma sends_more_refl [simp]: "sends_more c c"
  by (simp add: sends_more_def)

lemma sends_more_trans [trans]: "sends_more a b \<Longrightarrow> sends_more b c \<Longrightarrow> sends_more a c"
  by (auto simp: sends_more_def)

lemma sends_more_query:
  "sends_more c (send_ping now n c)" "sends_more c (send_find_node now n t lk c)"
  "sends_more c (send_get_peers now n h cb lk c)" "sends_more c (send_announce_peer now n h p tok c)"
  by (auto simp: sends_more_def send_defs mark_sent_def send_message_def track_query_def mark_sent_core)

lemma sends_more_fold: "(\<And>x c. sends_more c (f x c)) \<Longrightarrow> sends_more c (fold f xs c)"
  by (induction xs arbitrary: c) (auto intro: sends_more_trans)

lemma pings_sent:
  "n \<in> set ns \<Longrightarrow> \<exists>tid. (encode_query (ping_query (cl_id c) tid), nip n, nport n) \<in> set (cl_sent (fold (send_ping now) ns c))"
proof (induction ns arbitrary: c)
  case (Cons m ns)
  let ?c = "send_ping now m c"
  have id: "cl_id ?c = cl_id c" using sends_more_query(1) by (simp add: sends_more_def)
  show ?case
  proof (cases "n = m")
    case True
    have "(encode_query (ping_query (cl_id c) (fst (next_tid c))), nip m, nport m) \<in> set (cl_sent ?c)"
      by (simp add: send_ping_def next_tid_def track_query_def send_message_def mark_sent_def)
    moreover have "sends_more ?c (fold (send_ping now) ns ?c)" by (rule sends_more_fold) (rule sends_more_query)
    ultimately show ?thesis using True by (auto simp: sends_more_def)
  next
    case False
    then show ?thesis using Cons.IH [of ?c] Cons.prems id by simp
  qed
qed simp

lemma lookup_sends_more:
  assumes "iterative_find_node now target c = Some c'"
  shows "sends_more c c'"
proof -
  have q: "sends_more d (fold (query_one now a l) ns d)" for a l ns d
    by (rule sends_more_fold) (auto simp: query_one_def sends_more_query split: option.split)
  define l where "l = new_lookup now (fst (next_tid c)) target FIND_NODE (cl_table c)"
  define d where "d = (snd (next_tid c))\<lparr>cl_lookups := cl_lookups c @ [l],
    cl_active := AList.update (lk_id l) (length (cl_lookups c)) (cl_active c)\<rparr>"
  have "continue_lookup now True (length (cl_lookups c)) d = Some c'"
    using assms by (simp add: iterative_find_node_def start_lookup_def next_tid_def l_def d_def Let_def)
  then obtain a l2 ns ls where "c' = fold (query_one now a l2) ns (d\<lparr>cl_lookups := ls\<rparr>)"
    by (auto simp: continue_lookup_def Let_def split_beta split: if_splits)
  then have "sends_more (d\<lparr>cl_lookups := ls\<rparr>) c'" using q by simp
  moreover have "sends_more c (d\<lparr>cl_lookups := ls\<rparr>)" by (simp add: sends_more_def d_def next_tid_def)
  ultimately show ?thesis by (rule sends_more_trans [rotated])
qed

section \<open>A restart\<close>

lemma load_saved_table:
  assumes "table_ok t" "cl_table c = new_table i" "cl_file c = Some (rt_serialize now t)"
  shows "cl_table (snd (load_routing_table later c)) =
      \<lparr>own_id = own_id t,
        buckets = map (\<lambda>b. map (\<lambda>n. loaded_node later (entry_of n)) (get_good_nodes now b)) (buckets t)\<rparr>"
    "cl_id (snd (load_routing_table later c)) = cl_id c"
  using assms deserialize_serialize [OF assms(1)] by (simp_all add: load_routing_table_def)

lemma loaded_core: "core_of (loaded_node later e) = (e, later, 0)"
  by (cases e) (simp add: core_of_def entry_of_def loaded_node_def)

lemma fresh_is_good:
  "0 \<le> d \<Longrightarrow> d < 15 * 60000000000 \<Longrightarrow>
   is_good (t + d) \<lparr>nid = [], nip = [], nport = 0, last_seen = t, last_query = 0, failed_queries = 0\<rparr>"
proof -
  assume "0 \<le> d" "d < 15 * 60000000000"
  then have "0 \<le> d" "d div 60000000000 < 15" by simp_all
  then show ?thesis by (simp add: is_good_def get_state_def minutes_def)
qed

text \<open>The DHT across a restart: what a stopped client saved, a new client with another id takes over.
  If a node of the table was good at the stop, the start returns, the client runs and is
  bootstrapped; the table has the old own id and the addresses of exactly the good nodes, which
  count as good again, and each of them was sent a ping, which carries the new id.\<close>

theorem dht_restart:
  fixes s s1 :: dht_service
  assumes s: "client_ok (sv_client s)" "sv_running s" "cl_dir (sv_client s) \<noteq> []"
    and good: "\<exists>n \<in> set (get_all_nodes (cl_table (sv_client s))). is_good now n"
    and r: "0 \<le> sr_socket r" "sr_bound r" "sr_file r = cl_file (sv_client (stop_service now True s))" "sr_arrivals r = []"
    and t: "sr_load_time r \<le> sr_end_time r" "sr_end_time r < sr_load_time r + 15 * 60000000000"
  shows "\<exists>s'. start_service r dir (new_service port i tm) = Some (True, s') \<and> sv_running s' \<and> sv_bootstrapped s' \<and>
    own_id (cl_table (sv_client s')) = own_id (cl_table (sv_client s)) \<and>
    map entry_of (get_all_nodes (cl_table (sv_client s'))) =
      map entry_of (filter (is_good now) (get_all_nodes (cl_table (sv_client s)))) \<and>
    list_all (is_good (sr_end_time r)) (get_all_nodes (cl_table (sv_client s'))) \<and>
    (\<forall>n. n \<in> set (get_all_nodes (cl_table (sv_client s))) \<and> is_good now n \<longrightarrow>
       (\<exists>tid. (encode_query (ping_query i tid), nip n, nport n) \<in> set (cl_sent (sv_client s'))))"
proof -
  let ?t = "cl_table (sv_client s)" and ?later = "sr_load_time r"
  let ?d = "(sv_client (new_service port i tm))\<lparr>cl_dir := dir, cl_file := sr_file r\<rparr>"
  let ?c = "snd (load_routing_table ?later ?d)"
  let ?ld = "\<lambda>n. loaded_node ?later (entry_of n)"
  let ?all = "get_all_nodes ?t"
  have "cl_table ?d = new_table i" "cl_id ?d = i" "cl_file ?d = Some (rt_serialize now ?t)"
    using s r by (simp_all add: new_service_def new_client_def stop_service_def save_routing_table_def)
  note c = load_saved_table [OF client_okD(1) [OF s(1)] this(1, 3), of ?later] this(2)
  have nodes: "get_all_nodes (cl_table ?c) = map ?ld (filter (is_good now) ?all)"
    by (simp add: c(1) get_all_nodes_def map_concat comp_def filter_concat get_good_nodes_def [abs_def])
  then have "bootstrap_send (sr_send_time r) f g ?c = fold (send_ping (sr_send_time r)) (get_all_nodes (cl_table ?c)) ?c"
    for f g using good by (auto simp: bootstrap_send_def Let_def filter_empty_conv)
  then obtain c1 where c1: "c1 = fold (send_ping (sr_send_time r)) (get_all_nodes (cl_table ?c)) ?c"
    "bootstrap r ?c = bootstrap_finish (sr_end_time r) c1"
    using r(4) by (simp add: bootstrap_def)
  have more: "sends_more ?c c1" unfolding c1 by (rule sends_more_fold) (rule sends_more_query)
  obtain n where n: "n \<in> set ?all" "is_good now n" using good by blast
  have "(entry_of n, ?later, 0) \<in> set (map core_of (get_all_nodes (cl_table ?c)))"
    unfolding nodes using n by (auto simp: loaded_core image_iff)
  then have "(entry_of n, ?later, 0) \<in> set (concat (snd (table_core (cl_table c1))))"
    using more by (simp add: sends_more_def table_core_def get_all_nodes_def flip: map_concat)
  moreover have "is_good (sr_end_time r)
      \<lparr>nid = [], nip = [], nport = 0, last_seen = ?later, last_query = 0, failed_queries = 0\<rparr>"
    using fresh_is_good [of "sr_end_time r - ?later" ?later] t by simp
  ultimately have "find_closest_nodes (sr_end_time r) (cl_id c1) LOOKUP_K (cl_table c1) \<noteq> []"
    unfolding core_good by force
  then obtain c2 where c2: "bootstrap_finish (sr_end_time r) c1 = Some c2"
    unfolding bootstrap_finish_def using lookup_starts_iff_good_node by blast
  have last: "sends_more ?c c2" "sends_more c1 c2"
    using more lookup_sends_more [OF c2 [unfolded bootstrap_finish_def]] by (auto intro: sends_more_trans)
  have "map entry_of (get_all_nodes (cl_table c2)) = map entry_of (get_all_nodes (cl_table ?c))"
    using last(1) by (intro core_entries) (simp add: sends_more_def)
  then have e: "map entry_of (get_all_nodes (cl_table c2)) = map entry_of (filter (is_good now) ?all)"
    unfolding nodes by (simp add: comp_def loaded_node_def entry_of_def)
  have o: "own_id (cl_table c2) = own_id ?t"
    using last(1) c(1) by (simp add: sends_more_def table_core_def)
  have p: "\<exists>tid. (encode_query (ping_query i tid), nip m, nport m) \<in> set (cl_sent c2)"
    if "m \<in> set ?all" "is_good now m" for m
  proof -
    have "?ld m \<in> set (get_all_nodes (cl_table ?c))" unfolding nodes using that by simp
    from pings_sent [OF this, where c = ?c and now = "sr_send_time r"] have "\<exists>tid. (encode_query (ping_query i tid), nip (?ld m), nport (?ld m)) \<in> set (cl_sent c1)"
      unfolding c1(1) using c(2, 3) by simp
    then show ?thesis using last(2) by (auto simp: sends_more_def loaded_node_def entry_of_def)
  qed
  have "map core_of (get_all_nodes u) = concat (snd (table_core u))" for u
    by (simp add: table_core_def get_all_nodes_def map_concat)
  then have "set (map core_of (get_all_nodes (cl_table c2))) = set (map core_of (get_all_nodes (cl_table ?c)))"
    using last(1) by (simp only: sends_more_def)
  then have same: "core_of ` set (get_all_nodes (cl_table c2)) = core_of ` set (get_all_nodes (cl_table ?c))" by simp
  have "last_seen n = ?later \<and> failed_queries n = 0" if "n \<in> set (get_all_nodes (cl_table c2))" for n
  proof -
    have "core_of n \<in> core_of ` set (get_all_nodes (cl_table ?c))" using that same by blast
    then show ?thesis unfolding nodes by (auto simp: loaded_core) (auto simp: core_of_def)
  qed
  then have g: "list_all (is_good (sr_end_time r)) (get_all_nodes (cl_table c2))"
    using fresh_is_good [of "sr_end_time r - ?later" ?later] t by (auto simp: list_all_iff is_good_def get_state_def)
  have "start_service r dir (new_service port i tm) =
    Some (True, (new_service port i tm)\<lparr>sv_client := c2, sv_socket := sr_socket r, sv_running := True, sv_bootstrapped := True\<rparr>)"
    using r(1, 2) c1(2) c2 by (simp add: start_service_def new_service_def Let_def)
  then show ?thesis using e o p g by simp
qed

definition demo_service :: dht_service where
  "demo_service =
     \<lparr>sv_port = 6881, sv_socket = 3, sv_running = True, sv_bootstrapped = True,
       sv_client = (new_client (replicate 20 1) (new_tokens 0 [] []))\<lparr>cl_table := demo_table, cl_dir := ''/state''\<rparr>\<rparr>"

definition demo_report :: "byte list option \<Rightarrow> start_report" where
  "demo_report saved =
     \<lparr>sr_socket = 4, sr_bound = True, sr_file = saved, sr_answers = (\<lambda>host k. Try_Again), sr_shuffle = rev,
       sr_random = (\<lambda>host ip. replicate 20 5), sr_arrivals = [], sr_load_time = 100, sr_send_time = 110,
       sr_end_time = 2000000200\<rparr>"

lemma demo_service_ok:
  "client_ok (sv_client demo_service)" "sv_running demo_service" "cl_dir (sv_client demo_service) \<noteq> []"
proof -
  have "client_ok ((new_client (replicate 20 1) (new_tokens 0 [] []))\<lparr>cl_table := demo_table\<rparr>)"
    by (intro client_ok_table new_client_ok demo_table_ok) simp
  then show "client_ok (sv_client demo_service)"
    by (rule client_ok_frame) (simp_all add: demo_service_def)
qed (simp_all add: demo_service_def)

theorem dht_restart_witness:
  "\<exists>s'. start_service (demo_report (cl_file (sv_client (stop_service 0 True demo_service)))) ''/state''
        (new_service 6881 (replicate 20 7) (new_tokens 0 [] [])) = Some (True, s') \<and> sv_running s' \<and>
     map entry_of (get_all_nodes (cl_table (sv_client s'))) = map entry_of (filter (is_good 0) (get_all_nodes demo_table))"
proof -
  have "\<exists>n \<in> set (get_all_nodes (cl_table (sv_client demo_service))). is_good 0 n"
    by (simp add: demo_service_def) code_simp
  then show ?thesis
    using demo_service_ok dht_restart [of demo_service 0 "demo_report (cl_file (sv_client (stop_service 0 True demo_service)))" "''/state''" 6881
      "replicate 20 7" "new_tokens 0 [] []"]
    by (auto simp: demo_service_def demo_report_def)
qed

section \<open>A first start without network\<close>

lemma bootstrap_send_more: "sends_more c (bootstrap_send now resolve rid c)"
  by (auto simp: bootstrap_send_def Let_def split_beta intro!: sends_more_fold sends_more_query)

lemma quiet_rounds: "\<forall>e \<in> set es. e = No_Datagram \<or> e = Receive_Error \<Longrightarrow> network_rounds es c = Some c"
  by (induction es) (auto simp: network_round_def)

lemma empty_core: "\<forall>b \<in> set (buckets t). b = [] \<Longrightarrow> table_core t' = table_core t \<Longrightarrow> find_closest_nodes now i LOOKUP_K t' = []"
  using core_good [of now i t'] by (auto simp: table_core_def)

text \<open>Without a usable routing table file, and as long as no datagram arrives, \<open>start\<close> does not return:
  the lookup after the sleep has no good node to ask.  The constructor of the torrent manager calls it.\<close>

theorem offline_start_hangs:
  assumes r: "0 \<le> sr_socket r" "sr_bound r" "pred_option (\<lambda>d. length d < 24) (sr_file r)"
    "\<forall>e \<in> set (sr_arrivals r). e = No_Datagram \<or> e = Receive_Error"
  shows "start_service r dir (new_service port i tm) = None"
proof -
  let ?d = "(sv_client (new_service port i tm))\<lparr>cl_dir := dir, cl_file := sr_file r\<rparr>"
  let ?c = "bootstrap_send (sr_send_time r) (\<lambda>host. resolve_hostname (sr_shuffle r) (sr_answers r host)) (sr_random r) ?d"
  have "snd (load_routing_table (sr_load_time r) ?d) = ?d"
    using r(3) by (auto simp: load_routing_table_def rt_deserialize_def split: option.split)
  then have b: "bootstrap r (snd (load_routing_table (sr_load_time r) ?d)) = bootstrap_finish (sr_end_time r) ?c"
    using quiet_rounds [OF r(4)] by (simp add: bootstrap_def)
  have "table_core (cl_table ?c) = table_core (new_table i)"
    using bootstrap_send_more unfolding sends_more_def by (simp add: new_service_def new_client_def)
  then have "find_closest_nodes (sr_end_time r) (cl_id ?c) LOOKUP_K (cl_table ?c) = []"
    by (rule empty_core [rotated]) (simp add: new_table_def)
  then have "bootstrap_finish (sr_end_time r) ?c = None"
    unfolding bootstrap_finish_def using lookup_starts_iff_good_node by blast
  then show ?thesis using r(1, 2) b by (simp add: start_service_def new_service_def Let_def)
qed

theorem offline_start_hangs_witness:
  "start_service (demo_report None) ''/state'' (new_service 6881 (replicate 20 7) (new_tokens 0 [] [])) = None"
  by (rule offline_start_hangs) (simp_all add: demo_report_def)

section \<open>The invariant of the service\<close>

definition event_ok :: "socket_event \<Rightarrow> bool" where
  "event_ok e \<longleftrightarrow> (case e of Datagram now junk data ip port \<Rightarrow> length ip = 4 | _ \<Rightarrow> True)"

definition report_ok :: "start_report \<Rightarrow> bool" where
  "report_ok r \<longleftrightarrow> list_all event_ok (sr_arrivals r) \<and>
     (\<forall>host ip. ip \<in> set (resolve_hostname (sr_shuffle r) (sr_answers r host)) \<longrightarrow> length ip = 4)"

definition service_ok :: "dht_service \<Rightarrow> bool" where
  "service_ok s \<longleftrightarrow> client_ok (sv_client s) \<and> (sv_running s \<longleftrightarrow> 0 \<le> sv_socket s) \<and> (sv_running s \<longrightarrow> sv_bootstrapped s)"

text \<open>What the two threads and the calls of the owner do.\<close>

inductive service_step :: "dht_service \<Rightarrow> dht_service \<Rightarrow> bool" where
  received: "sv_running s \<Longrightarrow> event_ok e \<Longrightarrow> network_round e (sv_client s) = Some c \<Longrightarrow> service_step s (s\<lparr>sv_client := c\<rparr>)"
| maintained: "sv_running s \<Longrightarrow> service_step s (s\<lparr>sv_client := maintenance_round now fresh ok (sv_client s)\<rparr>)"
| searched: "find_peers now h k (sv_client s) = Some c \<Longrightarrow> service_step s (s\<lparr>sv_client := c\<rparr>)"
| announced: "announce now h p (sv_client s) = Some c \<Longrightarrow> service_step s (s\<lparr>sv_client := c\<rparr>)"

lemma read_entries_ok: "e \<in> set (read_entries k d) \<Longrightarrow> node_ok (loaded_node now e)"
  by (induction k d rule: read_entries.induct)
    (auto simp: node_ok_def loaded_node_def decode_entry_def split: if_splits)

lemma add_nodes_ok:
  "table_ok t \<Longrightarrow> \<forall>e \<in> set es. node_ok (f e) \<Longrightarrow> table_ok (foldl (\<lambda>t e. rt_add_node now (f e) t) t es)"
  by (induction es arbitrary: t) (auto intro: add_node_ok)

lemma load_ok:
  assumes "client_ok c" "cl_table c = new_table i"
  shows "client_ok (snd (load_routing_table now c))"
proof (cases "cl_file c")
  case (Some d)
  have "table_ok (snd (rt_deserialize now d (new_table i)))"
  proof (cases "length d < 24")
    case False
    then have "table_ok ((new_table i)\<lparr>own_id := take 20 d\<rparr>)" using new_table_ok [of "take 20 d"] by (simp add: new_table_def)
    then show ?thesis using False read_entries_ok by (simp add: rt_deserialize_def Let_def add_nodes_ok)
  qed (use client_okD(1) [OF assms(1)] assms(2) in \<open>simp add: rt_deserialize_def\<close>)
  then show ?thesis using Some assms by (simp add: load_routing_table_def split_beta client_ok_table)
qed (simp add: load_routing_table_def assms(1))

lemma network_round_ok: "client_ok c \<Longrightarrow> event_ok e \<Longrightarrow> network_round e c = Some c' \<Longrightarrow> client_ok c'"
  by (auto simp: network_round_def event_ok_def split: socket_event.splits if_splits intro: receive_datagram_ok)

lemma network_rounds_ok:
  "client_ok c \<Longrightarrow> list_all event_ok es \<Longrightarrow> network_rounds es c = Some c' \<Longrightarrow> client_ok c'"
  by (induction es arbitrary: c) (auto intro: network_round_ok split: bind_splits)

lemma bootstrap_ok:
  assumes "client_ok c" "report_ok r" "bootstrap r c = Some c'"
  shows "client_ok c'"
proof -
  let ?c = "bootstrap_send (sr_send_time r) (\<lambda>host. resolve_hostname (sr_shuffle r) (sr_answers r host)) (sr_random r) c"
  obtain d where d: "network_rounds (sr_arrivals r) ?c = Some d" "bootstrap_finish (sr_end_time r) d = Some c'"
    using assms(3) by (auto simp: bootstrap_def split: bind_splits)
  have "client_ok ?c" using assms by (intro bootstrap_send_ok) (auto simp: report_ok_def)
  then have "client_ok d" using d(1) assms(2) network_rounds_ok by (auto simp: report_ok_def)
  then show ?thesis using d(2) find_lookups_ok(1) by (simp add: bootstrap_finish_def)
qed

lemma start_ok:
  assumes "id_ok i" "report_ok r" "start_service r dir (new_service port i tm) = Some (ok, s)"
  shows "service_ok s"
proof -
  let ?d = "(sv_client (new_service port i tm))\<lparr>cl_dir := dir, cl_file := sr_file r\<rparr>"
  have d: "client_ok ?d" "cl_table ?d = new_table i"
    using new_client_ok [OF assms(1), of tm] by (auto simp: new_service_def new_client_def intro: client_ok_frame)
  show ?thesis using assms(3) d(1) bootstrap_ok [OF load_ok [OF d] assms(2)]
    by (auto simp: service_ok_def start_service_def Let_def new_service_def split: if_splits)
qed

lemma step_ok: "service_step s s' \<Longrightarrow> service_ok s \<Longrightarrow> service_ok s'"
  by (induction rule: service_step.induct)
    (auto simp: service_ok_def intro: network_round_ok maintenance_ok find_lookups_ok)

lemma stop_ok: "service_ok s \<Longrightarrow> service_ok (stop_service now ok s)"
  by (auto simp: service_ok_def stop_service_def save_routing_table_def intro: client_ok_frame)

theorem service_reachable_ok:
  assumes "id_ok i" "report_ok r" "start_service r dir (new_service port i tm) = Some (ok, s0)"
    "service_step\<^sup>*\<^sup>* s0 s"
  shows "service_ok s \<and> service_ok (stop_service now saved s)"
  using assms(4) start_ok [OF assms(1-3)] by (induction rule: rtranclp_induct) (auto intro: step_ok stop_ok)

lemma demo_report_ok: "report_ok (demo_report f)"
  by (simp add: report_ok_def demo_report_def resolve_hostname_def eval_nat_numeral)

theorem service_reachable_ok_witness:
  "\<exists>s0. start_service ((demo_report None)\<lparr>sr_bound := False\<rparr>) [] (new_service 6881 (replicate 20 7) (new_tokens 0 [] [])) =
     Some (False, s0) \<and> service_ok s0"
proof -
  obtain s0 where s0: "start_service ((demo_report None)\<lparr>sr_bound := False\<rparr>) []
      (new_service 6881 (replicate 20 7) (new_tokens 0 [] [])) = Some (False, s0)"
    by (simp add: demo_report_def start_service_def new_service_def)
  have "report_ok ((demo_report None)\<lparr>sr_bound := False\<rparr>)"
    using demo_report_ok by (simp add: report_ok_def)
  from service_reachable_ok [OF _ this s0 rtranclp.rtrancl_refl, of 0] s0 show ?thesis by simp
qed

section \<open>The directory stays\<close>

lemma sends_dir [simp]:
  "cl_dir (send_ping now n c) = cl_dir c" "cl_dir (send_find_node now n t lk c) = cl_dir c"
  "cl_dir (send_get_peers now n h cb lk c) = cl_dir c" "cl_dir (send_announce_peer now n h p tok c) = cl_dir c"
  "cl_dir (send_message d ip port c) = cl_dir c"
  by (simp_all add: send_defs mark_sent_def send_message_def track_query_def)

lemma fold_dir: "(\<And>x c. cl_dir (f x c) = cl_dir c) \<Longrightarrow> cl_dir (fold f xs c) = cl_dir c"
  by (induction xs arbitrary: c) simp_all

lemma lookups_dir:
  "cl_dir (query_one now a l n c) = cl_dir c" "cl_dir (announce_to now l x n c) = cl_dir c"
  by (auto simp: query_one_def announce_to_def split: option.split)

lemma finish_dir: "cl_dir (finish_lookup now l c) = cl_dir c"
  by (simp add: finish_lookup_def Let_def fold_dir lookups_dir split: option.split)

lemma continue_dir: "continue_lookup now held a c = Some c' \<Longrightarrow> cl_dir c' = cl_dir c"
  by (auto simp: continue_lookup_def Let_def split_beta fold_dir lookups_dir finish_dir split: if_splits)

lemma start_dir: "start_lookup now l c = Some c' \<Longrightarrow> cl_dir c' = cl_dir c"
  by (auto simp: start_lookup_def Let_def dest: continue_dir)

lemma iterative_dir:
  "iterative_find_node now t c = Some c' \<Longrightarrow> cl_dir c' = cl_dir c"
  "find_peers now h k c = Some c' \<Longrightarrow> cl_dir c' = cl_dir c"
  "announce now h p c = Some c' \<Longrightarrow> cl_dir c' = cl_dir c"
  by (auto simp: iterative_find_node_def find_peers_def iterative_get_peers_def announce_def next_tid_def Let_def
      dest!: start_dir)

lemma handlers_dir:
  "cl_dir (handle_query now junk m ip port c) = cl_dir c" "cl_dir (handle_error e c) = cl_dir c"
  "cl_dir (snd (check_rate_limit now ip c)) = cl_dir c" "cl_dir (run_callback now r q c) = cl_dir c"
  "cl_dir (report_peers r q c) = cl_dir c" "cl_dir (maintenance_round now fresh ok c) = cl_dir c"
  by (auto simp: handle_query_def handle_error_def remove_pending_query_def check_rate_limit_def Let_def store_peer_def
      run_callback_def report_peers_def maintenance_round_def save_routing_table_def expire_peers_def
      check_node_health_def refresh_routing_table_def cleanup_expired_queries_def fold_dir
      split: option.split query_type.split prod.split)

lemma response_dir: "handle_response now r c = Some c' \<Longrightarrow> cl_dir c' = cl_dir c"
  by (auto simp: handle_response_def handle_lookup_response_def Let_def handlers_dir remove_pending_query_def
      split: option.splits if_splits dest!: continue_dir)

lemma round_dir: "network_round e c = Some c' \<Longrightarrow> cl_dir c' = cl_dir c"
proof -
  have "cl_dir d' = cl_dir d" if d: "receive_datagram now junk data ip port d = Some d'" for now junk data ip port d d'
  proof -
    obtain ok d1 where d1: "check_rate_limit now ip d = (ok, d1)" by force
    then have "cl_dir d1 = cl_dir d" using handlers_dir(3) [of now ip d] by simp
    then show ?thesis using d
      by (auto simp: receive_datagram_def d1 handlers_dir split: if_splits option.splits dest!: response_dir)
  qed
  then show "network_round e c = Some c' \<Longrightarrow> ?thesis"
    by (auto simp: network_round_def split: socket_event.splits if_splits)
qed

lemma rounds_dir: "network_rounds es c = Some c' \<Longrightarrow> cl_dir c' = cl_dir c"
  by (induction es arbitrary: c) (auto split: bind_splits dest!: round_dir)

lemma bootstrap_dir: "bootstrap r c = Some c' \<Longrightarrow> cl_dir c' = cl_dir c"
proof -
  have "cl_dir (bootstrap_send now f g c) = cl_dir c" for now f g
    by (simp add: bootstrap_send_def Let_def split_beta fold_dir)
  then show "bootstrap r c = Some c' \<Longrightarrow> ?thesis"
    by (auto simp: bootstrap_def bootstrap_finish_def split: bind_splits dest!: rounds_dir iterative_dir(1))
qed

lemma service_dir:
  "start_service r dir (new_service port i tm) = Some (ok, s) \<Longrightarrow> cl_dir (sv_client s) = dir"
  "service_step s s' \<Longrightarrow> cl_dir (sv_client s') = cl_dir (sv_client s)"
proof -
  show "start_service r dir (new_service port i tm) = Some (ok, s) \<Longrightarrow> cl_dir (sv_client s) = dir"
    by (auto simp: start_service_def new_service_def Let_def load_routing_table_def split_beta
        split: if_splits option.splits dest!: bootstrap_dir)
  show "service_step s s' \<Longrightarrow> cl_dir (sv_client s') = cl_dir (sv_client s)"
    by (induction rule: service_step.induct) (auto simp: handlers_dir dest: round_dir iterative_dir)
qed

end
