(* ===== verification/Log_Files.thy ===== *)
theory Log_Files
  imports Text
begin

text \<open>
  The rotating log file of \<open>include/logging.hpp\<close> (class \<open>RotatingFileLogger\<close>).  Files are a map from
  names to contents; \<open>openable\<close> says which names can be opened for appending, \<open>now\<close> is the reading of
  the steady clock in nanoseconds.  \<open>std::remove\<close> and \<open>std::rename\<close> succeed on files that exist and
  change nothing otherwise.  The logger is compared with a list of segments, the last of which is
  written to.
\<close>

section \<open>Files\<close>

type_synonym files = "string \<Rightarrow> string option"

definition remove_file :: "string \<Rightarrow> files \<Rightarrow> files" where
  "remove_file f fs = fs(f := None)"

definition rename_file :: "string \<Rightarrow> string \<Rightarrow> files \<Rightarrow> files" where
  "rename_file old_name new_name fs =
     (case fs old_name of None \<Rightarrow> fs | Some c \<Rightarrow> fs(old_name := None, new_name := Some c))"

definition content :: "files \<Rightarrow> string \<Rightarrow> string" where
  "content fs f = (case fs f of None \<Rightarrow> [] | Some c \<Rightarrow> c)"

section \<open>The logger\<close>

datatype rotation_strategy = By_Size | By_Time

record rotating_file =
  rf_base :: string
  rf_open :: bool
  rf_max_size :: nat
  rf_max_files :: int
  rf_strategy :: rotation_strategy
  rf_last_rotation :: int
  rf_interval :: int
  rf_size :: nat

definition open_current_file :: "(string \<Rightarrow> bool) \<Rightarrow> rotating_file \<Rightarrow> files \<Rightarrow> rotating_file \<times> files" where
  "open_current_file openable l fs =
     (if openable (rf_base l) then
        (l\<lparr>rf_open := True,
           rf_size := (if rf_strategy l = By_Size then length (content fs (rf_base l)) else rf_size l)\<rparr>,
         fs(rf_base l := Some (content fs (rf_base l))))
      else (l\<lparr>rf_open := False\<rparr>, fs))"

definition rotating_by_size ::
    "(string \<Rightarrow> bool) \<Rightarrow> int \<Rightarrow> string \<Rightarrow> nat \<Rightarrow> int \<Rightarrow> files \<Rightarrow> rotating_file \<times> files" where
  "rotating_by_size openable now base max_size max_files fs =
     open_current_file openable
       \<lparr>rf_base = base, rf_open = False, rf_max_size = max_size, rf_max_files = max_files, rf_strategy = By_Size,
        rf_last_rotation = now, rf_interval = 24, rf_size = 0\<rparr> fs"

definition rotating_by_time ::
    "(string \<Rightarrow> bool) \<Rightarrow> int \<Rightarrow> string \<Rightarrow> int \<Rightarrow> int \<Rightarrow> files \<Rightarrow> rotating_file \<times> files" where
  "rotating_by_time openable now base hours max_files fs =
     open_current_file openable
       \<lparr>rf_base = base, rf_open = False, rf_max_size = 0, rf_max_files = max_files, rf_strategy = By_Time,
        rf_last_rotation = now, rf_interval = hours, rf_size = 0\<rparr> fs"

text \<open>The hours that have passed are cut, as \<open>duration_cast\<close> does; the clock does not go back.\<close>

definition should_rotate :: "int \<Rightarrow> nat \<Rightarrow> rotating_file \<Rightarrow> bool" where
  "should_rotate now next_write_size l \<longleftrightarrow>
     (case rf_strategy l of
        By_Size \<Rightarrow> rf_max_size l \<le> u64_add (rf_size l) next_write_size
      | By_Time \<Rightarrow> rf_interval l \<le> (now - rf_last_rotation l) div 3600000000000)"

definition backup :: "string \<Rightarrow> nat \<Rightarrow> string" where
  "backup base i = base @ ''.'' @ show_nat i"

text \<open>The loop from \<open>i\<close> down to 1.\<close>

fun shift_backups :: "string \<Rightarrow> nat \<Rightarrow> files \<Rightarrow> files" where
  "shift_backups base 0 fs = fs"
| "shift_backups base (Suc i) fs =
     shift_backups base i
       (rename_file (backup base (Suc i)) (backup base (Suc i + 1)) (remove_file (backup base (Suc i + 1)) fs))"

definition rotate :: "(string \<Rightarrow> bool) \<Rightarrow> int \<Rightarrow> rotating_file \<Rightarrow> files \<Rightarrow> rotating_file \<times> files" where
  "rotate openable now l fs =
     (let fs1 = shift_backups (rf_base l) (nat (rf_max_files l - 1)) fs;
          fs2 = rename_file (rf_base l) (backup (rf_base l) 1) fs1;
          (l', fs3) = open_current_file openable l fs2
      in (l'\<lparr>rf_size := 0, rf_last_rotation := now\<rparr>, fs3))"

text \<open>The message and its end of line go to the open file; a file that is not open takes nothing.\<close>

definition append_line :: "string \<Rightarrow> rotating_file \<Rightarrow> files \<Rightarrow> files" where
  "append_line msg l fs =
     (if rf_open l then fs(rf_base l := Some (content fs (rf_base l) @ msg @ [CHR 0x0A])) else fs)"

text \<open>The last result is what goes to the error stream, line by line.\<close>

definition write_log ::
    "(string \<Rightarrow> bool) \<Rightarrow> int \<Rightarrow> string \<Rightarrow> rotating_file \<Rightarrow> files \<Rightarrow> rotating_file \<times> files \<times> string list" where
  "write_log openable now msg l fs =
     (case (if rf_open l then (l, fs) else open_current_file openable l fs) of
        (l1, fs1) \<Rightarrow>
          if \<not> rf_open l1 then (l1, fs1, [''Failed to open log file: '' @ rf_base l, msg])
          else case (if should_rotate now (length msg + 1) l1 then rotate openable now l1 fs1 else (l1, fs1)) of
              (l2, fs2) \<Rightarrow>
                ((if rf_strategy l2 = By_Size then l2\<lparr>rf_size := u64_add (rf_size l2) (length msg + 1)\<rparr> else l2),
                 append_line msg l2 fs2, []))"

section \<open>The shift of the backups\<close>

lemma show_nat_inject: "show_nat i = show_nat j \<longleftrightarrow> i = j"
  by (metis dec_val_show_nat)

lemma backup_facts [simp]:
  "backup base i = backup base j \<longleftrightarrow> i = j" "backup base i \<noteq> base" "base \<noteq> backup base i"
  by (simp_all add: backup_def show_nat_inject)

lemma rename_removed:
  assumes "old_name \<noteq> new_name"
  shows "rename_file old_name new_name (remove_file new_name fs) = fs(old_name := None, new_name := fs old_name)"
  using assms by (auto simp: rename_file_def remove_file_def split: option.split)

lemma shift_backups_other: "(\<And>i. 1 \<le> i \<Longrightarrow> i \<le> k + 1 \<Longrightarrow> f \<noteq> backup base i) \<Longrightarrow> shift_backups base k fs f = fs f"
  by (induction k arbitrary: fs) (simp_all add: rename_removed)

lemma shift_backups_moved: "1 \<le> i \<Longrightarrow> i \<le> k \<Longrightarrow> shift_backups base k fs (backup base (i + 1)) = fs (backup base i)"
proof (induction k arbitrary: fs)
  case (Suc k)
  show ?case
  proof (cases "i = Suc k")
    case True
    then show ?thesis by (simp add: rename_removed shift_backups_other)
  next
    case False
    with Suc show ?thesis by (simp add: rename_removed)
  qed
qed simp

section \<open>Segments\<close>

text \<open>How many backups are kept.  The segments are the backups, the oldest first, and the file that is
  written to; a file that does not exist is an empty segment.\<close>

definition kept :: "rotating_file \<Rightarrow> nat" where
  "kept l = max 1 (nat (rf_max_files l))"

definition segments :: "rotating_file \<Rightarrow> files \<Rightarrow> string list" where
  "segments l fs = map (\<lambda>i. content fs (backup (rf_base l) i)) (rev [1..<kept l + 1]) @ [content fs (rf_base l)]"

definition same_setup :: "rotating_file \<Rightarrow> rotating_file \<Rightarrow> bool" where
  "same_setup l l' \<longleftrightarrow> rf_base l' = rf_base l \<and> rf_max_size l' = rf_max_size l \<and> rf_max_files l' = rf_max_files l \<and>
     rf_strategy l' = rf_strategy l \<and> rf_interval l' = rf_interval l"

definition log_inv :: "rotating_file \<Rightarrow> files \<Rightarrow> bool" where
  "log_inv l fs \<longleftrightarrow>
     (rf_open l \<longrightarrow> fs (rf_base l) \<noteq> None \<and> (rf_strategy l = By_Size \<longrightarrow> rf_size l = length (content fs (rf_base l))))"

lemma length_segments [simp]: "length (segments l fs) = kept l + 1"
  by (simp add: segments_def)

lemma segments_nonempty [simp]: "segments l fs \<noteq> []"
  by (simp add: segments_def)

lemma last_segment [simp]: "last (segments l fs) = content fs (rf_base l)"
  by (simp add: segments_def)

lemma same_setup_kept: "same_setup l l' \<Longrightarrow> kept l' = kept l"
  by (simp add: same_setup_def kept_def)

lemma same_setup_refl: "same_setup l l"
  by (simp add: same_setup_def)

lemma same_setup_trans: "same_setup l l' \<Longrightarrow> same_setup l' l'' \<Longrightarrow> same_setup l l''"
  by (simp add: same_setup_def)

text \<open>The new segments of a rotation.\<close>

lemma rotated_segments:
  assumes "same_setup l l'" "fs' (rf_base l) = Some []" "fs' (backup (rf_base l) 1) = fs (rf_base l)"
    and "\<And>i. 1 \<le> i \<Longrightarrow> i < kept l \<Longrightarrow> fs' (backup (rf_base l) (i + 1)) = fs (backup (rf_base l) i)"
  shows "segments l' fs' = tl (segments l fs) @ [[]]"
proof -
  let ?b = "backup (rf_base l)"
  have "kept l \<noteq> 0" by (simp add: kept_def)
  then obtain n where n: "kept l = Suc n" by (cases "kept l") simp_all
  have k: "kept l' = Suc n" "rf_base l' = rf_base l" using assms(1) n by (simp add: same_setup_kept, simp add: same_setup_def)
  have "map (\<lambda>i. content fs' (?b i)) (rev [1..<Suc n + 1]) =
      map (\<lambda>i. content fs' (?b (i + 1))) (rev [1..<Suc n]) @ [content fs' (?b 1)]"
  proof -
    have "[1..<Suc n + 1] = 1 # map Suc [1..<Suc n]"
      unfolding map_Suc_upt using upt_conv_Cons [of 1 "Suc n + 1"] by simp
    then show ?thesis by (simp only: rev.simps rev_map map_append list.map map_map comp_def Suc_eq_plus1)
  qed
  also have "map (\<lambda>i. content fs' (?b (i + 1))) (rev [1..<Suc n]) = map (\<lambda>i. content fs (?b i)) (rev [1..<Suc n])"
    using assms(4) n by (intro map_cong) (auto simp: content_def)
  finally have "map (\<lambda>i. content fs' (?b i)) (rev [1..<Suc n + 1]) =
      map (\<lambda>i. content fs (?b i)) (rev [1..<Suc n]) @ [content fs (rf_base l)]"
    using assms(3) by (simp add: content_def)
  moreover have "tl (segments l fs) = map (\<lambda>i. content fs (?b i)) (rev [1..<Suc n]) @ [content fs (rf_base l)]"
    by (simp add: segments_def n)
  moreover have "content fs' (rf_base l) = []" using assms(2) by (simp add: content_def)
  ultimately show ?thesis by (simp add: segments_def k)
qed

lemma rotate_result:
  assumes "rotate openable now l fs = (l', fs')" "openable (rf_base l)" "fs (rf_base l) \<noteq> None"
  shows "same_setup l l'" "segments l' fs' = tl (segments l fs) @ [[]]" "rf_open l'" "rf_size l' = 0" "fs' (rf_base l) = Some []"
proof -
  let ?b = "backup (rf_base l)"
  obtain c where c: "fs (rf_base l) = Some c" using assms(3) by blast
  define fs1 where "fs1 = shift_backups (rf_base l) (nat (rf_max_files l - 1)) fs"
  have base: "fs1 (rf_base l) = Some c" by (simp add: fs1_def shift_backups_other c)
  have r: "rename_file (rf_base l) (?b (Suc 0)) fs1 = fs1(rf_base l := None, ?b (Suc 0) := Some c)"
    by (simp add: rename_file_def base)
  from assms(1,2) have l': "l' = l\<lparr>rf_open := True, rf_size := 0, rf_last_rotation := now\<rparr>"
    and fs': "fs' = fs1(?b 1 := Some c, rf_base l := Some [])"
    by (auto simp: rotate_def Let_def open_current_file_def r content_def simp flip: fs1_def)
  have k: "nat (rf_max_files l - 1) = kept l - 1" by (auto simp: kept_def)
  show s: "same_setup l l'" by (simp add: l' same_setup_def)
  show "rf_open l'" "rf_size l' = 0" "fs' (rf_base l) = Some []" by (simp_all add: l' fs')
  show "segments l' fs' = tl (segments l fs) @ [[]]"
  proof (rule rotated_segments [OF s])
    fix i assume "1 \<le> i" "i < kept l"
    then show "fs' (?b (i + 1)) = fs (?b i)"
      using shift_backups_moved [of i "kept l - 1" "rf_base l" fs] by (simp add: fs' fs1_def k)
  qed (simp_all add: fs' c)
qed

section \<open>Writing\<close>

definition line_text :: "string \<Rightarrow> string" where
  "line_text msg = msg @ [CHR 0x0A]"

definition extend_last :: "string \<Rightarrow> string list \<Rightarrow> string list" where
  "extend_last x xs = butlast xs @ [last xs @ x]"

definition next_segments :: "bool \<Rightarrow> string \<Rightarrow> string list \<Rightarrow> string list" where
  "next_segments rotated x xs = (if rotated then tl xs @ [x] else extend_last x xs)"

lemma opened:
  assumes "openable (rf_base l)" "log_inv l fs"
    and "(if rf_open l then (l, fs) else open_current_file openable l fs) = (l1, fs1)"
  shows "same_setup l l1" "segments l1 fs1 = segments l fs" "rf_open l1" "log_inv l1 fs1"
proof -
  have "segments l1 fs1 = segments l fs \<and> same_setup l l1 \<and> rf_open l1 \<and> log_inv l1 fs1"
  proof (cases "rf_open l")
    case True
    with assms(2,3) show ?thesis by (auto simp: same_setup_refl)
  next
    case False
    let ?b = "rf_base l"
    from False assms(1,3) have l1: "l1 = l\<lparr>rf_open := True, rf_size := (if rf_strategy l = By_Size then length (content fs ?b) else rf_size l)\<rparr>"
      and fs1: "fs1 = fs(?b := Some (content fs ?b))" by (simp_all add: open_current_file_def)
    have "content fs1 f = content fs f" for f by (simp add: fs1 content_def)
    then show ?thesis by (simp add: l1 segments_def kept_def same_setup_def log_inv_def) (simp add: fs1)
  qed
  then show "same_setup l l1" "segments l1 fs1 = segments l fs" "rf_open l1" "log_inv l1 fs1" by simp_all
qed

lemma append_segments:
  assumes "rf_open l" "fs (rf_base l) \<noteq> None" "same_setup l l'"
  shows "segments l' (append_line msg l fs) = extend_last (line_text msg) (segments l fs)"
  using assms by (simp add: segments_def same_setup_kept append_line_def extend_last_def line_text_def content_def butlast_append)
    (simp add: same_setup_def)

lemma maybe_rotated:
  assumes "openable (rf_base l)" "rf_open l" "log_inv l fs"
    and "(if rot then rotate openable now l fs else (l, fs)) = (l', fs')"
  shows "same_setup l l'" "rf_open l'" "log_inv l' fs'" "fs' (rf_base l') \<noteq> None"
    "segments l' fs' = (if rot then tl (segments l fs) @ [[]] else segments l fs)"
    "length (content fs' (rf_base l')) \<le> length (content fs (rf_base l))"
proof -
  have "fs (rf_base l) \<noteq> None" using assms(2,3) by (simp add: log_inv_def)
  then have "same_setup l l' \<and> rf_open l' \<and> log_inv l' fs' \<and> fs' (rf_base l') \<noteq> None \<and>
      segments l' fs' = (if rot then tl (segments l fs) @ [[]] else segments l fs) \<and>
      length (content fs' (rf_base l')) \<le> length (content fs (rf_base l))"
  proof (cases rot)
    case True
    with assms(4) have r: "rotate openable now l fs = (l', fs')" by simp
    note x = rotate_result [where openable = openable, OF r assms(1) \<open>fs (rf_base l) \<noteq> None\<close>]
    then have "rf_base l' = rf_base l" by (simp add: same_setup_def)
    with x True show ?thesis by (simp add: content_def log_inv_def)
  qed (use assms in \<open>auto simp: same_setup_refl\<close>)
  then show "same_setup l l'" "rf_open l'" "log_inv l' fs'" "fs' (rf_base l') \<noteq> None"
    "segments l' fs' = (if rot then tl (segments l fs) @ [[]] else segments l fs)"
    "length (content fs' (rf_base l')) \<le> length (content fs (rf_base l))" by simp_all
qed

lemma write_step:
  assumes "openable (rf_base l)" "log_inv l fs" "length (content fs (rf_base l)) + length msg + 1 < 2 ^ 64"
    and "write_log openable now msg l fs = (l', fs', err)"
  shows "\<exists>rotated. err = [] \<and> same_setup l l' \<and> rf_open l' \<and> log_inv l' fs' \<and>
    segments l' fs' = next_segments rotated (line_text msg) (segments l fs) \<and>
    (rf_strategy l = By_Size \<longrightarrow> rotated = (rf_max_size l \<le> length (content fs (rf_base l)) + length msg + 1))"
proof -
  obtain l1 fs1 where o: "(if rf_open l then (l, fs) else open_current_file openable l fs) = (l1, fs1)" by force
  note l1 = opened [where openable = openable, OF assms(1,2) o]
  have base: "rf_base l1 = rf_base l" "rf_strategy l1 = rf_strategy l" "rf_max_size l1 = rf_max_size l"
    using l1(1) by (simp_all add: same_setup_def)
  have c: "content fs1 (rf_base l) = content fs (rf_base l)"
    using arg_cong [OF l1(2), of last] by (simp add: base)
  let ?rot = "should_rotate now (length msg + 1) l1"
  obtain l2 fs2 where r: "(if ?rot then rotate openable now l1 fs1 else (l1, fs1)) = (l2, fs2)" by force
  have "openable (rf_base l1)" using assms(1) base(1) by simp
  note l2 = maybe_rotated [where openable = openable, OF this l1(3,4) r]
  from assms(4) o r l1(3) have l': "l' = (if rf_strategy l2 = By_Size then l2\<lparr>rf_size := u64_add (rf_size l2) (length msg + 1)\<rparr> else l2)"
    and fs': "fs' = append_line msg l2 fs2" and err: "err = []"
    by (simp_all add: write_log_def)
  have s: "same_setup l2 l'" "rf_open l'" using l2(2) by (simp_all add: l' same_setup_def)
  have "log_inv l' fs'"
    using l2(2-4,6) assms(3) c base
    by (auto simp: log_inv_def l' fs' append_line_def content_def u64_add_id split: option.splits)
  moreover have "segments l' fs' = next_segments ?rot (line_text msg) (segments l fs)"
    unfolding fs' append_segments [where fs = fs2, OF l2(2,4) s(1)] l2(5) l1(2) by (simp add: next_segments_def extend_last_def butlast_append)
  moreover have "rf_strategy l = By_Size \<longrightarrow> ?rot = (rf_max_size l \<le> length (content fs (rf_base l)) + length msg + 1)"
    using l1(3,4) assms(3) c by (auto simp: should_rotate_def base log_inv_def u64_add_id)
  moreover have "same_setup l l'" using l1(1) l2(1) s(1) same_setup_trans by blast
  ultimately show ?thesis using err s(2) by blast
qed

section \<open>A run of the logger\<close>

text \<open>The messages with the clock readings at which they are written.\<close>

fun write_lines ::
    "(string \<Rightarrow> bool) \<Rightarrow> (int \<times> string) list \<Rightarrow> rotating_file \<Rightarrow> files \<Rightarrow> rotating_file \<times> files \<times> string list" where
  "write_lines openable [] l fs = (l, fs, [])"
| "write_lines openable ((now, msg) # ms) l fs =
     (case write_log openable now msg l fs of (l1, fs1, err) \<Rightarrow>
        case write_lines openable ms l1 fs1 of (l2, fs2, errs) \<Rightarrow> (l2, fs2, err @ errs))"

text \<open>The segments hold these groups of messages.\<close>

definition group_text :: "string list \<Rightarrow> string" where
  "group_text ms = concat (map line_text ms)"

definition holds_groups :: "string list list \<Rightarrow> rotating_file \<Rightarrow> files \<Rightarrow> bool" where
  "holds_groups gs l fs \<longleftrightarrow> segments l fs = map group_text gs"

definition next_groups :: "bool \<Rightarrow> string \<Rightarrow> string list list \<Rightarrow> string list list" where
  "next_groups rotated m gs = (if rotated then tl gs @ [[m]] else butlast gs @ [last gs @ [m]])"

lemma next_groups_text:
  "gs \<noteq> [] \<Longrightarrow> map group_text (next_groups rotated m gs) = next_segments rotated (line_text m) (map group_text gs)"
  by (simp add: next_groups_def next_segments_def extend_last_def map_tl map_butlast last_map group_text_def)

lemma next_groups_concat:
  assumes "gs \<noteq> []"
  shows "\<exists>d. concat gs @ [m] = d @ concat (next_groups rotated m gs)"
proof (cases rotated)
  case True
  then show ?thesis using assms by (cases gs) (auto simp: next_groups_def)
next
  case False
  have "concat gs = concat (butlast gs) @ last gs"
    using assms by (metis append_butlast_last_id concat.simps concat_append append_Nil2)
  then show ?thesis using False by (simp add: next_groups_def)
qed

lemma next_segments_bound:
  assumes "\<forall>x \<in> set xs. length x \<le> B" "length (line_text m) \<le> B" "xs \<noteq> []"
    and "\<not> rotated \<Longrightarrow> length (last xs) + length (line_text m) \<le> B"
  shows "\<forall>x \<in> set (next_segments rotated (line_text m) xs). length x \<le> B"
  using assms by (auto simp: next_segments_def extend_last_def dest: in_set_butlastD) (metis list.set_sel(2) tl_Nil)

lemma write_lines_groups:
  assumes "openable (rf_base l)" "log_inv l fs" "holds_groups gs l fs"
    and "length (concat (segments l fs)) + length (concat (map (\<lambda>m. line_text (snd m)) ms)) < 2 ^ 64"
    and "write_lines openable ms l fs = (l', fs', err)"
  shows "err = [] \<and> (\<exists>d gs'. concat gs @ map snd ms = d @ concat gs' \<and> length gs' = length gs \<and> holds_groups gs' l' fs' \<and>
    same_setup l l' \<and> log_inv l' fs')"
  using assms
proof (induction ms arbitrary: l fs gs err)
  case Nil
  then show ?case by (intro conjI exI [of _ "[]"] exI [of _ gs]) (simp_all add: same_setup_refl)
next
  case (Cons p ms)
  obtain now m where p: "p = (now, m)" by force
  obtain l1 fs1 err1 where w: "write_log openable now m l fs = (l1, fs1, err1)" by (metis prod_cases3)
  obtain l2 fs2 err2 where ws: "write_lines openable ms l1 fs1 = (l2, fs2, err2)" by (metis prod_cases3)
  have l2: "l2 = l'" "fs2 = fs'" "err = err1 @ err2" using Cons.prems(5) w ws by (simp_all add: p)
  have gs: "gs \<noteq> []" using Cons.prems(3) by (auto simp: holds_groups_def)
  have "segments l fs = butlast (segments l fs) @ [content fs (rf_base l)]"
    by (metis append_butlast_last_id last_segment segments_nonempty)
  then have "length (content fs (rf_base l)) \<le> length (concat (segments l fs))"
    by (metis concat.simps concat_append length_append le_add2 append_Nil2)
  then have "length (content fs (rf_base l)) + length m + 1 < 2 ^ 64" using Cons.prems(4) by (simp add: p line_text_def)
  from write_step [where openable = openable, OF Cons.prems(1,2) this w] obtain rot where
    s: "err1 = []" "same_setup l l1" "log_inv l1 fs1" "segments l1 fs1 = next_segments rot (line_text m) (segments l fs)" by blast
  have h: "holds_groups (next_groups rot m gs) l1 fs1"
    using Cons.prems(3) s(4) gs by (simp add: holds_groups_def next_groups_text)
  obtain d where d: "concat gs @ [m] = d @ concat (next_groups rot m gs)" using next_groups_concat [OF gs] by blast
  have len_text: "length (concat (map group_text hs)) = length (group_text (concat hs))" for hs
    by (induction hs) (simp_all add: group_text_def)
  have "length (group_text (concat (next_groups rot m gs))) \<le> length (group_text (concat gs @ [m]))"
    unfolding d by (simp add: group_text_def)
  then have len: "length (concat (segments l1 fs1)) \<le> length (concat (segments l fs)) + length (line_text m)"
    using h Cons.prems(3) by (simp add: holds_groups_def len_text) (simp add: group_text_def)
  have "openable (rf_base l1)" using Cons.prems(1) s(2) by (simp add: same_setup_def)
  from Cons.IH [OF this s(3) h _ ws [unfolded l2]] len Cons.prems(4)
  obtain e gs' where i: "err2 = []" "concat (next_groups rot m gs) @ map snd ms = e @ concat gs'" "length gs' = length (next_groups rot m gs)"
    "holds_groups gs' l' fs'" "same_setup l1 l'" "log_inv l' fs'" by (auto simp: p)
  have "concat gs @ map snd (p # ms) = (d @ e) @ concat gs'" using d i(2) by (simp add: p) (metis append.assoc append_Cons append_Nil)
  moreover have "length gs' = length gs" using i(3) gs by (cases rot) (simp_all add: next_groups_def)
  ultimately show ?case using i(1,4,6) s(1) l2(3) same_setup_trans [OF s(2) i(5)] by blast
qed

lemma open_setup: "open_current_file openable l fs = (l', fs') \<Longrightarrow> same_setup l l'"
  by (auto simp: open_current_file_def same_setup_def split: if_splits)

lemma rotate_setup: "rotate openable now l fs = (l', fs') \<Longrightarrow> same_setup l l'"
  by (auto simp: rotate_def Let_def same_setup_def dest!: open_setup split: prod.splits)

lemma write_log_setup: "write_log openable now msg l fs = (l', fs', err) \<Longrightarrow> same_setup l l'"
  by (auto simp: write_log_def same_setup_def dest!: open_setup rotate_setup split: prod.splits if_splits)

lemma write_lines_setup: "write_lines openable ms l fs = (l', fs', err) \<Longrightarrow> same_setup l l'"
proof (induction ms arbitrary: l fs err)
  case (Cons p ms)
  then show ?case by (cases p) (auto dest!: write_log_setup intro: same_setup_trans split: prod.splits)
qed (simp add: same_setup_refl)

lemma write_lines_bound:
  assumes "openable (rf_base l)" "log_inv l fs" "rf_strategy l = By_Size"
    and "\<forall>s \<in> set (segments l fs). length s \<le> B" "\<forall>m \<in> set ms. length (line_text (snd m)) \<le> B" "rf_max_size l \<le> B + 1" "2 * B < 2 ^ 64"
    and "write_lines openable ms l fs = (l', fs', err)"
  shows "\<forall>s \<in> set (segments l' fs'). length s \<le> B"
  using assms
proof (induction ms arbitrary: l fs err)
  case (Cons p ms)
  obtain now m where p: "p = (now, m)" by force
  obtain l1 fs1 err1 where w: "write_log openable now m l fs = (l1, fs1, err1)" by (metis prod_cases3)
  obtain l2 fs2 err2 where ws: "write_lines openable ms l1 fs1 = (l2, fs2, err2)" by (metis prod_cases3)
  have l2: "l2 = l'" "fs2 = fs'" using Cons.prems(8) w ws by (simp_all add: p)
  have lm: "length (line_text m) \<le> B" "length (line_text m) = length m + 1" using Cons.prems(5) by (simp_all add: p line_text_def)
  have last: "length (content fs (rf_base l)) \<le> B" using Cons.prems(4) last_in_set [OF segments_nonempty, of l fs] by simp
  with lm Cons.prems(7) have "length (content fs (rf_base l)) + length m + 1 < 2 ^ 64" by simp
  from write_step [where openable = openable, OF Cons.prems(1,2) this w] Cons.prems(3) obtain rot where
    s: "same_setup l l1" "log_inv l1 fs1" "segments l1 fs1 = next_segments rot (line_text m) (segments l fs)"
    "rot = (rf_max_size l \<le> length (content fs (rf_base l)) + length m + 1)" by blast
  have "\<forall>x \<in> set (segments l1 fs1). length x \<le> B"
    unfolding s(3) using Cons.prems(4,6) lm s(4) by (intro next_segments_bound) simp_all
  moreover have "openable (rf_base l1)" "rf_strategy l1 = By_Size" "rf_max_size l1 \<le> B + 1"
    using Cons.prems(1,3,6) s(1) by (simp_all add: same_setup_def)
  ultimately show ?case using Cons.IH [OF _ s(2) _ _ _ _ _ ws [unfolded l2]] Cons.prems(5,7) by simp
qed simp

lemma fresh_logger:
  assumes "openable base" "\<And>f. fs f = None"
  shows "rotating_by_size openable now base n k fs = (l, fs') \<Longrightarrow> log_inv l fs' \<and> holds_groups (replicate (kept l + 1) []) l fs' \<and>
    rf_base l = base \<and> rf_strategy l = By_Size \<and> rf_max_size l = n \<and> rf_max_files l = k"
proof -
  assume "rotating_by_size openable now base n k fs = (l, fs')"
  then have l: "fs' = fs(base := Some [])" "rf_open l" "rf_base l = base" "rf_size l = 0" "rf_strategy l = By_Size" "rf_max_size l = n" "rf_max_files l = k"
    using assms by (auto simp: rotating_by_size_def open_current_file_def content_def)
  have "segments l fs' = replicate (kept l + 1) []"
    by (rule replicate_eqI) (auto simp: segments_def l(1,3) assms(2) content_def)
  with l show ?thesis by (simp add: log_inv_def holds_groups_def group_text_def content_def)
qed

section \<open>Properties\<close>


text \<open>The space of such a log: no file grows beyond the limit less one, or beyond the longest message with
  its end of line, so that all files together stay below the number of files times that bound.\<close>

theorem log_space:
  assumes "openable base" "\<And>f. fs f = None" "rotating_by_size openable now base max_size max_files fs = (l, fs1)"
    and "write_lines openable ms l fs1 = (l', fs', err)" "\<And>m. m \<in> set ms \<Longrightarrow> length (snd m) + 1 \<le> B" "max_size \<le> B + 1" "2 * B < 2 ^ 64"
  shows "length (content fs' base) + (\<Sum>i = 1..max 1 (nat max_files). length (content fs' (backup base i))) \<le>
    (max 1 (nat max_files) + 1) * B"
proof -
  note f = fresh_logger [where openable = openable, OF assms(1,2,3)]
  have k: "kept l = max 1 (nat max_files)" using f by (simp add: kept_def)
  have "\<forall>s \<in> set (segments l fs1). length s \<le> B" using f by (simp add: holds_groups_def group_text_def)
  then have b: "\<forall>s \<in> set (segments l' fs'). length s \<le> B"
    using f assms by (intro write_lines_bound [where openable = openable, OF _ _ _ _ _ _ _ assms(4)]) (simp_all add: line_text_def)
  have s: "same_setup l l'" using write_lines_setup [OF assms(4)] .
  have seg: "segments l' fs' = map (\<lambda>i. content fs' (backup base i)) (rev [1..<max 1 (nat max_files) + 1]) @ [content fs' base]"
    using f s k by (simp only: segments_def same_setup_kept [OF s]) (simp add: same_setup_def)
  define K where "K = max 1 (nat max_files)"
  have "length (content fs' (backup base i)) \<le> B" if "i \<in> {1..K}" for i
    using b that unfolding seg K_def [symmetric] by (cases "i = K") auto
  then have "(\<Sum>i = 1..K. length (content fs' (backup base i))) \<le> K * B"
    using sum_bounded_above [of "{1..K}" "\<lambda>i. length (content fs' (backup base i))" B] by simp
  moreover have "length (content fs' base) \<le> B" using b unfolding seg by simp
  ultimately show ?thesis unfolding K_def [symmetric] by simp
qed

text \<open>When the log cannot be opened again after a rotation, the message is written nowhere, not even to the
  error stream.\<close>

theorem log_line_lost:
  assumes "rf_open l" "should_rotate now (length msg + 1) l" "\<not> openable (rf_base l)"
  shows "\<exists>l'. write_log openable now msg l fs = (l', snd (rotate openable now l fs), [])"
proof -
  obtain l' fs' where r: "rotate openable now l fs = (l', fs')" by force
  then have "\<not> rf_open l'" using assms(3) by (auto simp: rotate_def open_current_file_def Let_def)
  then show ?thesis using assms(1,2) r by (simp add: write_log_def append_line_def)
qed

theorem log_line_lost_witness:
  "\<exists>l'. write_log (\<lambda>_. False) 0 ''hi''
       \<lparr>rf_base = ''a'', rf_open = True, rf_max_size = 2, rf_max_files = 1, rf_strategy = By_Size, rf_last_rotation = 0, rf_interval = 24, rf_size = 0\<rparr>
       Map.empty =
     (l', snd (rotate (\<lambda>_. False) 0
       \<lparr>rf_base = ''a'', rf_open = True, rf_max_size = 2, rf_max_files = 1, rf_strategy = By_Size, rf_last_rotation = 0, rf_interval = 24, rf_size = 0\<rparr>
       Map.empty), [])"
  by (rule log_line_lost) (simp_all add: should_rotate_def u64_add_def)

definition demo_messages :: "(int \<times> string) list" where
  "demo_messages = [(1, ''one''), (2, ''two''), (3, ''three'')]"

definition demo_logger :: "rotating_file \<times> files" where
  "demo_logger = rotating_by_size (\<lambda>_. True) 0 ''a'' 6 1 Map.empty"

definition demo_result :: "rotating_file \<times> files \<times> string list" where
  "demo_result = write_lines (\<lambda>_. True) demo_messages (fst demo_logger) (snd demo_logger)"


theorem log_space_witness:
  "length (content (fst (snd demo_result)) ''a'') +
     (\<Sum>i = 1..max 1 (nat 1). length (content (fst (snd demo_result)) (backup ''a'' i))) \<le> (max 1 (nat 1) + 1) * 6"
  by (rule log_space [of "\<lambda>_. True" _ Map.empty 0 6 1 "fst demo_logger" "snd demo_logger" demo_messages "fst demo_result" _ "snd (snd demo_result)"])
    (simp_all add: demo_result_def, auto simp: demo_logger_def demo_messages_def)

end
