(* ===== verification/Log_Async.thy ===== *)
theory Log_Async
  imports "HOL-Library.Multiset" "HOL-Library.Sublist" Text
begin

text \<open>
  The asynchronous log sink of \<open>include/logging.hpp\<close> (class \<open>AsyncLogSink\<close>): a bounded queue between
  the threads that log and a worker thread that hands the messages to an inner sink.  A step is what
  one thread does while it holds the mutex, or the worker's write to the inner sink without it;
  stopping does not take the mutex.
\<close>

section \<open>The sink\<close>

datatype drop_policy = Drop_Oldest | Drop_Newest | Block

text \<open>The worker: about to take the mutex and test its condition; between a test that failed and the
  wait, still with the mutex; waiting; writing a message without the mutex; at its end.\<close>

datatype log_worker = Ready | Falling | Asleep | Writing string | Finished

text \<open>\<open>aq_delivered\<close> are the messages the inner sink was called with; what it throws is swallowed.\<close>

record async_sink =
  aq_queue :: "string list"
  aq_max :: nat
  aq_policy :: drop_policy
  aq_running :: bool
  aq_dropped :: nat
  aq_worker :: log_worker
  aq_delivered :: "string list"

definition async_new :: "nat \<Rightarrow> drop_policy \<Rightarrow> async_sink" where
  "async_new max_queue_size policy =
     \<lparr>aq_queue = [], aq_max = max_queue_size, aq_policy = policy, aq_running = True, aq_dropped = 0, aq_worker = Ready,
      aq_delivered = []\<rparr>"

definition full :: "async_sink \<Rightarrow> bool" where
  "full a \<longleftrightarrow> aq_max a \<le> length (aq_queue a)"

definition notify :: "async_sink \<Rightarrow> async_sink" where
  "notify a = (if aq_worker a = Asleep then a\<lparr>aq_worker := Ready\<rparr> else a)"

text \<open>When the worker waits the queue has been empty and everybody else who waited was notified, so the
  one that \<open>notify_one\<close> wakes is the worker.\<close>

definition push :: "string \<Rightarrow> async_sink \<Rightarrow> async_sink" where
  "push m a = notify (a\<lparr>aq_queue := aq_queue a @ [m]\<rparr>)"

definition lose :: "async_sink \<Rightarrow> async_sink" where
  "lose a = a\<lparr>aq_dropped := aq_dropped a + 1\<rparr>"

text \<open>The start of a write: it returns, it waits for space, or \<open>pop_front\<close> on an empty queue is undefined.\<close>

datatype entered = Returned async_sink | Waiting | Undefined

definition enter_write :: "string \<Rightarrow> async_sink \<Rightarrow> entered" where
  "enter_write m a =
     (if full a then
        (case aq_policy a of
           Drop_Oldest \<Rightarrow>
             (case aq_queue a of
                [] \<Rightarrow> Undefined
              | _ # q \<Rightarrow> Returned (push m (lose (a\<lparr>aq_queue := q\<rparr>))))
         | Drop_Newest \<Rightarrow> Returned (lose a)
         | Block \<Rightarrow> Waiting)
      else Returned (push m a))"

text \<open>The end of the wait, because there is space or because of the timeout.\<close>

definition end_wait :: "string \<Rightarrow> async_sink \<Rightarrow> async_sink" where
  "end_wait m a = (if full a then lose a else push m a)"

definition worker_turn :: "async_sink \<Rightarrow> async_sink option" where
  "worker_turn a =
     (case aq_worker a of
        Ready \<Rightarrow>
          (case aq_queue a of
             m # q \<Rightarrow> Some (a\<lparr>aq_queue := q, aq_worker := Writing m\<rparr>)
           | [] \<Rightarrow> Some (a\<lparr>aq_worker := (if aq_running a then Falling else Finished)\<rparr>))
      | Falling \<Rightarrow> Some (a\<lparr>aq_worker := Asleep\<rparr>)
      | Writing m \<Rightarrow> Some (a\<lparr>aq_delivered := aq_delivered a @ [m], aq_worker := Ready\<rparr>)
      | _ \<Rightarrow> None)"

definition flush_returns :: "async_sink \<Rightarrow> bool" where
  "flush_returns a \<longleftrightarrow> aq_queue a = []"

definition stop_sink :: "async_sink \<Rightarrow> async_sink" where
  "stop_sink a = a\<lparr>aq_running := False\<rparr>"

text \<open>\<open>shutdown\<close> and the destructor store the flag and notify, then they join the worker.\<close>

definition shutdown_sink :: "async_sink \<Rightarrow> async_sink" where
  "shutdown_sink a = notify (stop_sink a)"

section \<open>Steps\<close>

text \<open>The messages of all writes in the order in which they took the mutex, those of the writes that
  wait, and the sink.  A thread may wake without a reason.\<close>

type_synonym async_state = "string list \<times> string list \<times> async_sink"

inductive async_step :: "async_state \<Rightarrow> async_state \<Rightarrow> bool" where
  work: "worker_turn a = Some a' \<Longrightarrow> async_step (W, B, a) (W, B, a')"
| wake: "async_step (W, B, a) (W, B, notify a)"
| call: "aq_worker a \<noteq> Falling \<Longrightarrow> enter_write m a = Returned a' \<Longrightarrow> async_step (W, B, a) (W @ [m], B, a')"
| wait: "aq_worker a \<noteq> Falling \<Longrightarrow> enter_write m a = Waiting \<Longrightarrow> async_step (W, B, a) (W @ [m], B @ [m], a)"
| resume: "aq_worker a \<noteq> Falling \<Longrightarrow> async_step (W, B @ m # C, a) (W, B @ C, end_wait m a)"
| stop: "async_step (W, B, a) (W, B, stop_sink a)"

inductive async_reach :: "nat \<Rightarrow> drop_policy \<Rightarrow> async_state \<Rightarrow> bool" for n p where
  start: "async_reach n p ([], [], async_new n p)"
| step: "async_reach n p s \<Longrightarrow> async_step s s' \<Longrightarrow> async_reach n p s'"

inductive_cases async_stepE: "async_step (W, B, a) s'"

section \<open>Nothing is lost without being counted\<close>

definition in_flight :: "async_sink \<Rightarrow> string list" where
  "in_flight a = (case aq_worker a of Writing m \<Rightarrow> [m] | _ \<Rightarrow> [])"

text \<open>What was delivered, what the worker has in its hands and what waits in the queue.\<close>

definition accepted :: "async_sink \<Rightarrow> string list" where
  "accepted a = aq_delivered a @ in_flight a @ aq_queue a"

definition async_ok :: "async_state \<Rightarrow> bool" where
  "async_ok s \<longleftrightarrow>
     (case s of (W, B, a) \<Rightarrow>
        length W = length (accepted a) + aq_dropped a + length B \<and> mset (accepted a) + mset B \<subseteq># mset W \<and>
        length (aq_queue a) \<le> aq_max a \<and> (aq_policy a \<noteq> Block \<longrightarrow> B = [] \<and> subseq (accepted a) W))"

lemma notify_simps [simp]:
  "aq_queue (notify a) = aq_queue a" "aq_max (notify a) = aq_max a" "aq_policy (notify a) = aq_policy a"
  "aq_dropped (notify a) = aq_dropped a" "aq_delivered (notify a) = aq_delivered a" "in_flight (notify a) = in_flight a"
  by (simp_all add: notify_def in_flight_def)

lemma accepted_simps [simp]:
  "accepted (notify a) = accepted a" "accepted (push m a) = accepted a @ [m]" "accepted (lose a) = accepted a"
  "accepted (stop_sink a) = accepted a"
  by (simp_all add: accepted_def push_def lose_def stop_sink_def in_flight_def notify_def)

lemma push_lose_simps [simp]:
  "aq_queue (push m a) = aq_queue a @ [m]" "aq_max (push m a) = aq_max a" "aq_policy (push m a) = aq_policy a"
  "aq_dropped (push m a) = aq_dropped a" "aq_queue (lose a) = aq_queue a" "aq_max (lose a) = aq_max a"
  "aq_policy (lose a) = aq_policy a" "aq_dropped (lose a) = aq_dropped a + 1"
  "aq_queue (stop_sink a) = aq_queue a" "aq_max (stop_sink a) = aq_max a" "aq_policy (stop_sink a) = aq_policy a"
  "aq_dropped (stop_sink a) = aq_dropped a"
  by (simp_all add: push_def lose_def stop_sink_def)

lemma worker_turn_keeps:
  assumes "worker_turn a = Some a'"
  shows "accepted a' = accepted a" "aq_max a' = aq_max a" "aq_policy a' = aq_policy a" "aq_dropped a' = aq_dropped a"
    "length (aq_queue a') \<le> length (aq_queue a)"
  using assms by (auto simp: worker_turn_def accepted_def in_flight_def split: log_worker.splits list.splits if_splits)

lemma accepted_drop:
  "aq_queue a = x # q \<Longrightarrow> accepted a = aq_delivered a @ in_flight a @ x # q \<and> accepted (a\<lparr>aq_queue := q\<rparr>) = aq_delivered a @ in_flight a @ q"
  by (simp add: accepted_def in_flight_def)

lemma async_step_ok:
  assumes "async_step s s'" "async_ok s"
  shows "async_ok s'"
  using assms
proof (induction rule: async_step.induct)
  case (work a a' W B)
  with worker_turn_keeps [OF work(1)] show ?case by (auto simp: async_ok_def)
next
  case (call a m a' W B)
  show ?case
  proof (cases "full a \<and> aq_policy a = Drop_Oldest")
    case True
    with call(2) obtain x q where q: "aq_queue a = x # q" "a' = push m (lose (a\<lparr>aq_queue := q\<rparr>))"
      by (auto simp: enter_write_def split: list.splits)
    let ?old = "aq_delivered a @ in_flight a @ x # q" and ?new = "aq_delivered a @ in_flight a @ q"
    from call(3) True accepted_drop [OF q(1)]
    have old: "subseq ?old W" "mset ?old \<subseteq># mset W" "B = []" "length W = length ?old + aq_dropped a" "length (x # q) \<le> aq_max a"
      by (auto simp: async_ok_def q(1))
    have "subseq ?new ?old" by (intro list_emb_append_mono subseq_order.refl) (simp add: list_emb_Cons)
    then have "subseq ?new W" using old(1) by (rule subseq_order.trans)
    then have "subseq (?new @ [m]) (W @ [m])" by (rule list_emb_append_mono) simp
    moreover have "mset ?new \<subseteq># mset W" using old(2) by (auto intro: subset_mset.trans [rotated])
    ultimately show ?thesis using old(3-5) accepted_drop [OF q(1)] by (simp add: async_ok_def q(2))
  next
    case False
    with call(2,3) show ?thesis
      by (auto simp: async_ok_def enter_write_def full_def split: if_splits drop_policy.splits
          intro: subset_mset.trans subseq_order.trans)
  qed
next
  case (resume a W B m C)
  then have "mset (accepted a) + (mset B + mset C) \<subseteq># mset W"
    by (auto simp: async_ok_def intro: subset_mset.trans [rotated])
  with resume show ?case by (auto simp: async_ok_def end_wait_def full_def)
qed (auto simp: async_ok_def enter_write_def full_def split: if_splits drop_policy.splits list.splits)

lemma async_reach_ok: "async_reach n p s \<Longrightarrow> async_ok s"
  by (induction rule: async_reach.induct)
    (simp add: async_ok_def async_new_def accepted_def in_flight_def, blast intro: async_step_ok)

definition sink_setup :: "async_state \<Rightarrow> nat \<times> drop_policy" where
  "sink_setup s = (aq_max (snd (snd s)), aq_policy (snd (snd s)))"

lemma async_step_setup: "async_step s s' \<Longrightarrow> sink_setup s' = sink_setup s"
  by (induction rule: async_step.induct)
    (auto simp: sink_setup_def enter_write_def end_wait_def worker_turn_keeps split: if_splits drop_policy.splits list.splits)

lemma async_reach_setup: "async_reach n p s \<Longrightarrow> sink_setup s = (n, p)"
  by (induction rule: async_reach.induct) (simp add: sink_setup_def async_new_def, simp add: async_step_setup)

section \<open>Shutting down\<close>

fun work_on :: "nat \<Rightarrow> async_sink \<Rightarrow> async_sink" where
  "work_on 0 a = a"
| "work_on (Suc n) a = (case worker_turn a of None \<Rightarrow> a | Some a' \<Rightarrow> work_on n a')"

lemma work_on_ready:
  assumes "aq_worker a = Ready" "\<not> aq_running a"
  shows "work_on (2 * length (aq_queue a) + 1) a =
    a\<lparr>aq_queue := [], aq_delivered := aq_delivered a @ aq_queue a, aq_worker := Finished\<rparr>"
  using assms
proof (induction "aq_queue a" arbitrary: a)
  case Nil
  then show ?case by (simp add: worker_turn_def flip: Nil(1))
next
  case (Cons m q)
  let ?b = "a\<lparr>aq_queue := q, aq_delivered := aq_delivered a @ [m], aq_worker := Ready\<rparr>"
  have "work_on (2 * length (aq_queue a) + 1) a = work_on (2 * length q + 1) ?b"
    using Cons(3) by (simp add: worker_turn_def flip: Cons(2))
  also have "\<dots> = a\<lparr>aq_queue := [], aq_delivered := aq_delivered a @ m # q, aq_worker := Finished\<rparr>"
    using Cons(1) [of ?b] Cons(4) by simp
  finally show ?case by (simp flip: Cons(2))
qed

text \<open>Unless the flag is stored between the worker's test and its wait, the worker finishes, with at most
  two turns for each message, and has then delivered all that was accepted.\<close>

theorem shutdown_drains:
  assumes "aq_worker a \<notin> {Falling, Finished}"
  shows "\<exists>n \<le> 2 * length (aq_queue a) + 2. aq_worker (work_on n (shutdown_sink a)) = Finished \<and>
    aq_queue (work_on n (shutdown_sink a)) = [] \<and> aq_delivered (work_on n (shutdown_sink a)) = accepted a"
proof -
  let ?a = "shutdown_sink a"
  have r: "\<not> aq_running ?a" "aq_queue ?a = aq_queue a" "aq_delivered ?a = aq_delivered a"
    by (simp_all add: shutdown_sink_def stop_sink_def notify_def)
  show ?thesis
  proof (cases "aq_worker a")
    case (Writing m)
    let ?b = "?a\<lparr>aq_delivered := aq_delivered ?a @ [m], aq_worker := Ready\<rparr>"
    have "work_on (2 * length (aq_queue a) + 2) ?a = work_on (2 * length (aq_queue ?b) + 1) ?b"
      using Writing by (simp add: shutdown_sink_def stop_sink_def notify_def worker_turn_def)
    then show ?thesis using work_on_ready [of ?b] r Writing
      by (intro exI [of _ "2 * length (aq_queue a) + 2"]) (simp add: accepted_def in_flight_def)
  next
    case Ready
    then have "aq_worker ?a = Ready" by (simp add: shutdown_sink_def stop_sink_def notify_def)
    then show ?thesis using work_on_ready [of ?a] r Ready
      by (intro exI [of _ "2 * length (aq_queue a) + 1"]) (simp add: accepted_def in_flight_def)
  next
    case Asleep
    then have "aq_worker ?a = Ready" by (simp add: shutdown_sink_def stop_sink_def notify_def)
    then show ?thesis using work_on_ready [of ?a] r Asleep
      by (intro exI [of _ "2 * length (aq_queue a) + 1"]) (simp add: accepted_def in_flight_def)
  qed (use assms in simp_all)
qed

theorem shutdown_drains_witness:
  "\<exists>n \<le> 2 * length (aq_queue (async_new 3 Block)) + 2. aq_worker (work_on n (shutdown_sink (async_new 3 Block))) = Finished \<and>
    aq_queue (work_on n (shutdown_sink (async_new 3 Block))) = [] \<and>
    aq_delivered (work_on n (shutdown_sink (async_new 3 Block))) = accepted (async_new 3 Block)"
  by (rule shutdown_drains) (simp add: async_new_def)

text \<open>In that gap the notification is lost: the worker goes to sleep and is never woken by the code, and
  \<open>shutdown\<close> waits for it.\<close>

theorem shutdown_can_hang:
  assumes "aq_worker a = Falling"
  shows "\<exists>b. worker_turn (shutdown_sink a) = Some b \<and> aq_worker b = Asleep \<and> \<not> aq_running b \<and> worker_turn b = None"
  using assms by (simp add: shutdown_sink_def stop_sink_def notify_def worker_turn_def)

theorem shutdown_can_hang_witness:
  "\<exists>b. worker_turn (shutdown_sink (the (worker_turn (async_new 3 Block)))) = Some b \<and> aq_worker b = Asleep \<and> \<not> aq_running b \<and>
    worker_turn b = None"
  by (rule shutdown_can_hang) (simp add: worker_turn_def async_new_def)

text \<open>\<open>flush\<close> does not wait for the message the worker is writing.\<close>

theorem flush_too_early:
  "\<exists>W B a. async_reach 1 Drop_Newest (W, B, a) \<and> flush_returns a \<and> W = [m] \<and> aq_delivered a = []"
proof -
  let ?a = "async_new 1 Drop_Newest"
  let ?b = "the (worker_turn (push m ?a))"
  have "async_step ([], [], ?a) ([] @ [m], [], push m ?a)"
    by (rule async_step.call) (simp_all add: async_new_def enter_write_def full_def)
  then have r: "async_reach 1 Drop_Newest ([m], [], push m ?a)" using async_reach.start by (auto intro: async_reach.step)
  have "worker_turn (push m ?a) = Some ?b" by (simp add: worker_turn_def push_def notify_def async_new_def)
  from async_reach.step [OF r async_step.work [OF this]] have "async_reach 1 Drop_Newest ([m], [], ?b)" .
  moreover have "flush_returns ?b" "aq_delivered ?b = []"
    by (simp_all add: worker_turn_def push_def notify_def async_new_def flush_returns_def)
  ultimately show ?thesis by blast
qed

section \<open>Properties\<close>

text \<open>C31: However callers, worker and shutdown interleave: the messages that were delivered, the one the
  worker is writing and those in the queue are some of the messages logged, each once, and the rest
  are those counted as dropped and those whose callers wait; the queue stays within its bound; and
  unless callers wait for space, the order is the one in which they were logged.\<close>

theorem async_log_accounts:
  assumes "async_reach n p (W, B, a)"
  shows "length W = length (accepted a) + aq_dropped a + length B \<and> mset (accepted a) + mset B \<subseteq># mset W \<and>
    length (aq_queue a) \<le> n \<and> (p \<noteq> Block \<longrightarrow> B = [] \<and> subseq (accepted a) W)"
  using async_reach_ok [OF assms] async_reach_setup [OF assms] by (simp add: async_ok_def sink_setup_def)

definition demo_sink :: async_sink where
  "demo_sink = push ''b'' (lose (push ''a'' (async_new 1 Drop_Oldest)\<lparr>aq_queue := []\<rparr>))"

theorem async_log_accounts_witness:
  "length [''a'', ''b''] = length (accepted demo_sink) + aq_dropped demo_sink + length [] \<and>
    mset (accepted demo_sink) + mset [] \<subseteq># mset [''a'', ''b''] \<and>
    length (aq_queue demo_sink) \<le> 1 \<and> subseq (accepted demo_sink) [''a'', ''b'']"
proof -
  let ?a = "async_new 1 Drop_Oldest"
  have "async_step ([], [], ?a) ([] @ [''a''], [], push ''a'' ?a)"
    by (rule async_step.call) (simp_all add: async_new_def enter_write_def full_def)
  moreover have "async_step ([''a''], [], push ''a'' ?a) ([''a''] @ [''b''], [], demo_sink)"
    by (rule async_step.call) (simp_all add: async_new_def enter_write_def full_def push_def lose_def notify_def demo_sink_def)
  ultimately have "async_reach 1 Drop_Oldest ([''a'', ''b''], [], demo_sink)"
    using async_reach.start [of 1 Drop_Oldest] by (auto intro: async_reach.step)
  from async_log_accounts [OF this] show ?thesis by simp
qed

end
