(* ===== verification/Logging.thy ===== *)
theory Logging
  imports State_Manager Log_Files Log_Async
begin

text \<open>
  The rest of \<open>include/logging.hpp\<close>: levels, the thread's context, the two formatters, the sinks and
  the \<open>Logger\<close> with its categories.  The time is an argument, broken down as \<open>localtime\<close> does; so are
  what a stream with exceptions enabled throws and which files can be opened.  \<open>None\<close> is undefined
  behaviour (a queue with space for no message and the policy to drop the oldest).
\<close>

section \<open>Levels\<close>

datatype log_level = LOG_TRACE | LOG_DEBUG | LOG_INFO | LOG_WARNING | LOG_ERROR | LOG_FATAL

fun level_value :: "log_level \<Rightarrow> nat" where
  "level_value LOG_TRACE = 0"
| "level_value LOG_DEBUG = 1"
| "level_value LOG_INFO = 2"
| "level_value LOG_WARNING = 3"
| "level_value LOG_ERROR = 4"
| "level_value LOG_FATAL = 5"

lemma level_value_inject: "level_value a = level_value b \<longleftrightarrow> a = b"
  by (cases a; cases b) simp_all

instantiation log_level :: linorder
begin

definition less_eq_log_level :: "log_level \<Rightarrow> log_level \<Rightarrow> bool" where
  "less_eq_log_level a b \<longleftrightarrow> level_value a \<le> level_value b"

definition less_log_level :: "log_level \<Rightarrow> log_level \<Rightarrow> bool" where
  "less_log_level a b \<longleftrightarrow> level_value a < level_value b"

instance
  by standard (auto simp: less_eq_log_level_def less_log_level_def level_value_inject)

end

fun log_level_to_string :: "log_level \<Rightarrow> string" where
  "log_level_to_string LOG_TRACE = ''TRACE''"
| "log_level_to_string LOG_DEBUG = ''DEBUG''"
| "log_level_to_string LOG_INFO = ''INFO''"
| "log_level_to_string LOG_WARNING = ''WARNING''"
| "log_level_to_string LOG_ERROR = ''ERROR''"
| "log_level_to_string LOG_FATAL = ''FATAL''"

section \<open>The context of a thread\<close>

type_synonym context_map = "(string \<times> string) list"

definition context_set :: "string \<Rightarrow> string \<Rightarrow> context_map \<Rightarrow> context_map" where
  "context_set k v ctx = AList.update k v ctx"

definition context_remove :: "string \<Rightarrow> context_map \<Rightarrow> context_map" where
  "context_remove k ctx = AList.delete k ctx"

definition context_get :: "string \<Rightarrow> context_map \<Rightarrow> string" where
  "context_get k ctx = (case map_of ctx k of Some v \<Rightarrow> v | None \<Rightarrow> [])"

text \<open>A \<open>LogContext\<close> is the list of the keys it added, with their values.\<close>

type_synonym log_context = "(string \<times> string) list"

definition scope_add :: "string \<Rightarrow> string \<Rightarrow> log_context \<times> context_map \<Rightarrow> log_context \<times> context_map" where
  "scope_add k v s = (case s of (added, ctx) \<Rightarrow> (added @ [(k, v)], context_set k v ctx))"

definition scope_remove :: "string \<Rightarrow> log_context \<times> context_map \<Rightarrow> log_context \<times> context_map" where
  "scope_remove k s = (case s of (added, ctx) \<Rightarrow> (filter (\<lambda>p. fst p \<noteq> k) added, context_remove k ctx))"

definition scope_end :: "log_context \<times> context_map \<Rightarrow> context_map" where
  "scope_end s = (case s of (added, ctx) \<Rightarrow> foldl (\<lambda>c p. context_remove (fst p) c) ctx added)"

section \<open>Formatters\<close>

definition put_local :: "tm \<Rightarrow> string" where
  "put_local t = show_int (tm_year t) @ ''-'' @ show2 (tm_month t) @ ''-'' @ show2 (tm_day t) @ '' '' @
     show2 (tm_hour t) @ '':'' @ show2 (tm_min t) @ '':'' @ show2 (tm_sec t)"

text \<open>The file is \<open>None\<close> for a null pointer.\<close>

type_synonym formatter = "context_map \<Rightarrow> log_level \<Rightarrow> string \<Rightarrow> tm \<Rightarrow> string option \<Rightarrow> int \<Rightarrow> string"

definition escape_json_char :: "char \<Rightarrow> string" where
  "escape_json_char c =
     (if c = CHR 0x22 then [CHR 0x5C, CHR 0x22]
      else if c = CHR 0x5C then [CHR 0x5C, CHR 0x5C]
      else if c = CHR 0x0A then CHR 0x5C # ''n''
      else if c = CHR 0x0D then CHR 0x5C # ''r''
      else if c = CHR 0x09 then CHR 0x5C # ''t''
      else [c])"

definition escape_json :: "string \<Rightarrow> string" where
  "escape_json s = concat (map escape_json_char s)"

definition json_text :: "string \<Rightarrow> string" where
  "json_text s = CHR 0x22 # s @ [CHR 0x22]"

fun context_members :: "context_map \<Rightarrow> string" where
  "context_members [] = []"
| "context_members [(k, v)] = json_text (escape_json k) @ '':'' @ json_text (escape_json v)"
| "context_members ((k, v) # kvs) = json_text (escape_json k) @ '':'' @ json_text (escape_json v) @ '','' @ context_members kvs"

definition json_format :: formatter where
  "json_format ctx level msg t file line =
     ''{'' @ json_text ''timestamp'' @ '':'' @ json_text (put_time t) @ '','' @
     json_text ''level'' @ '':'' @ json_text (log_level_to_string level) @ '','' @
     json_text ''message'' @ '':'' @ json_text (escape_json msg) @
     (if ctx \<noteq> [] then '','' @ json_text ''context'' @ '':{'' @ context_members ctx @ ''}'' else []) @
     (case file of
        Some f \<Rightarrow>
          if 0 < line then
            '','' @ json_text ''file'' @ '':'' @ json_text (escape_json f) @ '','' @ json_text ''line'' @ '':'' @ show_int line
          else []
      | None \<Rightarrow> []) @ ''}''"

datatype timestamp_format = STANDARD | ISO8601 | UNIX | NONE

definition base_name :: "string \<Rightarrow> string" where
  "base_name path = rev (takeWhile (\<lambda>c. c \<noteq> CHR ''/'' \<and> c \<noteq> CHR 0x5C) (rev path))"

definition default_format :: "timestamp_format \<Rightarrow> string \<Rightarrow> formatter" where
  "default_format fmt pre ctx level msg t file line =
     (if pre \<noteq> [] then pre @ '' '' else []) @
     (case fmt of
        STANDARD \<Rightarrow> ''['' @ put_local t @ ''] ''
      | ISO8601 \<Rightarrow> ''['' @ put_time t @ ''] ''
      | UNIX \<Rightarrow> ''['' @ put_local t @ ''] ''
      | NONE \<Rightarrow> []) @
     ''['' @ log_level_to_string level @ ''] '' @ msg @
     (if ctx \<noteq> [] then '' |'' @ concat (map (\<lambda>(k, v). '' '' @ k @ ''='' @ v) ctx) else []) @
     (case file of
        Some f \<Rightarrow> if 0 < line then '' ('' @ base_name f @ '':'' @ show_int line @ '')'' else []
      | None \<Rightarrow> [])"

section \<open>Format strings\<close>

text \<open>The arguments are given as the text \<open>operator<<\<close> prints.  Text after the last argument is copied,
  arguments after the last placeholder are not used.\<close>

fun format_helper :: "string \<Rightarrow> string list \<Rightarrow> string" where
  "format_helper fmt [] = fmt"
| "format_helper [] (v # vs) = []"
| "format_helper (c # fmt) (v # vs) =
     (if c = CHR ''{'' \<and> prefix ''}'' fmt then v @ format_helper (tl fmt) vs else c # format_helper fmt (v # vs))"

fun format_key_value_pairs :: "string list \<Rightarrow> string" where
  "format_key_value_pairs (k # v # kvs) = '' '' @ k @ ''='' @ v @ format_key_value_pairs kvs"
| "format_key_value_pairs _ = []"

section \<open>Sinks\<close>

datatype stream = Cout | Cerr | Stream nat

datatype exn = Std_Exception string | Other_Exception

record log_world =
  lw_files :: files
  lw_streams :: "stream \<Rightarrow> string"

text \<open>\<open>le_throws\<close>: what writing to a stream throws; \<open>le_wait\<close>: what the other threads have made of a full
  queue when the wait for space ends; \<open>le_clock\<close> is the steady clock and \<open>le_time\<close> the local time.\<close>

record log_env =
  le_openable :: "string \<Rightarrow> bool"
  le_throws :: "stream \<Rightarrow> exn option"
  le_wait :: "async_sink \<Rightarrow> async_sink"
  le_clock :: int
  le_time :: tm

datatype sink =
    Stream_Sink stream
  | File_Sink rotating_file
  | Async_Sink sink async_sink

definition print_line :: "stream \<Rightarrow> string \<Rightarrow> log_world \<Rightarrow> log_world" where
  "print_line out line w = w\<lparr>lw_streams := (lw_streams w)(out := lw_streams w out @ line @ [CHR 0x0A])\<rparr>"

definition file_write :: "log_env \<Rightarrow> string \<Rightarrow> rotating_file \<Rightarrow> log_world \<Rightarrow> rotating_file \<times> log_world" where
  "file_write E line l w =
     (case write_log (le_openable E) (le_clock E) line l (lw_files w) of
        (l', fs', errs) \<Rightarrow> (l', fold (print_line Cerr) errs (w\<lparr>lw_files := fs'\<rparr>)))"

text \<open>The exception a write throws, the sink and the world afterwards.\<close>

fun sink_write :: "log_env \<Rightarrow> string \<Rightarrow> sink \<Rightarrow> log_world \<Rightarrow> (exn option \<times> sink \<times> log_world) option" where
  "sink_write E line (Stream_Sink out) w =
     (case le_throws E out of
        Some e \<Rightarrow> Some (Some e, Stream_Sink out, w)
      | None \<Rightarrow> Some (None, Stream_Sink out, print_line out line w))"
| "sink_write E line (File_Sink l) w = (case file_write E line l w of (l', w') \<Rightarrow> Some (None, File_Sink l', w'))"
| "sink_write E line (Async_Sink inner a) w =
     (case enter_write line a of
        Returned a' \<Rightarrow> Some (None, Async_Sink inner a', w)
      | Waiting \<Rightarrow> Some (None, Async_Sink inner (end_wait line (le_wait E a)), w)
      | Undefined \<Rightarrow> None)"

definition report :: "exn \<Rightarrow> string \<Rightarrow> log_world \<Rightarrow> log_world" where
  "report e line w =
     print_line Cerr line
       (print_line Cerr (case e of Std_Exception what \<Rightarrow> ''Logging error: '' @ what | Other_Exception \<Rightarrow> ''Unknown logging error occurred'') w)"

fun write_sinks :: "log_env \<Rightarrow> string \<Rightarrow> sink list \<Rightarrow> log_world \<Rightarrow> (sink list \<times> log_world) option" where
  "write_sinks E line [] w = Some ([], w)"
| "write_sinks E line (s # ss) w =
     (case sink_write E line s w of
        None \<Rightarrow> None
      | Some (e, s', w1) \<Rightarrow>
          map_option (\<lambda>(ss', w2). (s' # ss', w2))
            (write_sinks E line ss (case e of Some x \<Rightarrow> report x line w1 | None \<Rightarrow> w1)))"

section \<open>The logger\<close>

record logger =
  lg_level :: log_level
  lg_output :: stream
  lg_error :: stream
  lg_sinks :: "sink list"
  lg_formatter :: "formatter option"
  lg_file_logger :: "rotating_file option"

definition logger_start :: logger where
  "logger_start =
     \<lparr>lg_level = LOG_INFO, lg_output = Cout, lg_error = Cerr, lg_sinks = [], lg_formatter = None, lg_file_logger = None\<rparr>"

definition set_level :: "log_level \<Rightarrow> logger \<Rightarrow> logger" where
  "set_level level lg = lg\<lparr>lg_level := level\<rparr>"

definition set_output_streams :: "stream \<Rightarrow> stream \<Rightarrow> logger \<Rightarrow> logger" where
  "set_output_streams out err lg =
     lg\<lparr>lg_output := out, lg_error := err, lg_sinks := [Stream_Sink out, Stream_Sink err]\<rparr>"

definition add_sink :: "sink \<Rightarrow> logger \<Rightarrow> logger" where
  "add_sink s lg = lg\<lparr>lg_sinks := lg_sinks lg @ [s]\<rparr>"

definition new_size_sink :: "log_env \<Rightarrow> string \<Rightarrow> nat \<Rightarrow> int \<Rightarrow> log_world \<Rightarrow> sink \<times> log_world" where
  "new_size_sink E f max_size max_files w =
     (case rotating_by_size (le_openable E) (le_clock E) f max_size max_files (lw_files w) of
        (l, fs) \<Rightarrow> (File_Sink l, w\<lparr>lw_files := fs\<rparr>))"

definition set_file_logging_size :: "log_env \<Rightarrow> string \<Rightarrow> nat \<Rightarrow> int \<Rightarrow> logger \<Rightarrow> log_world \<Rightarrow> logger \<times> log_world" where
  "set_file_logging_size E f max_size max_files lg w =
     (case new_size_sink E f max_size max_files w of (s, w') \<Rightarrow> (lg\<lparr>lg_sinks := [s], lg_file_logger := None\<rparr>, w'))"

definition set_file_logging_time :: "log_env \<Rightarrow> string \<Rightarrow> int \<Rightarrow> int \<Rightarrow> logger \<Rightarrow> log_world \<Rightarrow> logger \<times> log_world" where
  "set_file_logging_time E f hours max_files lg w =
     (case rotating_by_time (le_openable E) (le_clock E) f hours max_files (lw_files w) of
        (l, fs) \<Rightarrow> (lg\<lparr>lg_sinks := [File_Sink l], lg_file_logger := None\<rparr>, w\<lparr>lw_files := fs\<rparr>))"

definition clear_file_logging :: "logger \<Rightarrow> logger" where
  "clear_file_logging lg = lg\<lparr>lg_file_logger := None, lg_sinks := []\<rparr>"

definition set_formatter :: "formatter option \<Rightarrow> logger \<Rightarrow> logger" where
  "set_formatter f lg = lg\<lparr>lg_formatter := f\<rparr>"

section \<open>Logging a message\<close>

definition log_line :: "tm \<Rightarrow> log_level \<Rightarrow> string \<Rightarrow> string" where
  "log_line t level msg = ''['' @ put_local t @ ''] ['' @ log_level_to_string level @ ''] '' @ msg"

text \<open>The part that the three functions share: without a formatter the sinks, if there are any; then
  the file logger or one of the two streams.\<close>

definition print_message :: "log_env \<Rightarrow> log_level \<Rightarrow> string \<Rightarrow> logger \<Rightarrow> log_world \<Rightarrow> logger \<times> log_world" where
  "print_message E level line lg w =
     (case lg_file_logger lg of
        Some l \<Rightarrow> (case file_write E line l w of (l', w') \<Rightarrow> (lg\<lparr>lg_file_logger := Some l'\<rparr>, w'))
      | None \<Rightarrow>
          (let out = (if level = LOG_ERROR then lg_error lg else lg_output lg)
           in (lg, case le_throws E out of Some e \<Rightarrow> report e line w | None \<Rightarrow> print_line out line w)))"

definition emit :: "log_env \<Rightarrow> log_level \<Rightarrow> string \<Rightarrow> logger \<Rightarrow> log_world \<Rightarrow> (logger \<times> log_world) option" where
  "emit E level line lg w =
     (if (case lg_formatter lg of None \<Rightarrow> lg_sinks lg \<noteq> [] | Some _ \<Rightarrow> False)
      then map_option (\<lambda>(ss, w'). (lg\<lparr>lg_sinks := ss\<rparr>, w')) (write_sinks E line (lg_sinks lg) w)
      else Some (print_message E level line lg w))"

definition log_message :: "log_env \<Rightarrow> context_map \<Rightarrow> log_level \<Rightarrow> string \<Rightarrow> logger \<Rightarrow> log_world \<Rightarrow> (logger \<times> log_world) option" where
  "log_message E ctx level msg lg w =
     (if level < lg_level lg then Some (lg, w)
      else emit E level
        (case lg_formatter lg of
           Some f \<Rightarrow> f ctx level msg (le_time E) None 0
         | None \<Rightarrow> log_line (le_time E) level msg) lg w)"

definition log_at ::
    "log_env \<Rightarrow> context_map \<Rightarrow> log_level \<Rightarrow> string \<Rightarrow> string \<Rightarrow> int \<Rightarrow> logger \<Rightarrow> log_world \<Rightarrow> (logger \<times> log_world) option" where
  "log_at E ctx level msg file line lg w =
     (if level < lg_level lg then Some (lg, w)
      else emit E level
        (case lg_formatter lg of
           Some f \<Rightarrow> f ctx level msg (le_time E) (Some file) line
         | None \<Rightarrow> log_line (le_time E) level msg @ '' ('' @ base_name file @ '':'' @ show_int line @ '')'') lg w)"

definition log_pairs ::
    "log_env \<Rightarrow> context_map \<Rightarrow> log_level \<Rightarrow> string \<Rightarrow> string list \<Rightarrow> logger \<Rightarrow> log_world \<Rightarrow> (logger \<times> log_world) option" where
  "log_pairs E ctx level msg kvs lg w =
     (if level < lg_level lg then Some (lg, w)
      else emit E level
        (case lg_formatter lg of
           Some f \<Rightarrow> f ctx level msg (le_time E) None 0
         | None \<Rightarrow> log_line (le_time E) level msg @ format_key_value_pairs kvs) lg w)"

text \<open>The calls with a format string: what counts is whether an argument is a C string, an \<open>int\<close> or
  anything else that prints as a text.\<close>

datatype log_arg = Chars string | Int_Arg int | Printed string

fun arg_text :: "log_arg \<Rightarrow> string" where
  "arg_text (Chars s) = s"
| "arg_text (Int_Arg i) = show_int i"
| "arg_text (Printed s) = s"

definition format_and_log ::
    "log_env \<Rightarrow> context_map \<Rightarrow> log_level \<Rightarrow> string \<Rightarrow> log_arg list \<Rightarrow> logger \<Rightarrow> log_world \<Rightarrow> (logger \<times> log_world) option" where
  "format_and_log E ctx level fmt args lg w =
     (if find_str ''{}'' fmt \<noteq> None then log_message E ctx level (format_helper fmt (map arg_text args)) lg w
      else case args of
          [] \<Rightarrow> log_message E ctx level fmt lg w
        | [Chars file, Int_Arg line] \<Rightarrow> log_at E ctx level fmt file line lg w
        | _ \<Rightarrow>
            if even (length args) then log_pairs E ctx level fmt (map arg_text args) lg w
            else log_message E ctx level fmt lg w)"

text \<open>The functions named after a level; the kind of call is what overload resolution finds.\<close>

datatype log_call =
    Plain_Call string
  | Place_Call string string int
  | Format_Call string "log_arg list"
  | Pairs_Call string "string list"

fun log_by_call ::
    "log_env \<Rightarrow> context_map \<Rightarrow> log_level \<Rightarrow> log_call \<Rightarrow> logger \<Rightarrow> log_world \<Rightarrow> (logger \<times> log_world) option" where
  "log_by_call E ctx level (Plain_Call msg) lg w = log_message E ctx level msg lg w"
| "log_by_call E ctx level (Place_Call msg file line) lg w = log_at E ctx level msg file line lg w"
| "log_by_call E ctx level (Format_Call fmt args) lg w = format_and_log E ctx level fmt args lg w"
| "log_by_call E ctx level (Pairs_Call msg kvs) lg w = log_pairs E ctx level msg kvs lg w"

definition log_debug :: "log_env \<Rightarrow> context_map \<Rightarrow> log_call \<Rightarrow> logger \<Rightarrow> log_world \<Rightarrow> (logger \<times> log_world) option" where
  "log_debug E ctx c lg w = log_by_call E ctx LOG_DEBUG c lg w"

definition log_info :: "log_env \<Rightarrow> context_map \<Rightarrow> log_call \<Rightarrow> logger \<Rightarrow> log_world \<Rightarrow> (logger \<times> log_world) option" where
  "log_info E ctx c lg w = log_by_call E ctx LOG_INFO c lg w"

definition log_warning :: "log_env \<Rightarrow> context_map \<Rightarrow> log_call \<Rightarrow> logger \<Rightarrow> log_world \<Rightarrow> (logger \<times> log_world) option" where
  "log_warning E ctx c lg w = log_by_call E ctx LOG_WARNING c lg w"

definition log_error :: "log_env \<Rightarrow> context_map \<Rightarrow> log_call \<Rightarrow> logger \<Rightarrow> log_world \<Rightarrow> (logger \<times> log_world) option" where
  "log_error E ctx c lg w = log_by_call E ctx LOG_ERROR c lg w"

definition log_trace :: "log_env \<Rightarrow> context_map \<Rightarrow> log_call \<Rightarrow> logger \<Rightarrow> log_world \<Rightarrow> (logger \<times> log_world) option" where
  "log_trace E ctx c lg w = log_by_call E ctx LOG_TRACE c lg w"

definition log_fatal :: "log_env \<Rightarrow> context_map \<Rightarrow> log_call \<Rightarrow> logger \<Rightarrow> log_world \<Rightarrow> (logger \<times> log_world) option" where
  "log_fatal E ctx c lg w = log_by_call E ctx LOG_FATAL c lg w"

section \<open>Configurations and categories\<close>

record logger_config =
  lc_level :: log_level
  lc_sinks :: "sink list"
  lc_formatter :: "formatter option"

definition new_config :: logger_config where
  "new_config = \<lparr>lc_level = LOG_INFO, lc_sinks = [], lc_formatter = None\<rparr>"

definition config_level :: "log_level \<Rightarrow> logger_config \<Rightarrow> logger_config" where
  "config_level level c = c\<lparr>lc_level := level\<rparr>"

definition config_sink :: "sink \<Rightarrow> logger_config \<Rightarrow> logger_config" where
  "config_sink s c = c\<lparr>lc_sinks := lc_sinks c @ [s]\<rparr>"

definition add_stream_sink :: "stream \<Rightarrow> logger_config \<Rightarrow> logger_config" where
  "add_stream_sink out c = config_sink (Stream_Sink out) c"

definition add_file_sink :: "log_env \<Rightarrow> string \<Rightarrow> nat \<Rightarrow> int \<Rightarrow> logger_config \<Rightarrow> log_world \<Rightarrow> logger_config \<times> log_world" where
  "add_file_sink E f max_size max_files c w =
     (case new_size_sink E f max_size max_files w of (s, w') \<Rightarrow> (config_sink s c, w'))"

definition add_async_sink :: "sink \<Rightarrow> nat \<Rightarrow> drop_policy \<Rightarrow> logger_config \<Rightarrow> logger_config" where
  "add_async_sink inner n policy c = config_sink (Async_Sink inner (async_new n policy)) c"

definition add_async_stream_sink :: "stream \<Rightarrow> nat \<Rightarrow> drop_policy \<Rightarrow> logger_config \<Rightarrow> logger_config" where
  "add_async_stream_sink out n policy c = add_async_sink (Stream_Sink out) n policy c"

definition add_async_file_sink ::
    "log_env \<Rightarrow> string \<Rightarrow> nat \<Rightarrow> drop_policy \<Rightarrow> nat \<Rightarrow> int \<Rightarrow> logger_config \<Rightarrow> log_world \<Rightarrow> logger_config \<times> log_world" where
  "add_async_file_sink E f n policy max_size max_files c w =
     (case new_size_sink E f max_size max_files w of (s, w') \<Rightarrow> (add_async_sink s n policy c, w'))"

definition config_formatter :: "formatter option \<Rightarrow> logger_config \<Rightarrow> logger_config" where
  "config_formatter f c = c\<lparr>lc_formatter := f\<rparr>"

definition configure :: "logger_config \<Rightarrow> logger \<Rightarrow> logger" where
  "configure c lg = lg\<lparr>lg_level := lc_level c, lg_sinks := lc_sinks c, lg_formatter := lc_formatter c\<rparr>"

type_synonym registry = "(string \<times> logger_config) list"

definition set_config :: "string \<Rightarrow> logger_config \<Rightarrow> registry \<Rightarrow> registry" where
  "set_config name c reg = AList.update name c reg"

definition has_config :: "string \<Rightarrow> registry \<Rightarrow> bool" where
  "has_config name reg \<longleftrightarrow> map_of reg name \<noteq> None"

definition get_config :: "string \<Rightarrow> registry \<Rightarrow> logger_config option" where
  "get_config name reg = map_of reg name"

definition category_line :: "string \<Rightarrow> tm \<Rightarrow> log_level \<Rightarrow> string \<Rightarrow> string" where
  "category_line name t level msg =
     ''['' @ put_local t @ ''] ['' @ name @ ''] ['' @ log_level_to_string level @ ''] '' @ msg"

definition print_category :: "log_env \<Rightarrow> log_level \<Rightarrow> string \<Rightarrow> logger \<Rightarrow> log_world \<Rightarrow> log_world" where
  "print_category E level line lg w =
     (let out = (if level = LOG_ERROR \<or> level = LOG_FATAL then lg_error lg else lg_output lg)
      in case le_throws E out of Some e \<Rightarrow> report Other_Exception line w | None \<Rightarrow> print_line out line w)"

definition category_log ::
    "log_env \<Rightarrow> context_map \<Rightarrow> string \<Rightarrow> log_level \<Rightarrow> string \<Rightarrow> registry \<Rightarrow> logger \<Rightarrow> log_world \<Rightarrow>
     (registry \<times> logger \<times> log_world) option" where
  "category_log E ctx name level msg reg lg w =
     (let cfg = get_config name reg;
          effective_level = (case cfg of Some c \<Rightarrow> lc_level c | None \<Rightarrow> lg_level lg);
          line = (case (case cfg of Some c \<Rightarrow> lc_formatter c | None \<Rightarrow> None) of
              Some f \<Rightarrow> f ctx level msg (le_time E) None 0
            | None \<Rightarrow> (case lg_formatter lg of
                Some f \<Rightarrow> f ctx level msg (le_time E) None 0
              | None \<Rightarrow> category_line name (le_time E) level msg))
      in if level < effective_level then Some (reg, lg, w)
         else case cfg of
             Some c \<Rightarrow>
               if lc_sinks c \<noteq> [] then
                 map_option (\<lambda>(ss, w'). (AList.update name (c\<lparr>lc_sinks := ss\<rparr>) reg, lg, w'))
                   (write_sinks E line (lc_sinks c) w)
               else if lg_sinks lg \<noteq> [] then
                 map_option (\<lambda>(ss, w'). (reg, lg\<lparr>lg_sinks := ss\<rparr>, w')) (write_sinks E line (lg_sinks lg) w)
               else Some (reg, lg, print_category E level line lg w)
           | None \<Rightarrow>
               if lg_sinks lg \<noteq> [] then
                 map_option (\<lambda>(ss, w'). (reg, lg\<lparr>lg_sinks := ss\<rparr>, w')) (write_sinks E line (lg_sinks lg) w)
               else Some (reg, lg, print_category E level line lg w))"

section \<open>All asynchronous sinks\<close>

fun async_part :: "sink \<Rightarrow> async_sink list" where
  "async_part (Async_Sink inner a) = [a]"
| "async_part s = []"

definition async_sinks :: "logger \<Rightarrow> async_sink list" where
  "async_sinks lg = concat (map async_part (lg_sinks lg))"

definition get_async_dropped_count :: "logger \<Rightarrow> nat" where
  "get_async_dropped_count lg = sum_list (map aq_dropped (async_sinks lg))"

definition get_async_queue_size :: "logger \<Rightarrow> nat" where
  "get_async_queue_size lg = sum_list (map (\<lambda>a. length (aq_queue a)) (async_sinks lg))"

fun shutdown_part :: "sink \<Rightarrow> sink" where
  "shutdown_part (Async_Sink inner a) = Async_Sink inner (shutdown_sink a)"
| "shutdown_part s = s"

definition async_shutdown :: "logger \<Rightarrow> logger" where
  "async_shutdown lg = lg\<lparr>lg_sinks := map shutdown_part (lg_sinks lg)\<rparr>"

section \<open>Who gets a message\<close>

lemma print_line_streams: "lw_streams (print_line out line w) s = lw_streams w s @ (if s = out then line @ [CHR 0x0A] else [])"
  by (simp add: print_line_def)

lemma fold_print_other: "s \<noteq> Cerr \<Longrightarrow> lw_streams (fold (print_line Cerr) errs w) s = lw_streams w s"
  by (induction errs arbitrary: w) (simp_all add: print_line_streams)

lemma report_other: "s \<noteq> Cerr \<Longrightarrow> lw_streams (report e line w) s = lw_streams w s"
  by (simp add: report_def print_line_streams)

lemma file_write_other: "file_write E line l w = (l', w') \<Longrightarrow> s \<noteq> Cerr \<Longrightarrow> lw_streams w' s = lw_streams w s"
  by (auto simp: file_write_def fold_print_other split: prod.splits)

definition wants :: "stream \<Rightarrow> sink \<Rightarrow> bool" where
  "wants out s \<longleftrightarrow> s = Stream_Sink out"

lemma sink_write_stream:
  assumes "sink_write E line s w = Some (e, s', w')" "out \<noteq> Cerr" "le_throws E out = None"
  shows "lw_streams w' out = lw_streams w out @ (if wants out s then line @ [CHR 0x0A] else [])"
proof (cases s)
  case (File_Sink l)
  with assms show ?thesis by (auto simp: wants_def file_write_other split: prod.splits)
qed (use assms in \<open>auto simp: wants_def print_line_streams split: option.splits entered.splits\<close>)

lemma write_sinks_stream:
  assumes "write_sinks E line ss w = Some (ss', w')" "out \<noteq> Cerr" "le_throws E out = None"
  shows "lw_streams w' out = lw_streams w out @ concat (map (\<lambda>_. line @ [CHR 0x0A]) (filter (wants out) ss))"
  using assms(1)
proof (induction ss arbitrary: w ss' w')
  case (Cons s ss)
  then obtain e s1 w1 ss2 where s: "sink_write E line s w = Some (e, s1, w1)"
    and ss: "write_sinks E line ss (case e of Some x \<Rightarrow> report x line w1 | None \<Rightarrow> w1) = Some (ss2, w')"
    by (auto split: option.splits)
  have "lw_streams (case e of Some x \<Rightarrow> report x line w1 | None \<Rightarrow> w1) out = lw_streams w1 out"
    using assms(2) by (cases e) (simp_all add: report_other)
  with Cons.IH [OF ss] sink_write_stream [OF s assms(2,3)] show ?case by simp
qed simp

text \<open>Sinks without queues always take the message.\<close>

fun immediate :: "sink \<Rightarrow> bool" where
  "immediate (Async_Sink inner a) \<longleftrightarrow> \<not> (aq_max a = 0 \<and> aq_policy a = Drop_Oldest)"
| "immediate s \<longleftrightarrow> True"

lemma sink_write_defined: "immediate s \<Longrightarrow> sink_write E line s w \<noteq> None"
  by (cases s) (auto simp: enter_write_def full_def split: option.splits prod.splits drop_policy.splits list.splits)

lemma write_sinks_defined: "list_all immediate ss \<Longrightarrow> write_sinks E line ss w \<noteq> None"
proof (induction ss arbitrary: w)
  case (Cons s ss)
  then have "immediate s" "list_all immediate ss" by simp_all
  with sink_write_defined [of s E line w] obtain e s1 w1 where "sink_write E line s w = Some (e, s1, w1)" by auto
  with Cons.IH [OF \<open>list_all immediate ss\<close>, of "case e of Some x \<Rightarrow> report x line w1 | None \<Rightarrow> w1"] show ?case by simp
qed simp

section \<open>Scopes\<close>

text \<open>What a program does to a \<open>LogContext\<close> before its end.\<close>

datatype scope_op = Add string string | Remove string

fun scope_step :: "scope_op \<Rightarrow> log_context \<times> context_map \<Rightarrow> log_context \<times> context_map" where
  "scope_step (Add k v) s = scope_add k v s"
| "scope_step (Remove k) s = scope_remove k s"

fun touched :: "scope_op \<Rightarrow> string" where
  "touched (Add k v) = k"
| "touched (Remove k) = k"

lemma scope_end_look: "map_of (scope_end (added, ctx)) k = (if k \<in> fst ` set added then None else map_of ctx k)"
  by (induction added arbitrary: ctx) (auto simp: scope_end_def context_remove_def um.look_del)

lemma scope_steps:
  assumes "foldl (\<lambda>s f. scope_step f s) ([], ctx) ops = (added, ctx')"
  shows "(k \<notin> touched ` set ops \<longrightarrow> map_of ctx' k = map_of ctx k) \<and>
    (k \<in> fst ` set added \<longrightarrow> k \<in> touched ` set ops) \<and> (k \<in> touched ` set ops \<longrightarrow> k \<notin> fst ` set added \<longrightarrow> map_of ctx' k = None)"
  using assms
proof (induction ops arbitrary: added ctx' rule: rev_induct)
  case (snoc f ops)
  obtain a c where s: "foldl (\<lambda>s f. scope_step f s) ([], ctx) ops = (a, c)" by force
  with snoc.prems have f: "scope_step f (a, c) = (added, ctx')" by simp
  have kept: "fst ` set (filter (\<lambda>p. fst p \<noteq> j) a) = fst ` set a - {j}" for j by auto
  show ?case
  proof (cases f)
    case (Add j v)
    with snoc.IH [OF s] f show ?thesis by (auto simp: scope_add_def context_set_def um.look_put)
  next
    case (Remove j)
    with f have "fst ` set added = fst ` set a - {j}" "map_of ctx' = (map_of c)(j := None)"
      by (auto simp: scope_remove_def context_remove_def um.look_del kept simp flip: kept)
    with snoc.IH [OF s] Remove show ?thesis by auto
  qed
qed simp

text \<open>After the end of a scope the context is what it was before, except that the keys the scope has used
  are gone, also those that had a value outside of it.\<close>

theorem scope_restores:
  "map_of (scope_end (foldl (\<lambda>s f. scope_step f s) ([], ctx) ops)) k = (if k \<in> touched ` set ops then None else map_of ctx k)"
proof -
  obtain added ctx' where s: "foldl (\<lambda>s f. scope_step f s) ([], ctx) ops = (added, ctx')" by force
  from scope_steps [OF s, of k] show ?thesis by (auto simp: s scope_end_look)
qed

section \<open>Format strings\<close>

definition plain :: "string \<Rightarrow> bool" where
  "plain s \<longleftrightarrow> find_str ''{}'' s = None"

definition format_text :: "string \<Rightarrow> string list \<Rightarrow> string" where
  "format_text p ps = p @ concat (map (\<lambda>q. ''{}'' @ q) ps)"

text \<open>The pieces with the arguments between them; a placeholder without an argument stays.\<close>

fun filled :: "string \<Rightarrow> string list \<Rightarrow> string list \<Rightarrow> string" where
  "filled p [] vs = p"
| "filled p (q # ps) [] = p @ ''{}'' @ filled q ps []"
| "filled p (q # ps) (v # vs) = p @ v @ filled q ps vs"

lemma format_plain: "plain p \<Longrightarrow> format_helper (p @ ''{}'' @ s) (v # vs) = p @ v @ format_helper s vs"
proof (induction p)
  case (Cons c p)
  then have p: "plain p" "\<not> (c = CHR ''{'' \<and> prefix ''}'' p)" by (auto simp: plain_def split: if_splits)
  then have "\<not> (c = CHR ''{'' \<and> prefix ''}'' (p @ ''{}'' @ s))" by (cases p) simp_all
  then show ?case using Cons.IH [OF p(1)] by auto
qed simp

lemma format_plain_end: "plain p \<Longrightarrow> format_helper p vs = p"
proof (induction p)
  case Nil
  then show ?case by (cases vs) simp_all
next
  case (Cons c p)
  then have "plain p" "\<not> (c = CHR ''{'' \<and> prefix ''}'' p)" by (auto simp: plain_def split: if_splits)
  with Cons.IH show ?case by (cases vs) auto
qed

lemma filled_no_args: "filled p ps [] = format_text p ps"
  by (induction ps arbitrary: p) (simp_all add: format_text_def)

text \<open>The placeholders are replaced by the arguments in order, whatever the arguments contain; those
  left over stay, arguments left over are dropped.\<close>

theorem format_fills:
  assumes "plain p" "list_all plain ps"
  shows "format_helper (format_text p ps) vs = filled p ps vs"
  using assms
proof (induction p ps vs rule: filled.induct)
  case (1 p vs)
  then show ?case by (simp add: format_text_def format_plain_end)
next
  case (2 p q ps)
  then show ?case by (simp add: filled_no_args format_text_def)
next
  case (3 p q ps v vs)
  have "format_text p (q # ps) = p @ ''{}'' @ format_text q ps" by (simp add: format_text_def)
  with 3 format_plain [of p] show ?case by simp
qed

theorem format_fills_witness: "format_helper ''a={}, {}{'' [''{}'', ''x'', ''y''] = ''a={}, x{''"
  using format_fills [of "''a=''" "['', '', ''{'']" "[''{}'', ''x'', ''y'']"] by (simp add: plain_def format_text_def)

section \<open>Lines in JSON\<close>

definition compact_json :: stringify_options where
  "compact_json = \<lparr>pretty = False, indent = 0, escape_solidus = False\<rparr>"

text \<open>Only the control characters the formatter escapes.\<close>

definition clean :: "string \<Rightarrow> bool" where
  "clean s \<longleftrightarrow> list_all (\<lambda>c. 0x20 \<le> (of_char c :: nat) \<or> c \<in> {CHR 0x0A, CHR 0x0D, CHR 0x09}) s"

definition log_members :: "context_map \<Rightarrow> log_level \<Rightarrow> string \<Rightarrow> tm \<Rightarrow> string option \<Rightarrow> int \<Rightarrow> (string \<times> json) list" where
  "log_members ctx level msg t file line =
     [(''timestamp'', JString (put_time t)), (''level'', JString (log_level_to_string level)), (''message'', JString msg)] @
     (if ctx \<noteq> [] then [(''context'', JObject (map (\<lambda>(k, v). (k, JString v)) ctx))] else []) @
     (case file of
        Some f \<Rightarrow> if 0 < line then [(''file'', JString f), (''line'', JNumber (show_int line))] else []
      | None \<Rightarrow> [])"

lemma not_control: "0x20 \<le> (of_char c :: nat) \<Longrightarrow> c \<notin> {CHR 0x08, CHR 0x0C, CHR 0x0A, CHR 0x0D, CHR 0x09}"
  by auto

lemma escape_clean: "clean s \<Longrightarrow> escape_json s = escape_string False s"
proof (induction s)
  case (Cons c s)
  then have "clean s" and c: "0x20 \<le> (of_char c :: nat) \<or> c \<in> {CHR 0x0A, CHR 0x0D, CHR 0x09}" by (simp_all add: clean_def)
  moreover have "escape_json_char c = escape_char False c"
  proof (cases "0x20 \<le> (of_char c :: nat)")
    case True
    with not_control [OF True] show ?thesis by (simp add: escape_json_char_def escape_char_def)
  next
    case False
    with c show ?thesis by (auto simp: escape_json_char_def escape_char_def)
  qed
  ultimately show ?case using Cons.IH by (simp add: escape_json_def escape_string_def)
qed (simp add: escape_json_def escape_string_def)

lemma quoted_clean: "clean s \<Longrightarrow> json_text (escape_json s) = quoted compact_json s"
  by (simp add: json_text_def quoted_def escape_clean compact_json_def)

definition literal :: "string \<Rightarrow> bool" where
  "literal s \<longleftrightarrow> list_all (\<lambda>c. 0x20 \<le> (of_char c :: nat) \<and> c \<noteq> CHR 0x22 \<and> c \<noteq> CHR 0x5C) s"

lemma quoted_literal: "literal s \<Longrightarrow> json_text s = quoted compact_json s"
proof -
  assume l: "literal s"
  have "escape_char False c = [c]" if "c \<in> set s" for c
  proof -
    from l that have c: "0x20 \<le> (of_char c :: nat)" "c \<noteq> CHR 0x22" "c \<noteq> CHR 0x5C" by (simp_all add: literal_def list_all_iff)
    with not_control [OF c(1)] show ?thesis by (simp add: escape_char_def)
  qed
  then have "escape_string False s = s" by (induction s) (simp_all add: escape_string_def)
  then show ?thesis by (simp add: json_text_def quoted_def compact_json_def)
qed

lemma literal_append: "literal (a @ b) \<longleftrightarrow> literal a \<and> literal b"
  by (auto simp: literal_def)

lemma literal_show_nat: "literal (show_nat n)"
  using show_nat_digits [of n] by (auto simp: literal_def list_all_iff c_isdigit_def)

lemma literal_put_time: "literal (put_time t)"
  using literal_show_nat by (auto simp: put_time_def show2_def show_int_def literal_append) (simp_all add: literal_def)

lemma literal_level: "literal (log_level_to_string level)"
  by (cases level) (simp_all add: literal_def)

lemma compact_simps [simp]: "pretty compact_json = False" "newline compact_json = []" "pad compact_json d = []"
  by (simp_all add: compact_json_def newline_def pad_def)

fun comma :: "string list \<Rightarrow> string" where
  "comma [] = []"
| "comma [x] = x"
| "comma (x # y # xs) = x @ '','' @ comma (y # xs)"

lemma joined_compact: "joined compact_json xs = comma xs"
  by (induction xs rule: comma.induct) simp_all

lemma comma_append: "xs \<noteq> [] \<Longrightarrow> ys \<noteq> [] \<Longrightarrow> comma (xs @ ys) = comma xs @ '','' @ comma ys"
proof (induction xs rule: comma.induct)
  case (2 x)
  then show ?case by (cases ys) simp_all
qed simp_all

definition member_text :: "string \<times> json \<Rightarrow> string" where
  "member_text p = quoted compact_json (fst p) @ '':'' @ stringify_impl compact_json 1 (snd p)"

lemma stringify_members: "ps \<noteq> [] \<Longrightarrow> stringify compact_json (JObject ps) = ''{'' @ comma (map member_text ps) @ ''}''"
  by (simp add: stringify_def joined_compact member_text_def [abs_def])

lemma context_members_text:
  "list_all (\<lambda>p. clean (fst p) \<and> clean (snd p)) ctx \<Longrightarrow>
     context_members ctx = comma (map (\<lambda>(k, v). quoted compact_json k @ '':'' @ quoted compact_json v) ctx)"
proof (induction ctx rule: context_members.induct)
  case (3 k v p kvs)
  then show ?case by (cases p) (simp add: quoted_clean)
qed (simp_all add: quoted_clean)

lemma context_text:
  assumes "ctx \<noteq> []" "list_all (\<lambda>p. clean (fst p) \<and> clean (snd p)) ctx"
  shows "stringify_impl compact_json 1 (JObject (map (\<lambda>(k, v). (k, JString v)) ctx)) = ''{'' @ context_members ctx @ ''}''"
  using assms by (simp add: joined_compact context_members_text comp_def case_prod_unfold)

lemma json_format_text:
  assumes "clean msg" "list_all (\<lambda>p. clean (fst p) \<and> clean (snd p)) ctx" "\<And>f. file = Some f \<Longrightarrow> clean f"
  shows "json_format ctx level msg t file line = stringify compact_json (JObject (log_members ctx level msg t file line))"
proof -
  note q = quoted_clean [symmetric, OF assms(1)] quoted_literal [symmetric, OF literal_put_time] quoted_literal [symmetric, OF literal_level]
  have keys: "quoted compact_json k = json_text k" if "k \<in> {''timestamp'', ''level'', ''message'', ''context'', ''file'', ''line''}" for k
    using that by (intro quoted_literal [symmetric]) (auto simp: literal_def)
  define head where "head = [(''timestamp'', JString (put_time t)), (''level'', JString (log_level_to_string level)), (''message'', JString msg)]"
  define mid where "mid = (if ctx \<noteq> [] then [(''context'', JObject (map (\<lambda>(k, v). (k, JString v)) ctx))] else [])"
  define rest where "rest = (case file of
      Some f \<Rightarrow> if 0 < line then [(''file'', JString f), (''line'', JNumber (show_int line))] else [] | None \<Rightarrow> [])"
  have head: "comma (map member_text head) =
      json_text ''timestamp'' @ '':'' @ json_text (put_time t) @ '','' @ json_text ''level'' @ '':'' @ json_text (log_level_to_string level) @
      '','' @ json_text ''message'' @ '':'' @ json_text (escape_json msg)"
    by (simp add: head_def member_text_def keys q)
  have mid: "(if mid = [] then [] else '','' @ comma (map member_text mid)) =
      (if ctx \<noteq> [] then '','' @ json_text ''context'' @ '':{'' @ context_members ctx @ ''}'' else [])"
    using context_text [OF _ assms(2)] by (simp add: mid_def member_text_def keys)
  have rest: "(if rest = [] then [] else '','' @ comma (map member_text rest)) =
      (case file of
        Some f \<Rightarrow>
          if 0 < line then
            '','' @ json_text ''file'' @ '':'' @ json_text (escape_json f) @ '','' @ json_text ''line'' @ '':'' @ show_int line
          else []
      | None \<Rightarrow> [])"
    using quoted_clean [OF assms(3)] by (simp add: rest_def member_text_def keys split: option.split)
  have sep: "comma (map member_text (xs @ ys)) = comma (map member_text xs) @ (if ys = [] then [] else '','' @ comma (map member_text ys))"
    if "xs \<noteq> []" for xs ys
    using that comma_append [of "map member_text xs" "map member_text ys"] by simp
  have ne: "head \<noteq> []" "head @ mid \<noteq> []" by (simp_all add: head_def)
  have members: "log_members ctx level msg t file line = (head @ mid) @ rest"
    by (simp add: log_members_def head_def mid_def rest_def)
  have "stringify compact_json (JObject (log_members ctx level msg t file line)) = ''{'' @ comma (map member_text ((head @ mid) @ rest)) @ ''}''"
    unfolding members using ne by (intro stringify_members) simp
  also have "\<dots> = json_format ctx level msg t file line"
    unfolding sep [OF ne(2)] sep [OF ne(1)] head mid rest json_format_def by simp
  finally show ?thesis ..
qed

lemma json_ok_show_int: "0 < line \<Longrightarrow> json_ok (JNumber (show_int line))"
  using scan_show_nat [of "nat line"] by (simp add: show_int_def)

section \<open>Properties\<close>

text \<open>A line of the JSON formatter is read back by the program's own JSON parser as the object with
  time, level, message, context and place, when no text holds a control character other than tab and
  the ends of lines.\<close>

theorem json_log_line:
  assumes "clean msg" "list_all (\<lambda>p. clean (fst p) \<and> clean (snd p)) ctx" "\<And>f. file = Some f \<Longrightarrow> clean f"
  shows "json_parse (json_format ctx level msg t file line) = Some (Inr (JObject (log_members ctx level msg t file line)))"
proof -
  have "json_ok (JObject (log_members ctx level msg t file line))"
    using json_ok_show_int [of line] by (auto simp: log_members_def list_all_iff split: option.split simp del: json_ok.simps(1))
  from stringify_parses [OF this] show ?thesis by (simp add: json_format_text [OF assms])
qed

text \<open>A message at a level that is enabled goes to every stream among the sinks as one line, as often as
  the stream occurs, whatever the other sinks are and even if writing to them fails; below the level
  nothing happens.\<close>

theorem log_reaches_streams:
  assumes "lg_formatter lg = None" "lg_sinks lg \<noteq> []" "list_all immediate (lg_sinks lg)" "out \<noteq> Cerr" "le_throws E out = None"
  shows "\<exists>lg' w'. log_message E ctx level msg lg w = Some (lg', w') \<and>
    lw_streams w' out = lw_streams w out @
      (if level < lg_level lg then []
       else concat (map (\<lambda>_. log_line (le_time E) level msg @ [CHR 0x0A]) (filter (wants out) (lg_sinks lg))))"
proof (cases "level < lg_level lg")
  case False
  obtain ss w' where s: "write_sinks E (log_line (le_time E) level msg) (lg_sinks lg) w = Some (ss, w')"
    using write_sinks_defined [OF assms(3)] by fast
  with False assms(1,2) write_sinks_stream [OF s assms(4,5)] show ?thesis by (simp add: log_message_def emit_def)
qed (simp add: log_message_def)

theorem log_reaches_streams_witness:
  "\<exists>lg' w'. log_message \<lparr>le_openable = \<lambda>_. True, le_throws = \<lambda>s. if s = Cout then Some Other_Exception else None, le_wait = id,
        le_clock = 0, le_time = gmtime 0\<rparr> [] LOG_ERROR ''x'' (set_output_streams Cout (Stream 1) logger_start)
        \<lparr>lw_files = Map.empty, lw_streams = (\<lambda>_. [])\<rparr> = Some (lg', w') \<and>
      lw_streams w' (Stream 1) = log_line (gmtime 0) LOG_ERROR ''x'' @ [CHR 0x0A]"
  using log_reaches_streams [of "set_output_streams Cout (Stream 1) logger_start" "Stream 1"
      "\<lparr>le_openable = \<lambda>_. True, le_throws = \<lambda>s. if s = Cout then Some Other_Exception else None, le_wait = id, le_clock = 0, le_time = gmtime 0\<rparr>"
      "[]" LOG_ERROR "''x''" "\<lparr>lw_files = Map.empty, lw_streams = (\<lambda>_. [])\<rparr>"]
  by (simp add: set_output_streams_def logger_start_def less_log_level_def wants_def)

theorem json_log_line_witness:
  "json_parse (json_format [(''user'', ''a\"b'')] LOG_INFO [CHR 0x0A, CHR 0x5C] (gmtime 0) (Some ''/x.cpp'') 7) =
    Some (Inr (JObject (log_members [(''user'', ''a\"b'')] LOG_INFO [CHR 0x0A, CHR 0x5C] (gmtime 0) (Some ''/x.cpp'') 7)))"
  by (rule json_log_line) (auto simp: clean_def)

text \<open>With a formatter set the sinks are passed over: the line goes to the output or the error stream.\<close>

theorem formatter_bypasses_sinks:
  assumes "lg_formatter lg = Some f" "lg_file_logger lg = None" "lg_level lg \<le> level"
    and "out = (if level = LOG_ERROR then lg_error lg else lg_output lg)" "le_throws E out = None"
  shows "log_message E ctx level msg lg w = Some (lg, print_line out (f ctx level msg (le_time E) None 0) w)"
  using assms by (auto simp: log_message_def emit_def print_message_def)

end
