(* ===== verification/File_System.thy ===== *)
theory File_System
  imports Text
begin

text \<open>
  \<open>include/filesystem.hpp\<close> (class \<open>FileSystem\<close>): the calls to the operating system are fields of a record
  over a state \<open>'s\<close> of the file system; paths reach them as C strings.  A call that changes the state
  returns the new one, and whether it succeeded.
\<close>

section \<open>The operating system\<close>

datatype file_kind = Directory | Regular | Other_Kind

record file_status =
  st_kind :: file_kind
  st_size :: nat
  st_mtime :: int

text \<open>\<open>os_read\<close> is the content of a file that can be opened; \<open>os_truncate\<close> opens a file for writing and
  empties it; \<open>os_append\<close> writes to the end of a file that is open.\<close>

record 's os =
  os_stat :: "string \<Rightarrow> 's \<Rightarrow> file_status option"
  os_mkdir :: "string \<Rightarrow> 's \<Rightarrow> bool \<times> 's"
  os_rmdir :: "string \<Rightarrow> 's \<Rightarrow> bool \<times> 's"
  os_unlink :: "string \<Rightarrow> 's \<Rightarrow> bool \<times> 's"
  os_rename :: "string \<Rightarrow> string \<Rightarrow> 's \<Rightarrow> bool \<times> 's"
  os_read :: "string \<Rightarrow> 's \<Rightarrow> string option"
  os_truncate :: "string \<Rightarrow> 's \<Rightarrow> 's option"
  os_append :: "string \<Rightarrow> string \<Rightarrow> 's \<Rightarrow> 's"
  os_entries :: "string \<Rightarrow> 's \<Rightarrow> string list option"
  os_getenv :: "string \<Rightarrow> string option"
  os_getcwd :: "'s \<Rightarrow> string option"
  os_chdir :: "string \<Rightarrow> 's \<Rightarrow> bool \<times> 's"

section \<open>The class\<close>

definition file_exists :: "'s os \<Rightarrow> string \<Rightarrow> 's \<Rightarrow> bool" where
  "file_exists F path s \<longleftrightarrow> os_stat F (c_str path) s \<noteq> None"

definition is_directory :: "'s os \<Rightarrow> string \<Rightarrow> 's \<Rightarrow> bool" where
  "is_directory F path s \<longleftrightarrow> (case os_stat F (c_str path) s of Some st \<Rightarrow> st_kind st = Directory | None \<Rightarrow> False)"

definition is_regular_file :: "'s os \<Rightarrow> string \<Rightarrow> 's \<Rightarrow> bool" where
  "is_regular_file F path s \<longleftrightarrow> (case os_stat F (c_str path) s of Some st \<Rightarrow> st_kind st = Regular | None \<Rightarrow> False)"

definition read_file :: "'s os \<Rightarrow> string \<Rightarrow> 's \<Rightarrow> string" where
  "read_file F path s = (case os_read F (c_str path) s of Some c \<Rightarrow> c | None \<Rightarrow> [])"

definition write_file :: "'s os \<Rightarrow> string \<Rightarrow> string \<Rightarrow> 's \<Rightarrow> bool \<times> 's" where
  "write_file F path content s =
     (case os_truncate F (c_str path) s of None \<Rightarrow> (False, s) | Some s1 \<Rightarrow> (True, os_append F (c_str path) content s1))"

definition create_directory :: "'s os \<Rightarrow> string \<Rightarrow> 's \<Rightarrow> bool \<times> 's" where
  "create_directory F path s = os_mkdir F (c_str path) s"

definition is_separator :: "char \<Rightarrow> bool" where
  "is_separator c \<longleftrightarrow> c = CHR ''/'' \<or> c = CHR 0x5C"

definition root_path :: "string \<Rightarrow> bool" where
  "root_path path \<longleftrightarrow>
     path = ''/'' \<or> path = [CHR 0x5C] \<or> length path = 3 \<and> path ! 1 = CHR '':'' \<and> is_separator (path ! 2)"

text \<open>The path without separators at its end, up to its last separator; \<open>None\<close> when it has none.\<close>

definition strip_separators :: "string \<Rightarrow> string" where
  "strip_separators path = rev (dropWhile is_separator (rev path))"

definition parent_dir :: "string \<Rightarrow> string option" where
  "parent_dir path =
     (let p = strip_separators path; r = dropWhile (\<lambda>c. \<not> is_separator c) (rev p)
      in if r = [] then None else Some (rev (tl r)))"

lemma length_parent_dir: "parent_dir path = Some d \<Longrightarrow> length d < length path"
proof -
  assume d: "parent_dir path = Some d"
  let ?r = "dropWhile (\<lambda>c. \<not> is_separator c) (rev (strip_separators path))"
  from d have r: "?r \<noteq> []" "d = rev (tl ?r)" by (auto simp: parent_dir_def Let_def split: if_splits)
  have "length ?r \<le> length (strip_separators path)" using length_dropWhile_le [of _ "rev (strip_separators path)"] by simp
  also have "\<dots> \<le> length path" using length_dropWhile_le [of is_separator "rev path"] by (simp add: strip_separators_def)
  finally show ?thesis using r by (cases ?r) simp_all
qed

function create_directories :: "'s os \<Rightarrow> string \<Rightarrow> 's \<Rightarrow> bool \<times> 's" where
  "create_directories F path s =
     (if path = [] then (False, s)
      else if root_path path then (True, s)
      else if is_directory F path s then (True, s)
      else case parent_dir path of
          None \<Rightarrow> create_directory F path s
        | Some d \<Rightarrow>
            if d \<noteq> [] \<and> \<not> is_directory F d s then
              (case create_directories F d s of (ok, s1) \<Rightarrow> if \<not> ok then (False, s1) else create_directory F path s1)
            else create_directory F path s)"
  by pat_completeness auto
termination
  by (relation "measure (\<lambda>(F, path, s). length path)") (simp_all add: length_parent_dir)

declare create_directories.simps [simp del]

definition remove_path :: "'s os \<Rightarrow> string \<Rightarrow> 's \<Rightarrow> bool \<times> 's" where
  "remove_path F path s = (if is_directory F path s then os_rmdir F (c_str path) s else os_unlink F (c_str path) s)"

text \<open>Both files are opened before the test; inserting a stream buffer without a character sets the
  fail bit.\<close>

definition copy_file :: "'s os \<Rightarrow> string \<Rightarrow> string \<Rightarrow> 's \<Rightarrow> bool \<times> 's" where
  "copy_file F source destination s =
     (let src_open = (os_read F (c_str source) s \<noteq> None)
      in case os_truncate F (c_str destination) s of
           None \<Rightarrow> (False, s)
         | Some s1 \<Rightarrow>
             if \<not> src_open then (False, s1)
             else let c = read_file F source s1 in (c \<noteq> [], os_append F (c_str destination) c s1))"

definition rename_path :: "'s os \<Rightarrow> string \<Rightarrow> string \<Rightarrow> 's \<Rightarrow> bool \<times> 's" where
  "rename_path F source destination s = os_rename F (c_str source) (c_str destination) s"

definition file_size :: "'s os \<Rightarrow> string \<Rightarrow> 's \<Rightarrow> int" where
  "file_size F path s = (case os_stat F (c_str path) s of Some st \<Rightarrow> int (st_size st) | None \<Rightarrow> - 1)"

definition last_write_time :: "'s os \<Rightarrow> string \<Rightarrow> 's \<Rightarrow> int" where
  "last_write_time F path s = (case os_stat F (c_str path) s of Some st \<Rightarrow> st_mtime st | None \<Rightarrow> - 1)"

definition directory_iterator :: "'s os \<Rightarrow> string \<Rightarrow> 's \<Rightarrow> string list" where
  "directory_iterator F path s =
     (case os_entries F (c_str path) s of
        None \<Rightarrow> []
      | Some names \<Rightarrow> filter (\<lambda>n. n \<noteq> ''.'' \<and> n \<noteq> ''..'') names)"

definition temp_directory_path :: "'s os \<Rightarrow> string" where
  "temp_directory_path F = (case os_getenv F ''TMPDIR'' of Some t \<Rightarrow> t | None \<Rightarrow> ''/tmp'')"

definition current_path :: "'s os \<Rightarrow> 's \<Rightarrow> string" where
  "current_path F s = (case os_getcwd F s of Some d \<Rightarrow> d | None \<Rightarrow> [])"

definition change_path :: "'s os \<Rightarrow> string \<Rightarrow> 's \<Rightarrow> bool \<times> 's" where
  "change_path F path s = os_chdir F (c_str path) s"

section \<open>Directories are created\<close>

text \<open>What is used of \<open>mkdir\<close>: when it succeeds its path is a directory, and no directory disappears.\<close>

definition dir_at :: "'s os \<Rightarrow> string \<Rightarrow> 's \<Rightarrow> bool" where
  "dir_at F p s \<longleftrightarrow> (case os_stat F p s of Some st \<Rightarrow> st_kind st = Directory | None \<Rightarrow> False)"

definition mkdir_sound :: "'s os \<Rightarrow> bool" where
  "mkdir_sound F \<longleftrightarrow>
     (\<forall>p s ok s'. os_mkdir F p s = (ok, s') \<longrightarrow> (ok \<longrightarrow> dir_at F p s') \<and> (\<forall>q. dir_at F q s \<longrightarrow> dir_at F q s'))"

lemma is_directory_at: "is_directory F path s \<longleftrightarrow> dir_at F (c_str path) s"
  by (simp add: is_directory_def dir_at_def)

lemma create_directory_sound:
  "mkdir_sound F \<Longrightarrow> create_directory F path s = (ok, s') \<Longrightarrow>
     (ok \<longrightarrow> is_directory F path s') \<and> (is_directory F q s \<longrightarrow> is_directory F q s')"
  by (auto simp: mkdir_sound_def create_directory_def is_directory_at)

text \<open>When \<open>create_directories\<close> reports success its path is a directory (or a root), and whatever it
  reports, every directory that was there still is.\<close>

theorem create_directories_sound:
  assumes "mkdir_sound F" "create_directories F path s = (ok, s')"
  shows "(ok \<longrightarrow> root_path path \<or> is_directory F path s') \<and> (is_directory F q s \<longrightarrow> is_directory F q s')"
  using assms
proof (induction F path s arbitrary: ok s' rule: create_directories.induct)
  case (1 F path s)
  note step = create_directories.simps [of F path s]
  note made = create_directory_sound [OF 1(2)]
  consider "path = []" | "path \<noteq> []" "root_path path \<or> is_directory F path s"
    | "path \<noteq> []" "\<not> root_path path" "\<not> is_directory F path s" by blast
  then show ?case
  proof cases
    case 3
    show ?thesis
    proof (cases "\<exists>d. parent_dir path = Some d \<and> d \<noteq> [] \<and> \<not> is_directory F d s")
      case False
      with 3 1(3) have "create_directory F path s = (ok, s')" by (auto simp: step split: option.splits)
      from made [OF this] show ?thesis by blast
    next
      case True
      then obtain d where d: "parent_dir path = Some d" "d \<noteq> [] \<and> \<not> is_directory F d s" by blast
      obtain ok1 s1 where r: "create_directories F d s = (ok1, s1)" by force
      from 1(1) [OF 3 d 1(2) r] have q: "is_directory F q s \<longrightarrow> is_directory F q s1" by blast
      show ?thesis
      proof (cases ok1)
        case True
        with 3 d r 1(3) have "create_directory F path s1 = (ok, s')" by (simp add: step)
        from made [OF this, of q] q show ?thesis by blast
      qed (use 3 d r 1(3) q in \<open>auto simp: step\<close>)
    qed
  next
    case 1
    with \<open>create_directories F path s = (ok, s')\<close> show ?thesis by (simp add: create_directories.simps [of F "[]"])
  next
    case 2
    with \<open>create_directories F path s = (ok, s')\<close> show ?thesis by (auto simp: step split: if_splits)
  qed
qed

section \<open>Files are copied\<close>

text \<open>A copy between different files has the content of the source.\<close>

theorem copy_file_copies:
  assumes "os_read F (c_str source) s = Some c" "os_truncate F (c_str destination) s = Some s1" "os_read F (c_str source) s1 = Some c"
    and "os_read F (c_str destination) (os_append F (c_str destination) c s1) = Some c"
  shows "\<exists>s2. copy_file F source destination s = (c \<noteq> [], s2) \<and> read_file F destination s2 = c"
  using assms by (simp add: copy_file_def read_file_def)

text \<open>The destination is emptied even when the source cannot be opened, a file copied to itself is
  emptied, and the copy of an empty file is reported as a failure.\<close>

theorem copy_file_destroys:
  assumes "os_truncate F (c_str destination) s = Some s1"
    and "os_read F (c_str source) s = None \<or> os_read F (c_str source) s1 = Some [] \<and> os_append F (c_str destination) [] s1 = s1"
  shows "copy_file F source destination s = (False, s1)"
  using assms by (auto simp: copy_file_def read_file_def Let_def)

end
