(* ===== verification/Program.thy ===== *)
theory Program
  imports Web_Api Session_Restart Tcp_Listener Dht_Service Logging File_System
begin

text \<open>
  \<open>main\<close> of \<open>src/main.cpp\<close> with the constructor and destructor of \<open>src/manager/lifecycle.cpp\<close>: how
  the components are put together, from the directories and the log file to the servers, the main
  loop and the end.  Each round of the loop is given what the other threads (requests, peers,
  trackers, the DHT) made of the shared state during its second of sleep.  \<open>None\<close> is a program that
  does not come to its end.  The lines written to the console and to the log are left out.
\<close>

section \<open>The start\<close>

text \<open>What the program finds: what the start of the DHT finds, with its random id and secrets, the
  environment of the restored torrents, and the results of \<open>socket\<close>, \<open>bind\<close> and \<open>listen\<close> of the HTTP
  server.\<close>

record machine =
  mc_dht :: start_report
  mc_id :: node_id
  mc_tokens :: token_manager
  mc_env :: environment
  mc_http :: "int option \<times> bool \<times> bool"

record set_up =
  su_download :: string
  su_state :: string
  su_logger :: logger
  su_log :: log_world

text \<open>The directories and the log file.  Whether they can be created is not looked at; \<open>None\<close> is the
  exception for a missing \<open>HOME\<close>.\<close>

definition prepare :: "'s os \<Rightarrow> log_env \<Rightarrow> log_world \<Rightarrow> 's \<Rightarrow> (set_up \<times> 's) option" where
  "prepare F E w s =
     (case os_getenv F ''HOME'' of
        None \<Rightarrow> None
      | Some home \<Rightarrow>
          (let config = home @ ''/.config/pixelscrape'';
               s1 = snd (create_directories F config s);
               (lg, w1) = set_file_logging_size E (config @ ''/pixelscrape.log'') (10 * 1024 * 1024) 5
                 (set_level LOG_DEBUG logger_start) w;
               s2 = snd (create_directories F (home @ ''/Downloads'') s1);
               s3 = snd (create_directories F (config @ ''/state'') s2)
           in Some (\<lparr>su_download = home @ ''/Downloads'', su_state = config @ ''/state'', su_logger = lg, su_log = w1\<rparr>, s3)))"

text \<open>The constructor of the torrent manager.  The result of the DHT's start is not looked at.\<close>

definition new_torrent_manager ::
    "machine \<Rightarrow> string \<Rightarrow> string \<Rightarrow> state_dir \<Rightarrow> file_system \<Rightarrow> (dht_service \<times> manager) option" where
  "new_torrent_manager M download state states fs =
     Option.bind (start_service (mc_dht M) state (new_service 6881 (mc_id M) (mc_tokens M)))
       (\<lambda>(started, d). map_option (\<lambda>m. (d, m)) (start_session (mc_env M) download states fs))"

text \<open>What is left when the destructor is done: the state files, the downloads, the saved routing table.\<close>

type_synonym remains = "state_dir \<times> file_system \<times> byte list option"

definition delete_torrent_manager :: "int \<Rightarrow> bool \<Rightarrow> environment \<Rightarrow> dht_service \<Rightarrow> manager \<Rightarrow> remains option" where
  "delete_torrent_manager now ok env d m =
     (let d1 = stop_service now ok d in map_option (\<lambda>(states, fs). (states, fs, cl_file (sv_client d1))) (shutdown env m))"

record program =
  pg_dht :: dht_service
  pg_session :: session
  pg_http :: http_server

text \<open>The torrent manager and the servers; \<open>Inl\<close> when the HTTP server's start throws.\<close>

definition launch ::
    "machine \<Rightarrow> set_up \<Rightarrow> state_dir \<Rightarrow> file_system \<Rightarrow> ((string \<times> dht_service \<times> manager) + program) option" where
  "launch M su states fs =
     (case new_torrent_manager M (su_download su) (su_state su) states fs of
        None \<Rightarrow> None
      | Some (d, m) \<Rightarrow>
          (case mc_http M of (sock, bound, listening) \<Rightarrow>
             (case http_start sock bound listening http_server_new of
                (Inl e, closed, h) \<Rightarrow> Some (Inl (e, d, m))
              | (Inr _, closed, h) \<Rightarrow> Some (Inr \<lparr>pg_dht = d, pg_session = session_new m, pg_http = h\<rparr>))))"

section \<open>The loop\<close>

text \<open>\<open>sc_sent\<close> is the result of sending on each WebSocket connection, the last three fields are what the
  other threads did.\<close>

record second =
  sc_env :: api_env
  sc_sent :: "nat \<Rightarrow> byte list \<Rightarrow> int"
  sc_manager :: "manager \<Rightarrow> manager"
  sc_dht :: "dht_service \<Rightarrow> dht_service"
  sc_ws :: "ws_server \<Rightarrow> ws_server"

definition dht_status :: "dht_service \<Rightarrow> bool \<times> nat \<times> nat" where
  "dht_status d = (sv_running d, node_count d, active_queries d)"

definition program_round :: "second \<Rightarrow> program \<Rightarrow> program option" where
  "program_round x p =
     (let d = sc_dht x (pg_dht p);
          se = pg_session p;
          se1 = se\<lparr>se_manager := sc_manager x (se_manager se), se_ws := sc_ws x (se_ws se)\<rparr>;
          env = (sc_env x)\<lparr>ae_dht := Some (dht_status d), ae_dht_running := sv_running d\<rparr>
      in map_option (\<lambda>(se2, outs). p\<lparr>pg_dht := d, pg_session := se2\<rparr>) (main_round env (sc_sent x) se1))"

fun program_rounds :: "second list \<Rightarrow> program \<Rightarrow> program option" where
  "program_rounds [] p = Some p"
| "program_rounds (x # xs) p = Option.bind (program_round x p) (program_rounds xs)"

section \<open>The whole program\<close>

definition stop_servers :: "program \<Rightarrow> program" where
  "stop_servers p =
     p\<lparr>pg_http := snd (http_stop (pg_http p)), pg_session := (pg_session p)\<lparr>se_ws := ws_stop (se_ws (pg_session p))\<rparr>\<rparr>"

datatype outcome = Uncaught string | Exit int remains

text \<open>The rounds end when a signal has cleared \<open>running\<close>.  \<open>wakes\<close>: a connection comes to the HTTP port
  after that, for \<open>stop\<close> waits for a thread that waits in \<open>accept\<close>.  \<open>ok\<close>: the routing table file can be
  written.\<close>

definition program_main ::
    "'s os \<Rightarrow> log_env \<Rightarrow> machine \<Rightarrow> log_world \<Rightarrow> 's \<Rightarrow> state_dir \<Rightarrow> file_system \<Rightarrow> second list \<Rightarrow> bool \<Rightarrow> int \<Rightarrow> bool \<Rightarrow> environment \<Rightarrow> outcome option" where
  "program_main F E M w s states fs rounds wakes now ok env =
     (case prepare F E w s of
        None \<Rightarrow> Some (Uncaught ''HOME environment variable not set'')
      | Some (su, s1) \<Rightarrow>
          (case launch M su states fs of
             None \<Rightarrow> None
           | Some (Inl (e, d, m)) \<Rightarrow> map_option (Exit 1) (delete_torrent_manager now ok env d m)
           | Some (Inr p) \<Rightarrow>
               (case program_rounds rounds p of
                  None \<Rightarrow> None
                | Some q \<Rightarrow>
                    if \<not> wakes then None
                    else let r = stop_servers q in
                      map_option (Exit 0) (delete_torrent_manager now ok env (pg_dht r) (se_manager (pg_session r))))))"

section \<open>Invariants of the program\<close>

definition machine_ok :: "machine \<Rightarrow> bool" where
  "machine_ok M \<longleftrightarrow> id_ok (mc_id M) \<and> report_ok (mc_dht M) \<and> can_write (mc_env M) = (\<lambda>_. True)"

definition second_ok :: "second \<Rightarrow> bool" where
  "second_ok x \<longleftrightarrow> (\<forall>m. (manager_step good_env)\<^sup>*\<^sup>* m (sc_manager x m)) \<and> (\<forall>d. service_step\<^sup>*\<^sup>* d (sc_dht x d))"

text \<open>The states of the main loop, over any number of runs of the program since it was installed.\<close>

inductive program_state :: "program \<Rightarrow> bool" where
  installed: "id_ok (mc_id M) \<Longrightarrow> report_ok (mc_dht M) \<Longrightarrow> su_state su \<noteq> [] \<Longrightarrow>
    launch M su [] fs = Some (Inr p) \<Longrightarrow> program_state p"
| round: "program_state p \<Longrightarrow> second_ok x \<Longrightarrow> program_round x p = Some q \<Longrightarrow> program_state q"
| again: "program_state p \<Longrightarrow> good_env env \<Longrightarrow>
    delete_torrent_manager now ok env (pg_dht p) (se_manager (pg_session p)) = Some (states, fs, file) \<Longrightarrow>
    machine_ok M \<Longrightarrow> su_state su \<noteq> [] \<Longrightarrow> launch M su states fs = Some (Inr q) \<Longrightarrow> program_state q"

definition program_ok :: "program \<Rightarrow> bool" where
  "program_ok p \<longleftrightarrow> client_run (se_manager (pg_session p)) \<and> service_ok (pg_dht p) \<and> cl_dir (sv_client (pg_dht p)) \<noteq> []"

lemma launch_cases:
  assumes "launch M su states fs = Some (Inr p)"
  obtains started where
    "start_service (mc_dht M) (su_state su) (new_service 6881 (mc_id M) (mc_tokens M)) = Some (started, pg_dht p)"
    "start_session (mc_env M) (su_download su) states fs = Some (se_manager (pg_session p))"
  using assms
  by (auto simp: launch_def new_torrent_manager_def session_new_def split: option.splits prod.splits sum.splits bind_splits)

lemma prepare_state: "prepare F E w s = Some (su, s1) \<Longrightarrow> su_state su \<noteq> []"
  by (auto simp: prepare_def Let_def split: option.splits prod.splits)

lemma client_run_steps: "(manager_step good_env)\<^sup>*\<^sup>* m m' \<Longrightarrow> client_run m \<Longrightarrow> client_run m'"
  by (induction rule: rtranclp_induct) (auto intro: client_run.work)

lemma service_steps:
  "service_step\<^sup>*\<^sup>* d d' \<Longrightarrow> service_ok d \<Longrightarrow> service_ok d' \<and> cl_dir (sv_client d') = cl_dir (sv_client d)"
  by (induction rule: rtranclp_induct) (auto intro: step_ok dest: service_dir(2))

lemma main_round_manager:
  assumes "main_round env result se = Some (se', outs)"
  shows "se_manager se' = update_speeds (steady_clock (re_env (ae_rpc env))) (se_manager se)"
  using assms by (auto simp: main_round_def Let_def split: if_splits prod.splits)

lemma round_parts:
  assumes "program_round x p = Some q"
  shows "pg_dht q = sc_dht x (pg_dht p)"
    "\<exists>now. se_manager (pg_session q) = update_speeds now (sc_manager x (se_manager (pg_session p)))"
  using assms by (auto simp: program_round_def Let_def dest!: main_round_manager)

lemma launch_ok:
  assumes "launch M su states fs = Some (Inr p)" "id_ok (mc_id M)" "report_ok (mc_dht M)" "su_state su \<noteq> []"
    "\<And>m. start_session (mc_env M) (su_download su) states fs = Some m \<Longrightarrow> client_run m"
  shows "program_ok p"
  using assms(1)
proof (rule launch_cases)
  fix started
  assume "start_service (mc_dht M) (su_state su) (new_service 6881 (mc_id M) (mc_tokens M)) = Some (started, pg_dht p)"
    "start_session (mc_env M) (su_download su) states fs = Some (se_manager (pg_session p))"
  then show ?thesis using start_ok [OF assms(2,3)] service_dir(1) assms(4,5) by (auto simp: program_ok_def)
qed

lemma program_state_ok: "program_state p \<Longrightarrow> program_ok p"
proof (induction rule: program_state.induct)
  case (installed M su fs p)
  have "start_session (mc_env M) dir [] fs = Some (new_session dir [] fs)" for dir
    by (simp add: start_session_def restore_torrents_def list_saved_torrents_def new_session_def)
  then show ?case by (intro launch_ok [OF installed(4,1,2,3)]) (auto intro: client_run.install)
next
  case (round p x q)
  from round_parts [OF round(3)] obtain now where
    q: "pg_dht q = sc_dht x (pg_dht p)" "se_manager (pg_session q) = update_speeds now (sc_manager x (se_manager (pg_session p)))"
    by blast
  have "client_run (sc_manager x (se_manager (pg_session p)))"
    using round(2,4) client_run_steps by (auto simp: second_ok_def program_ok_def)
  then have "client_run (se_manager (pg_session q))" unfolding q by (rule client_run.work) (rule manager_step.speeds)
  moreover have "service_ok (pg_dht q) \<and> cl_dir (sv_client (pg_dht q)) = cl_dir (sv_client (pg_dht p))"
    unfolding q using round(2,4) service_steps by (auto simp: second_ok_def program_ok_def)
  ultimately show ?case using round(4) by (simp add: program_ok_def)
next
  case (again p env now ok states fs saved M su q)
  then have s: "shutdown env (se_manager (pg_session p)) = Some (states, fs)"
    by (auto simp: delete_torrent_manager_def Let_def)
  show ?case
    using again(4,7) s again(2) client_run.restart
    by (intro launch_ok [OF again(6) _ _ again(5)]) (auto simp: machine_ok_def program_ok_def)
qed

section \<open>Properties\<close>


definition demo_os :: "unit os" where
  "demo_os =
     \<lparr>os_stat = (\<lambda>p s. Some \<lparr>st_kind = Directory, st_size = 0, st_mtime = 0\<rparr>), os_mkdir = (\<lambda>p s. (True, s)),
       os_rmdir = (\<lambda>p s. (False, s)), os_unlink = (\<lambda>p s. (False, s)), os_rename = (\<lambda>p q s. (False, s)),
       os_read = (\<lambda>p s. None), os_truncate = (\<lambda>p s. None), os_append = (\<lambda>p c s. s), os_entries = (\<lambda>p s. None),
       os_getenv = [''HOME'' \<mapsto> ''/home/u''], os_getcwd = (\<lambda>s. None), os_chdir = (\<lambda>p s. (False, s))\<rparr>"

definition demo_log :: log_env where
  "demo_log = \<lparr>le_openable = (\<lambda>f. True), le_throws = (\<lambda>s. None), le_wait = id, le_clock = 0, le_time = gmtime 0\<rparr>"

definition demo_machine :: "byte list option \<Rightarrow> machine" where
  "demo_machine saved =
     \<lparr>mc_dht = demo_report saved, mc_id = replicate 20 7, mc_tokens = new_tokens 0 [] [], mc_env = session_env,
       mc_http = (Some 9, True, True)\<rparr>"

definition demo_saved :: "byte list option" where
  "demo_saved = cl_file (sv_client (stop_service 0 True demo_service))"

lemma demo_prepared: "\<exists>su s1. prepare demo_os demo_log \<lparr>lw_files = Map.empty, lw_streams = (\<lambda>s. [])\<rparr> () = Some (su, s1)"
  by (auto simp: prepare_def demo_os_def Let_def split_beta)

lemma demo_launched:
  assumes "su_state su \<noteq> []"
  shows "\<exists>p. launch (demo_machine demo_saved) su [] Map.empty = Some (Inr p) \<and> program_state p \<and> sv_running (pg_dht p) \<and>
    (\<exists>n \<in> set (get_all_nodes (cl_table (sv_client (pg_dht p)))). is_good 2000000200 n)"
proof -
  have good: "\<exists>n \<in> set (get_all_nodes (cl_table (sv_client demo_service))). is_good 0 n"
    by (simp add: demo_service_def) code_simp
  obtain d where d: "start_service (demo_report demo_saved) (su_state su)
      (new_service 6881 (replicate 20 7) (new_tokens 0 [] [])) = Some (True, d)"
    "sv_running d" "map entry_of (get_all_nodes (cl_table (sv_client d))) =
      map entry_of (filter (is_good 0) (get_all_nodes (cl_table (sv_client demo_service))))"
    "list_all (is_good 2000000200) (get_all_nodes (cl_table (sv_client d)))"
    using dht_restart [of demo_service 0 "demo_report demo_saved" "su_state su" 6881 "replicate 20 7" "new_tokens 0 [] []"]
      demo_service_ok good by (auto simp: demo_report_def demo_saved_def)
  have "get_all_nodes (cl_table (sv_client d)) \<noteq> []" using d(3) good by (auto simp: filter_empty_conv)
  with d(4) have "\<exists>n \<in> set (get_all_nodes (cl_table (sv_client d))). is_good 2000000200 n"
    by (cases "get_all_nodes (cl_table (sv_client d))") auto
  moreover have "start_session session_env dir [] Map.empty = Some (new_session dir [] Map.empty)" for dir
    by (simp add: start_session_def restore_torrents_def list_saved_torrents_def new_session_def)
  then obtain p where p: "launch (demo_machine demo_saved) su [] Map.empty = Some (Inr p)" "pg_dht p = d"
    using d(1) by (simp add: launch_def new_torrent_manager_def demo_machine_def http_start_def http_server_new_def)
  moreover have "program_state p"
    using p(1) assms by (intro program_state.installed [of "demo_machine demo_saved" su]) (auto simp: demo_machine_def demo_report_ok)
  ultimately show ?thesis using d(2) by auto
qed


text \<open>A first start without network does not get to the servers: see \<open>offline_start_hangs\<close>.\<close>

theorem offline_program_hangs:
  assumes "os_getenv F ''HOME'' = Some home" "0 \<le> sr_socket (mc_dht M)" "sr_bound (mc_dht M)"
    "pred_option (\<lambda>d. length d < 24) (sr_file (mc_dht M))"
    "\<forall>e \<in> set (sr_arrivals (mc_dht M)). e = No_Datagram \<or> e = Receive_Error"
  shows "program_main F E M w s states fs xs wakes now ok env = None"
proof -
  obtain su s1 where "prepare F E w s = Some (su, s1)"
    using assms(1) by (auto simp: prepare_def Let_def split_beta)
  then show ?thesis using offline_start_hangs [OF assms(2-5)]
    by (simp add: program_main_def launch_def new_torrent_manager_def)
qed

theorem offline_program_hangs_witness:
  "program_main demo_os demo_log (demo_machine None) \<lparr>lw_files = Map.empty, lw_streams = (\<lambda>s. [])\<rparr> () [] Map.empty []
     True 0 True session_env = None"
  by (rule offline_program_hangs [where home = "''/home/u''"]) (simp_all add: demo_os_def demo_machine_def demo_report_def)

end
