(* ===== verification/Mse_Crypto.thy ===== *)
theory Mse_Crypto
  imports Interfaces "HOL-Library.Multiset"
begin

text \<open>
  \<open>src/crypto/mse_crypto.cpp\<close>: the key agreement and the ciphers of Message Stream Encryption.
  OpenSSL is a parameter: what its calls return for key generation, the shared secret
  (\<open>DH_compute_key\<close>), the key stream of \<open>EVP_rc4\<close>, \<open>SHA1\<close> and \<open>RAND_bytes\<close>.  The \<open>RC4\<close> class of the
  repository is written out.
\<close>

section \<open>The RC4 class\<close>

record rc4 =
  rc_S :: "byte list"
  rc_i :: byte
  rc_j :: byte

definition identity_S :: "byte list" where
  "identity_S = map word_of_nat [0..<256]"

definition rc4_new :: rc4 where
  "rc4_new = \<lparr>rc_S = identity_S, rc_i = 0, rc_j = 0\<rparr>"

definition swap_at :: "nat \<Rightarrow> nat \<Rightarrow> 'a list \<Rightarrow> 'a list" where
  "swap_at a b xs = xs[a := xs ! b, b := xs ! a]"

definition key_schedule_step :: "byte list \<Rightarrow> byte \<times> byte list \<Rightarrow> nat \<Rightarrow> byte \<times> byte list" where
  "key_schedule_step key st i =
     (case st of (j, S) \<Rightarrow> let j' = j + S ! i + key ! (i mod length key) in (j', swap_at i (unat j') S))"

text \<open>\<open>None\<close> is the remainder by the size of an empty key.\<close>

definition rc4_init :: "byte list \<Rightarrow> rc4 option" where
  "rc4_init key =
     (if key = [] then None
      else Some \<lparr>rc_S = snd (foldl (key_schedule_step key) (0, identity_S) [0..<256]), rc_i = 0, rc_j = 0\<rparr>)"

definition rc4_next :: "rc4 \<Rightarrow> byte \<times> rc4" where
  "rc4_next s =
     (let i = rc_i s + 1; j = rc_j s + rc_S s ! unat i; S = swap_at (unat i) (unat j) (rc_S s)
      in (S ! ((unat (S ! unat i) + unat (S ! unat j)) mod 256), \<lparr>rc_S = S, rc_i = i, rc_j = j\<rparr>))"

fun rc4_process :: "byte list \<Rightarrow> rc4 \<Rightarrow> byte list \<times> rc4" where
  "rc4_process [] s = ([], s)"
| "rc4_process (b # bs) s = (case rc4_next s of (k, s') \<Rightarrow> map_prod ((#) (b XOR k)) id (rc4_process bs s'))"

section \<open>Key agreement\<close>

definition P_HEX :: string where
  "P_HEX =
     ''FFFFFFFFFFFFFFFFC90FDAA22168C234C4C6628B80DC1CD129024E088A67CC74'' @
     ''020BBEA63B139B22514A08798E3404DDEF9519B3CD3A431B302B0A6DF25F1437'' @
     ''4FE1356D6D51C245E485B576625E7EC6F44C42E9A63A36210000000000090563''"

definition hex_number :: "string \<Rightarrow> nat" where
  "hex_number s = foldl (\<lambda>n c. n * 16 + the (hex_digit_val c)) 0 s"

definition G :: nat where
  "G = 2"

text \<open>How far key generation gets: \<open>KEYS\<close> carries the private and the public number.\<close>

datatype dh_outcome = NO_DH | NO_PRIME | NO_GENERATOR | NO_PARAMETERS | NO_KEY | KEYS nat nat

record mse =
  dh :: "(nat \<times> nat) option option"
  shared_secret :: "byte list"
  encrypt_ctx :: "(byte list \<times> nat) option option"
  decrypt_ctx :: "(byte list \<times> nat) option option"

definition mse_new :: mse where
  "mse_new = \<lparr>dh = None, shared_secret = [], encrypt_ctx = None, decrypt_ctx = None\<rparr>"

text \<open>\<open>generate\<close> is what the OpenSSL calls give for the prime and the generator.  A structure without
  keys stays behind when a step after \<open>DH_new\<close> fails.\<close>

definition generate_dh_keypair :: "(nat \<Rightarrow> nat \<Rightarrow> dh_outcome) \<Rightarrow> mse \<Rightarrow> unit res \<times> mse" where
  "generate_dh_keypair generate m =
     (case generate (hex_number P_HEX) G of
        NO_DH \<Rightarrow> (Inl ''Failed to create DH structure'', m)
      | NO_PRIME \<Rightarrow> (Inl ''Failed to set DH prime P'', m\<lparr>dh := Some None\<rparr>)
      | NO_GENERATOR \<Rightarrow> (Inl ''Failed to set DH generator G'', m\<lparr>dh := Some None\<rparr>)
      | NO_PARAMETERS \<Rightarrow> (Inl ''Failed to set DH parameters'', m\<lparr>dh := Some None\<rparr>)
      | NO_KEY \<Rightarrow> (Inl ''Failed to generate DH keypair'', m\<lparr>dh := Some None\<rparr>)
      | KEYS x y \<Rightarrow> (Inr (), m\<lparr>dh := Some (Some (x, y))\<rparr>))"

text \<open>\<open>BN_num_bytes\<close>: the length of the shortest big-endian form.\<close>

fun num_bytes :: "nat \<Rightarrow> nat" where
  "num_bytes n = (if n = 0 then 0 else Suc (num_bytes (n div 256)))"

declare num_bytes.simps [simp del]

definition get_public_key :: "mse \<Rightarrow> byte list res" where
  "get_public_key m =
     (case dh m of
        None \<Rightarrow> Inl ''DH not initialized''
      | Some None \<Rightarrow> Inl ''Public key not generated''
      | Some (Some (x, y)) \<Rightarrow>
          if 96 < num_bytes y then Inl ''Public key too large''
          else Inr (put_bytes (replicate 96 0) (96 - num_bytes y) (be_bytes (num_bytes y) y)))"

text \<open>\<open>compute\<close> is \<open>DH_compute_key\<close> for the prime, our private number (if there is one) and the peer's
  public number: \<open>None\<close> is its error.  The buffer of \<open>DH_size\<close> bytes stays when it fails.\<close>

definition compute_shared_secret ::
    "nat \<Rightarrow> (nat \<Rightarrow> nat option \<Rightarrow> nat \<Rightarrow> byte list option) \<Rightarrow> byte list \<Rightarrow> mse \<Rightarrow> bool \<times> mse" where
  "compute_shared_secret dh_size compute peer_public_key m =
     (case dh m of
        None \<Rightarrow> (False, m)
      | Some keys \<Rightarrow>
          if length peer_public_key \<noteq> 96 then (False, m)
          else case compute (hex_number P_HEX) (map_option fst keys) (be_val peer_public_key) of
              None \<Rightarrow> (False, m\<lparr>shared_secret := take dh_size (shared_secret m) @ replicate (dh_size - length (shared_secret m)) 0\<rparr>)
            | Some s \<Rightarrow> (True, m\<lparr>shared_secret := s\<rparr>))"

section \<open>The cipher contexts\<close>

text \<open>An initialised context is its key, of which \<open>EVP_rc4\<close> reads its default length of 16 bytes, and the
  number of bytes it has processed; a context whose initialisation failed stays behind without.
  The outer option is \<open>None\<close> for a key that is too short to be read.\<close>

definition init_context :: "bool \<Rightarrow> string \<Rightarrow> byte list \<Rightarrow> (unit res \<times> (byte list \<times> nat) option) option" where
  "init_context initialised what key =
     (if \<not> initialised then Some (Inl (''Failed to initialize RC4 '' @ what), None)
      else if length key < 16 then None
      else Some (Inr (), Some (take 16 key, 0)))"

definition init_rc4_encryption :: "bool \<Rightarrow> bool \<Rightarrow> byte list \<Rightarrow> mse \<Rightarrow> (unit res \<times> mse) option" where
  "init_rc4_encryption allocated initialised key m =
     (if \<not> allocated then Some (Inl ''Failed to create encryption context'', m)
      else map_option (\<lambda>(r, c). (r, m\<lparr>encrypt_ctx := Some c\<rparr>)) (init_context initialised ''encryption'' key))"

definition init_rc4_decryption :: "bool \<Rightarrow> bool \<Rightarrow> byte list \<Rightarrow> mse \<Rightarrow> (unit res \<times> mse) option" where
  "init_rc4_decryption allocated initialised key m =
     (if \<not> allocated then Some (Inl ''Failed to create decryption context'', m)
      else map_option (\<lambda>(r, c). (r, m\<lparr>decrypt_ctx := Some c\<rparr>)) (init_context initialised ''decryption'' key))"

text \<open>\<open>stream key n\<close> is the byte of the key stream after \<open>n\<close> processed bytes.\<close>

definition cipher :: "(byte list \<Rightarrow> nat \<Rightarrow> byte) \<Rightarrow> byte list \<times> nat \<Rightarrow> byte list \<Rightarrow> byte list" where
  "cipher stream ctx data = map (\<lambda>(i, b). b XOR stream (fst ctx) (snd ctx + i)) (zip [0..<length data] data)"

definition encrypt :: "(byte list \<Rightarrow> nat \<Rightarrow> byte) \<Rightarrow> byte list \<Rightarrow> mse \<Rightarrow> byte list \<times> mse" where
  "encrypt stream data m =
     (case encrypt_ctx m of
        Some (Some c) \<Rightarrow> (cipher stream c data, m\<lparr>encrypt_ctx := Some (Some (fst c, snd c + length data))\<rparr>)
      | _ \<Rightarrow> (data, m))"

definition decrypt :: "(byte list \<Rightarrow> nat \<Rightarrow> byte) \<Rightarrow> byte list \<Rightarrow> mse \<Rightarrow> byte list \<times> mse" where
  "decrypt stream data m =
     (case decrypt_ctx m of
        Some (Some c) \<Rightarrow> (cipher stream c data, m\<lparr>decrypt_ctx := Some (Some (fst c, snd c + length data))\<rparr>)
      | _ \<Rightarrow> (data, m))"

section \<open>The hashes of the handshake\<close>

definition xor_bytes :: "byte list \<Rightarrow> byte list \<Rightarrow> byte list" where
  "xor_bytes a b = map (\<lambda>i. a ! i XOR b ! i) [0..<20]"

text \<open>\<open>sha1\<close> is OpenSSL's \<open>SHA1\<close>.\<close>

definition compute_crypto_provide :: "(byte list \<Rightarrow> byte list) \<Rightarrow> byte list \<Rightarrow> byte list \<Rightarrow> byte list" where
  "compute_crypto_provide sha1 info_hash secret =
     sha1 (bytes_of_string ''req1'' @ secret) @
     xor_bytes (sha1 (bytes_of_string ''req2'' @ info_hash)) (sha1 (bytes_of_string ''req3'' @ secret))"

definition compute_crypto_select :: "(byte list \<Rightarrow> byte list) \<Rightarrow> byte list \<Rightarrow> byte list \<Rightarrow> 32 word \<Rightarrow> byte list" where
  "compute_crypto_select sha1 info_hash secret crypto_select =
     compute_crypto_provide sha1 info_hash secret @ store32 crypto_select"

definition generate_random_bytes :: "byte list option \<Rightarrow> byte list res" where
  "generate_random_bytes random =
     (case random of None \<Rightarrow> Inl ''Failed to generate random bytes'' | Some bs \<Rightarrow> Inr bs)"

section \<open>RC4 as it is published\<close>

text \<open>Key schedule and generator on numbers, with every sum taken modulo 256.\<close>

definition ref_swap :: "nat \<Rightarrow> nat \<Rightarrow> (nat \<Rightarrow> nat) \<Rightarrow> nat \<Rightarrow> nat" where
  "ref_swap a b S = S(a := S b, b := S a)"

definition ref_schedule :: "byte list \<Rightarrow> nat \<times> (nat \<Rightarrow> nat) \<Rightarrow> nat \<Rightarrow> nat \<times> (nat \<Rightarrow> nat)" where
  "ref_schedule key st i =
     (let j = (fst st + snd st i + unat (key ! (i mod length key))) mod 256 in (j, ref_swap i j (snd st)))"

fun ref_stream :: "nat \<Rightarrow> nat \<Rightarrow> nat \<Rightarrow> (nat \<Rightarrow> nat) \<Rightarrow> nat list" where
  "ref_stream 0 i j S = []"
| "ref_stream (Suc n) i j S =
     (let i' = (i + 1) mod 256; j' = (j + S i') mod 256; S' = ref_swap i' j' S
      in S' ((S' i' + S' j') mod 256) # ref_stream n i' j' S')"

definition rc4_reference :: "byte list \<Rightarrow> nat \<Rightarrow> nat list" where
  "rc4_reference key n = ref_stream n 0 0 (snd (foldl (ref_schedule key) (0, id) [0..<256]))"

definition same_S :: "byte list \<Rightarrow> (nat \<Rightarrow> nat) \<Rightarrow> bool" where
  "same_S S R \<longleftrightarrow> length S = 256 \<and> (\<forall>k < 256. R k = unat (S ! k))"

lemma length_swap_at [simp]: "length (swap_at a b xs) = length xs"
  by (simp add: swap_at_def)

lemma mset_swap_at: "a < length xs \<Longrightarrow> b < length xs \<Longrightarrow> mset (swap_at a b xs) = mset xs"
  by (simp add: swap_at_def mset_swap)

lemma same_S_swap: "same_S S R \<Longrightarrow> a < 256 \<Longrightarrow> b < 256 \<Longrightarrow> same_S (swap_at a b S) (ref_swap a b R)"
  by (auto simp: same_S_def swap_at_def ref_swap_def nth_list_update)

lemma same_SD: "same_S S R \<Longrightarrow> k < 256 \<Longrightarrow> R k = unat (S ! k)"
  by (simp add: same_S_def)

lemma unat_byte_add: "unat (a + b :: byte) = (unat a + unat b) mod 256"
  by (simp add: unat_word_ariths)

lemma schedule_same:
  assumes "same_S S R" "i < 256"
  shows "\<exists>j' S' R'. key_schedule_step key (j, S) i = (j', S') \<and> ref_schedule key (unat j, R) i = (unat j', R') \<and> same_S S' R'"
  using assms same_S_swap [OF assms, of "unat (j + S ! i + key ! (i mod length key))"]
  by (simp add: key_schedule_step_def ref_schedule_def Let_def unat_byte_add mod_simps same_SD)

lemma schedules_same:
  "same_S S R \<Longrightarrow> list_all (\<lambda>i. i < 256) is \<Longrightarrow>
     \<exists>j' S' R'. foldl (key_schedule_step key) (j, S) is = (j', S') \<and> foldl (ref_schedule key) (unat j, R) is = (unat j', R') \<and> same_S S' R'"
proof (induction "is" arbitrary: j S R)
  case (Cons i "is")
  from schedule_same [OF Cons.prems(1), of i key j] Cons.prems(2) obtain j1 S1 R1 where
    s: "key_schedule_step key (j, S) i = (j1, S1)" "ref_schedule key (unat j, R) i = (unat j1, R1)" "same_S S1 R1" by auto
  from Cons.IH [OF s(3)] Cons.prems(2) show ?case by (simp add: s(1,2))
qed simp

lemma identity_same: "same_S identity_S id"
  by (auto simp: same_S_def identity_S_def unat_of_nat)

lemma init_same:
  assumes "key \<noteq> []"
  shows "\<exists>S. rc4_init key = Some \<lparr>rc_S = S, rc_i = 0, rc_j = 0\<rparr> \<and>
    same_S S (snd (foldl (ref_schedule key) (0, id) [0..<256]))"
proof -
  have "list_all (\<lambda>i. i < 256) [0..<256]" by (simp add: list_all_iff)
  from schedules_same [OF identity_same this, of key 0] show ?thesis using assms by (auto simp: rc4_init_def)
qed

lemma process_same:
  "same_S (rc_S s) R \<Longrightarrow>
     fst (rc4_process bs s) = map2 (\<lambda>b k. b XOR word_of_nat k) bs (ref_stream (length bs) (unat (rc_i s)) (unat (rc_j s)) R)"
proof (induction bs arbitrary: s R)
  case (Cons b bs)
  let ?i = "rc_i s + 1" and ?j = "rc_j s + rc_S s ! unat (rc_i s + 1)"
  let ?S = "swap_at (unat ?i) (unat ?j) (rc_S s)" and ?R = "ref_swap (unat ?i) (unat ?j) R"
  have i: "(unat (rc_i s) + 1) mod 256 = unat ?i" by (simp add: unat_byte_add)
  have j: "(unat (rc_j s) + R (unat ?i)) mod 256 = unat ?j" using Cons.prems by (simp add: unat_byte_add same_SD)
  have S: "same_S ?S ?R" using Cons.prems by (intro same_S_swap) simp_all
  then have k: "(word_of_nat (?R ((?R (unat ?i) + ?R (unat ?j)) mod 256)) :: byte) =
      ?S ! ((unat (?S ! unat ?i) + unat (?S ! unat ?j)) mod 256)"
    by (simp add: same_SD)
  from Cons.IH [of "\<lparr>rc_S = ?S, rc_i = ?i, rc_j = ?j\<rparr>" ?R] S show ?case
    unfolding list.size ref_stream.simps add_Suc_right add_0_right Let_def i j
    by (simp add: rc4_next_def Let_def k split: prod.split)
qed simp

section \<open>Decryption and the state\<close>

lemma process_inverse: "rc4_process (fst (rc4_process bs s)) s = (bs, snd (rc4_process bs s))"
proof (induction bs arbitrary: s)
  case (Cons b bs)
  then show ?case by (simp add: case_prod_unfold prod_eq_iff xor.assoc)
qed simp

lemma length_process [simp]: "length (fst (rc4_process bs s)) = length bs"
  by (induction bs arbitrary: s) (simp_all add: case_prod_unfold)

lemma process_append:
  "rc4_process (as @ bs) s =
     (fst (rc4_process as s) @ fst (rc4_process bs (snd (rc4_process as s))), snd (rc4_process bs (snd (rc4_process as s))))"
  by (induction as arbitrary: s) (simp_all add: case_prod_unfold prod_eq_iff)

definition rc4_ok :: "rc4 \<Rightarrow> bool" where
  "rc4_ok s \<longleftrightarrow> mset (rc_S s) = mset identity_S"

lemma length_identity_S [simp]: "length identity_S = 256"
  by (simp add: identity_S_def)

lemma rc4_ok_length: "rc4_ok s \<Longrightarrow> length (rc_S s) = 256"
  unfolding rc4_ok_def by (metis length_identity_S mset_eq_length)

lemma rc4_init_ok: "rc4_init key = Some s \<Longrightarrow> rc4_ok s"
proof -
  have "mset (snd (foldl (key_schedule_step key) (j, S) is)) = mset S" if "list_all (\<lambda>i. i < 256) is" "length S = 256" for j S "is"
    using that
    by (induction "is" arbitrary: j S) (simp_all add: key_schedule_step_def Let_def mset_swap_at)
  then show "rc4_init key = Some s \<Longrightarrow> ?thesis"
    by (auto simp: rc4_init_def rc4_ok_def list_all_iff split: if_splits)
qed

lemma rc4_process_ok: "rc4_ok s \<Longrightarrow> rc4_ok (snd (rc4_process bs s))"
proof (induction bs arbitrary: s)
  case (Cons b bs)
  have "rc4_ok (snd (rc4_next s))"
    using Cons.prems rc4_ok_length [OF Cons.prems] by (simp add: rc4_ok_def rc4_next_def Let_def mset_swap_at)
  then show ?case using Cons.IH by (simp add: case_prod_unfold)
qed simp

section \<open>Key agreement\<close>

lemma be_val_replicate_0: "be_val (replicate k 0 @ bs) = be_val bs"
  by (induction k) (simp_all add: be_val_Cons)

lemma num_bytes_bound: "n < 256 ^ num_bytes n"
proof (induction n rule: num_bytes.induct)
  case (1 n)
  show ?case
  proof (cases "n = 0")
    case False
    with 1 have "n div 256 < 256 ^ num_bytes (n div 256)" by simp
    then have "n < 256 * 256 ^ num_bytes (n div 256)" by (simp add: div_less_iff_less_mult mult.commute)
    then show ?thesis using False by (simp add: num_bytes.simps [of n])
  qed (simp add: num_bytes.simps)
qed

lemma num_bytes_le: "n < 256 ^ k \<Longrightarrow> num_bytes n \<le> k"
proof (induction n arbitrary: k rule: num_bytes.induct)
  case (1 n)
  show ?case
  proof (cases "n = 0")
    case False
    with 1(2) obtain k' where k: "k = Suc k'" by (cases k) auto
    with 1(2) have "n div 256 < 256 ^ k'" by (simp add: div_less_iff_less_mult mult.commute)
    with 1(1) False k show ?thesis by (simp add: num_bytes.simps [of n])
  qed (simp add: num_bytes.simps)
qed

lemma public_key_bytes:
  assumes "dh m = Some (Some (x, y))" "y < 256 ^ 96"
  shows "\<exists>k. get_public_key m = Inr k \<and> length k = 96 \<and> be_val k = y"
proof -
  have n: "num_bytes y \<le> 96" using assms(2) by (rule num_bytes_le)
  let ?k = "put_bytes (replicate 96 0) (96 - num_bytes y) (be_bytes (num_bytes y) y)"
  have "?k = replicate (96 - num_bytes y) 0 @ be_bytes (num_bytes y) y"
    using n by (subst put_bytes_full) (simp_all add: min_def)
  moreover have "y mod 256 ^ num_bytes y = y" using num_bytes_bound by (rule mod_less)
  ultimately have "be_val ?k = y" "length ?k = 96" using n by (simp_all add: be_val_replicate_0)
  then show ?thesis using assms(1) n by (simp add: get_public_key_def)
qed

lemma modexp_swap: "(g ^ a mod p) ^ b mod p = (g ^ b mod p) ^ a mod (p :: nat)"
  by (simp add: power_mod power_mult [symmetric] mult.commute)

definition secret_bytes :: "nat \<Rightarrow> byte list" where
  "secret_bytes n = be_bytes (num_bytes n) n"

lemma hex_foldl_bounds:
  "list_all (\<lambda>c. \<exists>d < 16. hex_digit_val c = Some d) s \<Longrightarrow>
     n \<le> foldl (\<lambda>n c. n * 16 + the (hex_digit_val c)) n s \<and>
     foldl (\<lambda>n c. n * 16 + the (hex_digit_val c)) n s < (n + 1) * 16 ^ length s"
proof (induction s arbitrary: n)
  case (Cons c s)
  then obtain d where d: "d < 16" "hex_digit_val c = Some d" by auto
  have "n * 16 + d + 1 \<le> (n + 1) * 16" using d(1) by simp
  then have "(n * 16 + d + 1) * 16 ^ length s \<le> (n + 1) * 16 * 16 ^ length s" by (rule mult_le_mono1)
  note le = this
  from Cons d have ih: "n * 16 + d \<le> foldl (\<lambda>n c. n * 16 + the (hex_digit_val c)) (n * 16 + d) s"
    "foldl (\<lambda>n c. n * 16 + the (hex_digit_val c)) (n * 16 + d) s < (n * 16 + d + 1) * 16 ^ length s" by simp_all
  from less_le_trans [OF ih(2) le]
  have "foldl (\<lambda>n c. n * 16 + the (hex_digit_val c)) (n * 16 + d) s < (n + 1) * 16 * 16 ^ length s" .
  then show ?case using ih(1) d(2) by (simp only: foldl_Cons list.size option.sel power_add mult.assoc) simp
qed simp

lemma P_HEX_digits: "list_all (\<lambda>c. \<exists>d < 16. hex_digit_val c = Some d) P_HEX" "length P_HEX = 192"
  by (simp_all add: P_HEX_def hex_digit_val_def)

lemma P_bounds: "14 < hex_number P_HEX" "hex_number P_HEX < 256 ^ 96"
proof -
  have "list_all (\<lambda>c. \<exists>d < 16. hex_digit_val c = Some d) (tl P_HEX)"
    using P_HEX_digits(1) list.set_sel(2) [of P_HEX] P_HEX_digits(2) unfolding list_all_iff by fastforce
  moreover have "hex_number P_HEX = foldl (\<lambda>n c. n * 16 + the (hex_digit_val c)) 15 (tl P_HEX)"
    by (simp add: hex_number_def P_HEX_def hex_digit_val_def)
  ultimately show "14 < hex_number P_HEX" using hex_foldl_bounds [of "tl P_HEX" 15] by simp
  have "hex_number P_HEX < 16 ^ 192" using hex_foldl_bounds [OF P_HEX_digits(1), of 0] by (simp add: hex_number_def P_HEX_digits(2))
  moreover have "(16 :: nat) ^ 192 = 256 ^ 96" using power_mult [of "16 :: nat" 2 96] by simp
  ultimately show "hex_number P_HEX < 256 ^ 96" by simp
qed

lemma agreed_secret:
  assumes "dh m = Some (Some (x, G ^ x mod P))" "compute P (Some x) (G ^ x' mod P) = Some (secret_bytes ((G ^ x' mod P) ^ x mod P))"
    "be_val k = G ^ x' mod P" "length k = 96" "P = hex_number P_HEX"
  shows "\<exists>m'. compute_shared_secret sz compute k m = (True, m') \<and> shared_secret m' = secret_bytes ((G ^ x' mod P) ^ x mod P)"
  using assms by (auto simp: compute_shared_secret_def)

section \<open>The cipher of a context\<close>

lemma length_cipher [simp]: "length (cipher f c d) = length d"
  by (simp add: cipher_def)

lemma nth_cipher: "i < length d \<Longrightarrow> cipher f c d ! i = d ! i XOR f (fst c) (snd c + i)"
  by (simp add: cipher_def)

lemma cipher_cipher [simp]: "cipher f c (cipher f c d) = d"
  by (rule nth_equalityI) (simp_all add: nth_cipher xor.assoc)

lemma cipher_append: "cipher f (k, n) (a @ b) = cipher f (k, n) a @ cipher f (k, n + length a) b"
  by (rule nth_equalityI) (simp_all add: nth_cipher nth_append)

interpretation context_cipher: codec "cipher f c" "\<lambda>d. Some (cipher f c d)" "\<lambda>_. True"
  by unfold_locales simp

lemma contexts_agree:
  assumes "init_rc4_encryption True True key m = Some (Inr (), m1)" "init_rc4_decryption True True key n = Some (Inr (), n1)"
    "encrypt f a m1 = (c, m2)" "encrypt f b m2 = (d, m3)"
  shows "fst (decrypt f (c @ d) n1) = a @ b"
  using assms
  by (auto simp: init_rc4_encryption_def init_rc4_decryption_def init_context_def encrypt_def decrypt_def cipher_append
      split: if_splits)

section \<open>Hashes\<close>

lemma length_xor_bytes [simp]: "length (xor_bytes a b) = 20"
  by (simp add: xor_bytes_def)

lemma xor_bytes_twice: "length a = 20 \<Longrightarrow> xor_bytes (xor_bytes a b) b = a"
  by (rule nth_equalityI) (simp_all add: xor_bytes_def xor.assoc)

section \<open>Properties\<close>

text \<open>C26: The RC4 class is the published cipher: with a non-empty key it combines the data, in however
  many pieces it comes, with the published key stream, a fresh object with the same key
  restores the data, and its table stays a permutation of the 256 bytes.\<close>

theorem rc4_correct:
  assumes "key \<noteq> []"
  shows "\<exists>s. rc4_init key = Some s \<and>
    fst (rc4_process a s) @ fst (rc4_process b (snd (rc4_process a s))) =
      map2 (\<lambda>x k. x XOR word_of_nat k) (a @ b) (rc4_reference key (length (a @ b))) \<and>
    fst (rc4_process (fst (rc4_process (a @ b) s)) s) = a @ b \<and>
    mset (rc_S (snd (rc4_process (a @ b) s))) = mset identity_S"
proof -
  obtain S where s: "rc4_init key = Some \<lparr>rc_S = S, rc_i = 0, rc_j = 0\<rparr>"
    "same_S S (snd (foldl (ref_schedule key) (0, id) [0..<256]))"
    using init_same [OF assms] by blast
  let ?s = "\<lparr>rc_S = S, rc_i = 0, rc_j = 0\<rparr>"
  have "fst (rc4_process (a @ b) ?s) = map2 (\<lambda>x k. x XOR word_of_nat k) (a @ b) (rc4_reference key (length (a @ b)))"
    using process_same [of ?s _ "a @ b"] s(2) by (simp add: rc4_reference_def)
  then show ?thesis
    using s(1) process_append [of a b ?s] process_inverse [of "a @ b" ?s] rc4_process_ok [OF rc4_init_ok [OF s(1)], of "a @ b"]
    by (intro exI [of _ ?s]) (simp add: rc4_ok_def)
qed

theorem rc4_correct_witness:
  "\<exists>s. rc4_init [1, 2, 3] = Some s \<and> fst (rc4_process (fst (rc4_process ([7] @ [8, 9]) s)) s) = [7, 8, 9]"
  using rc4_correct [of "[1, 2, 3]" "[7]" "[8, 9]"] by auto

text \<open>Key agreement: if OpenSSL generates a key pair for the prime and the generator and
  \<open>DH_compute_key\<close> is the power of the peer's number for numbers it accepts, two parties that
  exchange what \<open>get_public_key\<close> returns (always 96 bytes) end with the same shared secret.\<close>

theorem mse_key_agreement:
  assumes "\<And>p g. gen_a p g = KEYS a (g ^ a mod p)" "\<And>p g. gen_b p g = KEYS b (g ^ b mod p)"
    and "\<And>p x y. 1 < y \<Longrightarrow> y < p - 1 \<Longrightarrow> compute p (Some x) y = Some (secret_bytes (y ^ x mod p))"
    and "1 < 2 ^ a mod hex_number P_HEX" "2 ^ a mod hex_number P_HEX < hex_number P_HEX - 1"
    and "1 < 2 ^ b mod hex_number P_HEX" "2 ^ b mod hex_number P_HEX < hex_number P_HEX - 1"
  shows "\<exists>ma mb ka kb ma' mb'. generate_dh_keypair gen_a m = (Inr (), ma) \<and> generate_dh_keypair gen_b n = (Inr (), mb) \<and>
    get_public_key ma = Inr ka \<and> get_public_key mb = Inr kb \<and> length ka = 96 \<and> length kb = 96 \<and>
    compute_shared_secret sz compute kb ma = (True, ma') \<and> compute_shared_secret sz compute ka mb = (True, mb') \<and>
    shared_secret ma' = shared_secret mb'"
proof -
  let ?P = "hex_number P_HEX"
  let ?ma = "m\<lparr>dh := Some (Some (a, G ^ a mod ?P))\<rparr>" and ?mb = "n\<lparr>dh := Some (Some (b, G ^ b mod ?P))\<rparr>"
  have g: "generate_dh_keypair gen_a m = (Inr (), ?ma)" "generate_dh_keypair gen_b n = (Inr (), ?mb)"
    by (simp_all add: generate_dh_keypair_def assms(1,2))
  have "G ^ x mod ?P < 256 ^ 96" for x
    using P_bounds mod_less_divisor [of ?P "G ^ x"] by linarith
  then obtain ka kb where k: "get_public_key ?ma = Inr ka" "length ka = 96" "be_val ka = G ^ a mod ?P"
    "get_public_key ?mb = Inr kb" "length kb = 96" "be_val kb = G ^ b mod ?P"
    using public_key_bytes [of ?ma a] public_key_bytes [of ?mb b] by auto
  obtain ma' mb' where s: "compute_shared_secret sz compute kb ?ma = (True, ma')"
    "shared_secret ma' = secret_bytes ((G ^ b mod ?P) ^ a mod ?P)"
    "compute_shared_secret sz compute ka ?mb = (True, mb')"
    "shared_secret mb' = secret_bytes ((G ^ a mod ?P) ^ b mod ?P)"
    using agreed_secret [of ?ma a ?P compute b kb sz] agreed_secret [of ?mb b ?P compute a ka sz]
      assms(3) [of "G ^ b mod ?P" ?P a] assms(3) [of "G ^ a mod ?P" ?P b] assms(4-) k
    by (auto simp: G_def)
  then show ?thesis using g k modexp_swap [of G b ?P a] by (metis)
qed

theorem mse_key_agreement_witness:
  "\<exists>ma mb ka kb ma' mb'.
     generate_dh_keypair (\<lambda>p g. KEYS 1 (g ^ 1 mod p)) mse_new = (Inr (), ma) \<and>
     generate_dh_keypair (\<lambda>p g. KEYS 2 (g ^ 2 mod p)) mse_new = (Inr (), mb) \<and>
     get_public_key ma = Inr ka \<and> get_public_key mb = Inr kb \<and>
     compute_shared_secret 96 (\<lambda>p x y. if 1 < y \<and> y < p - 1 then map_option (\<lambda>x. secret_bytes (y ^ x mod p)) x else None)
       kb ma = (True, ma') \<and>
     compute_shared_secret 96 (\<lambda>p x y. if 1 < y \<and> y < p - 1 then map_option (\<lambda>x. secret_bytes (y ^ x mod p)) x else None)
       ka mb = (True, mb') \<and> shared_secret ma' = shared_secret mb'"
proof -
  let ?c = "\<lambda>p x y. if 1 < y \<and> y < p - 1 then map_option (\<lambda>x. secret_bytes (y ^ x mod p)) x else None"
  have "2 ^ 1 mod hex_number P_HEX = 2" "2 ^ 2 mod hex_number P_HEX = 4" "4 < hex_number P_HEX - 1"
    using P_bounds(1) by simp_all
  then show ?thesis
    using mse_key_agreement [of "\<lambda>p g. KEYS 1 (g ^ 1 mod p)" 1 "\<lambda>p g. KEYS 2 (g ^ 2 mod p)" 2 ?c mse_new mse_new 96]
    by fastforce
qed

text \<open>The two hashes of the third message: a receiver that knows the shared secret finds the info hash
  among those it serves by comparing \<open>SHA1("req2", info_hash)\<close>, whatever \<open>SHA1\<close> computes.\<close>

lemma crypto_provide_reveals:
  assumes "\<And>d. length (sha1 d) = 20"
  shows "take 20 (compute_crypto_provide sha1 info_hash secret) = sha1 (bytes_of_string ''req1'' @ secret)"
    and "xor_bytes (drop 20 (compute_crypto_provide sha1 info_hash secret)) (sha1 (bytes_of_string ''req3'' @ secret)) =
      sha1 (bytes_of_string ''req2'' @ info_hash)"
    and "drop 40 (compute_crypto_select sha1 info_hash secret cs) = be_bytes 4 (unat cs)"
  using assms by (simp_all add: compute_crypto_provide_def compute_crypto_select_def xor_bytes_twice store32_be)

text \<open>Only the first sixteen bytes of a key matter to the contexts.\<close>

lemma context_key_truncated:
  "take 16 key = take 16 key' \<Longrightarrow> 16 \<le> length key \<Longrightarrow> 16 \<le> length key' \<Longrightarrow>
     init_rc4_encryption a i key m = init_rc4_encryption a i key' m"
  by (simp add: init_rc4_encryption_def init_context_def)

end
