(* ===== verification/Extension_Protocol.thy ===== *)
theory Extension_Protocol
  imports Bencode
begin

text \<open>
  \<open>src/peer/extension_protocol.cpp\<close>: the extended handshake and the messages of the \<open>ut_metadata\<close> and
  \<open>ut_pex\<close> extensions.  A message is bencoded and behind it, for \<open>ut_metadata\<close>, come raw bytes.  The
  outer option of a parser is the bencode parser's; its exceptions are caught.
\<close>

section \<open>State and messages\<close>

record extension_protocol =
  ep_local :: "(string \<times> byte) list"
  ep_peer :: "(string \<times> byte) list"
  ep_client :: string
  ep_port :: "16 word"
  ep_metadata_size :: nat
  ep_upload_only :: bool

datatype extension_id = HANDSHAKE | UT_METADATA | UT_PEX | LT_DONTHAVE | UPLOAD_ONLY

definition extension_code :: "extension_id \<Rightarrow> byte" where
  "extension_code e = (case e of HANDSHAKE \<Rightarrow> 0 | UT_METADATA \<Rightarrow> 1 | UT_PEX \<Rightarrow> 2 | LT_DONTHAVE \<Rightarrow> 7 | UPLOAD_ONLY \<Rightarrow> 3)"

definition extension_new :: extension_protocol where
  "extension_new =
     \<lparr>ep_local = [(''ut_metadata'', extension_code UT_METADATA), (''ut_pex'', extension_code UT_PEX),
        (''lt_donthave'', extension_code LT_DONTHAVE), (''upload_only'', extension_code UPLOAD_ONLY)],
      ep_peer = [], ep_client = [], ep_port = 0, ep_metadata_size = 0, ep_upload_only = False\<rparr>"

definition supports :: "string \<Rightarrow> extension_protocol \<Rightarrow> bool" where
  "supports name e \<longleftrightarrow> map_of (ep_peer e) name \<noteq> None"

definition get_peer_extension_id :: "string \<Rightarrow> extension_protocol \<Rightarrow> byte" where
  "get_peer_extension_id name e = (case map_of (ep_peer e) name of Some i \<Rightarrow> i | None \<Rightarrow> 0)"

definition get_local_extension_id :: "extension_id \<Rightarrow> byte" where
  "get_local_extension_id i = extension_code i"

record metadata_message =
  mm_type :: byte
  mm_piece :: nat
  mm_total :: nat
  mm_data :: "byte list"

record pex_message =
  px_added :: "byte list list"
  px_dropped :: "byte list list"

text \<open>A \<open>size_t\<close> stored as \<open>BencodeInteger\<close>.\<close>

definition i64_of_size :: "nat \<Rightarrow> int" where
  "i64_of_size n = (if n < 2 ^ 63 then int n else int n - 2 ^ 64)"

section \<open>The extended handshake\<close>

definition build_extended_handshake :: "16 word \<Rightarrow> string \<Rightarrow> nat \<Rightarrow> extension_protocol \<Rightarrow> byte list" where
  "build_extended_handshake listen_port client_name metadata_size e =
     bytes_of_string (encode (BDict
       ([(''m'', BDict (map (map_prod id (\<lambda>i. BInt (uint i))) (ep_local e))), (''v'', BStr client_name),
         (''p'', BInt (uint listen_port))] @
        (if 0 < metadata_size then [(''metadata_size'', BInt (i64_of_size metadata_size))] else []) @
        [(''reqq'', BInt 250)])))"

definition peer_extensions :: "(string \<times> bval) list \<Rightarrow> (string \<times> byte) list" where
  "peer_extensions m =
     foldl (\<lambda>es (k, v). case v of BInt i \<Rightarrow> AList.update k (word_of_int i) es | _ \<Rightarrow> es) [] m"

definition read_handshake :: "(string \<times> bval) list \<Rightarrow> extension_protocol \<Rightarrow> extension_protocol" where
  "read_handshake d e =
     (let e1 = (case map_of d ''m'' of Some (BDict m) \<Rightarrow> e\<lparr>ep_peer := peer_extensions m\<rparr> | _ \<Rightarrow> e);
          e2 = (case map_of d ''v'' of Some (BStr v) \<Rightarrow> e1\<lparr>ep_client := v\<rparr> | _ \<Rightarrow> e1);
          e3 = (case map_of d ''p'' of Some (BInt p) \<Rightarrow> e2\<lparr>ep_port := word_of_int p\<rparr> | _ \<Rightarrow> e2);
          e4 = (case map_of d ''metadata_size'' of
                  Some (BInt n) \<Rightarrow> e3\<lparr>ep_metadata_size := u64_of_int n\<rparr> | _ \<Rightarrow> e3)
      in case map_of d ''upload_only'' of Some (BInt u) \<Rightarrow> e4\<lparr>ep_upload_only := u \<noteq> 0\<rparr> | _ \<Rightarrow> e4)"

definition parse_extended_handshake :: "byte list \<Rightarrow> extension_protocol \<Rightarrow> (bool \<times> extension_protocol) option" where
  "parse_extended_handshake payload e =
     map_option
       (\<lambda>r. case r of Inr (BDict d) \<Rightarrow> (True, read_handshake d e) | _ \<Rightarrow> (False, e))
       (parse (string_of_bytes payload))"

section \<open>Metadata messages\<close>

definition build_metadata_request :: "byte \<Rightarrow> nat \<Rightarrow> byte list" where
  "build_metadata_request ext_msg_id piece =
     ext_msg_id # bytes_of_string (encode (BDict [(''msg_type'', BInt 0), (''piece'', BInt (i64_of_size piece))]))"

definition build_metadata_data :: "byte \<Rightarrow> nat \<Rightarrow> nat \<Rightarrow> byte list \<Rightarrow> byte list" where
  "build_metadata_data ext_msg_id piece total_size data =
     ext_msg_id # bytes_of_string (encode (BDict
       [(''msg_type'', BInt 1), (''piece'', BInt (i64_of_size piece)), (''total_size'', BInt (i64_of_size total_size))])) @ data"

definition build_metadata_reject :: "byte \<Rightarrow> nat \<Rightarrow> byte list" where
  "build_metadata_reject ext_msg_id piece =
     ext_msg_id # bytes_of_string (encode (BDict [(''msg_type'', BInt 2), (''piece'', BInt (i64_of_size piece))]))"

text \<open>\<open>msg\<close> is the caller's object, which keeps what is not read.\<close>

definition read_metadata_message ::
    "(string \<times> bval) list \<Rightarrow> byte list \<Rightarrow> metadata_message \<Rightarrow> bool \<times> metadata_message" where
  "read_metadata_message d rest msg =
     (case map_of d ''msg_type'' of
        Some (BInt t) \<Rightarrow>
          (let msg1 = msg\<lparr>mm_type := word_of_int t\<rparr> in
           case map_of d ''piece'' of
             Some (BInt p) \<Rightarrow>
               (let msg2 = msg1\<lparr>mm_piece := u64_of_int p\<rparr>;
                    msg3 = (case map_of d ''total_size'' of Some (BInt n) \<Rightarrow> msg2\<lparr>mm_total := u64_of_int n\<rparr> | _ \<Rightarrow> msg2)
                in (True, msg3\<lparr>mm_data := rest\<rparr>))
           | _ \<Rightarrow> (False, msg1))
      | _ \<Rightarrow> (False, msg))"

definition parse_metadata_message :: "byte list \<Rightarrow> metadata_message \<Rightarrow> (bool \<times> metadata_message) option" where
  "parse_metadata_message payload msg =
     (if payload = [] then Some (False, msg)
      else map_option
        (\<lambda>r. case r of Inr (BDict d, consumed) \<Rightarrow> read_metadata_message d (drop consumed payload) msg | _ \<Rightarrow> (False, msg))
        (parse_data (string_of_bytes payload)))"

section \<open>Peer exchange\<close>

definition build_pex_message :: "byte \<Rightarrow> byte list list \<Rightarrow> byte list list \<Rightarrow> byte list" where
  "build_pex_message ext_msg_id added dropped =
     ext_msg_id # bytes_of_string (encode (BDict
       [(''added'', BStr (string_of_bytes (concat added))), (''dropped'', BStr (string_of_bytes (concat dropped)))]))"

definition endpoints :: "string \<Rightarrow> byte list list" where
  "endpoints s = chunks 6 (bytes_of_string s)"

definition read_pex :: "(string \<times> bval) list \<Rightarrow> pex_message \<Rightarrow> pex_message" where
  "read_pex d msg =
     (let msg1 = (case map_of d ''added'' of Some (BStr s) \<Rightarrow> msg\<lparr>px_added := px_added msg @ endpoints s\<rparr> | _ \<Rightarrow> msg)
      in case map_of d ''dropped'' of Some (BStr s) \<Rightarrow> msg1\<lparr>px_dropped := px_dropped msg1 @ endpoints s\<rparr> | _ \<Rightarrow> msg1)"

definition parse_pex_message :: "byte list \<Rightarrow> pex_message \<Rightarrow> (bool \<times> pex_message) option" where
  "parse_pex_message payload msg =
     map_option (\<lambda>r. case r of Inr (BDict d) \<Rightarrow> (True, read_pex d msg) | _ \<Rightarrow> (False, msg))
       (parse (string_of_bytes payload))"

section \<open>Reading what was built\<close>

lemma u64_i64 [simp]: "n < 2 ^ 64 \<Longrightarrow> u64_of_int (i64_of_size n) = n"
  by (auto simp: u64_of_int_def i64_of_size_def nat_mod_distrib)

lemma i64_range [simplified, simp]: "n < 2 ^ 64 \<Longrightarrow> - (2 ^ 63) \<le> i64_of_size n \<and> i64_of_size n < 2 ^ 63"
  by (auto simp: i64_of_size_def)

lemma canon_BDict: obtains qs where "canon (BDict ps) = BDict qs"
  by simp

lemma parse_dict_text:
  assumes "bval_ok (BDict d)" "length (encode (BDict d)) + length data < 2 ^ 64"
  shows "\<exists>qs. parse_data (encode (BDict d) @ string_of_bytes data) = Some (Inr (BDict qs, length (encode (BDict d)))) \<and>
    (\<forall>k. map_of qs k = map_option canon (map_of d k))"
proof -
  obtain qs where q: "canon (BDict d) = BDict qs" by (rule canon_BDict)
  have "distinct (map fst d)" using assms(1) by simp
  then show ?thesis
    using parse_data_encode [OF assms(1), of "string_of_bytes data"] assms(2) canon_lookup [OF q] q
    by (simp del: encode.simps canon.simps)
qed

lemma peer_extensions_lookup:
  assumes "distinct (map fst m)"
  shows "map_of (peer_extensions m) k = (case map_of m k of Some (BInt i) \<Rightarrow> Some (word_of_int i) | _ \<Rightarrow> None)"
proof -
  have "map_of (foldl (\<lambda>es (k, v). case v of BInt i \<Rightarrow> AList.update k (word_of_int i) es | _ \<Rightarrow> es) es m) k =
      (case map_of m k of Some (BInt i) \<Rightarrow> Some (word_of_int i) | _ \<Rightarrow> map_of es k)" for es :: "(string \<times> byte) list"
    using assms
  proof (induction m arbitrary: es)
    case (Cons p m)
    obtain a v where p: "p = (a, v)" by force
    from Cons.prems p have "a \<notin> fst ` set m" by simp
    then have "map_of m a = None" by (simp add: map_of_eq_None_iff)
    then show ?case using Cons p by (cases v) (auto simp: AList.update_conv' split: option.split bval.split)
  qed simp
  from this [of "[]"] show ?thesis by (simp add: peer_extensions_def option.case_eq_if split: option.split bval.split)
qed

lemma canon_distinct: "canon (BDict ps) = BDict qs \<Longrightarrow> distinct (map fst ps) \<Longrightarrow> distinct (map fst qs)"
  by (auto simp: canon_dict comp_def distinct_fst_sort_key simp del: canon.simps)

lemma uint_range: "- (2 ^ 63) \<le> uint (b :: byte) \<and> uint b < 2 ^ 63" "- (2 ^ 63) \<le> uint (p :: 16 word) \<and> uint p < 2 ^ 63"
  by (intro conjI order_trans [OF _ uint_ge_0] less_le_trans [OF uint_lt2p]; simp)+

lemma parse_no_suffix: "parse_data t = Some (Inr (v, n)) \<Longrightarrow> parse t = Some (Inr v)"
  by (simp add: parse_def)

lemma handshake_read:
  assumes "length (build_extended_handshake port name total_size e) < 2 ^ 64" "total_size < 2 ^ 64" "distinct (map fst (ep_local e))"
  obtains e' where "parse_extended_handshake (build_extended_handshake port name total_size e) e0 = Some (True, e')"
    "\<And>n. map_of (ep_peer e') n = map_of (ep_local e) n" "ep_client e' = name" "ep_port e' = port"
    "ep_metadata_size e' = (if total_size = 0 then ep_metadata_size e0 else total_size)" "ep_upload_only e' = ep_upload_only e0"
proof -
  let ?m = "map (map_prod id (\<lambda>i. BInt (uint i))) (ep_local e)"
  let ?d = "[(''m'', BDict ?m), (''v'', BStr name), (''p'', BInt (uint port))] @
    (if 0 < total_size then [(''metadata_size'', BInt (i64_of_size total_size))] else []) @ [(''reqq'', BInt 250)]"
  have m: "distinct (map fst ?m)" using assms(3) by (simp add: comp_def)
  have "bval_ok (BDict ?d)"
    using m assms(2) uint_range by (auto simp: list_all_iff)
  moreover have "length (encode (BDict ?d)) + length ([] :: byte list) < 2 ^ 64"
    using assms(1) by (simp add: build_extended_handshake_def del: encode.simps)
  ultimately obtain qs where q: "parse_data (encode (BDict ?d) @ string_of_bytes []) = Some (Inr (BDict qs, length (encode (BDict ?d))))"
    "\<And>k. map_of qs k = map_option canon (map_of ?d k)" using parse_dict_text by blast
  obtain m' where m': "canon (BDict ?m) = BDict m'" by (rule canon_BDict)
  have "map_of (peer_extensions m') n = map_of (ep_local e) n" for n
    using canon_lookup [OF m' m, of n] peer_extensions_lookup [OF canon_distinct [OF m' m], of n]
    by (cases "map_of (ep_local e) n") (simp_all add: map_of_map_snd)
  moreover have "parse (encode (BDict ?d)) = Some (Inr (BDict qs))" using q(1) by (simp add: parse_no_suffix del: encode.simps)
  ultimately show ?thesis
    using that [of "read_handshake qs e0"] q(2) m' assms(2)
    by (simp add: parse_extended_handshake_def build_extended_handshake_def read_handshake_def Let_def del: encode.simps canon.simps(4) map_map)
qed

lemma metadata_data_read:
  assumes "length (build_metadata_data i piece total_size data) < 2 ^ 64" "piece < 2 ^ 64" "total_size < 2 ^ 64"
  shows "parse_metadata_message (tl (build_metadata_data i piece total_size data)) msg =
    Some (True, \<lparr>mm_type = 1, mm_piece = piece, mm_total = total_size, mm_data = data\<rparr>)"
proof -
  let ?d = "[(''msg_type'', BInt 1), (''piece'', BInt (i64_of_size piece)), (''total_size'', BInt (i64_of_size total_size))]"
  have "bval_ok (BDict ?d)" using assms(2,3) by simp
  moreover have "length (encode (BDict ?d)) + length data < 2 ^ 64"
    using assms(1) by (simp add: build_metadata_data_def del: encode.simps)
  ultimately obtain qs where q: "parse_data (encode (BDict ?d) @ string_of_bytes data) = Some (Inr (BDict qs, length (encode (BDict ?d))))"
    "\<And>k. map_of qs k = map_option canon (map_of ?d k)" using parse_dict_text by blast
  have "encode (BDict ?d) \<noteq> []" by simp
  then show ?thesis
    using q assms(2,3)
    by (simp add: parse_metadata_message_def build_metadata_data_def read_metadata_message_def del: encode.simps map_map)
qed

lemma metadata_request_read:
  assumes "length (build_metadata_request i piece) < 2 ^ 64" "piece < 2 ^ 64"
  shows "parse_metadata_message (tl (build_metadata_request i piece)) msg =
    Some (True, msg\<lparr>mm_type := 0, mm_piece := piece, mm_data := []\<rparr>)"
proof -
  let ?d = "[(''msg_type'', BInt 0), (''piece'', BInt (i64_of_size piece))]"
  have "bval_ok (BDict ?d)" using assms(2) by simp
  moreover have "length (encode (BDict ?d)) + length ([] :: byte list) < 2 ^ 64"
    using assms(1) by (simp add: build_metadata_request_def del: encode.simps)
  ultimately obtain qs where q: "parse_data (encode (BDict ?d) @ string_of_bytes []) = Some (Inr (BDict qs, length (encode (BDict ?d))))"
    "\<And>k. map_of qs k = map_option canon (map_of ?d k)" using parse_dict_text by blast
  have "encode (BDict ?d) \<noteq> []" by simp
  then show ?thesis
    using q assms(2)
    by (simp add: parse_metadata_message_def build_metadata_request_def read_metadata_message_def del: encode.simps map_map)
qed

lemma chunks6_concat: "\<forall>p \<in> set ps. length p = 6 \<Longrightarrow> chunks 6 (concat ps) = ps"
  by (induction ps) (simp_all add: chunks_append)

interpretation endpoint: fixed_codec "\<lambda>p. p" "\<lambda>c. c" 6 "\<lambda>p :: byte list. length p = 6"
  by unfold_locales auto

lemma pex_read:
  assumes "length (build_pex_message i added dropped) < 2 ^ 64" "\<forall>p \<in> set added. length p = 6" "\<forall>p \<in> set dropped. length p = 6"
  shows "parse_pex_message (tl (build_pex_message i added dropped)) msg =
    Some (True, msg\<lparr>px_added := px_added msg @ added, px_dropped := px_dropped msg @ dropped\<rparr>)"
proof -
  let ?d = "[(''added'', BStr (string_of_bytes (concat added))), (''dropped'', BStr (string_of_bytes (concat dropped)))]"
  have "bval_ok (BDict ?d)" by simp
  moreover have "length (encode (BDict ?d)) + length ([] :: byte list) < 2 ^ 64"
    using assms(1) by (simp add: build_pex_message_def del: encode.simps)
  ultimately obtain qs where q: "parse_data (encode (BDict ?d) @ string_of_bytes []) = Some (Inr (BDict qs, length (encode (BDict ?d))))"
    "\<And>k. map_of qs k = map_option canon (map_of ?d k)" using parse_dict_text by blast
  have "parse (encode (BDict ?d)) = Some (Inr (BDict qs))" using q(1) by (simp add: parse_no_suffix del: encode.simps)
  then show ?thesis
    using q(2) assms(2,3) by (simp add: parse_pex_message_def build_pex_message_def read_pex_def endpoints_def Let_def
        chunks6_concat del: encode.simps map_map map_concat)
qed

section \<open>Properties\<close>



end
