(* ===== verification/Metadata_Exchange.thy ===== *)
theory Metadata_Exchange
  imports Extension_Protocol Peer_Wire
begin

text \<open>
  \<open>src/peer/metadata_exchange.cpp\<close>: fetching the info dictionary of a torrent from peers.  The vectors
  are resized to the number of blocks a peer announces; whether the two allocations succeed is an
  argument (the text of the exception they throw).  \<open>None\<close> is the bencode parser running away or a
  write behind the end of \<open>received_pieces_\<close>.
\<close>

section \<open>State\<close>

abbreviation METADATA_PIECE_SIZE :: nat where
  "METADATA_PIECE_SIZE \<equiv> 16384"

record metadata_exchange =
  mx_info_hash :: "byte list"
  mx_size :: "nat option"
  mx_peer_id :: "byte option"
  mx_pieces :: "(nat \<times> byte list) list"
  mx_status :: "bool list"
  mx_metadata :: "byte list"
  mx_complete :: bool
  mx_callback :: bool

definition exchange_new :: "byte list \<Rightarrow> metadata_exchange" where
  "exchange_new ih =
     \<lparr>mx_info_hash = ih, mx_size = None, mx_peer_id = None, mx_pieces = [], mx_status = [], mx_metadata = [],
      mx_complete = False, mx_callback = False\<rparr>"

definition set_metadata_complete_callback :: "metadata_exchange \<Rightarrow> metadata_exchange" where
  "set_metadata_complete_callback x = x\<lparr>mx_callback := True\<rparr>"

section \<open>Messages to the peer\<close>

definition create_extension_handshake :: "bool \<Rightarrow> byte list" where
  "create_extension_handshake supports_metadata = []"

definition create_metadata_request :: "byte \<Rightarrow> nat \<Rightarrow> byte list" where
  "create_metadata_request i piece = build_metadata_request i piece"

definition create_metadata_data :: "byte \<Rightarrow> nat \<Rightarrow> byte list \<Rightarrow> nat \<Rightarrow> byte list" where
  "create_metadata_data i piece data total_size = build_metadata_data i piece total_size data"

definition create_metadata_reject :: "byte \<Rightarrow> nat \<Rightarrow> byte list" where
  "create_metadata_reject i piece = build_metadata_reject i piece"

section \<open>The handshake\<close>

definition block_count :: "nat \<Rightarrow> nat" where
  "block_count total_size = u64_sub (u64_add total_size METADATA_PIECE_SIZE) 1 div METADATA_PIECE_SIZE"

definition set_size :: "string option \<Rightarrow> string option \<Rightarrow> nat \<Rightarrow> metadata_exchange \<Rightarrow> unit res \<times> metadata_exchange" where
  "set_size alloc_status alloc_pieces total_size x =
     (let n = block_count total_size;
          x1 = x\<lparr>mx_size := Some total_size\<rparr>
      in case alloc_status of
           Some e \<Rightarrow> (Inl e, x1)
         | None \<Rightarrow>
             (let x2 = x1\<lparr>mx_status := resize_list n False (mx_status x1)\<rparr> in
              case alloc_pieces of
                Some e \<Rightarrow> (Inl e, x2)
              | None \<Rightarrow> (Inr (), x2\<lparr>mx_pieces := resize_list n (0, []) (mx_pieces x2)\<rparr>)))"

definition handle_extension_handshake ::
    "string option \<Rightarrow> string option \<Rightarrow> byte list \<Rightarrow> metadata_exchange \<Rightarrow> (unit res \<times> metadata_exchange) option" where
  "handle_extension_handshake alloc_status alloc_pieces msg_bytes x =
     map_option
       (\<lambda>(ok, e).
          if \<not> ok then (Inr (), x)
          else let x1 = x\<lparr>mx_peer_id := (if supports ''ut_metadata'' e then Some (get_peer_extension_id ''ut_metadata'' e) else None)\<rparr>
               in if 0 < ep_metadata_size e \<and> mx_size x1 = None
                  then set_size alloc_status alloc_pieces (ep_metadata_size e) x1 else (Inr (), x1))
       (parse_extended_handshake msg_bytes extension_new)"

section \<open>Blocks\<close>

definition verify_metadata :: "metadata_exchange \<Rightarrow> bool" where
  "verify_metadata x \<longleftrightarrow> mx_metadata x \<noteq> [] \<and> sha1_hash (mx_metadata x) = mx_info_hash x"

text \<open>The second component lists the calls of the callback.\<close>

definition assemble_metadata :: "metadata_exchange \<Rightarrow> metadata_exchange \<times> byte list list" where
  "assemble_metadata x =
     (if \<not> list_all id (mx_status x) then (x, [])
      else let buffer = concat (map snd (mx_pieces x)) in
        if mx_size x \<noteq> Some (length buffer) then (x, [])
        else let x1 = x\<lparr>mx_metadata := buffer\<rparr> in
          if verify_metadata x1 then (x1\<lparr>mx_complete := True\<rparr>, if mx_callback x1 then [buffer] else []) else (x1, []))"

definition receive_piece :: "nat \<Rightarrow> byte list \<Rightarrow> metadata_exchange \<Rightarrow> (metadata_exchange \<times> byte list list) option" where
  "receive_piece piece data x =
     (if mx_size x = None \<or> length (mx_status x) \<le> piece \<or> mx_status x ! piece then Some (x, [])
      else if length (mx_pieces x) \<le> piece then None
      else Some (assemble_metadata
        (x\<lparr>mx_pieces := (mx_pieces x)[piece := (piece, data)], mx_status := (mx_status x)[piece := True]\<rparr>)))"

definition handle_metadata_message ::
    "metadata_message \<Rightarrow> byte list \<Rightarrow> metadata_exchange \<times> peer_conn \<Rightarrow> ((metadata_exchange \<times> peer_conn) \<times> byte list list) option" where
  "handle_metadata_message uninitialised msg_bytes st =
     (case st of (x, peer) \<Rightarrow>
        Option.bind (parse_metadata_message msg_bytes uninitialised) (\<lambda>(ok, msg).
          if \<not> ok then Some ((x, peer), [])
          else if mm_type msg = 0 then
            Some ((x, case mx_peer_id x of None \<Rightarrow> peer
                      | Some i \<Rightarrow> send_extended_message i (create_metadata_reject i (mm_piece msg)) peer), [])
          else if mm_type msg = 1 then map_option (\<lambda>(x', calls). ((x', peer), calls)) (receive_piece (mm_piece msg) (mm_data msg) x)
          else Some ((x, peer), [])))"

definition request_metadata :: "metadata_exchange \<Rightarrow> peer_conn \<Rightarrow> peer_conn" where
  "request_metadata x peer =
     (case mx_peer_id x of
        None \<Rightarrow> peer
      | Some i \<Rightarrow>
          if mx_size x = None \<or> mx_complete x then peer
          else fold (\<lambda>k. if mx_status x ! k then id else send_extended_message i (create_metadata_request i k))
                 [0..<length (mx_status x)] peer)"

section \<open>The invariant\<close>

text \<open>While no allocation fails the vectors have one entry for each block of the announced size.\<close>

definition exchange_ok :: "metadata_exchange \<Rightarrow> bool" where
  "exchange_ok x \<longleftrightarrow> length (mx_status x) = length (mx_pieces x) \<and>
     length (mx_status x) = (case mx_size x of None \<Rightarrow> 0 | Some n \<Rightarrow> block_count n) \<and>
     (mx_complete x \<longrightarrow> verify_metadata x \<and> mx_size x = Some (length (mx_metadata x)) \<and> list_all id (mx_status x))"

lemma length_resize_list [simp]: "length (resize_list n d xs) = n"
  by (simp add: resize_list_def)

lemma new_exchange_ok: "exchange_ok (exchange_new h)"
  by (simp add: exchange_ok_def exchange_new_def)

lemma handshake_ok:
  assumes "handle_extension_handshake None None msg_bytes x = Some (r, x')" "exchange_ok x"
  shows "exchange_ok x' \<and> mx_info_hash x' = mx_info_hash x \<and> r = Inr ()"
  using assms
  by (auto simp: handle_extension_handshake_def set_size_def exchange_ok_def verify_metadata_def Let_def split: if_splits)

lemma receive_piece_ok:
  assumes "exchange_ok x"
  shows "\<exists>x' calls. receive_piece i d x = Some (x', calls) \<and> exchange_ok x' \<and> mx_info_hash x' = mx_info_hash x \<and>
    mx_size x' = mx_size x \<and> (\<forall>c \<in> set calls. sha1_hash c = mx_info_hash x \<and> mx_complete x')"
  using assms
  by (auto simp: receive_piece_def assemble_metadata_def exchange_ok_def verify_metadata_def Let_def list_all_length
      split: option.splits)


section \<open>Downloading from honest peers\<close>

definition metadata_block :: "byte list \<Rightarrow> nat \<Rightarrow> byte list" where
  "metadata_block meta i = take METADATA_PIECE_SIZE (drop (i * METADATA_PIECE_SIZE) meta)"

lemma block_count_exact: "n < 2 ^ 63 \<Longrightarrow> block_count n = (n + 16383) div 16384"
  by (simp add: block_count_def u64_add_id u64_sub_id)

lemma concat_blocks:
  assumes "length meta \<le> n * METADATA_PIECE_SIZE"
  shows "concat (map (metadata_block meta) [0..<n]) = meta"
proof -
  have "concat (map (metadata_block meta) [0..<k]) = take (k * METADATA_PIECE_SIZE) meta" for k
    by (induction k) (simp_all add: metadata_block_def take_add [symmetric] add.commute)
  then show ?thesis using assms by simp
qed

definition downloading :: "byte list \<Rightarrow> nat set \<Rightarrow> metadata_exchange \<Rightarrow> bool" where
  "downloading meta S x \<longleftrightarrow> mx_info_hash x = sha1_hash meta \<and> mx_size x = Some (length meta) \<and> mx_callback x \<and>
     mx_status x = map (\<lambda>k. k \<in> S) [0..<block_count (length meta)] \<and>
     map snd (mx_pieces x) = map (\<lambda>k. if k \<in> S then metadata_block meta k else []) [0..<block_count (length meta)] \<and>
     (mx_complete x \<longleftrightarrow> {..<block_count (length meta)} \<subseteq> S) \<and> (mx_complete x \<longrightarrow> mx_metadata x = meta)"

lemma update_map_upt: "(map f [0..<n])[i := v] = map (f(i := v)) [0..<n]"
  by (rule nth_equalityI) (auto simp: nth_list_update)

lemma receive_block_downloading:
  assumes d: "downloading meta S x" and m: "meta \<noteq> []" "length meta < 2 ^ 63"
  defines "n \<equiv> block_count (length meta)"
  shows "\<exists>x'. receive_piece i (metadata_block meta i) x =
      Some (x', if i < n \<and> \<not> {..<n} \<subseteq> S \<and> {..<n} \<subseteq> insert i S then [meta] else []) \<and> downloading meta (if i < n then insert i S else S) x'"
proof (cases "i < n \<and> i \<notin> S")
  case False
  have "mx_status x = map (\<lambda>k. k \<in> S) [0..<n]" using d by (simp add: downloading_def n_def)
  then have "length (mx_status x) \<le> i \<or> mx_status x ! i" using False by (cases "i < n") simp_all
  then have "receive_piece i (metadata_block meta i) x = Some (x, [])" by (auto simp: receive_piece_def)
  moreover have "\<not> (i < n \<and> \<not> {..<n} \<subseteq> S \<and> {..<n} \<subseteq> insert i S)" using False by (cases "i < n") (simp_all add: insert_absorb)
  moreover have "(if i < n then insert i S else S) = S" using False by (simp add: insert_absorb)
  ultimately show ?thesis using d by simp
next
  case True
  let ?x = "x\<lparr>mx_pieces := (mx_pieces x)[i := (i, metadata_block meta i)], mx_status := (mx_status x)[i := True]\<rparr>"
  have "map snd (mx_pieces x) = map (\<lambda>k. if k \<in> S then metadata_block meta k else []) [0..<n]"
    using d by (simp add: downloading_def n_def)
  from arg_cong [OF this, of length] have len: "length (mx_pieces x) = n" by simp
  have st: "mx_status ?x = map (\<lambda>k. k \<in> insert i S) [0..<n]"
    using d by (auto simp: downloading_def n_def update_map_upt)
  have pc: "map snd (mx_pieces ?x) = map (\<lambda>k. if k \<in> insert i S then metadata_block meta k else []) [0..<n]"
    using d by (auto simp: downloading_def n_def map_update update_map_upt)
  have r: "receive_piece i (metadata_block meta i) x = Some (assemble_metadata ?x)"
    using d True len by (auto simp: receive_piece_def downloading_def n_def)
  have open_: "\<not> mx_complete x" "\<not> {..<n} \<subseteq> S" using d True by (auto simp: downloading_def n_def)
  have all: "list_all id (mx_status ?x) \<longleftrightarrow> {..<n} \<subseteq> insert i S" unfolding st by (auto simp: list_all_iff)
  show ?thesis
  proof (cases "{..<n} \<subseteq> insert i S")
    case False
    then show ?thesis using r True d st pc all open_ by (auto simp: assemble_metadata_def downloading_def n_def)
  next
    case full: True
    have "map snd (mx_pieces ?x) = map (metadata_block meta) [0..<n]" unfolding pc using full by auto
    moreover have "length meta \<le> n * METADATA_PIECE_SIZE" using m(2) by (simp add: n_def block_count_exact)
    ultimately have "concat (map snd (mx_pieces ?x)) = meta" by (simp only: concat_blocks)
    then show ?thesis
      using r True d st pc all full m(1) open_
      by (simp add: assemble_metadata_def downloading_def n_def verify_metadata_def Let_def)
  qed
qed

section \<open>Sequences of messages\<close>

fun receive_messages ::
    "metadata_message \<Rightarrow> byte list list \<Rightarrow> metadata_exchange \<times> peer_conn \<Rightarrow> ((metadata_exchange \<times> peer_conn) \<times> byte list list) option" where
  "receive_messages u [] st = Some (st, [])"
| "receive_messages u (p # ps) st =
     Option.bind (handle_metadata_message u p st) (\<lambda>(st', calls).
       map_option (map_prod id ((@) calls)) (receive_messages u ps st'))"

lemma length_show_nat_le: "length (show_nat n) \<le> Suc n"
proof (induction n rule: show_nat.induct)
  case (1 n)
  show ?case
  proof (cases "n < 10")
    case False
    then have "length (show_nat (n div 10)) \<le> Suc (n div 10)" using 1 by simp
    moreover have "Suc (n div 10) \<le> n" using False by linarith
    ultimately show ?thesis using False by (simp add: show_nat.simps [of n])
  qed (simp add: show_nat.simps [of n])
qed

lemma block_message_length:
  assumes "i < block_count (length meta)" "length meta < 2 ^ 63"
  shows "length (build_metadata_data e i (length meta) (metadata_block meta i)) < 2 ^ 64" "i < 2 ^ 64" "length meta < 2 ^ 64"
proof -
  have i: "i < 2 ^ 50" using assms by (simp add: block_count_exact)
  have "length (metadata_block meta i) \<le> 16384" by (simp add: metadata_block_def)
  moreover have "length (show_nat i) \<le> Suc i" "length (show_nat (length meta)) \<le> Suc (length meta)"
    by (rule length_show_nat_le)+
  ultimately show "length (build_metadata_data e i (length meta) (metadata_block meta i)) < 2 ^ 64"
    using assms(2) i
    by (simp add: build_metadata_data_def i64_of_size_def encode_string_def show_int_def show_nat.simps)
  show "i < 2 ^ 64" "length meta < 2 ^ 64" using i assms(2) by simp_all
qed

lemma block_message:
  assumes "i < block_count (length meta)" "length meta < 2 ^ 63"
  shows "handle_metadata_message u (tl (build_metadata_data e i (length meta) (metadata_block meta i))) (x, peer) =
    map_option (\<lambda>(x', calls). ((x', peer), calls)) (receive_piece i (metadata_block meta i) x)"
  using metadata_data_read [OF block_message_length [OF assms]] by (simp add: handle_metadata_message_def)

lemma receive_blocks:
  assumes m: "meta \<noteq> []" "length meta < 2 ^ 63"
  defines "n \<equiv> block_count (length meta)"
  shows "downloading meta S x \<Longrightarrow> list_all (\<lambda>i. i < n) is \<Longrightarrow>
    \<exists>x'. receive_messages u (map (\<lambda>i. tl (build_metadata_data e i (length meta) (metadata_block meta i))) is) (x, peer) =
      Some ((x', peer), if \<not> {..<n} \<subseteq> S \<and> {..<n} \<subseteq> S \<union> set is then [meta] else []) \<and> downloading meta (S \<union> set is) x'"
proof (induction "is" arbitrary: S x)
  case Nil
  then show ?case by auto
next
  case (Cons i "is")
  then have i: "i < block_count (length meta)" by (simp add: n_def)
  from receive_block_downloading [OF Cons.prems(1) m, of i] i obtain x1 where
    x1: "receive_piece i (metadata_block meta i) x = Some (x1, if \<not> {..<n} \<subseteq> S \<and> {..<n} \<subseteq> insert i S then [meta] else [])"
    "downloading meta (insert i S) x1" by (auto simp: n_def)
  from Cons.IH [OF x1(2)] Cons.prems(2) obtain x2 where
    x2: "receive_messages u (map (\<lambda>i. tl (build_metadata_data e i (length meta) (metadata_block meta i))) is) (x1, peer) =
      Some ((x2, peer), if \<not> {..<n} \<subseteq> insert i S \<and> {..<n} \<subseteq> insert i S \<union> set is then [meta] else [])"
    "downloading meta (insert i S \<union> set is) x2" by auto
  have "receive_messages u (map (\<lambda>i. tl (build_metadata_data e i (length meta) (metadata_block meta i))) (i # is)) (x, peer) =
      Some ((x2, peer), (if \<not> {..<n} \<subseteq> S \<and> {..<n} \<subseteq> insert i S then [meta] else []) @
        (if \<not> {..<n} \<subseteq> insert i S \<and> {..<n} \<subseteq> insert i S \<union> set is then [meta] else []))"
    using block_message [OF i m(2)] x1(1) x2(1) by simp
  moreover have "insert i S \<union> set is = S \<union> set (i # is)" by simp
  moreover have "{..<n} \<subseteq> S \<Longrightarrow> {..<n} \<subseteq> insert i S" "{..<n} \<subseteq> insert i S \<Longrightarrow> {..<n} \<subseteq> insert i S \<union> set is" by auto
  ultimately show ?case using x2(2) by (intro exI [of _ x2]) auto
qed

lemma handshake_downloading:
  assumes "length (build_extended_handshake port name (length meta) extension_new) < 2 ^ 64" "meta \<noteq> []" "length meta < 2 ^ 63"
  shows "\<exists>x. handle_extension_handshake None None (build_extended_handshake port name (length meta) extension_new)
      (set_metadata_complete_callback (exchange_new (sha1_hash meta))) = Some (Inr (), x) \<and> downloading meta {} x \<and>
      mx_peer_id x = Some (get_local_extension_id UT_METADATA)"
proof -
  have d: "distinct (map fst (ep_local extension_new))" by (simp add: extension_new_def)
  have l: "length meta < 2 ^ 64" using assms(3) by simp
  from handshake_read [OF assms(1) l d] obtain e where
    e: "parse_extended_handshake (build_extended_handshake port name (length meta) extension_new) extension_new = Some (True, e)"
    "\<And>n. map_of (ep_peer e) n = map_of (ep_local extension_new) n" "ep_metadata_size e = length meta"
    using assms(2) by (metis length_0_conv)
  have s: "supports ''ut_metadata'' e" "get_peer_extension_id ''ut_metadata'' e = get_local_extension_id UT_METADATA"
    by (simp_all add: supports_def get_peer_extension_id_def e(2) get_local_extension_id_def) (simp_all add: extension_new_def)
  have n: "0 < block_count (length meta)"
    using assms(2,3) by (cases meta) (simp_all add: block_count_exact)
  show ?thesis
    using assms(2) n
    by (simp add: handle_extension_handshake_def e s set_size_def Let_def downloading_def exchange_new_def
        set_metadata_complete_callback_def resize_list_def map_replicate_const lessThan_empty_iff)
qed

text \<open>The peer receives our message number twice, once from \<open>send_extended_message\<close> and once from the
  builder; the second one stands where the dictionary should begin, so that a peer which parses
  messages as this client does refuses our requests.\<close>

lemma own_request_refused:
  "parse_metadata_message (create_metadata_request (get_local_extension_id UT_METADATA) piece) u = Some (False, u)"
proof -
  let ?t = "encode (BDict [(''msg_type'', BInt 0), (''piece'', BInt (i64_of_size piece))])"
  have "parse_data (CHR 0x01 # ?t) = Some (Inl (''Invalid bencode data at position '' @ show_nat 0))"
    by (rule parse_data_Some [of "Suc 0"]) (simp add: parse_value.simps c_isdigit_def del: encode.simps)
  moreover have "char_of_byte 1 = CHR 0x01" by code_simp
  then have "string_of_bytes (1 # bytes_of_string ?t) = CHR 0x01 # ?t" by (simp del: encode.simps map_map)
  ultimately show ?thesis
    by (simp add: parse_metadata_message_def create_metadata_request_def build_metadata_request_def
        get_local_extension_id_def extension_code_def del: encode.simps map_map list.map)
qed

text \<open>A block with wrong data is kept: the right one that comes later is not looked at.\<close>

lemma bad_block_stays: "mx_status x ! i \<Longrightarrow> receive_piece i d x = Some (x, [])"
  by (simp add: receive_piece_def)

section \<open>Properties\<close>

text \<open>C22: After the handshake of a peer that announces the size of the info dictionary, the metadata is
  complete exactly when every block has arrived, whatever the order and however often blocks are
  repeated; then it is the dictionary, byte for byte, and the callback has run once with it.\<close>

theorem metadata_download:
  assumes "length (build_extended_handshake port name (length meta) extension_new) < 2 ^ 64" "meta \<noteq> []" "length meta < 2 ^ 63"
    and "list_all (\<lambda>i. i < block_count (length meta)) is"
  shows "\<exists>x0 x. handle_extension_handshake None None (build_extended_handshake port name (length meta) extension_new)
      (set_metadata_complete_callback (exchange_new (sha1_hash meta))) = Some (Inr (), x0) \<and>
    receive_messages u (map (\<lambda>i. tl (create_metadata_data e i (metadata_block meta i) (length meta))) is) (x0, peer) =
      Some ((x, peer), if {..<block_count (length meta)} \<subseteq> set is then [meta] else []) \<and>
    (mx_complete x \<longleftrightarrow> {..<block_count (length meta)} \<subseteq> set is) \<and> (mx_complete x \<longrightarrow> mx_metadata x = meta)"
proof -
  from handshake_downloading [OF assms(1-3)] obtain x0 where
    x0: "handle_extension_handshake None None (build_extended_handshake port name (length meta) extension_new)
      (set_metadata_complete_callback (exchange_new (sha1_hash meta))) = Some (Inr (), x0)" "downloading meta {} x0" by blast
  have n: "\<not> {..<block_count (length meta)} \<subseteq> {}" using assms(2,3) by (cases meta) (simp_all add: block_count_exact lessThan_empty_iff)
  from receive_blocks [OF assms(2,3) x0(2) assms(4), of u e peer] n obtain x where
    "receive_messages u (map (\<lambda>i. tl (build_metadata_data e i (length meta) (metadata_block meta i))) is) (x0, peer) =
      Some ((x, peer), if {..<block_count (length meta)} \<subseteq> set is then [meta] else [])" "downloading meta (set is) x" by auto
  then show ?thesis
    using x0(1) by (intro exI [of _ x0] exI [of _ x]) (simp add: create_metadata_data_def downloading_def)
qed

theorem metadata_download_witness:
  "\<exists>x0 x. receive_messages \<lparr>mm_type = 0, mm_piece = 0, mm_total = 0, mm_data = []\<rparr>
      [tl (create_metadata_data 1 0 (metadata_block [100, 101] 0) (length [100, 101 :: byte]))] (x0, undefined) =
      Some ((x, undefined), [[100, 101]]) \<and> mx_complete x \<and> mx_metadata x = [100, 101]"
proof -
  have "length (build_extended_handshake 6881 ''x'' (length [100, 101 :: byte]) extension_new) < 2 ^ 64"
    by (simp add: build_extended_handshake_def extension_new_def extension_code_def i64_of_size_def encode_string_def
        show_int_def show_nat.simps)
  moreover have n: "block_count (length [100, 101 :: byte]) = 1" by (simp add: block_count_exact)
  moreover have "{..<1 :: nat} \<subseteq> set [0]" by auto
  ultimately show ?thesis
    using metadata_download [of 6881 "''x''" "[100, 101]" "[0]" "\<lparr>mm_type = 0, mm_piece = 0, mm_total = 0, mm_data = []\<rparr>" 1 undefined]
    by fastforce
qed

text \<open>The exchange with peers that may send anything.\<close>

inductive exchange_run :: "byte list \<Rightarrow> metadata_exchange \<Rightarrow> bool" for h where
  start: "exchange_run h (exchange_new h)"
| callback: "exchange_run h x \<Longrightarrow> exchange_run h (set_metadata_complete_callback x)"
| handshake: "exchange_run h x \<Longrightarrow> handle_extension_handshake None None p x = Some (r, x') \<Longrightarrow> exchange_run h x'"
| message: "exchange_run h x \<Longrightarrow> handle_metadata_message u p (x, peer) = Some ((x', peer'), calls) \<Longrightarrow> exchange_run h x'"

lemma message_ok:
  assumes "exchange_ok x" "parse_metadata_message p u \<noteq> None"
  shows "\<exists>x' peer' calls. handle_metadata_message u p (x, peer) = Some ((x', peer'), calls) \<and> exchange_ok x' \<and>
    mx_info_hash x' = mx_info_hash x \<and> (\<forall>c \<in> set calls. sha1_hash c = mx_info_hash x)"
proof -
  from assms(2) obtain ok msg where "parse_metadata_message p u = Some (ok, msg)" by auto
  then show ?thesis
    using receive_piece_ok [OF assms(1), of "mm_piece msg" "mm_data msg"] assms(1)
    by (auto simp: handle_metadata_message_def)
qed

lemma exchange_run_ok: "exchange_run h x \<Longrightarrow> exchange_ok x \<and> mx_info_hash x = h"
proof (induction rule: exchange_run.induct)
  case start
  show ?case using new_exchange_ok by (simp add: exchange_new_def)
next
  case (callback x)
  then show ?case by (simp add: exchange_ok_def set_metadata_complete_callback_def verify_metadata_def)
next
  case (handshake x p r x')
  then show ?case using handshake_ok by blast
next
  case (message x u p peer x' peer' calls)
  then have "parse_metadata_message p u \<noteq> None"
    by (cases "parse_metadata_message p u") (simp_all add: handle_metadata_message_def)
  with message message_ok [of x p u peer] show ?case by auto
qed



end
