(* ===== verification/Network.thy ===== *)
theory Network
  imports Http_Server
begin

text \<open>
  \<open>include/network.hpp\<close>: the HTTP client the trackers are asked with, host names, addresses and
  downloads.  The operating system and OpenSSL are a record of arguments.  A connected socket is
  the address it is connected to; what the peer answers is the list of pieces that its socket
  delivers when the request has been sent (see \<open>Socket\<close>).  \<open>Inl\<close> is the text of a C++ exception
  that leaves the function.  The Windows branches are left out; the two measurements are in
  \<open>Net_Measure\<close>.
\<close>

section \<open>Numbers\<close>

definition stoi :: "string \<Rightarrow> int res" where
  "stoi s =
     (case scan_num s of
        None \<Rightarrow> Inl ''stoi''
      | Some (neg, v) \<Rightarrow>
          (let i = (if neg then - int v else int v)
           in if i < - (2 ^ 31) \<or> 2 ^ 31 \<le> i then Inl ''stoi'' else Inr i))"

section \<open>The operating system\<close>

datatype family = Inet | Inet6 | Other_Family

datatype errno = ETIMEDOUT | ECONNREFUSED | EOTHER

text \<open>\<open>nw_test_mode\<close> is the environment variable \<open>PIXELLIB_TEST_MODE\<close>; \<open>nw_lookup\<close> the first address
  of \<open>getaddrinfo\<close> or its error text; \<open>nw_ntop\<close> and \<open>nw_pton\<close> an address as text and back, with port
  80; \<open>nw_send\<close> how many bytes \<open>send\<close> accepts, \<open>None\<close> when it fails; \<open>nw_recv_error\<close> whether the
  \<open>recv\<close> that ends the answer returns -1.  The \<open>nw_tls\<close> fields are the same for a TLS connection.\<close>

record 'a network =
  nw_test_mode :: "string option"
  nw_lookup :: "string \<Rightarrow> string option \<Rightarrow> string + 'a"
  nw_family :: "'a \<Rightarrow> family"
  nw_ntop :: "'a \<Rightarrow> string"
  nw_pton :: "family \<Rightarrow> string \<Rightarrow> 'a option"
  nw_socket :: "family \<Rightarrow> bool"
  nw_connect :: "'a \<Rightarrow> errno option"
  nw_send :: "'a \<Rightarrow> string \<Rightarrow> nat option"
  nw_reply :: "'a \<Rightarrow> string \<Rightarrow> string list"
  nw_recv_error :: "'a \<Rightarrow> string \<Rightarrow> bool"
  nw_tls_context :: bool
  nw_tls_connect :: "'a \<Rightarrow> string \<Rightarrow> bool"
  nw_tls_write :: "'a \<Rightarrow> string \<Rightarrow> bool"
  nw_tls_reply :: "'a \<Rightarrow> string \<Rightarrow> string list"

definition is_test_mode :: "'a network \<Rightarrow> bool" where
  "is_test_mode E \<longleftrightarrow> (case nw_test_mode E of Some (c # _) \<Rightarrow> c = CHR ''1'' | _ \<Rightarrow> False)"

text \<open>The code, the flag for a refusal and the one for a timeout.\<close>

fun get_connection_error :: "errno \<Rightarrow> int \<times> bool \<times> bool" where
  "get_connection_error ETIMEDOUT = (3, False, True)"
| "get_connection_error ECONNREFUSED = (4, True, False)"
| "get_connection_error EOTHER = (5, False, False)"

record network_result =
  nr_success :: bool
  nr_code :: int
  nr_message :: string

abbreviation failure :: "int \<Rightarrow> string \<Rightarrow> network_result" where
  "failure code msg \<equiv> \<lparr>nr_success = False, nr_code = code, nr_message = msg\<rparr>"

abbreviation success :: "string \<Rightarrow> network_result" where
  "success msg \<equiv> \<lparr>nr_success = True, nr_code = 0, nr_message = msg\<rparr>"

text \<open>The hooks of the tests: a result other than 0 replaces the error that is reported.\<close>

definition hooked :: "(string \<Rightarrow> int) option \<Rightarrow> string \<Rightarrow> string \<Rightarrow> network_result \<Rightarrow> network_result" where
  "hooked hook stage msg r =
     (case hook of None \<Rightarrow> r | Some h \<Rightarrow> if h stage \<noteq> 0 then failure (h stage) msg else r)"

section \<open>Hosts\<close>

definition resolve_hostname :: "'a network \<Rightarrow> string \<Rightarrow> network_result" where
  "resolve_hostname E hostname =
     (if hostname = [] then failure 1 ''Hostname is empty''
      else if is_test_mode E then success ''127.0.0.1''
      else case nw_lookup E (c_str hostname) None of
          Inl e \<Rightarrow> failure 2 (''Hostname resolution failed: '' @ e)
        | Inr a \<Rightarrow>
            (let ip_address = (if nw_family E a = Other_Family then [] else nw_ntop E a)
             in if ip_address = [] then failure 3 ''No addresses found for hostname'' else success ip_address))"

definition host_result :: "(string \<Rightarrow> int) option \<Rightarrow> errno option \<Rightarrow> network_result" where
  "host_result hook status =
     (case status of
        None \<Rightarrow> success ''Host is reachable''
      | Some e \<Rightarrow>
          hooked hook ''connect'' ''Forced connect failure''
            (case get_connection_error e of (code, refused_flag, timeout_flag) \<Rightarrow>
               if timeout_flag then failure 3 ''Connection timeout''
               else if refused_flag then failure 4 ''Connection refused''
               else failure code ''General network error''))"

definition is_host_reachable :: "'a network \<Rightarrow> (string \<Rightarrow> int) option \<Rightarrow> string \<Rightarrow> network_result" where
  "is_host_reachable E hook host =
     (if host = [] then failure 1 ''Host is empty''
      else if is_test_mode E then success ''Host is reachable (test mode)''
      else let resolved = resolve_hostname E host; ip_address = nr_message resolved
        in if \<not> nr_success resolved then failure (nr_code resolved) (nr_message resolved)
        else if find_char CHR '':'' ip_address 0 \<noteq> None then
          (if \<not> nw_socket E Inet6 then
             hooked hook ''socket_ipv6'' ''Forced IPv6 socket creation failure'' (failure 5 ''Failed to create IPv6 socket'')
           else case nw_pton E Inet6 ip_address of
               None \<Rightarrow> failure 2 ''Invalid IPv6 address format''
             | Some a \<Rightarrow> host_result hook (nw_connect E a))
        else
          (if \<not> nw_socket E Inet then
             hooked hook ''socket_ipv4'' ''Forced IPv4 socket creation failure'' (failure 5 ''Failed to create IPv4 socket'')
           else case nw_pton E Inet ip_address of
               None \<Rightarrow> failure 2 ''Invalid IPv4 address format''
             | Some a \<Rightarrow> host_result hook (nw_connect E a)))"

definition create_socket_connection :: "'a network \<Rightarrow> string \<Rightarrow> int \<Rightarrow> 'a option" where
  "create_socket_connection E host port =
     (if host = [] \<or> port \<le> 0 \<or> 65535 < port then None
      else case nw_lookup E (c_str host) (Some (show_int port)) of
          Inl e \<Rightarrow> None
        | Inr a \<Rightarrow> if nw_socket E (nw_family E a) \<and> nw_connect E a = None then Some a else None)"

section \<open>URLs\<close>

text \<open>The protocol, the host with its port, and the path.\<close>

definition split_url :: "string \<Rightarrow> (string \<times> string \<times> string) option" where
  "split_url url =
     (case find_str ''://'' url of
        None \<Rightarrow> None
      | Some protocol_end \<Rightarrow>
          (let host_start = protocol_end + 3
           in case find_char CHR ''/'' url host_start of
                None \<Rightarrow> Some (take protocol_end url, drop host_start url, ''/'')
              | Some host_end \<Rightarrow>
                  Some (take protocol_end url, substr url host_start (host_end - host_start), drop host_end url)))"

definition split_port :: "int \<Rightarrow> string \<Rightarrow> (string \<times> int) res" where
  "split_port port host =
     (case find_char CHR '':'' host 0 of
        None \<Rightarrow> Inr (host, port)
      | Some port_pos \<Rightarrow> ebind (stoi (drop (port_pos + 1) host)) (\<lambda>p. Inr (take port_pos host, p)))"

definition default_port :: "string \<Rightarrow> int" where
  "default_port protocol = (if protocol = ''https'' then 443 else 80)"

section \<open>Requests\<close>

definition http_line :: "string \<Rightarrow> string" where
  "http_line l = l @ crlf"

definition get_request :: "string \<Rightarrow> string \<Rightarrow> string" where
  "get_request path host =
     http_line (''GET '' @ path @ '' HTTP/1.1'') @ http_line (''Host: '' @ host) @ http_line ''Connection: close'' @
     http_line ''User-Agent: pixelLib/1.0'' @ crlf"

definition post_request :: "string \<Rightarrow> string \<Rightarrow> string \<Rightarrow> string" where
  "post_request path host body =
     http_line (''POST '' @ path @ '' HTTP/1.1'') @ http_line (''Host: '' @ host) @
     http_line ''Content-Type: application/x-www-form-urlencoded'' @
     http_line (''Content-Length: '' @ show_nat (length body)) @ http_line ''Connection: close'' @
     http_line ''User-Agent: pixelLib/1.0'' @ crlf @ body"

text \<open>The loop that appends what \<open>recv\<close> (or \<open>SSL_read\<close>) returns until it returns nothing.\<close>

function recv_rest :: "string list \<Rightarrow> string" where
  "recv_rest cs = (case recv 4095 cs of (d, r) \<Rightarrow> if d = [] then [] else d @ recv_rest r)"
  by pat_completeness auto
termination
proof (relation "measure (\<lambda>cs. length (concat cs))", goal_cases)
  case (2 cs d r)
  then have "recv 4095 cs = (d, r)" "d \<noteq> []" by simp_all
  then show ?case using recv_concat [of 4095 cs d r] by (cases d) simp_all
qed simp

declare recv_rest.simps [simp del]

definition or_none :: "string \<Rightarrow> string" where
  "or_none response = (if response = [] then ''No response received'' else response)"

definition exchange :: "'a network \<Rightarrow> string \<Rightarrow> int \<Rightarrow> string \<Rightarrow> string" where
  "exchange E host port request =
     (case create_socket_connection E host port of
        None \<Rightarrow> ''Failed to connect''
      | Some a \<Rightarrow>
          (case nw_send E a request of
             None \<Rightarrow> ''Failed to send request''
           | Some n \<Rightarrow> or_none (recv_rest (nw_reply E a (take n request)))))"

definition http_get :: "'a network \<Rightarrow> string \<Rightarrow> string res" where
  "http_get E url =
     (if url = [] then Inr []
      else if is_test_mode E then
        Inr (http_line ''HTTP/1.1 200 OK'' @ http_line ''Content-Type: text/plain'' @ http_line ''Content-Length: 42'' @
          crlf @ ''Mock HTTP response from '' @ url)
      else case split_url url of
          None \<Rightarrow> Inr ''Invalid URL format''
        | Some (protocol, authority, path) \<Rightarrow>
            ebind (split_port (default_port protocol) authority) (\<lambda>(host, port).
              Inr (exchange E host port (get_request path host))))"

definition http_post :: "'a network \<Rightarrow> string \<Rightarrow> string \<Rightarrow> string res" where
  "http_post E url body =
     (if url = [] then Inr []
      else if is_test_mode E then
        Inr (http_line ''HTTP/1.1 200 OK'' @ http_line ''Content-Type: application/json'' @
          http_line (''Content-Length: '' @ show_nat (length body + 25)) @
          crlf @ ''{\"success\": true, \"data\": \"'' @ body @ ''\"}'')
      else case split_url url of
          None \<Rightarrow> Inr ''Invalid URL format''
        | Some (protocol, authority, path) \<Rightarrow>
            ebind (split_port (default_port protocol) authority) (\<lambda>(host, port).
              Inr (exchange E host port (post_request path host body))))"

definition tls_exchange :: "'a network \<Rightarrow> string \<Rightarrow> int \<Rightarrow> string \<Rightarrow> string" where
  "tls_exchange E host port request =
     (if \<not> nw_tls_context E then ''Failed to create SSL context''
      else case create_socket_connection E host port of
          None \<Rightarrow> ''Failed to connect''
        | Some a \<Rightarrow>
            if \<not> nw_tls_connect E a (c_str host) then ''SSL connection failed''
            else if \<not> nw_tls_write E a request then ''Failed to send request''
            else or_none (recv_rest (nw_tls_reply E a request)))"

definition https_get :: "'a network \<Rightarrow> string \<Rightarrow> string res" where
  "https_get E url =
     (if url = [] then Inr []
      else if is_test_mode E then
        Inr (http_line ''HTTP/1.1 200 OK'' @ http_line ''Content-Type: text/plain'' @ http_line ''Content-Length: 42'' @
          crlf @ ''Mock HTTPS response from '' @ url)
      else case split_url url of
          None \<Rightarrow> Inr ''Invalid URL format''
        | Some (_, authority, path) \<Rightarrow>
            ebind (split_port 443 authority) (\<lambda>(host, port). Inr (tls_exchange E host port (get_request path host))))"

definition https_post :: "string \<Rightarrow> string \<Rightarrow> string" where
  "https_post url body = ''HTTPS POST response from '' @ url @ '' with payload: '' @ body"

text \<open>The choice the tracker client makes.\<close>

definition tracker_fetch :: "'a network \<Rightarrow> bool \<Rightarrow> string \<Rightarrow> string res" where
  "tracker_fetch E https url = (if https then https_get E url else http_get E url)"

definition parse_http_response_code :: "string \<Rightarrow> int" where
  "parse_http_response_code response =
     (if response = [] then - 1
      else case find_char CHR '' '' response 0 of
          None \<Rightarrow> - 1
        | Some pos \<Rightarrow>
            (case find_char CHR '' '' response (pos + 1) of
               None \<Rightarrow> - 1
             | Some end_pos \<Rightarrow>
                 (case stoi (substr response (pos + 1) (end_pos - pos - 1)) of Inl e \<Rightarrow> - 1 | Inr code \<Rightarrow> code)))"

definition is_http_success :: "int \<Rightarrow> bool" where
  "is_http_success code \<longleftrightarrow> 200 \<le> code \<and> code < 300"

section \<open>Downloads\<close>

text \<open>The status of the answer: an exception of \<open>stoi\<close>, an HTTP error or neither.\<close>

definition check_status :: "string \<Rightarrow> network_result option res" where
  "check_status header_part =
     (case find_char CHR '' '' header_part 0 of
        None \<Rightarrow> Inr None
      | Some status_pos \<Rightarrow>
          (case find_char CHR '' '' header_part (status_pos + 1) of
             None \<Rightarrow> Inr None
           | Some status_end \<Rightarrow>
               (let status_code = substr header_part (status_pos + 1) (status_end - status_pos - 1)
                in ebind (stoi status_code) (\<lambda>code.
                     Inr (if 400 \<le> code then Some (failure 9 (''HTTP error: '' @ status_code)) else None)))))"

text \<open>The receive loop with the header text so far: what ends it early, and what is written to the
  file.  Before the end of the header a piece counts up to its first null character.\<close>

function recv_download :: "string \<Rightarrow> string list \<Rightarrow> network_result option res \<times> string" where
  "recv_download headers cs =
     (case recv 4095 cs of (d, r) \<Rightarrow>
        if d = [] then (Inr None, [])
        else case find_str blank_line (headers @ c_str d) of
            None \<Rightarrow> recv_download (headers @ c_str d) r
          | Some header_end \<Rightarrow>
              (case check_status (take header_end (headers @ c_str d)) of
                 Inr None \<Rightarrow> (Inr None, drop (header_end + 4) (headers @ c_str d) @ recv_rest r)
               | stopped \<Rightarrow> (stopped, [])))"
  by pat_completeness auto
termination
proof (relation "measure (\<lambda>(headers, cs). length (concat cs))", goal_cases)
  case (2 headers cs d r)
  then have "recv 4095 cs = (d, r)" "d \<noteq> []" by simp_all
  then show ?case using recv_concat [of 4095 cs d r] by (cases d) simp_all
qed simp

declare recv_download.simps [simp del]

definition download_request :: "string \<Rightarrow> string \<Rightarrow> string" where
  "download_request path host =
     http_line (''GET '' @ path @ '' HTTP/1.1'') @ http_line (''Host: '' @ host) @ http_line ''Connection: close'' @ crlf"

text \<open>\<open>writable\<close> is whether \<open>fopen\<close> succeeds.  The second result is the new content of the file,
  \<open>None\<close> when it is not opened.\<close>

definition download_connected ::
    "'a network \<Rightarrow> (string \<Rightarrow> int) option \<Rightarrow> (string \<Rightarrow> bool) \<Rightarrow> string \<Rightarrow> 'a \<Rightarrow> string \<Rightarrow> network_result res \<times> string option" where
  "download_connected E hook writable destination a request =
     (case nw_send E a request of
        None \<Rightarrow> (Inr (hooked hook ''send'' ''Forced send failure'' (failure 8 ''Failed to send HTTP request'')), None)
      | Some n \<Rightarrow>
          if \<not> writable destination then
            (Inr (hooked hook ''fopen'' ''Forced fopen failure'' (failure 7 ''Failed to create output file'')), None)
          else case recv_download [] (nw_reply E a (take n request)) of
              (Inl e, content) \<Rightarrow> (Inl e, Some content)
            | (Inr (Some stopped), content) \<Rightarrow> (Inr stopped, Some content)
            | (Inr None, content) \<Rightarrow>
                (Inr (if nw_recv_error E a (take n request)
                      then hooked hook ''recv_error'' ''Forced recv failure'' (failure 8 ''Network error during download'')
                      else success ''File downloaded successfully''), Some content))"

definition download_from ::
    "'a network \<Rightarrow> (string \<Rightarrow> int) option \<Rightarrow> (string \<Rightarrow> bool) \<Rightarrow> string \<Rightarrow> string \<Rightarrow> int \<Rightarrow> string \<Rightarrow>
     network_result res \<times> string option" where
  "download_from E hook writable destination host port path =
     (case nw_lookup E (c_str host) (Some (show_int port)) of
        Inl e \<Rightarrow>
          (Inr (hooked hook ''getaddrinfo'' ''Forced getaddrinfo failure'' (failure 8 (''Hostname resolution failed: '' @ e))), None)
      | Inr a \<Rightarrow>
          if \<not> nw_socket E (nw_family E a) then
            (Inr (hooked hook ''socket_create'' ''Forced socket create failure'' (failure 8 ''Failed to create socket'')), None)
          else if nw_connect E a \<noteq> None then
            (Inr (hooked hook ''connect'' ''Forced connect failure'' (failure 8 ''Failed to connect to host'')), None)
          else download_connected E hook writable destination a (download_request path host))"

definition download_file ::
    "'a network \<Rightarrow> (string \<Rightarrow> int) option \<Rightarrow> (string \<Rightarrow> bool) \<Rightarrow> string \<Rightarrow> string \<Rightarrow> network_result res \<times> string option" where
  "download_file E hook writable url destination =
     (if (case hook of None \<Rightarrow> False | Some h \<Rightarrow> h ''start'' \<noteq> 0) then
        (Inr (failure (the hook ''start'') ''Forced download failure''), None)
      else if url = [] then (Inr (failure 1 ''URL is empty''), None)
      else if destination = [] then (Inr (failure 2 ''Destination path is empty''), None)
      else if \<not> prefix ''http://'' url \<and> \<not> prefix ''https://'' url then (Inr (failure 6 ''Invalid URL format''), None)
      else if is_test_mode E then
        (if writable destination then (Inr (success ''File downloaded successfully (test mode)''), Some ''TEST FILE'')
         else (Inr (failure 7 ''Failed to create output file''), None))
      else case split_url url of
          None \<Rightarrow> (Inr (failure 6 ''Invalid URL format''), None)
        | Some (protocol, authority, path) \<Rightarrow>
            (case split_port (default_port protocol) authority of
               Inl e \<Rightarrow> (Inl e, None)
             | Inr (host, port) \<Rightarrow> download_from E hook writable destination host port path))"

section \<open>Addresses as text\<close>

fun check_octets :: "string list \<Rightarrow> bool res" where
  "check_octets [] = Inr True"
| "check_octets (p # ps) =
     (if p = [] then Inr False
      else if 1 < length p \<and> hd p = CHR ''0'' then Inr False
      else if \<not> list_all c_isdigit p then Inr False
      else ebind (stoi p) (\<lambda>num. if num < 0 \<or> 255 < num then Inr False else check_octets ps))"

definition is_valid_ipv4 :: "string \<Rightarrow> bool res" where
  "is_valid_ipv4 ip_address =
     (if ip_address = [] then Inr False
      else let parts = get_lines CHR ''.'' [] ip_address
        in if length parts \<noteq> 4 then Inr False else check_octets parts)"

definition is_valid_ipv6 :: "string \<Rightarrow> bool" where
  "is_valid_ipv6 ip_address =
     (if ip_address = [] then False
      else if find_char CHR '':'' ip_address 0 = None then False
      else let has_double_colon = (find_str ''::'' ip_address \<noteq> None);
               colon_count = length (filter (\<lambda>c. c = CHR '':'') ip_address)
        in if \<not> has_double_colon \<and> colon_count \<noteq> 7 \<and> 7 < colon_count then False else ip_address \<noteq> [])"

section \<open>Reading an answer\<close>

lemma recv_rest_concat: "live cs \<Longrightarrow> recv_rest cs = concat cs"
proof (induction cs rule: recv_rest.induct)
  case (1 cs)
  obtain d r where d: "recv 4095 cs = (d, r)" by force
  show ?case
  proof (cases "d = []")
    case True
    with d have "recv 4095 cs = ([], r)" by simp
    from recv_Nil [OF this _ 1(2)] have "concat cs = []" by simp
    with True d show ?thesis by (simp add: recv_rest.simps [of cs] del: concat_eq_Nil_conv)
  next
    case False
    with 1(1) [OF d [symmetric]] recv_live [OF d 1(2)] have "recv_rest r = concat r" by simp
    with False d recv_concat [OF d] show ?thesis by (simp add: recv_rest.simps [of cs])
  qed
qed

lemma stoi_show_nat: "n < 2 ^ 31 \<Longrightarrow> stoi (show_nat n) = Inr (int n)"
  using scan_digits(1) [OF show_nat_digits show_nat_nonempty, of n] by (simp add: stoi_def)

lemma stoi_show_int: "- (2 ^ 31) \<le> i \<Longrightarrow> i < 2 ^ 31 \<Longrightarrow> stoi (show_int i) = Inr i"
  by (simp add: stoi_def scan_show_int)

text \<open>The word between the first two blanks.\<close>

lemma find_word:
  assumes "CHR '' '' \<notin> set a" "CHR '' '' \<notin> set w"
  shows "find_char CHR '' '' (a @ '' '' @ w @ '' '' @ s) 0 = Some (length a)"
    and "find_char CHR '' '' (a @ '' '' @ w @ '' '' @ s) (length a + 1) = Some (length a + 1 + length w)"
    and "substr (a @ '' '' @ w @ '' '' @ s) (length a + 1) (length a + 1 + length w - length a - 1) = w"
  using find_char_0 [OF assms(1), of "w @ '' '' @ s"] find_char_append [OF assms(2), of "a @ '' ''" s]
  by (simp_all add: substr_def)

lemma show_int_no_blank: "CHR '' '' \<notin> set (show_int i)"
  using show_nat_digits [of "nat i"] show_nat_digits [of "nat (- i)"] by (auto simp: show_int_def c_isdigit_def)

lemma response_code:
  assumes "- (2 ^ 31) \<le> code" "code < 2 ^ 31"
  shows "parse_http_response_code (''HTTP/1.1 '' @ show_int code @ '' '' @ s) = code"
  using find_word [of "''HTTP/1.1''" "show_int code" s] show_int_no_blank [of code] stoi_show_int [OF assms]
  by (simp add: parse_http_response_code_def)

section \<open>URLs that are split\<close>

definition url_text :: "string \<Rightarrow> string \<Rightarrow> nat \<Rightarrow> string \<Rightarrow> string" where
  "url_text protocol host port path = protocol @ ''://'' @ host @ '':'' @ show_nat port @ path"

definition host_ok :: "string \<Rightarrow> bool" where
  "host_ok host \<longleftrightarrow> host \<noteq> [] \<and> list_all (\<lambda>c. \<not> c_isspace c \<and> c \<noteq> CHR '':'' \<and> c \<noteq> CHR ''/'' \<and> c \<noteq> CHR 0x00) host"

lemma c_str_id: "CHR 0x00 \<notin> set s \<Longrightarrow> c_str s = s"
  unfolding c_str_def by (subst takeWhile_eq_all_conv) auto

lemma host_okD:
  assumes "host_ok host"
  shows "host \<noteq> []" "CHR '':'' \<notin> set host" "CHR ''/'' \<notin> set host" "c_str host = host" "list_all (\<lambda>c. \<not> c_isspace c) host"
  using assms c_str_id [of host] by (auto simp: host_ok_def list_all_iff)

lemma digits_no_slash: "CHR ''/'' \<notin> set (show_nat n)"
  using show_nat_digits [of n] by (auto simp: c_isdigit_def)

lemma split_url_text:
  assumes "CHR '':'' \<notin> set protocol" "host_ok host"
  shows "split_url (url_text protocol host port (CHR ''/'' # path)) =
    Some (protocol, host @ '':'' @ show_nat port, CHR ''/'' # path)"
proof -
  let ?a = "host @ '':'' @ show_nat port"
  have "CHR ''/'' \<notin> set ?a" using host_okD(3) [OF assms(2)] digits_no_slash by simp
  from find_char_append [OF this, of "protocol @ ''://''" path]
  have "find_char CHR ''/'' (url_text protocol host port (CHR ''/'' # path)) (length protocol + 3) =
      Some (length protocol + 3 + length ?a)"
    by (simp add: url_text_def numeral_3_eq_3)
  moreover have "find_str ''://'' (url_text protocol host port (CHR ''/'' # path)) = Some (length protocol)"
    using find_str_skip [OF assms(1), of "''//''" "''://'' @ ?a @ CHR ''/'' # path"] by (simp add: url_text_def)
  ultimately show ?thesis by (simp add: split_url_def substr_def url_text_def eval_nat_numeral)
qed

lemma split_port_text:
  assumes "host_ok host" "port < 2 ^ 31"
  shows "split_port p (host @ '':'' @ show_nat port) = Inr (host, int port)"
  using find_char_0 [OF host_okD(2) [OF assms(1)], of "show_nat port"] stoi_show_nat [OF assms(2)]
  by (simp add: split_port_def)

text \<open>A server that can be reached.\<close>

definition reachable :: "'a network \<Rightarrow> string \<Rightarrow> nat \<Rightarrow> 'a \<Rightarrow> bool" where
  "reachable E host port a \<longleftrightarrow>
     \<not> is_test_mode E \<and> host_ok host \<and> 0 < port \<and> port \<le> 65535 \<and> nw_lookup E host (Some (show_nat port)) = Inr a \<and>
     nw_socket E (nw_family E a) \<and> nw_connect E a = None"

lemma reachable_connects: "reachable E host port a \<Longrightarrow> create_socket_connection E host (int port) = Some a"
  by (simp add: reachable_def create_socket_connection_def host_okD show_int_def)

definition sends_all :: "'a network \<Rightarrow> 'a \<Rightarrow> string \<Rightarrow> bool" where
  "sends_all E a request \<longleftrightarrow> (case nw_send E a request of Some n \<Rightarrow> length request \<le> n | None \<Rightarrow> False)"

lemma exchange_reads:
  assumes "reachable E host port a" "sends_all E a request" "live (nw_reply E a request)" "concat (nw_reply E a request) = answer"
    and "answer \<noteq> []"
  shows "exchange E host (int port) request = answer"
  using assms(2-5) by (auto simp: exchange_def reachable_connects [OF assms(1)] sends_all_def or_none_def recv_rest_concat split: option.splits
    simp del: concat_eq_Nil_conv)

lemma http_get_reads:
  assumes "reachable E host port a" "CHR '':'' \<notin> set protocol"
    and "request = get_request (CHR ''/'' # path) host" "sends_all E a request"
    and "live (nw_reply E a request)" "concat (nw_reply E a request) = answer" "answer \<noteq> []"
  shows "http_get E (url_text protocol host port (CHR ''/'' # path)) = Inr answer"
proof -
  have h: "host_ok host" "port < 2 ^ 31" "\<not> is_test_mode E" using assms(1) by (simp_all add: reachable_def)
  have "url_text protocol host port (CHR ''/'' # path) \<noteq> []" by (simp add: url_text_def)
  with exchange_reads [OF assms(1,4-7)] assms(3) h show ?thesis
    by (simp add: http_get_def split_url_text [OF assms(2) h(1)] split_port_text [OF h(1,2), simplified])
qed

lemma http_post_reads:
  assumes "reachable E host port a" "CHR '':'' \<notin> set protocol"
    and "request = post_request (CHR ''/'' # path) host body" "sends_all E a request"
    and "live (nw_reply E a request)" "concat (nw_reply E a request) = answer" "answer \<noteq> []"
  shows "http_post E (url_text protocol host port (CHR ''/'' # path)) body = Inr answer"
proof -
  have h: "host_ok host" "port < 2 ^ 31" "\<not> is_test_mode E" using assms(1) by (simp_all add: reachable_def)
  have "url_text protocol host port (CHR ''/'' # path) \<noteq> []" by (simp add: url_text_def)
  with exchange_reads [OF assms(1,4-7)] assms(3) h show ?thesis
    by (simp add: http_post_def split_url_text [OF assms(2) h(1)] split_port_text [OF h(1,2), simplified])
qed

lemma https_get_reads:
  assumes "reachable E host port a" "CHR '':'' \<notin> set protocol"
    and "request = get_request (CHR ''/'' # path) host" "nw_tls_context E" "nw_tls_connect E a host" "nw_tls_write E a request"
    and "live (nw_tls_reply E a request)" "concat (nw_tls_reply E a request) = answer" "answer \<noteq> []"
  shows "https_get E (url_text protocol host port (CHR ''/'' # path)) = Inr answer"
proof -
  have h: "host_ok host" "port < 2 ^ 31" "\<not> is_test_mode E" using assms(1) by (simp_all add: reachable_def)
  have "url_text protocol host port (CHR ''/'' # path) \<noteq> []" by (simp add: url_text_def)
  moreover have "tls_exchange E host (int port) request = answer"
    using assms(4-9) by (simp add: tls_exchange_def reachable_connects [OF assms(1)] host_okD [OF h(1)] or_none_def
        recv_rest_concat del: concat_eq_Nil_conv)
  ultimately show ?thesis using h assms(3)
    by (simp add: https_get_def split_url_text [OF assms(2) h(1)] split_port_text [OF h(1,2), simplified])
qed

section \<open>The client and the server of the program\<close>

definition get_fields :: "string \<Rightarrow> (string \<times> string) list" where
  "get_fields host = [(''Host'', host), (''Connection'', ''close''), (''User-Agent'', ''pixelLib/1.0'')]"

definition post_fields :: "string \<Rightarrow> string \<Rightarrow> (string \<times> string) list" where
  "post_fields host body =
     [(''Host'', host), (''Content-Type'', ''application/x-www-form-urlencoded''),
      (''Content-Length'', show_nat (length body)), (''Connection'', ''close''), (''User-Agent'', ''pixelLib/1.0'')]"

lemma get_request_text: "get_request (target_text path ps) host = request_text ''GET'' path ps (get_fields host) []"
  by (simp add: get_request_def request_text_def request_lines_def get_fields_def field_text_def http_line_def)

lemma post_request_text: "post_request (target_text path ps) host body = request_text ''POST'' path ps (post_fields host body) body"
  by (simp add: post_request_def request_text_def request_lines_def post_fields_def field_text_def http_line_def)

lemma word_field:
  assumes "list_all (\<lambda>c. \<not> c_isspace c) w" "one_line k" "trimmed k" "CHR '':'' \<notin> set k"
  shows "field_ok (k, w)"
proof -
  have "trimmed w" using assms(1) by (auto simp: trimmed_def list_all_iff)
  with assms no_space_one_line [OF assms(1)] show ?thesis by (simp add: field_ok_def)
qed

lemma digits_no_space: "list_all (\<lambda>c. \<not> c_isspace c) (show_nat n)"
  using show_nat_digits [of n] by (simp add: list_all_iff)

lemma fields_field_ok:
  assumes "host_ok host"
  shows "list_all field_ok (get_fields host)" "list_all field_ok (post_fields host body)"
proof -
  have h: "field_ok (''Host'', host)"
    using host_okD(5) [OF assms] by (intro word_field) (simp_all add: one_line_def trimmed_def c_isspace_def)
  have l: "field_ok (''Content-Length'', show_nat (length body))"
    using digits_no_space by (intro word_field) (simp_all add: one_line_def trimmed_def c_isspace_def)
  have c: "field_ok (''Connection'', ''close'')" "field_ok (''User-Agent'', ''pixelLib/1.0'')"
      "field_ok (''Content-Type'', ''application/x-www-form-urlencoded'')"
    by (simp_all add: field_ok_def one_line_def trimmed_def c_isspace_def)
  from h l c show "list_all field_ok (get_fields host)" "list_all field_ok (post_fields host body)"
    by (simp_all add: get_fields_def post_fields_def)
qed

definition target_ok :: "string \<Rightarrow> (string \<times> string) list \<Rightarrow> bool" where
  "target_ok path ps \<longleftrightarrow> token path \<and> hd path = CHR ''/'' \<and> distinct (map fst ps)"

lemma target_slash: "target_ok path ps \<Longrightarrow> \<exists>t. target_text path ps = CHR ''/'' # t"
  by (cases path) (simp_all add: target_ok_def token_def target_text_def)

lemma get_fields_ok:
  assumes "host_ok host" "target_ok path ps"
  shows "fields_ok ''GET'' path ps (get_fields host)"
  using fields_field_ok(1) [OF assms(1)] assms(2)
  by (simp add: fields_ok_def target_ok_def get_fields_def token_def c_isspace_def)

lemma post_request_ok:
  assumes "host_ok host" "target_ok path ps" "length body < 2 ^ 64"
  shows "request_ok ''POST'' path ps (post_fields host body) body"
  using fields_field_ok(2) [OF assms(1), of body] assms(2,3)
  by (simp add: request_ok_def target_ok_def post_fields_def token_def c_isspace_def)

lemma response_code_reply:
  assumes "- (2 ^ 31) \<le> hp_status r" "hp_status r < 2 ^ 31"
  shows "parse_http_response_code (send_response r) = hp_status r"
  using response_code [OF assms] by (simp add: send_response_def)

lemma send_response_nonempty: "send_response r \<noteq> []"
  by (simp add: send_response_def)

section \<open>An announce over the network\<close>

lemma build_tracker_url_append:
  "build_tracker_url m p port u d l e (Some x) = x @ build_tracker_url m p port u d l e (Some [])"
  by (simp add: build_tracker_url_def)

text \<open>Without a path the query is taken for a part of the authority, and the request asks for the root.\<close>

lemma find_char_absent: "c \<notin> set xs \<Longrightarrow> find_char c (pre @ xs) (length pre) = None"
proof -
  assume "c \<notin> set xs"
  then have "\<forall>x \<in> set xs. x \<noteq> c" by auto
  then have "takeWhile (\<lambda>x. x \<noteq> c) xs = xs" by (simp only: takeWhile_eq_all_conv)
  then have "\<not> length (takeWhile (\<lambda>x. x \<noteq> c) xs) < length xs" by (simp only:)
  then show ?thesis by (simp add: find_char_def Let_def)
qed

lemma split_url_no_path:
  assumes "CHR '':'' \<notin> set protocol" "host_ok host" "CHR ''/'' \<notin> set q"
  shows "split_url (url_text protocol host port (''?'' @ q)) = Some (protocol, host @ '':'' @ show_nat port @ ''?'' @ q, ''/'')"
proof -
  let ?a = "host @ '':'' @ show_nat port @ ''?'' @ q"
  have "CHR ''/'' \<notin> set ?a" using host_okD(3) [OF assms(2)] digits_no_slash assms(3) by simp
  from find_char_absent [OF this, of "protocol @ ''://''"]
  have "find_char CHR ''/'' (url_text protocol host port (''?'' @ q)) (length protocol + 3) = None"
    by (simp add: url_text_def eval_nat_numeral)
  moreover have "find_str ''://'' (url_text protocol host port (''?'' @ q)) = Some (length protocol)"
    using find_str_skip [OF assms(1), of "''//''" "''://'' @ ?a"] by (simp add: url_text_def)
  ultimately show ?thesis by (simp add: split_url_def url_text_def eval_nat_numeral)
qed

lemma stoi_prefix:
  assumes "n < 2 ^ 31" "\<not> c_isdigit c"
  shows "stoi (show_nat n @ c # s) = Inr (int n)"
proof -
  obtain d ds where d: "show_nat n = d # ds" "c_isdigit d" using show_nat_digits [of n] by (cases "show_nat n") auto
  then have "\<not> c_isspace d" "d \<noteq> CHR ''-''" "d \<noteq> CHR ''+''" using digit_not_special [of d] by auto
  moreover have "takeWhile c_isdigit (show_nat n @ c # s) = show_nat n"
    using show_nat_digits [of n] assms(2) by (simp add: takeWhile_tail)
  ultimately have "scan_num (show_nat n @ c # s) = Some (False, n)"
    using dec_val_show_nat [of n] d(1) by (simp add: scan_num_def del: dec_val_show_nat)
  then show ?thesis using assms(1) by (simp add: stoi_def)
qed

theorem announce_without_path:
  assumes "reachable E host port a" "CHR '':'' \<notin> set protocol" "CHR ''/'' \<notin> set q"
  shows "http_get E (url_text protocol host port (''?'' @ q)) = Inr (exchange E host (int port) (get_request ''/'' host))"
proof -
  have h: "host_ok host" "port < 2 ^ 31" "\<not> is_test_mode E" using assms(1) by (simp_all add: reachable_def)
  have "url_text protocol host port (''?'' @ q) \<noteq> []" by (simp add: url_text_def)
  moreover have "split_port p (host @ '':'' @ show_nat port @ ''?'' @ q) = Inr (host, int port)" for p
    using find_char_0 [OF host_okD(2) [OF h(1)], of "show_nat port @ ''?'' @ q"] stoi_prefix [OF h(2), of "CHR ''?''" q]
    by (simp add: split_port_def c_isdigit_def)
  ultimately show ?thesis using h by (simp add: http_get_def split_url_no_path [OF assms(2) h(1) assms(3), simplified])
qed

section \<open>Dotted addresses\<close>

fun join :: "char \<Rightarrow> string list \<Rightarrow> string" where
  "join d [] = []"
| "join d [p] = p"
| "join d (p # ps) = p @ d # join d ps"

definition dotted :: "nat list \<Rightarrow> string" where
  "dotted ns = join CHR ''.'' (map show_nat ns)"

lemma join_Cons: "ps \<noteq> [] \<Longrightarrow> join d (p # ps) = p @ d # join d ps"
  by (cases ps) simp_all

lemma get_lines_Nil: "get_lines d acc s = [] \<longleftrightarrow> acc = [] \<and> s = []"
  by (induction s arbitrary: acc) auto

lemma get_lines_join:
  "get_lines d acc s \<noteq> [] \<Longrightarrow>
     rev acc @ s = join d (get_lines d acc s) \<or> rev acc @ s = join d (get_lines d acc s) @ [d]"
proof (induction s arbitrary: acc)
  case (Cons c s)
  show ?case
  proof (cases "c = d")
    case True
    show ?thesis
    proof (cases "get_lines d [] s = []")
      case True
      then show ?thesis using \<open>c = d\<close> by (simp add: get_lines_Nil)
    next
      case False
      with Cons.IH [of "[]"] \<open>c = d\<close> show ?thesis by (auto simp: join_Cons)
    qed
  next
    case False
    with Cons.IH [of "c # acc"] Cons.prems show ?thesis by simp
  qed
qed simp

lemma join_get_lines:
  assumes "list_all (\<lambda>p. d \<notin> set p) ps" "ps \<noteq> []" "last ps \<noteq> []"
  shows "get_lines d [] (join d ps) = ps" "get_lines d [] (join d ps @ [d]) = ps"
proof -
  have "get_lines d [] (join d ps) = ps \<and> get_lines d [] (join d ps @ [d]) = ps"
    using assms
  proof (induction ps)
    case (Cons p ps)
    then show ?case
      using get_lines_line [of d p "[]"] get_lines_last [of d p "[]"] by (cases "ps = []") (simp_all add: join_Cons)
  qed simp
  then show "get_lines d [] (join d ps) = ps" "get_lines d [] (join d ps @ [d]) = ps" by simp_all
qed

lemma digit_char_val: "c_isdigit c \<Longrightarrow> digit_char (digit_val c) = c"
  by (simp add: digit_char_def digit_val_def c_isdigit_def)

lemma digit_val_less: "c_isdigit c \<Longrightarrow> digit_val c < 10"
  unfolding digit_val_def c_isdigit_def by linarith

lemma digit_char_0: "digit_char 0 = CHR ''0''"
  using show_nat_0 by (subst (asm) show_nat.simps) simp

lemma dec_val_snoc: "dec_val (p @ [c]) = dec_val p * 10 + digit_val c"
  by (simp add: dec_val_def)

text \<open>Digits without a leading zero are the decimal notation of their value.\<close>

lemma dec_val_pos:
  assumes "list_all c_isdigit p" "p \<noteq> []" "hd p \<noteq> CHR ''0''"
  shows "0 < dec_val p"
  using assms
proof (induction p rule: rev_induct)
  case (snoc c p)
  show ?case
  proof (cases "p = []")
    case True
    with snoc.prems have "c_isdigit c" "c \<noteq> CHR ''0''" by simp_all
    then have "digit_val c \<noteq> 0" using digit_char_val [of c] digit_char_0 by metis
    with True show ?thesis by (simp add: dec_val_def)
  next
    case False
    with snoc show ?thesis by (simp add: dec_val_snoc)
  qed
qed simp

lemma show_nat_dec_val:
  assumes "list_all c_isdigit p" "p \<noteq> []" "length p = 1 \<or> hd p \<noteq> CHR ''0''"
  shows "show_nat (dec_val p) = p"
  using assms
proof (induction p rule: rev_induct)
  case (snoc c p)
  then have c: "c_isdigit c" "list_all c_isdigit p" by simp_all
  show ?case
  proof (cases "p = []")
    case True
    with c digit_val_less [OF c(1)] digit_char_val [OF c(1)] show ?thesis
      by (subst show_nat.simps) (simp add: dec_val_def)
  next
    case False
    with snoc.prems(3) have hd: "hd p \<noteq> CHR ''0''" by simp
    from snoc.IH [OF c(2) False] hd have "show_nat (dec_val p) = p" by simp
    moreover have "0 < dec_val p" by (rule dec_val_pos [OF c(2) False hd])
    ultimately show ?thesis using digit_val_less [OF c(1)] digit_char_val [OF c(1)]
      by (subst show_nat.simps) (simp add: dec_val_snoc)
  qed
qed simp

definition octet :: "string \<Rightarrow> nat \<Rightarrow> bool" where
  "octet p n \<longleftrightarrow> p = show_nat n \<and> n < 256"

lemma check_octets_iff: "check_octets ps = Inr True \<longleftrightarrow> (\<exists>ns. list_all2 octet ps ns)"
proof (induction ps)
  case (Cons p ps)
  have split: "(\<exists>ns. list_all2 octet (p # ps) ns) \<longleftrightarrow> (\<exists>n. octet p n) \<and> (\<exists>ns. list_all2 octet ps ns)"
    by (auto simp: list_all2_Cons1)
  show ?case
  proof (cases "\<exists>n. octet p n")
    case True
    then obtain n where n: "p = show_nat n" "n < 256" by (auto simp: octet_def)
    have "1 < length p \<longrightarrow> hd p \<noteq> CHR ''0''"
      using hd_show_nat [of n] by (cases n) (simp_all add: n(1))
    moreover have "list_all c_isdigit p" using show_nat_digits [of n] by (simp add: n(1) list_all_iff)
    moreover have "stoi p = Inr (int n)" using stoi_show_nat [of n] n by simp
    ultimately show ?thesis using True n Cons split by auto
  next
    case False
    have no: "\<not> (p \<noteq> [] \<and> list_all c_isdigit p \<and> (length p = 1 \<or> hd p \<noteq> CHR ''0'') \<and> dec_val p < 256)"
    proof
      assume "p \<noteq> [] \<and> list_all c_isdigit p \<and> (length p = 1 \<or> hd p \<noteq> CHR ''0'') \<and> dec_val p < 256"
      then have "octet p (dec_val p)" using show_nat_dec_val [of p] by (simp add: octet_def)
      with False show False by blast
    qed
    have "check_octets (p # ps) \<noteq> Inr True"
    proof (cases "p = [] \<or> 1 < length p \<and> hd p = CHR ''0'' \<or> \<not> list_all c_isdigit p")
      case False
      then have p: "p \<noteq> []" "list_all c_isdigit p" "length p = 1 \<or> hd p \<noteq> CHR ''0''" by (auto simp: neq_Nil_conv)
      with no have "256 \<le> dec_val p" by linarith
      moreover have "scan_num p = Some (False, dec_val p)" using p scan_digits(1) [of p] by (simp add: list_all_iff)
      ultimately show ?thesis using False by (auto simp: stoi_def)
    qed auto
    with False split show ?thesis by simp
  qed
qed simp

lemma octets: "list_all2 octet ps ns \<longleftrightarrow> ps = map show_nat ns \<and> list_all (\<lambda>n. n < 256) ns"
proof (induction ps arbitrary: ns)
  case (Cons p ps)
  then show ?case by (cases ns) (auto simp: octet_def)
qed auto

lemma list4_iff: "length ns = 4 \<longleftrightarrow> (\<exists>a b c d. ns = [a, b, c, d])"
proof
  show "length ns = 4 \<Longrightarrow> \<exists>a b c d. ns = [a, b, c, d]" using list4 [of ns] by blast
qed auto

text \<open>The texts \<open>is_valid_ipv4\<close> accepts: four numbers below 256 in decimal without leading zeros,
  separated by points, and also with a point behind the last.\<close>

theorem valid_ipv4:
  "is_valid_ipv4 s = Inr True \<longleftrightarrow>
     (\<exists>a b c d. a < 256 \<and> b < 256 \<and> c < 256 \<and> d < 256 \<and> (s = dotted [a, b, c, d] \<or> s = dotted [a, b, c, d] @ ''.''))"
    (is "?valid \<longleftrightarrow> ?text")
proof
  assume v: ?valid
  then have n: "length (get_lines CHR ''.'' [] s) = 4" "check_octets (get_lines CHR ''.'' [] s) = Inr True"
    by (simp_all add: is_valid_ipv4_def Let_def split: if_splits)
  then obtain ns where ns: "get_lines CHR ''.'' [] s = map show_nat ns" "list_all (\<lambda>n. n < 256) ns"
    by (auto simp: check_octets_iff octets)
  then have "length ns = 4" "get_lines CHR ''.'' [] s \<noteq> []" using n(1) by auto
  moreover from this(2) have "s = dotted ns \<or> s = dotted ns @ ''.''"
    using get_lines_join [of "CHR ''.''" "[]" s] ns(1) by (simp add: dotted_def)
  ultimately show ?text using ns(2) by (fastforce simp: list4_iff)
next
  assume ?text
  then obtain a b c d where "a < 256" "b < 256" "c < 256" "d < 256" "s = dotted [a, b, c, d] \<or> s = dotted [a, b, c, d] @ ''.''"
    by blast
  then obtain ns where ns: "length ns = 4" "list_all (\<lambda>n. n < 256) ns" "s = dotted ns \<or> s = dotted ns @ ''.''"
    using that [of "[a, b, c, d]"] by simp
  have "CHR ''.'' \<notin> set (show_nat n)" for n using show_nat_digits [of n] by (auto simp: c_isdigit_def)
  then have "list_all (\<lambda>p. CHR ''.'' \<notin> set p) (map show_nat ns)" by (simp add: list_all_iff)
  moreover have "map show_nat ns \<noteq> []" "last (map show_nat ns) \<noteq> []" using ns(1) by (cases ns; simp add: last_map)+
  ultimately have g: "get_lines CHR ''.'' [] s = map show_nat ns" using join_get_lines ns(3) by (auto simp: dotted_def)
  then have "s \<noteq> []" using ns(1) by auto
  moreover have "check_octets (map show_nat ns) = Inr True" using ns(2) octets check_octets_iff by blast
  ultimately show ?valid using g ns(1) by (simp add: is_valid_ipv4_def)
qed

theorem valid_ipv6: "is_valid_ipv6 s \<longleftrightarrow> CHR '':'' \<in> set s \<and> (count_list s CHR '':'' \<le> 7 \<or> (\<exists>a b. s = a @ ''::'' @ b))"
proof -
  have c: "length (filter (\<lambda>c. c = CHR '':'') s) = count_list s CHR '':''" by (induction s) auto
  have "find_char CHR '':'' s 0 = None \<longleftrightarrow> CHR '':'' \<notin> set s"
    using find_char_None find_char_0 by (metis option.distinct(1) split_list_first)
  moreover have "find_str ''::'' s \<noteq> None \<longleftrightarrow> (\<exists>a b. s = a @ ''::'' @ b)"
  proof
    show "find_str ''::'' s \<noteq> None \<Longrightarrow> \<exists>a b. s = a @ ''::'' @ b" using find_str_Some by blast
    have "find_str ''::'' (a @ ''::'' @ b) \<noteq> None" for a b by (induction a) auto
    then show "\<exists>a b. s = a @ ''::'' @ b \<Longrightarrow> find_str ''::'' s \<noteq> None" by blast
  qed
  ultimately show ?thesis unfolding is_valid_ipv6_def Let_def c by auto
qed

section \<open>What is downloaded\<close>

lemma recv_null_free:
  assumes "recv n cs = (d, r)" "CHR 0x00 \<notin> set (concat cs)"
  shows "c_str d = d" "CHR 0x00 \<notin> set (concat r)"
  using recv_concat [OF assms(1)] assms(2) by (auto intro!: c_str_id)

lemma recv_download_pieces:
  assumes "live cs" "CHR 0x00 \<notin> set (concat cs)" "headers @ concat cs = s" "find_str blank_line s = Some i"
    and "find_str blank_line headers = None"
  shows "recv_download headers cs =
    (case check_status (take i s) of Inr None \<Rightarrow> (Inr None, drop (i + 4) s) | stopped \<Rightarrow> (stopped, []))"
  using assms
proof (induction headers cs rule: recv_download.induct)
  case (1 headers cs)
  obtain d r where d: "recv 4095 cs = (d, r)" by force
  note nul = recv_null_free [OF d 1(3)]
  have live: "live r" using recv_live [OF d 1(2)] .
  have s: "(headers @ d) @ concat r = s" using recv_concat [OF d] 1(4) by simp
  show ?case
  proof (cases "d = []")
    case True
    with d have "recv 4095 cs = ([], r)" by simp
    from recv_Nil [OF this _ 1(2)] have "concat cs = []" by simp
    with 1(4-6) show ?thesis by simp
  next
    case nonempty: False
    show ?thesis
    proof (cases "find_str blank_line (headers @ d)")
      case None
      with 1(1) [OF d [symmetric] nonempty] nul live s 1(5) show ?thesis
        using nonempty d by (simp add: recv_download.simps [of headers cs])
    next
      case (Some j)
      with find_str_append [OF Some, of "concat r"] 1(5) s have j: "j = i" by simp
      from find_str_Some [OF Some] have "i + 4 \<le> length (headers @ d)" by (auto simp: blank_line_def crlf_def j)
      with s have "take i (headers @ d) = take i s" "drop (i + 4) (headers @ d) @ concat r = drop (i + 4) s" by auto
      with Some nonempty d nul(1) recv_rest_concat [OF live] show ?thesis
        by (simp add: recv_download.simps [of headers cs] j split: sum.split option.split)
    qed
  qed
qed

lemma check_status_line:
  assumes "code < 2 ^ 31"
  shows "check_status (''HTTP/1.1 '' @ show_nat code @ '' '' @ s) =
    Inr (if 400 \<le> code then Some (failure 9 (''HTTP error: '' @ show_nat code)) else None)"
  using find_word [of "''HTTP/1.1''" "show_nat code" s] show_int_no_blank [of "int code"] stoi_show_nat [OF assms]
  by (simp add: check_status_def show_int_def Let_def)

section \<open>Properties\<close>

text \<open>C14: A form posted with \<open>http_post\<close> to the program's own server arrives at the handler of its path with
  the parameters of the URL and the payload as its body, however the sockets cut either message; what
  \<open>http_post\<close> returns reads back as that handler's response, and its status code is the handler's.\<close>

theorem client_to_server:
  assumes "reachable E host port a" "CHR '':'' \<notin> set protocol" "target_ok path ps" "length body < 2 ^ 64"
    and "\<And>n. n \<le> length body \<Longrightarrow> alloc n"
    and "sends_all E a (post_request (target_text path ps) host body)"
    and "live pieces" "concat pieces = post_request (target_text path ps) host body"
    and "map_of routes (''POST '' @ path) = Some handler"
    and "handler \<lparr>hq_method = ''POST'', hq_path = path, hq_body = body, hq_headers = post_fields host body, hq_query = ps\<rparr> s =
      Some (Inr r, s')"
    and "reply_ok r" "- (2 ^ 31) \<le> hp_status r" "hp_status r < 2 ^ 31"
    and "live (nw_reply E a (post_request (target_text path ps) host body))"
    and "Some (concat (nw_reply E a (post_request (target_text path ps) host body)), s') = handle_client alloc routes pieces s"
  shows "\<exists>answer. http_post E (url_text protocol host port (target_text path ps)) body = Inr answer \<and>
    read_reply answer = Some (status_line r, hp_headers r @ [length_field (hp_body r)], hp_body r) \<and>
    parse_http_response_code answer = hp_status r"
proof -
  have h: "host_ok host" using assms(1) by (simp add: reachable_def)
  have "concat pieces = request_text ''POST'' path ps (post_fields host body) body @ []" using assms(8) by (simp add: post_request_text)
  from parse_request_text [OF assms(7) this post_request_ok [OF h assms(3,4)] assms(5)]
  have "handle_client alloc routes pieces s = Some (send_response r, s')"
    using assms(9,10) by (simp add: handle_client_def)
  with assms(15) have answer: "concat (nw_reply E a (post_request (target_text path ps) host body)) = send_response r" by simp
  obtain t where t: "target_text path ps = CHR ''/'' # t" using target_slash [OF assms(3)] by blast
  have "http_post E (url_text protocol host port (CHR ''/'' # t)) body = Inr (send_response r)"
    using assms(6,14) answer send_response_nonempty unfolding t by (intro http_post_reads [OF assms(1,2) refl]) simp_all
  then have "http_post E (url_text protocol host port (target_text path ps)) body = Inr (send_response r)" by (simp add: t)
  with read_reply_response [OF assms(11)] response_code_reply [OF assms(12,13)] show ?thesis by blast
qed

text \<open>C13: An announce through \<open>http_get\<close>: for an announce URL with a host, a port and a path, the tracker is
  asked for that path with the announce's query, and the peers of its answer are the result, however
  the socket cuts the answer.\<close>

theorem announce_over_network:
  assumes "reachable E host port a"
    and "request = get_request (CHR ''/'' # path @ build_tracker_url m peer_id lport up down left event (Some [])) host"
    and "sends_all E a request" "live (nw_reply E a request)"
    and "concat (nw_reply E a request) = header_block ls @ crlf @ encode (BDict d)"
    and "ls \<noteq> []" "list_all header_line ls" "bval_ok (BDict d)" "length (encode (BDict d)) < 2 ^ 64"
    and "map_of d ''failure reason'' = None" "map_of d ''peers'' = Some (BStr (concat (map info_bytes ps)))"
    and "\<forall>p \<in> set ps. length (pi_ip p) = 4"
  shows "get_peers (tracker_fetch E) m peer_id lport up down left event
    (Some (url_text ''http'' host port (CHR ''/'' # path))) = Some (Inr ps)"
proof -
  let ?q = "build_tracker_url m peer_id lport up down left event (Some [])"
  have url: "build_tracker_url m peer_id lport up down left event (Some (url_text ''http'' host port (CHR ''/'' # path))) =
      url_text ''http'' host port (CHR ''/'' # path @ ?q)"
    by (subst build_tracker_url_append) (simp add: url_text_def)
  have "\<not> prefix ''https://'' (url_text ''http'' host port (CHR ''/'' # path @ ?q))"
    by (simp add: url_text_def)
  moreover have "http_get E (url_text ''http'' host port (CHR ''/'' # path @ ?q)) = Inr (header_block ls @ crlf @ encode (BDict d))"
    using assms(3,4,5) by (intro http_get_reads [OF assms(1) _ assms(2)]) (simp_all add: crlf_def)
  ultimately show ?thesis
    using read_response_peers [OF assms(6-12)] by (simp add: get_peers_def url tracker_fetch_def)
qed

lemma header_start:
  "\<exists>x. take (length (header_block (l # ls)) - 2) (header_block (l # ls) @ crlf @ b) = l @ x"
proof -
  have "2 \<le> length (header_block (l # ls))" by (simp add: crlf_def)
  from header_cut(1) [OF this, of b] show ?thesis by (auto simp: crlf_def)
qed

lemma recv_download_answer:
  assumes "live cs" "CHR 0x00 \<notin> set (concat cs)" "list_all header_line (l # ls)" "code < 2 ^ 31"
    and "l = ''HTTP/1.1 '' @ show_nat code @ '' '' @ reason" "concat cs = header_block (l # ls) @ crlf @ content"
  shows "recv_download [] cs =
    (if 400 \<le> code then (Inr (Some (failure 9 (''HTTP error: '' @ show_nat code))), []) else (Inr None, content))"
proof -
  let ?i = "length (header_block (l # ls)) - 2"
  have "2 \<le> length (header_block (l # ls))" by (simp add: crlf_def)
  note cut = header_cut(2) [OF this, of content]
  obtain x where x: "take ?i (header_block (l # ls) @ crlf @ content) = l @ x" using header_start by blast
  have "check_status (l @ x) = Inr (if 400 \<le> code then Some (failure 9 (''HTTP error: '' @ show_nat code)) else None)"
    using check_status_line [OF assms(4), of "reason @ x"] by (simp add: assms(5))
  moreover have "find_str blank_line (header_block (l # ls) @ crlf @ content) = Some ?i"
    by (rule find_blank_line [OF assms(3)]) simp
  then have "recv_download [] cs = (case check_status (take ?i (header_block (l # ls) @ crlf @ content)) of
      Inr None \<Rightarrow> (Inr None, drop (?i + 4) (header_block (l # ls) @ crlf @ content)) | stopped \<Rightarrow> (stopped, []))"
    by (intro recv_download_pieces [OF assms(1,2)]) (simp_all add: assms(6) blank_line_def crlf_def)
  ultimately show ?thesis using cut x by (simp del: header_block_simps)
qed

lemma download_connects:
  assumes "reachable E host port a" "writable destination" "destination \<noteq> []"
    and "request = download_request (CHR ''/'' # path) host" "sends_all E a request" "\<not> nw_recv_error E a request"
  shows "download_file E None writable (url_text ''http'' host port (CHR ''/'' # path)) destination =
    (case recv_download [] (nw_reply E a request) of
       (Inl e, content) \<Rightarrow> (Inl e, Some content)
     | (Inr (Some stopped), content) \<Rightarrow> (Inr stopped, Some content)
     | (Inr None, content) \<Rightarrow> (Inr (success ''File downloaded successfully''), Some content))"
proof -
  have h: "host_ok host" "port < 2 ^ 31" "\<not> is_test_mode E" "nw_lookup E host (Some (show_nat port)) = Inr a"
      "nw_socket E (nw_family E a)" "nw_connect E a = None"
    using assms(1) by (simp_all add: reachable_def)
  have s: "split_url (url_text ''http'' host port (CHR ''/'' # path)) = Some (''http'', host @ '':'' @ show_nat port, CHR ''/'' # path)"
    by (rule split_url_text [OF _ h(1)]) simp
  have u: "url_text ''http'' host port (CHR ''/'' # path) \<noteq> []" "prefix ''http://'' (url_text ''http'' host port (CHR ''/'' # path))"
    by (simp_all add: url_text_def)
  obtain n where n: "nw_send E a request = Some n" "take n request = request"
    using assms(5) by (auto simp: sends_all_def split: option.splits)
  have "download_connected E None writable destination a request =
    (case recv_download [] (nw_reply E a request) of
       (Inl e, content) \<Rightarrow> (Inl e, Some content)
     | (Inr (Some stopped), content) \<Rightarrow> (Inr stopped, Some content)
     | (Inr None, content) \<Rightarrow> (Inr (success ''File downloaded successfully''), Some content))"
    using assms(2,6) n by (simp add: download_connected_def hooked_def)
  then have "download_from E None writable destination host (int port) (CHR ''/'' # path) =
    (case recv_download [] (nw_reply E a request) of
       (Inl e, content) \<Rightarrow> (Inl e, Some content)
     | (Inr (Some stopped), content) \<Rightarrow> (Inr stopped, Some content)
     | (Inr None, content) \<Rightarrow> (Inr (success ''File downloaded successfully''), Some content))"
    using h assms(4) by (simp add: download_from_def host_okD show_int_def)
  then show ?thesis using u h(3) assms(3) split_port_text [OF h(1,2)]
    by (simp add: download_file_def s del: append_Cons)
qed

text \<open>Downloading over HTTP: when no null character is received, the file gets exactly the body of the
  answer, however the socket cuts it; an answer with a status of 400 or more is reported with its
  status and leaves the file empty.\<close>

theorem download_content:
  assumes "reachable E host port a" "writable destination" "destination \<noteq> []"
    and "request = download_request (CHR ''/'' # path) host" "sends_all E a request" "\<not> nw_recv_error E a request"
    and "live (nw_reply E a request)" "CHR 0x00 \<notin> set (concat (nw_reply E a request))"
    and "concat (nw_reply E a request) = header_block (l # ls) @ crlf @ content"
    and "list_all header_line (l # ls)" "l = ''HTTP/1.1 '' @ show_nat code @ '' '' @ reason" "code < 2 ^ 31"
  shows "download_file E None writable (url_text ''http'' host port (CHR ''/'' # path)) destination =
    (if 400 \<le> code then (Inr (failure 9 (''HTTP error: '' @ show_nat code)), Some [])
     else (Inr (success ''File downloaded successfully''), Some content))"
  using recv_download_answer [OF assms(7,8,10,12,11,9)] download_connects [where writable = writable, OF assms(1-6)] by simp

lemma recv_download_c_str:
  assumes "length p \<le> 4095" "c_str p \<noteq> []"
  shows "recv_download [] [p] = recv_download [] [c_str p]"
proof -
  have "length (c_str p) \<le> 4095" using assms(1) length_takeWhile_le [of "\<lambda>c. c \<noteq> CHR 0x00" p] by (simp add: c_str_def)
  moreover have "c_str (c_str p) = c_str p" by (simp add: c_str_def)
  moreover have "p \<noteq> []" using assms(2) by (auto simp: c_str_def)
  ultimately show ?thesis using assms by (simp add: recv_download.simps [of "[]" "[_]"] split: option.split sum.split)
qed

text \<open>A null character in the piece that holds the end of the header ends that piece: what follows it is
  missing in the file, and the download is reported as a success.\<close>

theorem download_loses_bytes:
  assumes "reachable E host port a" "writable destination" "destination \<noteq> []"
    and "request = download_request (CHR ''/'' # path) host" "sends_all E a request" "\<not> nw_recv_error E a request"
    and "nw_reply E a request = [header_block [l] @ crlf @ x @ CHR 0x00 # y]"
    and "length (header_block [l] @ crlf @ x @ CHR 0x00 # y) \<le> 4095" "header_line l" "CHR 0x00 \<notin> set (l @ x)"
    and "l = ''HTTP/1.1 '' @ show_nat code @ '' '' @ reason" "code < 400"
  shows "download_file E None writable (url_text ''http'' host port (CHR ''/'' # path)) destination =
    (Inr (success ''File downloaded successfully''), Some x)"
proof -
  let ?cs = "[header_block [l] @ crlf @ x]"
  have nul: "CHR 0x00 \<notin> set (header_block [l] @ crlf @ x)" using assms(10) by (simp add: crlf_def)
  then have c: "c_str (header_block [l] @ crlf @ x @ CHR 0x00 # y) = header_block [l] @ crlf @ x"
    unfolding c_str_def append_assoc [symmetric] by (intro takeWhile_tail [THEN trans]) (auto intro: ccontr)
  have "header_block [l] @ crlf @ x \<noteq> []" by (simp add: crlf_def)
  then have "recv_download [] (nw_reply E a request) = recv_download [] ?cs"
    unfolding assms(7) by (subst recv_download_c_str [OF assms(8)]) (simp_all only: c not_False_eq_True)
  also have "\<dots> = (Inr None, x)"
    using recv_download_answer [of ?cs l "[]" code reason x] nul assms(9,11,12) by (simp add: crlf_def)
  finally show ?thesis using download_connects [where writable = writable, OF assms(1-6)] by simp
qed

section \<open>Witnesses\<close>

definition small_network :: "(string \<Rightarrow> string list) \<Rightarrow> unit network" where
  "small_network reply =
     \<lparr>nw_test_mode = None, nw_lookup = (\<lambda>_ _. Inr ()), nw_family = (\<lambda>_. Inet), nw_ntop = (\<lambda>_. ''10.0.0.1''),
      nw_pton = (\<lambda>_ _. Some ()), nw_socket = (\<lambda>_. True), nw_connect = (\<lambda>_. None), nw_send = (\<lambda>_ r. Some (length r)),
      nw_reply = (\<lambda>_. reply), nw_recv_error = (\<lambda>_ _. False), nw_tls_context = True, nw_tls_connect = (\<lambda>_ _. True),
      nw_tls_write = (\<lambda>_ _. True), nw_tls_reply = (\<lambda>_. reply)\<rparr>"

lemma small_network_simps [simp]:
  "nw_reply (small_network f) a = f" "\<not> nw_recv_error (small_network f) a r" "sends_all (small_network f) a r"
  "reachable (small_network f) ''h'' 80 a"
  by (simp_all add: small_network_def reachable_def sends_all_def is_test_mode_def host_ok_def c_isspace_def)

lemma target_a: "target_ok ''/a'' []" "target_text ''/a'' [] = ''/a''"
  by (simp_all add: target_ok_def token_def c_isspace_def target_text_def)

definition echo :: "http_request \<Rightarrow> nat \<Rightarrow> (http_response res \<times> nat) option" where
  "echo q n = Some (Inr (new_response 200 ''OK''\<lparr>hp_body := hq_body q\<rparr>), n + 1)"

theorem client_to_server_witness:
  "\<exists>answer. http_post (small_network (\<lambda>_. [send_response (new_response 200 ''OK''\<lparr>hp_body := ''hi''\<rparr>)]))
      (url_text ''http'' ''h'' 80 (target_text ''/a'' [])) ''hi'' = Inr answer \<and>
    read_reply answer = Some (status_line (new_response 200 ''OK''\<lparr>hp_body := ''hi''\<rparr>),
      hp_headers (new_response 200 ''OK''\<lparr>hp_body := ''hi''\<rparr>) @ [length_field (hp_body (new_response 200 ''OK''\<lparr>hp_body := ''hi''\<rparr>))],
      hp_body (new_response 200 ''OK''\<lparr>hp_body := ''hi''\<rparr>)) \<and>
    parse_http_response_code answer = hp_status (new_response 200 ''OK''\<lparr>hp_body := ''hi''\<rparr>)"
proof -
  let ?r = "new_response 200 ''OK''\<lparr>hp_body := ''hi''\<rparr>"
  let ?req = "post_request (target_text ''/a'' []) ''h'' ''hi''"
  have ne: "send_response ?r \<noteq> []" "?req \<noteq> []" by (simp_all add: send_response_nonempty post_request_def http_line_def)
  have h: "host_ok ''h''" by (simp add: host_ok_def c_isspace_def)
  have "handle_client (\<lambda>_. True) [(''POST /a'', echo)] [?req] 7 = Some (send_response ?r, 8)"
    using parse_request_text [of "[?req]" "''POST''" "''/a''" "[]" "post_fields ''h'' ''hi''" "''hi''" "[]" "\<lambda>_. True"]
      post_request_ok [OF h target_a(1), of "''hi''"] ne
    by (simp add: handle_client_def echo_def post_request_text)
  moreover have "reply_ok ?r" by (simp add: reply_ok_def new_response_def one_line_def)
  moreover have "map_of [(''POST /a'', echo)] (''POST '' @ ''/a'') = Some echo" by simp
  moreover have "- (2 ^ 31) \<le> hp_status ?r" "hp_status ?r < 2 ^ 31" by (simp_all add: new_response_def)
  ultimately show ?thesis using ne target_a(1)
    by (intro client_to_server [of "small_network (\<lambda>_. [send_response ?r])" "''h''" 80 "()" "''http''" "''/a''" "[]" "''hi''" "\<lambda>_. True"
        "[?req]" "[(''POST /a'', echo)]" echo 7 ?r 8]) (simp_all add: echo_def)
qed

theorem announce_over_network_witness:
  "get_peers (tracker_fetch (small_network (\<lambda>_. [header_block [''HTTP/1.1 200 OK''] @ crlf @
       encode (BDict [(''peers'', BStr (concat (map info_bytes [\<lparr>pi_ip = [10, 0, 0, 1], pi_port = 6881\<rparr>])))])])))
     \<lparr>announce = [], announce_list = [], info_hash = replicate 20 200, tname = ''x'', piece_length = 1,
       piece_hashes = [], total_length = 0, files = []\<rparr> (replicate 20 7) 6881 0 0 0 ''started'' (Some (url_text ''http'' ''h'' 80 ''/a'')) =
     Some (Inr [\<lparr>pi_ip = [10, 0, 0, 1], pi_port = 6881\<rparr>])"
  by (rule announce_over_network [where a = "()" and path = "''a''" and ls = "[''HTTP/1.1 200 OK'']"
        and d = "[(''peers'', BStr (concat (map info_bytes [\<lparr>pi_ip = [10, 0, 0, 1], pi_port = 6881\<rparr>])))]", OF _ refl])
    (simp_all add: header_line_def encode_string_def info_bytes_def show_nat.simps)

theorem download_content_witness:
  "download_file (small_network (\<lambda>_. [''HTTP/1.1 2'', ''00 OK'' @ crlf @ [CHR 0x0D], CHR 0x0A # ''hello''])) None (\<lambda>_. True)
     (url_text ''http'' ''h'' 80 ''/a'') ''f'' = (Inr (success ''File downloaded successfully''), Some ''hello'')"
proof -
  have n: "show_nat 200 = ''200''" by code_simp
  let ?E = "small_network (\<lambda>_. [''HTTP/1.1 2'', ''00 OK'' @ crlf @ [CHR 0x0D], CHR 0x0A # ''hello''])"
  have "download_file ?E None (\<lambda>_. True) (url_text ''http'' ''h'' 80 (CHR ''/'' # ''a'')) ''f'' =
      (if 400 \<le> (200 :: nat) then (Inr (failure 9 (''HTTP error: '' @ show_nat 200)), Some [])
       else (Inr (success ''File downloaded successfully''), Some ''hello''))"
    by (rule download_content [of _ _ _ "()" _ _ _ _ "''HTTP/1.1 200 OK''" "[]" _ _ "''OK''", OF _ _ _ refl])
      (simp_all add: n crlf_def header_line_def)
  then show ?thesis by simp
qed

end
