(* ===== verification/Net_Measure.thy ===== *)
theory Net_Measure
  imports Network
begin

text \<open>
  The two measurements of \<open>include/network.hpp\<close> and the functions with fixed answers.  The arithmetic on
  doubles is left symbolic: a measurement is the data it is computed from.
\<close>

section \<open>Latency\<close>

text \<open>\<open>Not_Measured\<close> is -1; \<open>Test_Latency n\<close> is 50 + n * 0.1; \<open>Mean_Latency\<close> is the mean of the
  durations, given in microseconds and divided by 1000; \<open>Rate\<close> is computed from a number of bytes and of
  milliseconds.\<close>

datatype measurement =
    Not_Measured
  | Test_Latency nat
  | Mean_Latency "int list"
  | Rate nat int

text \<open>The network as each attempt finds it, with the time the attempt takes.\<close>

definition measure_latency :: "bool \<Rightarrow> (nat \<Rightarrow> 'a network \<times> int) \<Rightarrow> string \<Rightarrow> int \<Rightarrow> measurement" where
  "measure_latency test attempts host count =
     (if host = [] \<or> count \<le> 0 then Not_Measured
      else if test then Test_Latency (length host)
      else let times = map (\<lambda>i. snd (attempts i))
                 (filter (\<lambda>i. create_socket_connection (fst (attempts i)) host 80 \<noteq> None) [0..<nat count])
        in if times = [] then Not_Measured else Mean_Latency times)"

text \<open>Whether the descriptor is closed; there is no Winsock to start.\<close>

definition close_socket_connection :: "int \<Rightarrow> bool" where
  "close_socket_connection socket_fd \<longleftrightarrow> \<not> socket_fd < 0"

section \<open>Bandwidth\<close>

definition test_endpoints :: "string list" where
  "test_endpoints =
     [''http://speedtest.wdc01.softlayer.com/downloads/test10.zip'', ''http://proof.ovh.net/files/1Mb.dat'',
      ''http://httpbin.org/bytes/1048576'']"

definition temp_file :: "nat \<Rightarrow> string" where
  "temp_file time = ''build/tmp/bandwidth_test_'' @ show_nat time"

text \<open>The downloads are tried in turn into the same file: whether one succeeded, and the size of the file
  if there is one.  \<open>nets\<close> is the network as the download from a URL finds it.\<close>

fun try_downloads ::
    "(string \<Rightarrow> 'a network) \<Rightarrow> (string \<Rightarrow> int) option \<Rightarrow> (string \<Rightarrow> bool) \<Rightarrow> string \<Rightarrow> string list \<Rightarrow> nat option \<Rightarrow>
     (bool \<times> nat option) res" where
  "try_downloads nets hook writable temp [] left = Inr (False, left)"
| "try_downloads nets hook writable temp (url # urls) left =
     (case download_file (nets url) hook writable url temp of
        (Inl e, content) \<Rightarrow> Inl e
      | (Inr r, content) \<Rightarrow>
          (let left' = (case content of Some c \<Rightarrow> Some (length c) | None \<Rightarrow> left)
           in if nr_success r then Inr (True, left') else try_downloads nets hook writable temp urls left'))"

text \<open>\<open>ms\<close> is the time from the start to the end of the downloads, \<open>readable\<close> whether the file can be opened
  to take its size.  The file does not exist before and is removed at the end.\<close>

definition measure_bandwidth ::
    "bool \<Rightarrow> (string \<Rightarrow> 'a network) \<Rightarrow> (string \<Rightarrow> int) option \<Rightarrow> (string \<Rightarrow> bool) \<Rightarrow> (string \<Rightarrow> bool) \<Rightarrow> nat \<Rightarrow> int \<Rightarrow> string \<Rightarrow>
     measurement res" where
  "measure_bandwidth test nets hook writable readable time ms host =
     (if host = [] then Inr Not_Measured
      else let temp = temp_file time
        in ebind (try_downloads nets hook writable temp (if test then [host] else test_endpoints) None) (\<lambda>(loaded, left).
          let (ok, final) = (if loaded then (True, left) else if writable temp then (True, Some (1024 * 1024)) else (False, left))
          in if \<not> ok then Inr Not_Measured
             else case final of
                 None \<Rightarrow> Inr Not_Measured
               | Some n \<Rightarrow> Inr (if readable temp then Rate n ms else Not_Measured)))"

section \<open>Fixed answers\<close>

definition network_url_encode :: "string \<Rightarrow> string" where
  "network_url_encode value = value"

definition network_url_decode :: "string \<Rightarrow> string" where
  "network_url_decode value = value"

definition get_network_interfaces :: "string list" where
  "get_network_interfaces = [''eth0'', ''wlan0'', ''lo'']"

section \<open>Properties\<close>

text \<open>A latency is the mean over exactly the attempts that connected.\<close>

theorem latency_of_connected:
  assumes "host \<noteq> []" "0 < count"
  shows "measure_latency False attempts host count =
    (let up = filter (\<lambda>i. create_socket_connection (fst (attempts i)) host 80 \<noteq> None) [0..<nat count]
     in if up = [] then Not_Measured else Mean_Latency (map (\<lambda>i. snd (attempts i)) up)) \<and>
    (\<forall>times. measure_latency False attempts host count = Mean_Latency times \<longrightarrow> 0 < length times \<and> length times \<le> nat count)"
proof -
  have "length (filter P [0..<nat count]) \<le> nat count" for P
    using length_filter_le [of P "[0..<nat count]"] by simp
  then show ?thesis using assms by (auto simp: measure_latency_def Let_def)
qed

lemma failed_downloads:
  assumes "\<forall>url \<in> set urls. \<exists>r c. download_file (nets url) hook writable url temp = (Inr r, c) \<and> \<not> nr_success r"
  shows "\<exists>left'. try_downloads nets hook writable temp urls left = Inr (False, left')"
  using assms by (induction urls arbitrary: left) (fastforce simp: Let_def split: option.split)+

text \<open>Without network the bandwidth is not reported as unknown: a local file of one megabyte is written and
  taken for a download.\<close>

theorem bandwidth_offline:
  assumes "host \<noteq> []" "writable (temp_file time)" "readable (temp_file time)"
    and "\<forall>url \<in> set test_endpoints. \<exists>r c. download_file (nets url) hook writable url (temp_file time) = (Inr r, c) \<and> \<not> nr_success r"
  shows "measure_bandwidth False nets hook writable readable time ms host = Inr (Rate 1048576 ms)"
proof -
  obtain left' where "try_downloads nets hook writable (temp_file time) test_endpoints None = Inr (False, left')"
    using failed_downloads [OF assms(4), of None] by blast
  then show ?thesis using assms(1-3) by (simp add: measure_bandwidth_def Let_def)
qed

end
