(* ===== verification/Spec2Isabelle.thy ===== *)
theory Spec2Isabelle
  imports Program Mse_Crypto Metadata_Exchange Net_Measure
begin

text \<open>
  PixelScrape, a BitTorrent client in C++ with a web interface: a model of its C++ code and the
  properties that make it correct.  Paths are relative to \<open>src/\<close> of the repository.

  \<^bold>\<open>The program.\<close>  \<open>main\<close> (\<open>src/main.cpp\<close>) creates the torrent manager, an HTTP server on port 8080
  and a WebSocket server on port 8081, and sends the status to the WebSocket clients once a second
  when it has changed.  The manager (\<open>src/manager\<close>) holds the torrents.  Each torrent has its
  metadata (from bencoded data, \<open>src/torrent\<close> and \<open>src/bencode\<close>), a piece manager with a disk thread
  (\<open>src/storage/piece_manager.cpp\<close>, which verifies pieces with \<open>src/crypto/sha1.cpp\<close>), a thread that
  exchanges blocks with its peers (\<open>src/peer\<close>) and a thread that asks its trackers (\<open>src/tracker\<close>, over
  the HTTP client of \<open>include/network.hpp\<close>).  Peers come from trackers, from the DHT client (\<open>src/dht\<close>)
  and from incoming connections; one thread sets up outgoing connections, one accepts incoming
  ones.  The state of the torrents is saved as JSON files (\<open>src/storage/state_manager.cpp\<close>,
  \<open>include/json.hpp\<close>), the routing table of the DHT as a binary file.

  \<^bold>\<open>Theories, in the order of their imports.\<close>
  \<^item> \<open>Prelude\<close>: strings, bytes, words, errors, the shared lemmas and the collections \<open>byte_simps\<close> and
    \<open>u64_simps\<close>.  \<open>Interfaces\<close>: the contracts between components as locales: \<open>codec\<close>, \<open>stream_codec\<close>,
    \<open>fixed_codec\<close> (encoders with their decoders), \<open>digest\<close> (hashing in parts) and \<open>kv_store\<close>
    (\<open>std::unordered_map\<close>); each is interpreted on the model's own functions in the theory that
    provides them.  \<open>Text\<close>, \<open>Base64\<close>, \<open>Socket\<close>: searching strings, base64, \<open>recv\<close> on a stream.
  \<^item> \<open>Bencode\<close>: \<open>src/bencode/parser.cpp\<close>.  \<open>Sha1\<close>: \<open>src/crypto/sha1.cpp\<close>.  \<open>Torrent_Metadata\<close>:
    \<open>src/torrent/metadata.cpp\<close>.  \<open>Json\<close>: \<open>include/json.hpp\<close>.
  \<^item> \<open>Piece_Manager\<close> and \<open>Piece_Storage\<close>: \<open>src/storage/piece_manager.cpp\<close>; the first has the bookkeeping
    and the choice of pieces, the second the files, the disk thread and the steps of both.
    \<open>State_Manager\<close>: \<open>src/storage/state_manager.cpp\<close>.
  \<^item> \<open>Peer_Wire\<close>: \<open>src/peer/connection.cpp\<close>.  \<open>Extension_Protocol\<close>, \<open>Metadata_Exchange\<close>:
    \<open>src/peer/extension_protocol.cpp\<close> and \<open>metadata_exchange.cpp\<close>.  \<open>Mse_Crypto\<close>:
    \<open>src/crypto/mse_crypto.cpp\<close>.
  \<^item> \<open>Dht_Node\<close>, \<open>Dht_Protocol\<close>, \<open>Dht_Client\<close>, \<open>Dht_Service\<close>: \<open>src/dht/node.cpp\<close>, \<open>protocol.cpp\<close> and
    \<open>client.cpp\<close>, of which the last theory has \<open>start\<close>, \<open>stop\<close>, the resolver and the receiving thread.
  \<^item> \<open>Tracker_Client\<close>: \<open>src/tracker/client.cpp\<close>.  \<open>Network\<close>, \<open>Net_Measure\<close>:
    \<open>include/network.hpp\<close>.
  \<^item> \<open>Torrent_Manager\<close>: \<open>src/manager/operations.cpp\<close>, \<open>lifecycle.cpp\<close>, \<open>status.cpp\<close>.  \<open>Manager_Workers\<close>:
    \<open>peer_worker.cpp\<close>, \<open>connection_worker.cpp\<close>, \<open>tracker_worker.cpp\<close>; \<open>Tcp_Listener\<close>: \<open>tcp_listener.cpp\<close>.
    \<open>Session_Restart\<close>: sessions that follow one another on the same state directory.
  \<^item> \<open>Http_Server\<close>, \<open>Web_Socket\<close>, \<open>Transmission_Rpc\<close>: \<open>src/api\<close>.  \<open>Web_Api\<close>: the routes and the main loop
    of \<open>src/main.cpp\<close>.  \<open>Program\<close>: \<open>main\<close> as a whole.
  \<^item> \<open>Log_Files\<close>, \<open>Log_Async\<close>, \<open>Logging\<close>: \<open>include/logging.hpp\<close>.  \<open>File_System\<close>: \<open>include/filesystem.hpp\<close>.

  \<^bold>\<open>How code is rendered.\<close>  A class is a record of its members, a method a function from the object
  (and what it finds outside) to its result and the new object, under the method's name where
  that is possible.  A \<open>std::string\<close> is a list of characters, a byte vector a list of \<open>8 word\<close>;
  ports, counters of fixed width and everything hashed are words, \<open>size_t\<close> is a number with the
  64-bit operations written out where they can wrap (\<open>u64_add\<close> and the like).  \<open>std::map\<close> and
  \<open>std::unordered_map\<close> are association lists with \<open>AList.update\<close> and \<open>AList.delete\<close>; only the order
  in which an \<open>unordered_map\<close> is walked is thereby fixed.  An exception or an error return is
  \<open>Inl\<close>.  The outer \<open>None\<close> of a function is a call that does not come back: undefined behaviour
  such as an index out of range, a mutex locked twice by its thread, an exception that leaves a
  thread, or the bencode parser running away; each theory says which.  Objects that are shared
  through pointers are either values in their only owner or an index into a list.

  What is outside the program is an argument: results of socket calls, what arrives on a socket
  and in which pieces, files that can be opened, name resolution, random bytes, the clock (read
  once per operation), uninitialised memory (\<open>junk\<close>), OpenSSL.  Loops of threads are lists of what
  each round finds, so that a statement over all lists is one over all runs; methods that hold a
  mutex are one step, and \<open>pm_step\<close>, \<open>client_step\<close>, \<open>service_step\<close>, \<open>manager_step\<close>, \<open>async_step\<close>
  interleave them.

  \<^bold>\<open>Termination and fuel.\<close>  The bencode parser can run away on lengths that wrap; it runs with fuel,
  and \<open>3 * length + 4\<close> is enough for every input on which it ends (lemma \<open>parse_data_complete\<close>), so
  that \<open>None\<close> really means that the code does not return.  The JSON parser's fuel
  \<open>2 * length + 2\<close> is enough for every text (lemma \<open>parse_value_returns\<close>).  All other
  recursions end by structure or by a measure.

  \<^bold>\<open>What is shown.\<close>
  \<^item> Data: what the encoders write the decoders read back (bencode, JSON, the peer wire, KRPC, the
    compact lists, extension messages, HTTP requests however they are cut, WebSocket frames, saved
    states, the routing table); parsers return for every input or it is known when not; hashing in
    parts is hashing the whole, and RC4 is the cipher of its reference definition.
  \<^item> Storage: a piece counts as held only if its bytes on disk are verified; a piece that was
    written is read back across file borders; the piece chosen is one of those the code's order
    prefers.
  \<^item> Peers and metadata: messages are handled in order whatever the pieces they arrive in; a
    request for a held block is answered with its bytes; metadata is accepted only if its hash is
    right.
  \<^item> DHT: the invariant of the routing table and of the client over all runs; the nodes returned
    are the closest good ones; a peer announced is served; tokens and rates keep their bounds.
  \<^item> The session: the manager's invariant over all interleavings of requests and threads; requests
    over HTTP are sequences of its operations; adding over the web interface adds exactly that
    torrent; the status sent is the current one; descriptors of the listener are accounted for;
    the program comes back after a stop with the torrents and the DHT nodes it had.
  \<^item> Services: a tracker is asked over HTTP and its answer reaches the torrent; log files keep the newest
    lines, an asynchronous sink accounts for every line.

  Lemmas without a claim show where the code falls short of what it means to do: a lookup in an
  empty table and a first start without network never return (\<open>lookup_starts_iff_good_node\<close>,
  \<open>offline_start_hangs\<close>, \<open>offline_program_hangs\<close>), responses are taken for queries
  (\<open>responses_taken_for_queries\<close>), the deletion route is unreachable (\<open>delete_unreachable\<close>), a log
  sink's shutdown can hang (\<open>shutdown_can_hang\<close>), a copy can empty its destination
  (\<open>copy_file_destroys\<close>) and others.

  \<^bold>\<open>Not modelled.\<close>  Threads are interleaved at the granularity of the methods that hold a mutex; data
  races, sleeping, time limits of sockets, the depth of the stack and running out of memory (but for the
  allocations a peer controls) are left out.  Floating point appears where a double holds a whole
  number; percentages, printed fractions and \<open>to_double\<close> are arguments or left out, and the measurements of
  latency and bandwidth stay symbolic.  \<open>std::sort\<close> keeps the order of equal elements.  Dates are
  read as \<open>std::get_time\<close> of libstdc++ does.  Left out are the Windows branches, the test helpers
  and macros of the headers, console output and the log lines of the other components, the
  signal handler, the
  benchmarks (they measure, and repeat code of the program) and the web page
  \<open>frontend/index.html\<close>.
\<close>

end
